(* ===== verification/Prelude.thy ===== *)
theory Prelude
  imports Main "HOL-Library.Word"
begin

text \<open>
  The prelude of the development: the machine integers of the i386 build as words, the
  little-endian accessors that the code's pointer casts \<open>*(uint32_t*)(buf + i)\<close> amount to,
  bit lemmas for the bitmaps, and the collections of rewrite rules that the component
  theories add to. Buffers (\<open>uint8 buf[n]\<close>) are byte lists of length \<open>n\<close>; every access
  of the modelled code is inside its buffer, which the component theories prove where it is
  not immediate from a constant index.
\<close>

unbundle bit_operations_syntax

type_synonym u8 = "8 word"
type_synonym u16 = "16 word"
type_synonym u32 = "32 word"
type_synonym u64 = "64 word"
type_synonym bytes = "8 word list"

named_theorems frame_simps \<open>which state fields an operation leaves alone\<close>
named_theorems len_simps \<open>lengths of buffers and tables after an update\<close>

section \<open>Exclusive or\<close>

lemma xor_cancel_right: "a XOR c = b XOR c \<longleftrightarrow> a = (b :: 'a::len word)"
  by (auto simp: bit_eq_iff bit_xor_iff)

lemma xor_cancel_left: "c XOR a = c XOR b \<longleftrightarrow> a = (b :: 'a::len word)"
  by (auto simp: bit_eq_iff bit_xor_iff)

section \<open>Unsigned readings of word arithmetic without overflow\<close>

lemma unat_of_nat32: "n < 2 ^ 32 \<Longrightarrow> unat (of_nat n :: u32) = n"
  by (simp add: unat_of_nat take_bit_nat_eq_self)

lemma unat_add32: "unat a + unat b < 2 ^ 32 \<Longrightarrow> unat (a + b :: u32) = unat a + unat b"
  by (simp add: unat_word_ariths)

lemma unat_sub32: "unat b \<le> unat a \<Longrightarrow> unat (a - b :: u32) = unat a - unat b"
  by (simp add: unat_sub word_le_nat_alt)

lemma unat_mul32: "unat a * unat b < 2 ^ 32 \<Longrightarrow> unat (a * b :: u32) = unat a * unat b"
  by (simp add: unat_word_ariths)

lemma unat_less32 [simp]: "unat (w :: u32) < 4294967296"
  using unsigned_less [of w] by simp

lemma unat_and_not_mask: "unat (a AND NOT (mask k) :: u32) = unat a div 2 ^ k * 2 ^ k"
proof -
  have "a AND NOT (mask k) = push_bit k (drop_bit k a)"
    by (rule bit_word_eqI) (auto simp: bit_simps)
  moreover have "unat (drop_bit k a) = unat a div 2 ^ k"
    by (simp only: unsigned_drop_bit_eq) (simp add: drop_bit_eq_div take_bit_nat_eq_self div_less_iff_less_mult)
  moreover have "unat a div 2 ^ k * 2 ^ k < 2 ^ 32"
    using le_less_trans [OF div_times_less_eq_dividend unat_less32, of a "2 ^ k"] by simp
  ultimately show ?thesis
    by (simp only: unsigned_push_bit_eq) (simp add: push_bit_eq_mult take_bit_nat_eq_self)
qed

lemma unat_ff: "unat (0xFFFFFFFF :: u32) = 2 ^ 32 - 1"
  by simp

section \<open>Lists updated by index\<close>

text \<open>An update that keeps a field of the element keeps that field of every element.\<close>

lemma field_list_update: "f v = f (xs ! i) \<Longrightarrow> f (xs[i := v] ! k) = f (xs ! k)"
  by (cases "i < length xs") (auto simp: nth_list_update list_update_beyond not_less)

lemma map_update_same: "(map g xs)[i := g (xs ! i)] = map g xs"
  by (cases "i < length xs") (simp_all add: list_update_same_conv list_update_beyond)

lemma nth_update: "i < length xs \<Longrightarrow> xs[k := v] ! i = (if k = i then v else xs ! i)"
  by (cases "k = i") simp_all

section \<open>Linear searches\<close>

text \<open>\<open>for (i = 0; i < n; i++) if (P(i)) return i;\<close> as the least such index.\<close>

definition first_idx :: "(nat \<Rightarrow> bool) \<Rightarrow> nat \<Rightarrow> nat option" where
  "first_idx P n = List.find P [0..<n]"

lemma first_idx_Some: "first_idx P n = Some i \<longleftrightarrow> i < n \<and> P i \<and> (\<forall>j<i. \<not> P j)"
proof
  assume "first_idx P n = Some i"
  then obtain k where "k < n" "P ([0..<n] ! k)" "i = [0..<n] ! k" "\<forall>j<k. \<not> P ([0..<n] ! j)"
    by (auto simp: first_idx_def find_Some_iff simp del: upt_rec_numeral)
  then show "i < n \<and> P i \<and> (\<forall>j<i. \<not> P j)" by (auto simp del: upt_rec_numeral)
next
  assume h: "i < n \<and> P i \<and> (\<forall>j<i. \<not> P j)"
  then show "first_idx P n = Some i"
    unfolding first_idx_def find_Some_iff
    by (intro exI [of _ i]) (simp del: upt_rec_numeral)
qed

lemma first_idx_None: "first_idx P n = None \<longleftrightarrow> (\<forall>i<n. \<not> P i)"
  by (auto simp: first_idx_def find_None_iff simp del: upt_rec_numeral)

lemma first_idx_eqI: "i < n \<Longrightarrow> P i \<Longrightarrow> (\<And>j. j < i \<Longrightarrow> \<not> P j) \<Longrightarrow> first_idx P n = Some i"
  by (simp add: first_idx_Some)

lemma first_idx_add:
  "first_idx P (n + m) = (case first_idx P n of Some i \<Rightarrow> Some i | None \<Rightarrow> map_option ((+) n) (first_idx (\<lambda>i. P (n + i)) m))"
proof (cases "first_idx P n")
  case (Some i)
  then have "first_idx P (n + m) = Some i" unfolding first_idx_Some by auto
  then show ?thesis using Some by simp
next
  case no: None
  show ?thesis
  proof (cases "first_idx (\<lambda>i. P (n + i)) m")
    case None
    then have "\<not> P j" if "j < n + m" for j
      using no that first_idx_None [of P n] first_idx_None [of "\<lambda>i. P (n + i)" m] by (cases "j < n") (auto dest!: spec [of _ "j - n"])
    then have "first_idx P (n + m) = None" by (simp add: first_idx_None)
    then show ?thesis using no None by simp
  next
    case (Some i)
    then have i: "i < m" "P (n + i)" "\<forall>j < i. \<not> P (n + j)" by (simp_all add: first_idx_Some)
    have "\<not> P j" if "j < n + i" for j
      using no that i(3) first_idx_None [of P n] by (cases "j < n") (auto dest!: spec [of _ "j - n"])
    then have "first_idx P (n + m) = Some (n + i)" using i by (simp add: first_idx_Some)
    then show ?thesis using no Some by simp
  qed
qed

lemma first_idx_cong [fundef_cong]:
  "m = n \<Longrightarrow> (\<And>i. i < n \<Longrightarrow> P i = Q i) \<Longrightarrow> first_idx P m = first_idx Q n"
  unfolding first_idx_def by (rule find_cong) (auto simp del: upt_rec_numeral)

section \<open>Operations that may fail\<close>

text \<open>A C function that returns a negative code on failure and may have changed the state either
  way: \<open>None\<close> is the failure. \<open>on_ok r f\<close> goes on with \<open>f\<close> after a success and returns at
  once otherwise (\<open>if (op(...) != 0) return -1;\<close>).\<close>

definition on_ok :: "'a option \<times> 's \<Rightarrow> ('a \<Rightarrow> 's \<Rightarrow> 'b option \<times> 's) \<Rightarrow> 'b option \<times> 's" where
  "on_ok r f = (case r of (None, s) \<Rightarrow> (None, s) | (Some x, s) \<Rightarrow> f x s)"

lemma on_ok_simps [simp]: "on_ok (None, s) f = (None, s)" "on_ok (Some x, s) f = f x s"
  by (simp_all add: on_ok_def)

lemma on_ok_cong [fundef_cong]:
  "r = r' \<Longrightarrow> (\<And>x s. r' = (Some x, s) \<Longrightarrow> f x s = g x s) \<Longrightarrow> on_ok r f = on_ok r' g"
  by (auto simp: on_ok_def split: prod.splits option.splits)

lemma on_ok_SomeE:
  assumes "on_ok r f = (Some y, s')"
  obtains x s where "r = (Some x, s)" "f x s = (Some y, s')"
  using assms by (auto simp: on_ok_def split: prod.splits option.splits)

section \<open>Little-endian accessors\<close>

definition get32 :: "bytes \<Rightarrow> nat \<Rightarrow> u32" where
  "get32 b i = ucast (b ! i) OR push_bit 8 (ucast (b ! (i + 1)))
     OR push_bit 16 (ucast (b ! (i + 2))) OR push_bit 24 (ucast (b ! (i + 3)))"

definition bytes_of32 :: "u32 \<Rightarrow> bytes" where
  "bytes_of32 w = [ucast w, ucast (drop_bit 8 w), ucast (drop_bit 16 w), ucast (drop_bit 24 w)]"

definition put32 :: "bytes \<Rightarrow> nat \<Rightarrow> u32 \<Rightarrow> bytes" where
  "put32 b i w = b[i := ucast w, i + 1 := ucast (drop_bit 8 w),
     i + 2 := ucast (drop_bit 16 w), i + 3 := ucast (drop_bit 24 w)]"

definition get16 :: "bytes \<Rightarrow> nat \<Rightarrow> u16" where
  "get16 b i = ucast (b ! i) OR push_bit 8 (ucast (b ! (i + 1)))"

text \<open>Copying \<open>src\<close> over a buffer from index \<open>i\<close> (\<open>memcpy(b + i, src, length src)\<close>).\<close>

definition blit :: "'a list \<Rightarrow> nat \<Rightarrow> 'a list \<Rightarrow> 'a list" where
  "blit b i src = take i b @ src @ drop (i + length src) b"

lemma bit_byte_of [simp]: "bit (ucast (ucast (w :: u32) :: u8) :: u32) n \<longleftrightarrow> n < 8 \<and> bit w n"
  by (auto simp: bit_simps)

lemma join32:
  "(ucast (ucast w :: u8) :: u32) OR push_bit 8 (ucast (ucast (drop_bit 8 w) :: u8))
     OR push_bit 16 (ucast (ucast (drop_bit 16 w) :: u8))
     OR push_bit 24 (ucast (ucast (drop_bit 24 w) :: u8)) = (w :: u32)" (is "?l = w")
proof (rule bit_word_eqI)
  fix n assume n: "n < LENGTH(32)"
  have "bit ?l n \<longleftrightarrow> (n < 8 \<and> bit w n) \<or> (8 \<le> n \<and> n - 8 < 8 \<and> bit w (8 + (n - 8)))
      \<or> (16 \<le> n \<and> n - 16 < 8 \<and> bit w (16 + (n - 16))) \<or> (24 \<le> n \<and> n - 24 < 8 \<and> bit w (24 + (n - 24)))"
    using n by (simp only: bit_or_iff bit_push_bit_iff bit_byte_of bit_drop_bit_eq o_def) simp
  then show "bit ?l n = bit w n" using n by fastforce
qed

lemma length_put32 [simp, len_simps]: "length (put32 b i w) = length b"
  by (simp add: put32_def)

lemma length_bytes_of32 [simp]: "length (bytes_of32 w) = 4"
  by (simp add: bytes_of32_def)

lemma get32_put32 [simp]: "i + 3 < length b \<Longrightarrow> get32 (put32 b i w) i = w"
  by (simp add: get32_def put32_def join32 nth_list_update)

lemma put32_nth_other: "j < i \<or> i + 3 < j \<Longrightarrow> put32 b i w ! j = b ! j"
  by (auto simp: put32_def nth_list_update)

lemma get32_put32_other: "j + 3 < i \<or> i + 3 < j \<Longrightarrow> get32 (put32 b i w) j = get32 b j"
  by (auto simp: get32_def put32_nth_other)

lemma get32_bytes_of32 [simp]: "get32 (bytes_of32 w) 0 = w"
  by (simp add: get32_def bytes_of32_def join32)

lemma get32_append: "length xs = i \<Longrightarrow> get32 (xs @ bytes_of32 w @ ys) i = w"
  by (simp add: get32_def bytes_of32_def join32 nth_append)

lemma get32_append_left: "i + 3 < length xs \<Longrightarrow> get32 (xs @ ys) i = get32 xs i"
  by (simp add: get32_def nth_append)

lemma get32_append_right: "length xs \<le> i \<Longrightarrow> get32 (xs @ ys) i = get32 ys (i - length xs)"
proof -
  assume "length xs \<le> i"
  then obtain k where "i = length xs + k" using le_Suc_ex by blast
  then show ?thesis by (simp add: get32_def nth_append add.assoc)
qed

lemma length_blit [simp, len_simps]:
  "i + length src \<le> length b \<Longrightarrow> length (blit b i src) = length b"
  by (simp add: blit_def)

lemma blit_nth_in: "i \<le> j \<Longrightarrow> j < i + length src \<Longrightarrow> i \<le> length b \<Longrightarrow> blit b i src ! j = src ! (j - i)"
  by (auto simp add: blit_def nth_append)

lemma blit_nth_out:
  "j < i \<or> i + length src \<le> j \<Longrightarrow> i + length src \<le> length b \<Longrightarrow> j < length b \<Longrightarrow>
   blit b i src ! j = b ! j"
  by (auto simp: blit_def nth_append)

lemma take_drop_blit [simp]:
  "i + length src \<le> length b \<Longrightarrow> take (length src) (drop i (blit b i src)) = src"
  by (simp add: blit_def)

end
