(* ===== verification/Ctx.thy ===== *)
theory Ctx
  imports Prelude
begin

text \<open>
  The command context of \<open>src/misc/context.c\<close> and the budget accounting of
  \<open>src/cpu/sched.c\<close> that every driver calls through its own copy of the
  \<open>..._ctx_allow\<close> guard. The record \<open>kctx\<close> is the part of the kernel's state that these
  guards read and write; the state of each component holds it in a field.

  A work item pointer (\<open>sched_work_t*\<close>) is an index into \<open>g_work\<close>, \<open>None\<close> the null
  pointer. \<open>current_command_context\<close> always points into \<open>g_ctx_stack\<close> or is null, so it is
  an index as well. \<open>sched_yield\<close> clears the running slice and polls the user task
  scheduler; user tasks are outside the model and the call is counted in \<open>yield_polls\<close>.
\<close>

section \<open>State\<close>

text \<open>\<open>struct sched_work\<close>; the callback and its argument are kept as opaque words, 0 for NULL.\<close>

record sched_work =
  w_id :: u32
  w_priority :: u32
  w_next :: int
  w_in_queue :: bool
  w_mlfq_level :: u8
  w_run :: u32
  w_userdata :: u32
  w_affinity_mask :: u32
  w_budget_ticks :: u32
  w_budget_left :: u32
  w_cache_hint :: u32
  w_mlfq_slice_left :: u32
  w_mlfq_last_boost_tick :: u32

record command_context =
  cc_caps :: u32
  cc_wo :: "nat option"
  cc_det_seq :: u32
  cc_drive :: u8

record kctx =
  g_work :: "sched_work list"
  g_current_slice :: u32
  g_det_enabled :: bool
  yield_polls :: nat
  g_ctx_stack :: "command_context list"
  g_ctx_top :: int
  current_command_context :: "nat option"

abbreviation (input) COMMAND_CONTEXT_STACK_MAX :: nat where "COMMAND_CONTEXT_STACK_MAX \<equiv> 32"

abbreviation (input) CAP_READ_FS :: u32 where "CAP_READ_FS \<equiv> 2"
abbreviation (input) CAP_WRITE_FS :: u32 where "CAP_WRITE_FS \<equiv> 4"
abbreviation (input) CAP_ALLOC_MEMORY :: u32 where "CAP_ALLOC_MEMORY \<equiv> 8"
abbreviation (input) CAP_DEV_DISK :: u32 where "CAP_DEV_DISK \<equiv> 32"
abbreviation (input) SCHED_COST_FS :: u32 where "SCHED_COST_FS \<equiv> 1"
abbreviation (input) SCHED_COST_ALLOC :: u32 where "SCHED_COST_ALLOC \<equiv> 1"

section \<open>The context stack\<close>

definition command_context_push :: "command_context option \<Rightarrow> kctx \<Rightarrow> bool \<times> kctx" where
  "command_context_push ctx s =
     (case ctx of None \<Rightarrow> (False, s)
      | Some c \<Rightarrow>
          if g_ctx_top s + 1 \<ge> int COMMAND_CONTEXT_STACK_MAX then (False, s)
          else let t = g_ctx_top s + 1 in
            (True, s\<lparr>g_ctx_top := t, g_ctx_stack := (g_ctx_stack s)[nat t := c],
                     current_command_context := Some (nat t)\<rparr>))"

definition command_context_pop :: "kctx \<Rightarrow> kctx" where
  "command_context_pop s =
     (let t = (if g_ctx_top s \<ge> 0 then g_ctx_top s - 1 else g_ctx_top s) in
      s\<lparr>g_ctx_top := t, current_command_context := (if t \<ge> 0 then Some (nat t) else None)\<rparr>)"

definition command_context_clear :: "kctx \<Rightarrow> kctx" where
  "command_context_clear s = s\<lparr>g_ctx_top := -1, current_command_context := None\<rparr>"

definition command_context_set :: "command_context option \<Rightarrow> kctx \<Rightarrow> kctx" where
  "command_context_set ctx s =
     (case ctx of None \<Rightarrow> command_context_clear s | Some c \<Rightarrow> snd (command_context_push (Some c) s))"

definition command_context_get :: "kctx \<Rightarrow> command_context option" where
  "command_context_get s = map_option ((!) (g_ctx_stack s)) (current_command_context s)"

section \<open>Accounting and capability guards\<close>

definition cap_check :: "u32 \<Rightarrow> u32 \<Rightarrow> bool" where
  "cap_check caps cap \<longleftrightarrow> caps AND cap = cap"

definition scheduler_account :: "nat option \<Rightarrow> u32 \<Rightarrow> kctx \<Rightarrow> kctx" where
  "scheduler_account w cost s =
     (case w of None \<Rightarrow> s
      | Some i \<Rightarrow>
          if cost = 0 then s
          else let wk = g_work s ! i in
            s\<lparr>g_work := (g_work s)[i := wk\<lparr>w_budget_left :=
                 (if w_budget_left wk > cost then w_budget_left wk - cost else 0)\<rparr>]\<rparr>)"

definition sched_yield :: "kctx \<Rightarrow> kctx" where
  "sched_yield s = s\<lparr>g_current_slice := 0, yield_polls := Suc (yield_polls s)\<rparr>"

definition scheduler_yield_if_needed :: "nat option \<Rightarrow> kctx \<Rightarrow> kctx" where
  "scheduler_yield_if_needed w s =
     (case w of None \<Rightarrow> s
      | Some i \<Rightarrow>
          if w_budget_ticks (g_work s ! i) \<noteq> 0 \<and> w_budget_left (g_work s ! i) = 0
          then sched_yield s else s)"

text \<open>The body that the drivers repeat: charge the work item, yield if its budget is used
  up, and number the call in deterministic mode. Without a context it does nothing.\<close>

definition ctx_account :: "u32 \<Rightarrow> kctx \<Rightarrow> kctx" where
  "ctx_account cost s =
     (case current_command_context s of None \<Rightarrow> s
      | Some k \<Rightarrow>
          let wo = cc_wo (g_ctx_stack s ! k);
              s = scheduler_account wo cost s;
              s = scheduler_yield_if_needed wo s
          in if g_det_enabled s
             then s\<lparr>g_ctx_stack := (g_ctx_stack s)[k := (g_ctx_stack s ! k)
                      \<lparr>cc_det_seq := cc_det_seq (g_ctx_stack s ! k) + 1\<rparr>]\<rparr>
             else s)"

definition ctx_denies :: "u32 \<Rightarrow> kctx \<Rightarrow> bool" where
  "ctx_denies caps s \<longleftrightarrow>
     (case current_command_context s of None \<Rightarrow> False
      | Some k \<Rightarrow> \<not> cap_check (cc_caps (g_ctx_stack s ! k)) caps)"

definition ctx_allow :: "u32 \<Rightarrow> u32 \<Rightarrow> kctx \<Rightarrow> bool \<times> kctx" where
  "ctx_allow caps cost s =
     (if ctx_denies caps s then (False, s) else (True, ctx_account cost s))"

section \<open>The stack discipline\<close>

text \<open>The invariant of the header comment of \<open>context.c\<close>: the active context is an entry of
  the kernel-owned stack, the top one, or there is none.\<close>

definition ctx_inv :: "kctx \<Rightarrow> bool" where
  "ctx_inv s \<longleftrightarrow> length (g_ctx_stack s) = COMMAND_CONTEXT_STACK_MAX
     \<and> -1 \<le> g_ctx_top s \<and> g_ctx_top s < int COMMAND_CONTEXT_STACK_MAX
     \<and> current_command_context s = (if g_ctx_top s \<ge> 0 then Some (nat (g_ctx_top s)) else None)"

lemma ctx_inv_push: "ctx_inv s \<Longrightarrow> ctx_inv (snd (command_context_push c s))"
  by (auto simp: ctx_inv_def command_context_push_def Let_def split: option.splits)

lemma ctx_inv_pop: "ctx_inv s \<Longrightarrow> ctx_inv (command_context_pop s)"
  by (auto simp: ctx_inv_def command_context_pop_def Let_def)

lemma ctx_inv_clear: "ctx_inv s \<Longrightarrow> ctx_inv (command_context_clear s)"
  by (auto simp: ctx_inv_def command_context_clear_def)

lemma ctx_inv_set: "ctx_inv s \<Longrightarrow> ctx_inv (command_context_set c s)"
  by (auto simp: command_context_set_def ctx_inv_clear ctx_inv_push split: option.splits)

lemma ctx_account_frame [frame_simps]:
  "g_ctx_top (ctx_account c s) = g_ctx_top s"
  "current_command_context (ctx_account c s) = current_command_context s"
  "length (g_ctx_stack (ctx_account c s)) = length (g_ctx_stack s)"
  "length (g_work (ctx_account c s)) = length (g_work s)"
  "g_det_enabled (ctx_account c s) = g_det_enabled s"
  by (simp_all add: ctx_account_def scheduler_account_def scheduler_yield_if_needed_def
      sched_yield_def Let_def split: option.splits)

lemma ctx_inv_account: "ctx_inv s \<Longrightarrow> ctx_inv (ctx_account c s)"
  by (simp add: ctx_inv_def frame_simps)

lemma g_ctx_stack_account [simp]: "g_ctx_stack (scheduler_account w c s) = g_ctx_stack s"
  by (simp add: scheduler_account_def Let_def split: option.split)

lemma g_ctx_stack_yield [simp]: "g_ctx_stack (scheduler_yield_if_needed w s) = g_ctx_stack s"
  by (simp add: scheduler_yield_if_needed_def sched_yield_def split: option.split)

lemma ctx_account_caps [simp]: "cc_caps (g_ctx_stack (ctx_account c s) ! k) = cc_caps (g_ctx_stack s ! k)"
  by (simp add: ctx_account_def Let_def field_list_update [of cc_caps] split: option.split)

text \<open>Accounting never changes what the guard answers later: a right that was granted stays
  granted, and one that was refused stays refused.\<close>

lemma ctx_denies_account [simp]: "ctx_denies caps (ctx_account c s) = ctx_denies caps s"
  by (simp add: ctx_denies_def frame_simps split: option.split)

lemma ctx_allow_denied: "ctx_denies caps s \<Longrightarrow> ctx_allow caps c s = (False, s)"
  by (simp add: ctx_allow_def)

lemma ctx_allow_granted: "\<not> ctx_denies caps s \<Longrightarrow> ctx_allow caps c s = (True, ctx_account c s)"
  by (simp add: ctx_allow_def)

lemma fst_ctx_allow [simp]: "fst (ctx_allow caps c s) \<longleftrightarrow> \<not> ctx_denies caps s"
  by (simp add: ctx_allow_def)

lemma ctx_denies_snd_allow [simp]: "ctx_denies caps' (snd (ctx_allow caps c s)) = ctx_denies caps' s"
  by (simp add: ctx_allow_def)

lemma ctx_denies_NoneI [simp]: "current_command_context s = None \<Longrightarrow> \<not> ctx_denies caps s"
  by (simp add: ctx_denies_def)

lemma cap_check_or: "cap_check caps (a OR b) \<longleftrightarrow> cap_check caps a \<and> cap_check caps b"
proof
  assume h: "cap_check caps (a OR b)"
  have "bit caps n" if "bit a n \<or> bit b n" for n
    using h that by (metis cap_check_def bit_and_iff bit_or_iff)
  then show "cap_check caps a \<and> cap_check caps b"
    by (auto simp: cap_check_def bit_eq_iff bit_and_iff)
next
  assume h: "cap_check caps a \<and> cap_check caps b"
  have "bit caps n" if "bit a n \<or> bit b n" for n
    using h that by (metis cap_check_def bit_and_iff)
  then show "cap_check caps (a OR b)"
    by (auto simp: cap_check_def bit_eq_iff bit_and_iff bit_or_iff)
qed

lemma ctx_denies_or: "ctx_denies (a OR b) s \<longleftrightarrow> ctx_denies a s \<or> ctx_denies b s"
  by (auto simp: ctx_denies_def cap_check_or split: option.splits)

text \<open>A boot state: no context, an empty table of work items.\<close>

definition kctx_boot :: kctx where
  "kctx_boot = \<lparr>g_work = [], g_current_slice = 0, g_det_enabled = False, yield_polls = 0,
     g_ctx_stack = replicate 32 \<lparr>cc_caps = 0, cc_wo = None, cc_det_seq = 0, cc_drive = 0\<rparr>,
     g_ctx_top = -1, current_command_context = None\<rparr>"

lemma ctx_inv_boot: "ctx_inv kctx_boot"
  by (simp add: ctx_inv_def kctx_boot_def)

section \<open>Properties\<close>

end
