(* ===== verification/RunQueue.thy ===== *)
theory RunQueue
  imports Prelude
begin

text \<open>
  The run queues of the kernel: FIFO queues threaded through a fixed table by an index field, with
  the index of the first and the last element and \<open>-1\<close> for none (\<open>sched_queue_t\<close> of
  \<open>src/cpu/sched.c\<close> over \<open>g_work\<close>, \<open>user_task_runq_t\<close> of \<open>src/cpu/user_elf.c\<close> over
  \<open>g_user_tasks\<close>). Here the links are a list of integers; the two schedulers instantiate it with
  the field of their table.
\<close>

record sched_queue =
  q_head :: int
  q_tail :: int

section \<open>Paths\<close>

fun path :: "int list \<Rightarrow> int \<Rightarrow> nat list \<Rightarrow> bool" where
  "path nx h [] \<longleftrightarrow> h = -1"
| "path nx h (i # is) \<longleftrightarrow> h = int i \<and> i < length nx \<and> path nx (nx ! i) is"

definition queue_of :: "int list \<Rightarrow> sched_queue \<Rightarrow> nat list \<Rightarrow> bool" where
  "queue_of nx q is \<longleftrightarrow> path nx (q_head q) is \<and> distinct is \<and> q_tail q = (if is = [] then -1 else int (last is))"

lemma path_bound: "path nx h is \<Longrightarrow> set is \<subseteq> {..<length nx}"
  by (induction "is" arbitrary: h) auto

lemma path_update: "i \<notin> set is \<Longrightarrow> path (nx[i := v]) h is = path nx h is"
  by (induction "is" arbitrary: h) auto

lemma path_unique: "path nx h is \<Longrightarrow> path nx h js \<Longrightarrow> is = js"
proof (induction "is" arbitrary: h js)
  case Nil
  then show ?case by (cases js) auto
next
  case (Cons i "is")
  then show ?case by (cases js) auto
qed

section \<open>The empty queue, appending and taking the first element\<close>

lemma queue_empty: "queue_of nx q [] \<longleftrightarrow> q_head q = -1 \<and> q_tail q = -1"
  by (auto simp: queue_of_def)

lemma queue_of_both: "queue_of nx (q\<lparr>q_head := a, q_tail := b\<rparr>) is = queue_of nx \<lparr>q_head = a, q_tail = b\<rparr> is"
  by (simp add: queue_of_def)

lemma queue_head: "queue_of nx q is \<Longrightarrow> q_head q < 0 \<longleftrightarrow> is = []"
  by (cases "is") (auto simp: queue_of_def)

lemma queue_tail: "queue_of nx q is \<Longrightarrow> q_tail q < 0 \<longleftrightarrow> is = []"
  by (auto simp: queue_of_def)

lemma queue_frame: "i \<notin> set is \<Longrightarrow> queue_of (nx[i := v]) q is = queue_of nx q is"
  by (simp add: queue_of_def path_update)

lemma path_snoc:
  assumes "path nx h is" "distinct is" "is \<noteq> []" "i \<notin> set is" "i < length nx"
  shows "path (nx[i := -1, last is := int i]) h (is @ [i])"
  using assms
proof (induction "is" arbitrary: h)
  case (Cons j "is")
  show ?case
  proof (cases "is = []")
    case True
    then show ?thesis using Cons.prems by (auto simp: nth_list_update)
  next
    case False
    then have "j \<noteq> last is" "i \<noteq> j" using Cons.prems by auto
    then show ?thesis using Cons.IH [of "nx ! j"] Cons.prems False by simp
  qed
qed simp

text \<open>Appending \<open>i\<close> as the code does it: the link of \<open>i\<close> is cleared, then the old tail points to it.\<close>

lemma queue_append:
  assumes "queue_of nx q is" "i \<notin> set is" "i < length nx"
  shows "is = [] \<Longrightarrow> queue_of (nx[i := -1]) \<lparr>q_head = int i, q_tail = int i\<rparr> [i]"
    and "is \<noteq> [] \<Longrightarrow> queue_of (nx[i := -1, nat (q_tail q) := int i]) (q\<lparr>q_tail := int i\<rparr>) (is @ [i])"
  using assms path_snoc [of nx "q_head q" "is" i] by (auto simp: queue_of_def)

lemma queue_first:
  assumes "queue_of nx q (i # is)"
  shows "q_head q = int i" "i < length nx"
    and "queue_of (nx[i := v]) \<lparr>q_head = nx ! i, q_tail = (if nx ! i < 0 then -1 else q_tail q)\<rparr> is"
    and "nx ! i < 0 \<longleftrightarrow> is = []"
proof -
  have p: "path nx (nx ! i) is" "i \<notin> set is" "distinct is" using assms by (auto simp: queue_of_def)
  show "q_head q = int i" "i < length nx" using assms by (auto simp: queue_of_def)
  show e: "nx ! i < 0 \<longleftrightarrow> is = []" using p(1) by (cases "is") auto
  show "queue_of (nx[i := v]) \<lparr>q_head = nx ! i, q_tail = (if nx ! i < 0 then -1 else q_tail q)\<rparr> is"
    unfolding queue_of_def using p e assms by (auto simp: path_update queue_of_def)
qed

section \<open>Taking out an element\<close>

text \<open>The scan for element \<open>x\<close> from \<open>cur\<close> with the element before it; it finds the
  predecessor and the successor.\<close>

lemma path_remove:
  assumes "path nx h (is @ x # js)" "distinct (is @ x # js)"
  shows "is = [] \<Longrightarrow> path (nx[x := v]) (nx ! x) js"
    and "is \<noteq> [] \<Longrightarrow> path (nx[last is := nx ! x, x := v]) h (is @ js)"
proof -
  show "is = [] \<Longrightarrow> path (nx[x := v]) (nx ! x) js" using assms by (auto simp: path_update)
  assume "is \<noteq> []"
  then show "path (nx[last is := nx ! x, x := v]) h (is @ js)" using assms
  proof (induction "is" arbitrary: h)
    case (Cons i "is")
    show ?case
    proof (cases "is = []")
      case True
      then have "x \<noteq> i" "i \<notin> set js" "x \<notin> set js" "nx ! i = int x" "path nx (nx ! x) js" using Cons.prems by auto
      then show ?thesis using Cons.prems True by (simp add: path_update)
    next
      case False
      then have "i \<noteq> last is" "i \<noteq> x" using Cons.prems by auto
      then show ?thesis using Cons.IH [of "nx ! i"] Cons.prems False by simp
    qed
  qed simp
qed

lemma queue_remove:
  assumes "queue_of nx q (is @ x # js)"
  shows "is = [] \<Longrightarrow> queue_of (nx[x := v]) \<lparr>q_head = nx ! x, q_tail = (if q_tail q = int x then -1 else q_tail q)\<rparr> js"
    and "is \<noteq> [] \<Longrightarrow> queue_of (nx[last is := nx ! x, x := v])
      (q\<lparr>q_tail := (if q_tail q = int x then int (last is) else q_tail q)\<rparr>) (is @ js)"
proof -
  have p: "path nx (q_head q) (is @ x # js)" "distinct (is @ x # js)" "q_tail q = int (last (x # js))"
    using assms by (auto simp: queue_of_def)
  have t: "q_tail q = int x \<longleftrightarrow> js = []" using p(2,3) last_in_set [of js] by (cases "js = []") auto
  show "is = [] \<Longrightarrow> queue_of (nx[x := v]) \<lparr>q_head = nx ! x, q_tail = (if q_tail q = int x then -1 else q_tail q)\<rparr> js"
    using path_remove(1) [OF p(1,2)] p t unfolding queue_of_def by auto
  show "is \<noteq> [] \<Longrightarrow> queue_of (nx[last is := nx ! x, x := v])
      (q\<lparr>q_tail := (if q_tail q = int x then int (last is) else q_tail q)\<rparr>) (is @ js)"
    using path_remove(2) [OF p(1,2)] p t unfolding queue_of_def by auto
qed

section \<open>A table with several queues\<close>

text \<open>The links and the membership flags of a table with the queues \<open>qs\<close> represent the lists \<open>q\<close>:
  each queue its own list, no element in two of them, and the flags exactly the members.\<close>

definition queues_ok :: "int list \<Rightarrow> sched_queue list \<Rightarrow> bool list \<Rightarrow> (nat \<Rightarrow> nat list) \<Rightarrow> bool" where
  "queues_ok nx qs inq q \<longleftrightarrow> length inq = length nx
     \<and> (\<forall>p < length qs. queue_of nx (qs ! p) (q p)) \<and> (\<forall>p \<ge> length qs. q p = [])
     \<and> (\<forall>p p' i. i \<in> set (q p) \<longrightarrow> i \<in> set (q p') \<longrightarrow> p = p')
     \<and> (\<forall>i < length nx. inq ! i \<longleftrightarrow> (\<exists>p. i \<in> set (q p)))"

lemma queues_okD:
  assumes "queues_ok nx qs inq q"
  shows "length inq = length nx" "p < length qs \<Longrightarrow> queue_of nx (qs ! p) (q p)"
    "i \<in> set (q p) \<Longrightarrow> p < length qs" "i \<in> set (q p) \<Longrightarrow> i \<in> set (q p') \<Longrightarrow> p = p'"
    "i < length nx \<Longrightarrow> inq ! i \<longleftrightarrow> (\<exists>p. i \<in> set (q p))"
  using assms by (auto simp: queues_ok_def not_le [symmetric])

lemma queues_member: "queues_ok nx qs inq q \<Longrightarrow> i \<in> set (q p) \<Longrightarrow> i < length nx"
  using queues_okD(2,3) [of nx qs inq q] path_bound unfolding queue_of_def by blast

lemma queues_head: "queues_ok nx qs inq q \<Longrightarrow> p < length qs \<Longrightarrow> q_head (qs ! p) < 0 \<longleftrightarrow> q p = []"
  by (rule queue_head [OF queues_okD(2)])

lemma queues_tail: "queues_ok nx qs inq q \<Longrightarrow> p < length qs \<Longrightarrow> q_tail (qs ! p) < 0 \<longleftrightarrow> q p = []"
  by (rule queue_tail [OF queues_okD(2)])

lemma queues_empty:
  "length inq = length nx \<Longrightarrow> (\<And>i. i < length nx \<Longrightarrow> \<not> inq ! i) \<Longrightarrow> queues_ok nx (replicate n \<lparr>q_head = -1, q_tail = -1\<rparr>) inq (\<lambda>_. [])"
  by (simp add: queues_ok_def queue_empty)

text \<open>Only one queue changes: the others keep their lists if their links are kept.\<close>

lemma queues_change:
  assumes ok: "queues_ok nx qs inq q" and p: "p < length qs"
    and len: "length nx' = length nx" "length inq' = length nx"
    and this_queue: "queue_of nx' q' xs"
    and others: "\<And>j. j \<notin> set (q p) \<Longrightarrow> j < length nx \<Longrightarrow> j \<notin> set xs \<Longrightarrow> nx' ! j = nx ! j"
    and sub: "\<And>i r. i \<in> set xs \<Longrightarrow> i \<in> set (q r) \<Longrightarrow> r = p"
    and flags: "\<And>i. i < length nx \<Longrightarrow> inq' ! i \<longleftrightarrow> (i \<in> set xs \<or> (inq ! i \<and> i \<notin> set (q p)))"
  shows "queues_ok nx' (qs[p := q']) inq' (q(p := xs))"
proof -
  have keep: "path nx' h is" if "path nx h is" "\<And>j. j \<in> set is \<Longrightarrow> nx' ! j = nx ! j" for h "is"
    using that len(1) by (induction "is" arbitrary: h) auto
  have "queue_of nx' (qs ! r) (q r)" if r: "r < length qs" "r \<noteq> p" for r
  proof -
    note qr = queues_okD(2) [OF ok r(1)]
    have "nx' ! j = nx ! j" if "j \<in> set (q r)" for j
      using others [of j] that sub [of j r] queues_okD(4) [OF ok that, of p] queues_member [OF ok that] r(2) by blast
    then show ?thesis using qr keep unfolding queue_of_def by blast
  qed
  moreover have "inq' ! i \<longleftrightarrow> (\<exists>r. i \<in> set ((q(p := xs)) r))" if i: "i < length nx" for i
  proof
    assume "inq' ! i"
    then consider "i \<in> set xs" | "inq ! i" "i \<notin> set (q p)" using flags [OF i] by blast
    then show "\<exists>r. i \<in> set ((q(p := xs)) r)"
    proof cases
      case 1
      then show ?thesis by (intro exI [of _ p]) simp
    next
      case 2
      then obtain r where "i \<in> set (q r)" using queues_okD(5) [OF ok i] by blast
      then show ?thesis using 2 by (intro exI [of _ r]) auto
    qed
  next
    assume "\<exists>r. i \<in> set ((q(p := xs)) r)"
    then obtain r where r: "i \<in> set ((q(p := xs)) r)" by blast
    then show "inq' ! i" using flags [OF i] queues_okD(4) [OF ok, of i r p] queues_okD(5) [OF ok i] by (cases "r = p") auto
  qed
  ultimately show ?thesis using ok p len this_queue sub unfolding queues_ok_def by (auto simp: nth_list_update)
qed

lemma queues_frame: "queues_ok nx qs inq q \<Longrightarrow> (\<And>p. i \<notin> set (q p)) \<Longrightarrow> queues_ok (nx[i := v]) qs inq q"
  by (simp add: queues_ok_def queue_frame)

text \<open>The effect of appending \<open>i\<close> to queue \<open>p\<close>, as both schedulers do it.\<close>

definition append_links :: "int list \<Rightarrow> sched_queue \<Rightarrow> nat \<Rightarrow> int list" where
  "append_links nx q i = (if q_tail q \<ge> 0 then nx[i := -1, nat (q_tail q) := int i] else nx[i := -1])"

definition append_queue :: "sched_queue \<Rightarrow> nat \<Rightarrow> sched_queue" where
  "append_queue q i = (if q_tail q \<ge> 0 then q\<lparr>q_tail := int i\<rparr> else q\<lparr>q_head := int i, q_tail := int i\<rparr>)"

lemma queues_append:
  assumes ok: "queues_ok nx qs inq q" and i: "i < length nx" "\<not> inq ! i" and p: "p < length qs"
  shows "queues_ok (append_links nx (qs ! p) i) (qs[p := append_queue (qs ! p) i]) (inq[i := True]) (q(p := q p @ [i]))"
proof -
  have new: "i \<notin> set (q r)" for r using i queues_okD(5) [OF ok i(1)] by blast
  note qp = queues_okD(2) [OF ok p]
  have qe: "q_tail (qs ! p) \<ge> 0 \<longleftrightarrow> q p \<noteq> []" using queues_tail [OF ok p] by (simp add: not_less [symmetric])
  have tail: "nat (q_tail (qs ! p)) \<in> set (q p)" if "q p \<noteq> []" using qp that by (simp add: queue_of_def)
  have "queue_of (append_links nx (qs ! p) i) (append_queue (qs ! p) i) (q p @ [i])"
    using queue_append [OF qp new i(1)] qe by (cases "q p = []") (auto simp: append_links_def append_queue_def queue_of_both)
  then show ?thesis
  proof (rule queues_change [OF ok p, rotated 2])
    show "(append_links nx (qs ! p) i) ! j = nx ! j" if "j \<notin> set (q p)" "j < length nx" "j \<notin> set (q p @ [i])" for j
    proof (cases "q p = []")
      case False
      then have "j \<noteq> nat (q_tail (qs ! p))" using that(1) tail by auto
      then show ?thesis using that by (simp add: append_links_def)
    qed (use that qe in \<open>simp add: append_links_def\<close>)
    show "r = p" if "k \<in> set (q p @ [i])" "k \<in> set (q r)" for k r
      using that new queues_okD(4) [OF ok] by auto
    show "inq[i := True] ! k \<longleftrightarrow> (k \<in> set (q p @ [i]) \<or> (inq ! k \<and> k \<notin> set (q p)))" if "k < length nx" for k
      using that queues_okD(1) [OF ok] queues_okD(5) [OF ok, of k] by (cases "k = i") (auto intro: exI [of _ p])
  qed (use queues_okD(1) [OF ok] in \<open>simp_all add: append_links_def\<close>)
qed

lemma queues_take:
  assumes ok: "queues_ok nx qs inq q" and p: "p < length qs" and q: "q p = i # is"
  shows "q_head (qs ! p) = int i"
    and "queues_ok (nx[i := -1]) (qs[p := \<lparr>q_head = nx ! i, q_tail = (if nx ! i < 0 then -1 else q_tail (qs ! p))\<rparr>]) (inq[i := False]) (q(p := is))"
    and "nx ! i < 0 \<longleftrightarrow> is = []"
proof -
  have qp: "queue_of nx (qs ! p) (i # is)" using queues_okD(2) [OF ok p] q by simp
  note f = queue_first [OF qp]
  show "q_head (qs ! p) = int i" "nx ! i < 0 \<longleftrightarrow> is = []" by (fact f)+
  have d: "i \<notin> set is" using qp by (simp add: queue_of_def)
  from f(3) show "queues_ok (nx[i := -1]) (qs[p := \<lparr>q_head = nx ! i, q_tail = (if nx ! i < 0 then -1 else q_tail (qs ! p))\<rparr>]) (inq[i := False]) (q(p := is))"
  proof (rule queues_change [OF ok p, rotated 2])
    show "r = p" if "k \<in> set is" "k \<in> set (q r)" for k r using that q queues_okD(4) [OF ok, of k p r] by auto
    show "inq[i := False] ! k \<longleftrightarrow> (k \<in> set is \<or> (inq ! k \<and> k \<notin> set (q p)))" if "k < length nx" for k
      using that d q queues_okD(1) [OF ok] queues_okD(5) [OF ok, of k] q by (cases "k = i") (auto intro: exI [of _ p])
  qed (use queues_okD(1) [OF ok] q in auto)
qed

lemma queues_delete:
  assumes ok: "queues_ok nx qs inq q" and p: "p < length qs" and q: "q p = is @ x # js"
  shows "queues_ok (if is = [] then nx[x := -1] else nx[last is := nx ! x, x := -1])
     (qs[p := (if is = [] then \<lparr>q_head = nx ! x, q_tail = (if q_tail (qs ! p) = int x then -1 else q_tail (qs ! p))\<rparr>
               else (qs ! p)\<lparr>q_tail := (if q_tail (qs ! p) = int x then int (last is) else q_tail (qs ! p))\<rparr>)])
     (inq[x := False]) (q(p := is @ js))"
proof -
  have qp: "queue_of nx (qs ! p) (is @ x # js)" using queues_okD(2) [OF ok p] q by simp
  have d: "x \<notin> set is" "x \<notin> set js" using qp by (auto simp: queue_of_def)
  have "queue_of (if is = [] then nx[x := -1] else nx[last is := nx ! x, x := -1])
     (if is = [] then \<lparr>q_head = nx ! x, q_tail = (if q_tail (qs ! p) = int x then -1 else q_tail (qs ! p))\<rparr>
               else (qs ! p)\<lparr>q_tail := (if q_tail (qs ! p) = int x then int (last is) else q_tail (qs ! p))\<rparr>) (is @ js)"
    using queue_remove [OF qp] by simp
  then show ?thesis
  proof (rule queues_change [OF ok p, rotated 2])
    show "(if is = [] then nx[x := -1] else nx[last is := nx ! x, x := -1]) ! j = nx ! j"
      if "j \<notin> set (q p)" "j < length nx" "j \<notin> set (is @ js)" for j
    proof (cases "is = []")
      case False
      then have "j \<noteq> last is" using that(3) by auto
      then show ?thesis using that q False by simp
    qed (use that q in auto)
    show "r = p" if "k \<in> set (is @ js)" "k \<in> set (q r)" for k r using that q queues_okD(4) [OF ok, of k p r] by auto
    show "inq[x := False] ! k \<longleftrightarrow> (k \<in> set (is @ js) \<or> (inq ! k \<and> k \<notin> set (q p)))" if "k < length nx" for k
      using that d q queues_okD(1) [OF ok] queues_okD(5) [OF ok, of k] by (cases "k = x") (auto intro: exI [of _ p])
  qed (use queues_okD(1) [OF ok] in simp_all)
qed

section \<open>The interface of the ready queues\<close>

text \<open>Taking up to \<open>n\<close> elements one after the other.\<close>

fun drain :: "('s \<Rightarrow> nat option \<times> 's) \<Rightarrow> nat \<Rightarrow> 's \<Rightarrow> nat list \<times> 's" where
  "drain take_first 0 s = ([], s)"
| "drain take_first (Suc n) s =
     (case take_first s of (None, s) \<Rightarrow> ([], s)
      | (Some i, s) \<Rightarrow> (case drain take_first n s of (is, s) \<Rightarrow> (i # is, s)))"

text \<open>What a scheduler relies on: \<open>put i\<close> appends element \<open>i\<close> to the queue of its level unless it
  is queued already, \<open>take_first p\<close> takes the first element of queue \<open>p\<close>.\<close>

locale ready_queues =
  fixes queues :: "'s \<Rightarrow> (nat \<Rightarrow> nat list) \<Rightarrow> bool"
    and put :: "nat \<Rightarrow> 's \<Rightarrow> 's"
    and take_first :: "nat \<Rightarrow> 's \<Rightarrow> nat option \<times> 's"
    and level :: "'s \<Rightarrow> nat \<Rightarrow> nat"
    and may_queue :: "'s \<Rightarrow> nat \<Rightarrow> bool"
  assumes put_new: "queues s q \<Longrightarrow> may_queue s i \<Longrightarrow> (\<And>p. i \<notin> set (q p)) \<Longrightarrow> queues (put i s) (q(level s i := q (level s i) @ [i]))"
    and put_queued: "queues s q \<Longrightarrow> i \<in> set (q p) \<Longrightarrow> put i s = s"
    and level_put: "level (put i s) j = level s j"
    and may_queue_put: "may_queue (put i s) j = may_queue s j"
    and take_none: "queues s q \<Longrightarrow> q p = [] \<Longrightarrow> take_first p s = (None, s)"
    and take_some: "queues s q \<Longrightarrow> q p = i # is \<Longrightarrow> \<exists>s'. take_first p s = (Some i, s') \<and> queues s' (q(p := is))"
begin

lemma put_all:
  assumes "queues s q" "distinct is" "\<And>i. i \<in> set is \<Longrightarrow> may_queue s i \<and> level s i = p \<and> (\<forall>r. i \<notin> set (q r))"
  shows "queues (fold put is s) (q(p := q p @ is))"
  using assms
proof (induction "is" arbitrary: s q)
  case (Cons i "is")
  have "queues (put i s) (q(p := q p @ [i]))" using put_new [OF Cons.prems(1), of i] Cons.prems(3) [of i] by auto
  then have "queues (fold put is (put i s)) ((q(p := q p @ [i]))(p := (q(p := q p @ [i])) p @ is))"
    by (rule Cons.IH) (use Cons.prems in \<open>auto simp: level_put may_queue_put\<close>)
  moreover have "(q(p := q p @ [i]))(p := (q(p := q p @ [i])) p @ is) = q(p := q p @ i # is)" by (simp add: fun_eq_iff)
  ultimately show ?case by (simp del: fun_upd_apply)
qed simp

lemma drain_queue: "queues s q \<Longrightarrow> \<exists>s'. drain (take_first p) (length (q p) + n) s = (q p, s') \<and> queues s' (q(p := []))"
proof (induction "q p" arbitrary: s q)
  case Nil
  have "q = q(p := [])" using Nil(1) by auto
  then have "queues s (q(p := []))" using Nil(2) by metis
  then show ?case using take_none [OF Nil(2), of p] Nil(1) by (cases n) (auto simp del: fun_upd_apply)
next
  case (Cons i "is")
  obtain s1 where s1: "take_first p s = (Some i, s1)" "queues s1 (q(p := is))"
    using take_some [OF Cons(3), of p i "is"] Cons(2) by auto
  obtain s2 where "drain (take_first p) (length is + n) s1 = (is, s2)" "queues s2 (q(p := []))"
    using Cons(1) [of "q(p := is)" s1] s1(2) by auto
  then show ?case using s1(1) Cons(2) [symmetric] by simp
qed

text \<open>First in, first out: what was queued before comes first, then the new elements in order.\<close>

lemma fifo:
  assumes "queues s q" "distinct is" "\<And>i. i \<in> set is \<Longrightarrow> may_queue s i \<and> level s i = p \<and> (\<forall>r. i \<notin> set (q r))"
  shows "fst (drain (take_first p) (length (q p) + length is) (fold put is s)) = q p @ is"
  using drain_queue [OF put_all [OF assms], of p 0] by auto

end

end
