(* ===== verification/Sched.thy ===== *)
theory Sched
  imports Ctx RunQueue
begin

text \<open>
  The work scheduler of \<open>src/cpu/sched.c\<close>: work items in run queues of 32 priorities with a
  bitmap of the queues that are not empty, the multilevel feedback policy on top of them, the tick
  counter, and the bounded queue of interrupts of the deterministic mode. The work table, the
  current slice and the mode flag are those of \<open>Ctx\<close>. The build's configuration is
  \<open>CONFIG_SCHED_MLFQ = 1\<close>, \<open>CONFIG_SCHED_MLFQ_IRQ_PREEMPT = 0\<close> and quanta of 10, 25, 50 and 1000
  milliseconds. Callbacks of work items, of the timer and of other interrupts are arguments.
  \<open>sched_sleep_us\<close>, which waits for interrupts, and \<open>sched_debug_print\<close> are left out.
\<close>

section \<open>State\<close>

record det_event =
  ev_type :: u8
  ev_irq :: u8

record sched = kctx +
  g_runq :: "sched_queue list"
  g_sched_work_inflight :: bool
  g_ready_bitmap :: u32
  g_mlfq_quantum_ms :: "u32 list"
  g_mlfq_quantum_ticks :: "u32 list"
  g_mlfq_boost_interval_ticks :: u32
  g_mlfq_last_global_boost_tick :: u32
  g_mlfq_work_runs :: u32
  g_mlfq_work_demotions :: u32
  g_mlfq_work_boosts :: u32
  g_ticks :: u32
  g_tick_hz :: u32
  g_timeslice_ticks :: u32
  g_idle_hlt_count :: u32
  g_det_queue :: "det_event list"
  g_det_head :: u16
  g_det_tail :: u16
  g_det_processing :: bool

abbreviation (input) SCHED_WORK_MAX :: nat where "SCHED_WORK_MAX \<equiv> 64"
abbreviation (input) SCHED_WORK_PRIOS :: nat where "SCHED_WORK_PRIOS \<equiv> 32"
abbreviation (input) SCHED_MLFQ_LEVELS :: u32 where "SCHED_MLFQ_LEVELS \<equiv> 3"
abbreviation (input) SCHED_MLFQ_LEVEL_LOW :: u32 where "SCHED_MLFQ_LEVEL_LOW \<equiv> 0"
abbreviation (input) SCHED_MLFQ_LEVEL_MEDIUM :: u32 where "SCHED_MLFQ_LEVEL_MEDIUM \<equiv> 1"
abbreviation (input) SCHED_MLFQ_LEVEL_HIGH :: u32 where "SCHED_MLFQ_LEVEL_HIGH \<equiv> 2"
abbreviation (input) SCHED_WORK_CPU_ANY :: u32 where "SCHED_WORK_CPU_ANY \<equiv> 0xFFFFFFFF"
abbreviation (input) CONFIG_SCHED_MLFQ_BOOST_MS :: u32 where "CONFIG_SCHED_MLFQ_BOOST_MS \<equiv> 1000"
abbreviation (input) DET_QUEUE_CAP :: nat where "DET_QUEUE_CAP \<equiv> 256"
abbreviation (input) DET_EVENT_IRQ :: u8 where "DET_EVENT_IRQ \<equiv> 1"

section \<open>Time\<close>

definition sched_ticks_from_ms :: "u32 \<Rightarrow> 'a sched_scheme \<Rightarrow> u32" where
  "sched_ticks_from_ms ms s =
     (let hz = (if g_tick_hz s \<noteq> 0 then g_tick_hz s else 100) in
      if ms = 0 then 1
      else
        let hz_div = hz div 1000; hz_mod = hz mod 1000;
            rem = hz_mod * ms;
            ticks = hz_div * ms + (rem + 999) div 1000
        in if ticks = 0 then 1 else ticks)"

definition sched_mlfq_recompute_ticks :: "'a sched_scheme \<Rightarrow> 'a sched_scheme" where
  "sched_mlfq_recompute_ticks s =
     (let s = s\<lparr>g_mlfq_quantum_ticks := map (\<lambda>i. sched_ticks_from_ms (g_mlfq_quantum_ms s ! i) s) [0..<unat SCHED_MLFQ_LEVELS]\<rparr>;
          s = s\<lparr>g_mlfq_boost_interval_ticks := sched_ticks_from_ms CONFIG_SCHED_MLFQ_BOOST_MS s\<rparr>
      in if g_mlfq_boost_interval_ticks s = 0 then s\<lparr>g_mlfq_boost_interval_ticks := 1\<rparr> else s)"

definition sched_mlfq_level_quantum_ticks :: "u32 \<Rightarrow> 'a sched_scheme \<Rightarrow> u32" where
  "sched_mlfq_level_quantum_ticks level s =
     (let level = (if level \<ge> SCHED_MLFQ_LEVELS then SCHED_MLFQ_LEVEL_HIGH else level)
      in g_mlfq_quantum_ticks s ! unat level)"

definition sched_mlfq_boost_interval_ticks :: "'a sched_scheme \<Rightarrow> u32" where
  "sched_mlfq_boost_interval_ticks s = g_mlfq_boost_interval_ticks s"

definition sched_priority_to_mlfq_level :: "u32 \<Rightarrow> u32" where
  "sched_priority_to_mlfq_level priority =
     (if priority \<ge> of_nat SCHED_WORK_PRIOS * 2 div 3 then SCHED_MLFQ_LEVEL_HIGH
      else if priority \<ge> of_nat SCHED_WORK_PRIOS div 3 then SCHED_MLFQ_LEVEL_MEDIUM
      else SCHED_MLFQ_LEVEL_LOW)"

definition sched_mlfq_level_to_prio :: "u32 \<Rightarrow> nat" where
  "sched_mlfq_level_to_prio level =
     (let level = (if level \<ge> SCHED_MLFQ_LEVELS then SCHED_MLFQ_LEVEL_HIGH else level) in
      if level = SCHED_MLFQ_LEVEL_HIGH then SCHED_WORK_PRIOS - 1
      else if level = SCHED_MLFQ_LEVEL_MEDIUM then SCHED_WORK_PRIOS div 2
      else 0)"

section \<open>Run queues\<close>

text \<open>The index of the highest bit that is set, \<open>None\<close> for the result \<open>-1\<close>.\<close>

definition sched_bsr32 :: "u32 \<Rightarrow> nat option" where
  "sched_bsr32 v = (if v = 0 then None else map_option (\<lambda>k. 31 - k) (first_idx (\<lambda>k. bit v (31 - k)) 32))"

definition set_work :: "nat \<Rightarrow> (sched_work \<Rightarrow> sched_work) \<Rightarrow> 'a sched_scheme \<Rightarrow> 'a sched_scheme" where
  "set_work i f s = s\<lparr>g_work := (g_work s)[i := f (g_work s ! i)]\<rparr>"

definition sched_work_enqueue :: "nat \<Rightarrow> 'a sched_scheme \<Rightarrow> 'a sched_scheme" where
  "sched_work_enqueue idx s =
     (if idx \<ge> SCHED_WORK_MAX then s
      else if w_in_queue (g_work s ! idx) then s
      else
        let prio = sched_mlfq_level_to_prio (ucast (w_mlfq_level (g_work s ! idx)));
            q = g_runq s ! prio;
            was_empty = (q_head q < 0);
            s = set_work idx (\<lambda>w. w\<lparr>w_next := -1\<rparr>) s;
            s = (if q_tail q \<ge> 0
                 then (set_work (nat (q_tail q)) (\<lambda>w. w\<lparr>w_next := int idx\<rparr>) s)
                        \<lparr>g_runq := (g_runq s)[prio := q\<lparr>q_tail := int idx\<rparr>]\<rparr>
                 else s\<lparr>g_runq := (g_runq s)[prio := q\<lparr>q_head := int idx, q_tail := int idx\<rparr>]\<rparr>);
            s = set_work idx (\<lambda>w. w\<lparr>w_in_queue := True\<rparr>) s
        in if was_empty then s\<lparr>g_ready_bitmap := g_ready_bitmap s OR push_bit prio 1\<rparr> else s)"

definition sched_work_dequeue_prio :: "nat \<Rightarrow> 'a sched_scheme \<Rightarrow> nat option \<times> 'a sched_scheme" where
  "sched_work_dequeue_prio prio s =
     (if prio \<ge> SCHED_WORK_PRIOS then (None, s)
      else
        let q = g_runq s ! prio in
        if q_head q < 0 then (None, s)
        else
          let idx = nat (q_head q);
              q = q\<lparr>q_head := w_next (g_work s ! idx)\<rparr>;
              s = (if q_head q < 0
                   then s\<lparr>g_runq := (g_runq s)[prio := q\<lparr>q_tail := -1\<rparr>],
                          g_ready_bitmap := g_ready_bitmap s AND NOT (push_bit prio 1)\<rparr>
                   else s\<lparr>g_runq := (g_runq s)[prio := q]\<rparr>)
          in (Some idx, set_work idx (\<lambda>w. w\<lparr>w_next := -1, w_in_queue := False\<rparr>) s))"

definition sched_work_get :: "u32 \<Rightarrow> 'a sched_scheme \<Rightarrow> nat option" where
  "sched_work_get wid s =
     (if wid = 0 then None
      else let idx = wid - 1 in
        if unat idx \<ge> SCHED_WORK_MAX then None
        else if w_id (g_work s ! unat idx) \<noteq> wid then None
        else Some (unat idx))"

section \<open>Work items\<close>

definition sched_work_init :: "'a sched_scheme \<Rightarrow> 'a sched_scheme" where
  "sched_work_init s =
     s\<lparr>g_work := replicate SCHED_WORK_MAX \<lparr>w_id = 0, w_priority = 0, w_next = -1, w_in_queue = False,
          w_mlfq_level = ucast SCHED_MLFQ_LEVEL_HIGH, w_run = 0, w_userdata = 0, w_affinity_mask = SCHED_WORK_CPU_ANY,
          w_budget_ticks = 0, w_budget_left = 0, w_cache_hint = 0,
          w_mlfq_slice_left = sched_mlfq_level_quantum_ticks SCHED_MLFQ_LEVEL_HIGH s, w_mlfq_last_boost_tick = 0\<rparr>,
       g_runq := replicate SCHED_WORK_PRIOS \<lparr>q_head = -1, q_tail = -1\<rparr>, g_ready_bitmap := 0,
       g_sched_work_inflight := False\<rparr>"

definition sched_init :: "'a sched_scheme \<Rightarrow> 'a sched_scheme" where
  "sched_init s =
     (let s = sched_mlfq_recompute_ticks (s\<lparr>g_ticks := 0\<rparr>)
      in sched_work_init (s\<lparr>g_mlfq_last_global_boost_tick := 0, g_mlfq_work_runs := 0, g_mlfq_work_demotions := 0,
           g_mlfq_work_boosts := 0\<rparr>))"

definition sched_work_register :: "u32 \<Rightarrow> u32 \<Rightarrow> u32 \<Rightarrow> u32 \<Rightarrow> u32 \<Rightarrow> u32 \<Rightarrow> 'a sched_scheme \<Rightarrow> u32 option \<times> 'a sched_scheme" where
  "sched_work_register run userdata priority affinity_mask budget_ticks cache_hint s =
     (if run = 0 then (None, s)
      else case first_idx (\<lambda>i. w_id (g_work s ! i) = 0) SCHED_WORK_MAX of
        None \<Rightarrow> (None, s)
      | Some i \<Rightarrow>
          let wid = of_nat (i + 1); level = sched_priority_to_mlfq_level priority;
              s = set_work i (\<lambda>_. \<lparr>w_id = wid, w_priority = priority, w_next = -1, w_in_queue = False,
                    w_mlfq_level = ucast level, w_run = run, w_userdata = userdata,
                    w_affinity_mask = (if affinity_mask \<noteq> 0 then affinity_mask else SCHED_WORK_CPU_ANY),
                    w_budget_ticks = budget_ticks, w_budget_left = budget_ticks, w_cache_hint = cache_hint,
                    w_mlfq_slice_left = sched_mlfq_level_quantum_ticks level s, w_mlfq_last_boost_tick = g_ticks s\<rparr>) s
          in (Some wid, if budget_ticks \<noteq> 0 then sched_work_enqueue i s else s))"

definition sched_work_set_ready :: "u32 \<Rightarrow> 'a sched_scheme \<Rightarrow> bool \<times> 'a sched_scheme" where
  "sched_work_set_ready wid s =
     (case sched_work_get wid s of None \<Rightarrow> (False, s)
      | Some i \<Rightarrow>
          let s = (if w_budget_left (g_work s ! i) = 0 \<and> w_budget_ticks (g_work s ! i) \<noteq> 0
                   then set_work i (\<lambda>w. w\<lparr>w_budget_left := w_budget_ticks w\<rparr>) s else s);
              s = (if w_mlfq_slice_left (g_work s ! i) = 0
                   then set_work i (\<lambda>w. w\<lparr>w_mlfq_slice_left := sched_mlfq_level_quantum_ticks (ucast (w_mlfq_level w)) s\<rparr>) s else s)
          in (True, sched_work_enqueue i s))"

definition sched_work_unready :: "u32 \<Rightarrow> 'a sched_scheme \<Rightarrow> bool \<times> 'a sched_scheme" where
  "sched_work_unready wid s =
     (case sched_work_get wid s of None \<Rightarrow> (False, s)
      | Some i \<Rightarrow> (True, set_work i (\<lambda>w. w\<lparr>w_budget_left := 0\<rparr>) s))"

definition sched_work_update_budget :: "u32 \<Rightarrow> u32 \<Rightarrow> 'a sched_scheme \<Rightarrow> bool \<times> 'a sched_scheme" where
  "sched_work_update_budget wid budget_ticks s =
     (case sched_work_get wid s of None \<Rightarrow> (False, s)
      | Some i \<Rightarrow> (True, set_work i (\<lambda>w. w\<lparr>w_budget_ticks := budget_ticks,
           w_budget_left := (if w_budget_left w > budget_ticks then budget_ticks else w_budget_left w)\<rparr>) s))"

text \<open>The second loop of \<open>sched_work_requeue_all\<close>, from index \<open>i\<close> with \<open>n\<close> items left.\<close>

fun requeue_loop :: "nat \<Rightarrow> nat \<Rightarrow> 'a sched_scheme \<Rightarrow> 'a sched_scheme" where
  "requeue_loop 0 i s = s"
| "requeue_loop (Suc n) i s =
     requeue_loop n (Suc i)
       (if w_id (g_work s ! i) = 0 \<or> \<not> w_in_queue (g_work s ! i) then s
        else sched_work_enqueue i (set_work i (\<lambda>w. w\<lparr>w_in_queue := False, w_next := -1\<rparr>) s))"

definition sched_work_requeue_all :: "'a sched_scheme \<Rightarrow> 'a sched_scheme" where
  "sched_work_requeue_all s =
     requeue_loop SCHED_WORK_MAX 0
       (s\<lparr>g_runq := replicate SCHED_WORK_PRIOS \<lparr>q_head = -1, q_tail = -1\<rparr>, g_ready_bitmap := 0\<rparr>)"

definition sched_mlfq_boost_if_due :: "'a sched_scheme \<Rightarrow> 'a sched_scheme" where
  "sched_mlfq_boost_if_due s =
     (let now = g_ticks s in
      if now - g_mlfq_last_global_boost_tick s < g_mlfq_boost_interval_ticks s then s
      else
        let s = s\<lparr>g_work := map (\<lambda>w. if w_id w = 0 then w
                    else w\<lparr>w_mlfq_level := ucast SCHED_MLFQ_LEVEL_HIGH,
                           w_mlfq_slice_left := sched_mlfq_level_quantum_ticks SCHED_MLFQ_LEVEL_HIGH s,
                           w_mlfq_last_boost_tick := now\<rparr>) (g_work s)\<rparr>;
            s = sched_work_requeue_all s
        in s\<lparr>g_mlfq_last_global_boost_tick := now, g_mlfq_work_boosts := g_mlfq_work_boosts s + 1\<rparr>)"

definition sched_mlfq_account_run :: "nat \<Rightarrow> 'a sched_scheme \<Rightarrow> 'a sched_scheme" where
  "sched_mlfq_account_run i s =
     (let s = (if w_mlfq_slice_left (g_work s ! i) > 0
               then set_work i (\<lambda>w. w\<lparr>w_mlfq_slice_left := w_mlfq_slice_left w - 1\<rparr>) s else s);
          s = (if w_mlfq_slice_left (g_work s ! i) = 0 then
                 let s = (if ucast (w_mlfq_level (g_work s ! i)) > SCHED_MLFQ_LEVEL_LOW
                          then (set_work i (\<lambda>w. w\<lparr>w_mlfq_level := w_mlfq_level w - 1\<rparr>) s)
                                 \<lparr>g_mlfq_work_demotions := g_mlfq_work_demotions s + 1\<rparr> else s)
                 in set_work i (\<lambda>w. w\<lparr>w_mlfq_slice_left := sched_mlfq_level_quantum_ticks (ucast (w_mlfq_level w)) s\<rparr>) s
               else s)
      in set_work i (\<lambda>w. w\<lparr>w_mlfq_last_boost_tick := g_ticks s\<rparr>) s)"

section \<open>Running work at the end of a timeslice\<close>

text \<open>\<open>run i\<close> is the callback of work item \<open>i\<close>; running it is charged to the budget and the slice
  of the item, which is queued again if some of its budget is left.\<close>

definition work_run_item :: "(nat \<Rightarrow> 'a sched_scheme \<Rightarrow> 'a sched_scheme) \<Rightarrow> nat \<Rightarrow> 'a sched_scheme \<Rightarrow> 'a sched_scheme" where
  "work_run_item run idx s =
     (let s = run idx s;
          s = (if w_budget_left (g_work s ! idx) > 0
               then set_work idx (\<lambda>w. w\<lparr>w_budget_left := w_budget_left w - 1\<rparr>) s else s);
          s = sched_mlfq_account_run idx s;
          s = (if w_budget_left (g_work s ! idx) > 0 then sched_work_enqueue idx s else s)
      in s\<lparr>g_mlfq_work_runs := g_mlfq_work_runs s + 1\<rparr>)"

text \<open>The loop over the ready queues. \<open>None\<close> means that the loop does not end.\<close>

partial_function (option) timeslice_loop ::
    "(nat \<Rightarrow> 'a sched_scheme \<Rightarrow> 'a sched_scheme) \<Rightarrow> u32 \<Rightarrow> 'a sched_scheme \<Rightarrow> (bool \<times> 'a sched_scheme) option" where
  "timeslice_loop run ready s =
     (case sched_bsr32 ready of
        None \<Rightarrow> Some (False, s)
      | Some prio \<Rightarrow>
          (case sched_work_dequeue_prio prio s of
             (None, s) \<Rightarrow> timeslice_loop run (ready AND NOT (push_bit prio 1))
                           (s\<lparr>g_ready_bitmap := g_ready_bitmap s AND NOT (push_bit prio 1)\<rparr>)
           | (Some idx, s) \<Rightarrow>
               if w_run (g_work s ! idx) = 0 \<or> w_budget_left (g_work s ! idx) = 0 then timeslice_loop run ready s
               else if w_affinity_mask (g_work s ! idx) AND 1 = 0 then timeslice_loop run ready (sched_work_enqueue idx s)
               else Some (True, work_run_item run idx s)))"

definition sched_work_on_timeslice_end ::
    "(nat \<Rightarrow> 'a sched_scheme \<Rightarrow> 'a sched_scheme) \<Rightarrow> 'a sched_scheme \<Rightarrow> (bool \<times> 'a sched_scheme) option" where
  "sched_work_on_timeslice_end run s =
     (if g_sched_work_inflight s then Some (False, s)
      else
        let s = sched_mlfq_boost_if_due (s\<lparr>g_sched_work_inflight := True\<rparr>) in
        map_option (\<lambda>(ran, s). (ran, s\<lparr>g_sched_work_inflight := False\<rparr>)) (timeslice_loop run (g_ready_bitmap s) s))"

section \<open>Ticks and the deterministic mode\<close>

definition sched_det_queue_irq :: "u8 \<Rightarrow> 'a sched_scheme \<Rightarrow> bool \<times> 'a sched_scheme" where
  "sched_det_queue_irq irq s =
     (if \<not> g_det_enabled s then (False, s)
      else let next = (g_det_tail s + 1) AND (of_nat DET_QUEUE_CAP - 1) in
        if next = g_det_head s then (False, s)
        else (True, s\<lparr>g_det_queue := (g_det_queue s)[unat (g_det_tail s) := \<lparr>ev_type = DET_EVENT_IRQ, ev_irq = irq\<rparr>],
               g_det_tail := next\<rparr>))"

text \<open>The body that \<open>sched_tick\<close> and \<open>sched_tick_det\<close> share; \<open>hooks\<close> are the watchdog and the user task
  scheduler, \<open>slice_end\<close> is \<open>sched_on_timeslice_end\<close>.\<close>

definition sched_tick_det :: "('a sched_scheme \<Rightarrow> 'a sched_scheme) \<Rightarrow> ('a sched_scheme \<Rightarrow> 'a sched_scheme) \<Rightarrow> 'a sched_scheme \<Rightarrow> 'a sched_scheme" where
  "sched_tick_det hooks slice_end s =
     (let s = hooks (s\<lparr>g_ticks := g_ticks s + 1\<rparr>);
          s = s\<lparr>g_current_slice := g_current_slice s + 1\<rparr>
      in if g_current_slice s \<ge> g_timeslice_ticks s then slice_end (s\<lparr>g_current_slice := 0\<rparr>) else s)"

definition sched_tick :: "('a sched_scheme \<Rightarrow> 'a sched_scheme) \<Rightarrow> ('a sched_scheme \<Rightarrow> 'a sched_scheme) \<Rightarrow> 'a sched_scheme \<Rightarrow> 'a sched_scheme" where
  "sched_tick hooks slice_end s =
     (if g_det_enabled s then snd (sched_det_queue_irq 0 s) else sched_tick_det hooks slice_end s)"

definition sched_set_tick_hz :: "u32 \<Rightarrow> 'a sched_scheme \<Rightarrow> 'a sched_scheme" where
  "sched_set_tick_hz hz s = sched_mlfq_recompute_ticks (s\<lparr>g_tick_hz := (if hz = 0 then 100 else hz)\<rparr>)"

definition sched_set_timeslice_ticks :: "u32 \<Rightarrow> 'a sched_scheme \<Rightarrow> 'a sched_scheme" where
  "sched_set_timeslice_ticks ticks s =
     (let s = s\<lparr>g_timeslice_ticks := (if ticks = 0 then 1 else ticks)\<rparr>
      in if g_current_slice s \<ge> g_timeslice_ticks s then s\<lparr>g_current_slice := 0\<rparr> else s)"

definition sched_det_enable :: "bool \<Rightarrow> 'a sched_scheme \<Rightarrow> 'a sched_scheme" where
  "sched_det_enable enabled s =
     (let s = s\<lparr>g_det_enabled := enabled\<rparr> in if enabled then s\<lparr>g_det_head := 0, g_det_tail := 0\<rparr> else s)"

text \<open>The loop of \<open>sched_det_step\<close> with \<open>n\<close> events left; it counts the events processed. \<open>tick\<close> is
  \<open>sched_tick_det\<close> and \<open>dispatch\<close> is \<open>irq_dispatch_deferred\<close>.\<close>

fun det_loop :: "('a sched_scheme \<Rightarrow> 'a sched_scheme) \<Rightarrow> (u8 \<Rightarrow> 'a sched_scheme \<Rightarrow> 'a sched_scheme) \<Rightarrow> nat \<Rightarrow> 'a sched_scheme \<Rightarrow> nat \<times> 'a sched_scheme" where
  "det_loop tick dispatch 0 s = (0, s)"
| "det_loop tick dispatch (Suc n) s =
     (if g_det_head s = g_det_tail s then (0, s)
      else
        let ev = g_det_queue s ! unat (g_det_head s);
            s = s\<lparr>g_det_head := (g_det_head s + 1) AND (of_nat DET_QUEUE_CAP - 1)\<rparr>;
            s = (if ev_type ev = DET_EVENT_IRQ then (if ev_irq ev = 0 then tick s else dispatch (ev_irq ev) s) else s);
            (k, s) = det_loop tick dispatch n s
        in (Suc k, s))"

definition sched_det_step :: "('a sched_scheme \<Rightarrow> 'a sched_scheme) \<Rightarrow> (u8 \<Rightarrow> 'a sched_scheme \<Rightarrow> 'a sched_scheme) \<Rightarrow> u32 \<Rightarrow> 'a sched_scheme \<Rightarrow> nat \<times> 'a sched_scheme" where
  "sched_det_step tick dispatch max_events s =
     (if \<not> g_det_enabled s then (0, s)
      else if g_det_processing s then (0, s)
      else
        let max_events = (if max_events = 0 then 1 else max_events);
            (k, s) = det_loop tick dispatch (unat max_events) (s\<lparr>g_det_processing := True\<rparr>)
        in (k, s\<lparr>g_det_processing := False\<rparr>))"

text \<open>The queue depths of \<open>sched_debug_get_snapshot\<close>.\<close>

definition runq_depth :: "'a sched_scheme \<Rightarrow> u32 \<Rightarrow> nat" where
  "runq_depth s level = length (filter (\<lambda>w. w_id w \<noteq> 0 \<and> w_in_queue w
     \<and> (if ucast (w_mlfq_level w) \<ge> SCHED_MLFQ_LEVELS then SCHED_MLFQ_LEVEL_HIGH else ucast (w_mlfq_level w)) = level) (g_work s))"

end
