(* ===== verification/UserTask.thy ===== *)
theory UserTask
  imports Sched
begin

text \<open>
  The table of user tasks of \<open>src/cpu/user_elf.c\<close>: sixteen slots with their states, the run queues
  of three levels threaded through the slots, blocking and waking, signals and exit. The build is
  the i386 one with \<open>CONFIG_SCHED_MLFQ = 1\<close>. A slot pointer is an index into the table; a regs
  frame is the record \<open>regs_t\<close> of \<open>include/cpu/isr.h\<close>. \<open>watchdog_kick\<close>, which only refreshes a
  heartbeat, is left out. Calls into the memory manager, the system call layer and the terminal are
  values of \<open>kcall\<close>, answered by an argument \<open>kern\<close> that works on the part of the state behind
  the record \<open>utask\<close>.
\<close>

section \<open>State\<close>

record regs_t =
  r_edi :: u32
  r_esi :: u32
  r_ebp :: u32
  r_esp :: u32
  r_ebx :: u32
  r_edx :: u32
  r_ecx :: u32
  r_eax :: u32
  r_int_no :: u32
  r_err_code :: u32
  r_eip :: u32
  r_cs :: u32
  r_eflags :: u32
  r_useresp :: u32
  r_ss :: u32

definition zero_regs :: regs_t where
  "zero_regs = \<lparr>r_edi = 0, r_esi = 0, r_ebp = 0, r_esp = 0, r_ebx = 0, r_edx = 0, r_ecx = 0, r_eax = 0,
     r_int_no = 0, r_err_code = 0, r_eip = 0, r_cs = 0, r_eflags = 0, r_useresp = 0, r_ss = 0\<rparr>"

record user_task_runtime =
  code_base :: u32
  code_pages :: u32
  stack_page :: u32

text \<open>Strings are byte lists without their terminator; the pointers are those of the allocator.\<close>

record user_task_image =
  im_ptr :: u32
  im_drive :: u8
  im_path :: bytes
  im_path_ptr :: u32
  im_argv :: "bytes list"
  im_arg_ptrs :: "u32 list"

datatype user_task_state = UNUSED | RUNNABLE | RUNNING | BLOCKED | ZOMBIE

datatype user_task_block_reason = BLOCK_NONE | BLOCK_SLEEP | BLOCK_WAITPID | BLOCK_GUI_EVENT

record user_task_slot =
  ut_used :: bool
  ut_pid :: int
  ut_parent_pid :: int
  ut_status :: int
  ut_state :: user_task_state
  ut_wait_target_pid :: int
  ut_wait_gui_handle :: int
  ut_wake_tick :: u32
  ut_block_reason :: user_task_block_reason
  ut_mlfq_level :: u8
  ut_in_runq :: bool
  ut_fd_inherit_mode :: bool
  ut_stdio :: "int \<times> int \<times> int"
  ut_runq_next :: int
  ut_origin_vterm :: int
  ut_mlfq_slice_left :: u32
  ut_runtime :: user_task_runtime
  ut_image :: "user_task_image option"
  ut_sig_pending :: u32
  ut_sig_mask :: u32
  ut_sig_handler :: "u32 list"
  ut_sig_saved_frame :: regs_t
  ut_sig_saved_present :: bool
  ut_has_frame :: bool
  ut_frame_generation :: u32
  ut_frame :: regs_t

record utask = sched +
  g_user_tasks :: "user_task_slot list"
  g_user_task_active_slot :: "nat option"
  g_user_task_next_pid :: int
  g_user_task_pending_pid :: int
  g_user_task_running_pid :: int
  g_user_task_schedule_request :: bool
  g_user_task_runtime_generation :: u32
  g_user_task_runq :: "sched_queue list"
  g_user_task_runq_initialized :: bool
  g_user_task_last_boost_tick :: u32
  g_user_task_active :: bool
  g_user_task_term :: int
  g_user_interrupt :: bool
  g_user_fd_inherit_mode :: bool
  g_user_stdio :: "int \<times> int \<times> int"
  g_user_runtime :: user_task_runtime
  g_user_segdom :: "u16 \<times> u16"
  as_stack_bottom :: u32

abbreviation (input) USER_TASK_MAX :: nat where "USER_TASK_MAX \<equiv> 16"

text \<open>Signed 32-bit arithmetic on process numbers.\<close>

definition int32 :: "int \<Rightarrow> int" where
  "int32 x = (x + 2 ^ 31) mod 2 ^ 32 - 2 ^ 31"

definition set_task :: "nat \<Rightarrow> (user_task_slot \<Rightarrow> user_task_slot) \<Rightarrow> 'a utask_scheme \<Rightarrow> 'a utask_scheme" where
  "set_task i f s = s\<lparr>g_user_tasks := (g_user_tasks s)[i := f (g_user_tasks s ! i)]\<rparr>"

abbreviation task :: "'a utask_scheme \<Rightarrow> nat \<Rightarrow> user_task_slot" where "task s i \<equiv> g_user_tasks s ! i"

text \<open>What the code asks of the rest of the kernel. The answer is a pointer, a frame or a return code.\<close>

datatype kcall =
    Malloc nat | Free u32
  | Frame_alloc | Frame_free u32 | Zero_frame u32
  | Walk_demand u32 | Map_page u32 u32 | Unmap_page u32 | Clock_remove u32 | Clock_add u32
  | Copy_user u32 bytes | Copyout u32 bytes
  | Reset_user_fds | Reset_user_streams | Reset_user_guis | Pipeline_active
  | Focused_term | Stdin_clear int | Load_segdom

definition call :: "(kcall \<Rightarrow> 'm \<Rightarrow> u32 \<times> 'm) \<Rightarrow> kcall \<Rightarrow> 'm utask_scheme \<Rightarrow> u32 \<times> 'm utask_scheme" where
  "call kern c s = (case kern c (utask.more s) of (r, m) \<Rightarrow> (r, s\<lparr>utask.more := m\<rparr>))"

definition do_call :: "(kcall \<Rightarrow> 'm \<Rightarrow> u32 \<times> 'm) \<Rightarrow> kcall \<Rightarrow> 'm utask_scheme \<Rightarrow> 'm utask_scheme" where
  "do_call kern c s = snd (call kern c s)"

section \<open>Run queues\<close>

definition user_task_level_quantum_ticks :: "u32 \<Rightarrow> 'a utask_scheme \<Rightarrow> u32" where
  "user_task_level_quantum_ticks level s =
     (let q = sched_mlfq_level_quantum_ticks level s in if q = 0 then 1 else q)"

definition user_task_runq_bootstrap :: "'a utask_scheme \<Rightarrow> 'a utask_scheme" where
  "user_task_runq_bootstrap s =
     (if g_user_task_runq_initialized s then s
      else s\<lparr>g_user_task_runq := replicate (unat SCHED_MLFQ_LEVELS) \<lparr>q_head = -1, q_tail = -1\<rparr>,
             g_user_tasks := map (\<lambda>t. let t = t\<lparr>ut_runq_next := -1, ut_in_runq := False\<rparr> in
               if ut_used t \<and> ut_state t = RUNNABLE
               then t\<lparr>ut_mlfq_level := ucast SCHED_MLFQ_LEVEL_HIGH,
                      ut_mlfq_slice_left := user_task_level_quantum_ticks SCHED_MLFQ_LEVEL_HIGH s\<rparr>
               else t) (g_user_tasks s),
             g_user_task_last_boost_tick := g_ticks s, g_user_task_runq_initialized := True\<rparr>)"

definition task_level :: "user_task_slot \<Rightarrow> nat" where
  "task_level t = unat (if ucast (ut_mlfq_level t) \<ge> SCHED_MLFQ_LEVELS then SCHED_MLFQ_LEVEL_HIGH else ucast (ut_mlfq_level t))"

definition user_task_runq_enqueue :: "nat \<Rightarrow> 'a utask_scheme \<Rightarrow> 'a utask_scheme" where
  "user_task_runq_enqueue idx s =
     (if \<not> ut_used (task s idx) \<or> ut_state (task s idx) \<noteq> RUNNABLE then s
      else let s = user_task_runq_bootstrap s in
        if ut_in_runq (task s idx) then s
        else
          let level = task_level (task s idx); q = g_user_task_runq s ! level;
              s = set_task idx (\<lambda>t. t\<lparr>ut_runq_next := -1\<rparr>) s;
              s = (if q_tail q \<ge> 0
                   then (set_task (nat (q_tail q)) (\<lambda>t. t\<lparr>ut_runq_next := int idx\<rparr>) s)
                          \<lparr>g_user_task_runq := (g_user_task_runq s)[level := q\<lparr>q_tail := int idx\<rparr>]\<rparr>
                   else s\<lparr>g_user_task_runq := (g_user_task_runq s)[level := q\<lparr>q_head := int idx, q_tail := int idx\<rparr>]\<rparr>)
          in set_task idx (\<lambda>t. t\<lparr>ut_in_runq := True\<rparr>) s)"

text \<open>The scan of one queue for slot \<open>idx\<close>, with the element before \<open>cur\<close>: the neighbours of
  \<open>idx\<close> if it is there. A queue has at most sixteen elements, so sixteen steps are enough.\<close>

fun runq_scan :: "nat \<Rightarrow> user_task_slot list \<Rightarrow> nat \<Rightarrow> int \<Rightarrow> int \<Rightarrow> (int \<times> int) option" where
  "runq_scan 0 ts idx prev cur = None"
| "runq_scan (Suc n) ts idx prev cur =
     (if cur < 0 then None
      else if cur = int idx then Some (prev, ut_runq_next (ts ! nat cur))
      else runq_scan n ts idx cur (ut_runq_next (ts ! nat cur)))"

text \<open>The loop over the levels, from \<open>level\<close> with \<open>n\<close> levels left.\<close>

fun remove_levels :: "nat \<Rightarrow> nat \<Rightarrow> nat \<Rightarrow> 'a utask_scheme \<Rightarrow> 'a utask_scheme" where
  "remove_levels 0 level idx s = set_task idx (\<lambda>t. t\<lparr>ut_in_runq := False, ut_runq_next := -1\<rparr>) s"
| "remove_levels (Suc n) level idx s =
     (let q = g_user_task_runq s ! level in
      case runq_scan USER_TASK_MAX (g_user_tasks s) idx (-1) (q_head q) of
        None \<Rightarrow> remove_levels n (Suc level) idx s
      | Some (prev, next) \<Rightarrow>
          let s = (if prev \<ge> 0 then set_task (nat prev) (\<lambda>t. t\<lparr>ut_runq_next := next\<rparr>) s else s);
              q = (if prev \<ge> 0 then q else q\<lparr>q_head := next\<rparr>);
              q = (if q_tail q = int idx then q\<lparr>q_tail := prev\<rparr> else q)
          in set_task idx (\<lambda>t. t\<lparr>ut_in_runq := False, ut_runq_next := -1\<rparr>)
               (s\<lparr>g_user_task_runq := (g_user_task_runq s)[level := q]\<rparr>))"

definition user_task_runq_remove :: "nat \<Rightarrow> 'a utask_scheme \<Rightarrow> 'a utask_scheme" where
  "user_task_runq_remove idx s =
     (if \<not> ut_in_runq (task s idx) then s
      else remove_levels (unat SCHED_MLFQ_LEVELS) 0 idx (user_task_runq_bootstrap s))"

definition runq_pop :: "nat \<Rightarrow> 'a utask_scheme \<Rightarrow> nat option \<times> 'a utask_scheme" where
  "runq_pop level s =
     (let q = g_user_task_runq s ! level in
      if q_head q < 0 then (None, s)
      else
        let idx = nat (q_head q);
            q = q\<lparr>q_head := ut_runq_next (task s idx)\<rparr>;
            q = (if q_head q < 0 then q\<lparr>q_tail := -1\<rparr> else q)
        in (Some idx, set_task idx (\<lambda>t. t\<lparr>ut_runq_next := -1, ut_in_runq := False\<rparr>)
              (s\<lparr>g_user_task_runq := (g_user_task_runq s)[level := q]\<rparr>)))"

text \<open>The loop from the highest level down: level \<open>n - 1\<close> is next.\<close>

fun pop_levels :: "nat \<Rightarrow> 'a utask_scheme \<Rightarrow> nat option \<times> 'a utask_scheme" where
  "pop_levels 0 s = (None, s)"
| "pop_levels (Suc n) s = (case runq_pop n s of (Some i, s) \<Rightarrow> (Some i, s) | (None, s) \<Rightarrow> pop_levels n s)"

definition user_task_runq_pop_highest :: "'a utask_scheme \<Rightarrow> nat option \<times> 'a utask_scheme" where
  "user_task_runq_pop_highest s = pop_levels (unat SCHED_MLFQ_LEVELS) (user_task_runq_bootstrap s)"

definition user_task_runq_rebuild :: "'a utask_scheme \<Rightarrow> 'a utask_scheme" where
  "user_task_runq_rebuild s =
     (let s = user_task_runq_bootstrap s;
          s = s\<lparr>g_user_task_runq := replicate (unat SCHED_MLFQ_LEVELS) \<lparr>q_head = -1, q_tail = -1\<rparr>,
                g_user_tasks := map (\<lambda>t. t\<lparr>ut_runq_next := -1, ut_in_runq := False\<rparr>) (g_user_tasks s)\<rparr>
      in fold (\<lambda>i s. if \<not> ut_used (task s i) \<or> ut_state (task s i) \<noteq> RUNNABLE then s
                     else user_task_runq_enqueue i s) [0..<USER_TASK_MAX] s)"

definition user_task_mlfq_boost_if_due :: "'a utask_scheme \<Rightarrow> 'a utask_scheme" where
  "user_task_mlfq_boost_if_due s =
     (let s = user_task_runq_bootstrap s; interval = sched_mlfq_boost_interval_ticks s; now = g_ticks s in
      if interval = 0 then s
      else if now - g_user_task_last_boost_tick s < interval then s
      else
        let s = s\<lparr>g_user_tasks := map (\<lambda>t.
                    if \<not> ut_used t then t
                    else if ut_state t \<noteq> RUNNABLE \<and> ut_state t \<noteq> RUNNING then t
                    else t\<lparr>ut_mlfq_level := ucast SCHED_MLFQ_LEVEL_HIGH,
                           ut_mlfq_slice_left := user_task_level_quantum_ticks SCHED_MLFQ_LEVEL_HIGH s\<rparr>) (g_user_tasks s)\<rparr>
        in (user_task_runq_rebuild s)\<lparr>g_user_task_last_boost_tick := now\<rparr>)"

definition user_task_mlfq_account_preempt :: "nat \<Rightarrow> 'a utask_scheme \<Rightarrow> 'a utask_scheme" where
  "user_task_mlfq_account_preempt i s =
     (let s = (if ut_mlfq_slice_left (task s i) > 0
               then set_task i (\<lambda>t. t\<lparr>ut_mlfq_slice_left := ut_mlfq_slice_left t - 1\<rparr>) s else s)
      in if ut_mlfq_slice_left (task s i) = 0 then
           let s = (if ucast (ut_mlfq_level (task s i)) > SCHED_MLFQ_LEVEL_LOW
                    then set_task i (\<lambda>t. t\<lparr>ut_mlfq_level := ut_mlfq_level t - 1\<rparr>) s else s)
           in set_task i (\<lambda>t. t\<lparr>ut_mlfq_slice_left := user_task_level_quantum_ticks (ucast (ut_mlfq_level t)) s\<rparr>) s
         else s)"

section \<open>Slots\<close>

definition user_task_request_schedule :: "'a utask_scheme \<Rightarrow> 'a utask_scheme" where
  "user_task_request_schedule s = s\<lparr>g_user_task_schedule_request := True\<rparr>"

definition user_task_capture_stdio_state :: "nat \<Rightarrow> 'a utask_scheme \<Rightarrow> 'a utask_scheme" where
  "user_task_capture_stdio_state i s =
     set_task i (\<lambda>t. t\<lparr>ut_fd_inherit_mode := g_user_fd_inherit_mode s, ut_stdio := g_user_stdio s\<rparr>) s"

definition user_task_apply_stdio_state :: "nat \<Rightarrow> 'a utask_scheme \<Rightarrow> 'a utask_scheme" where
  "user_task_apply_stdio_state i s =
     s\<lparr>g_user_fd_inherit_mode := ut_fd_inherit_mode (task s i), g_user_stdio := ut_stdio (task s i)\<rparr>"

definition user_task_get_current_mapping_state :: "'a utask_scheme \<Rightarrow> user_task_runtime" where
  "user_task_get_current_mapping_state s =
     (case g_user_task_active_slot s of Some i \<Rightarrow> ut_runtime (task s i) | None \<Rightarrow> g_user_runtime s)"

definition user_task_set_current_mapping_state :: "u32 \<Rightarrow> u32 \<Rightarrow> u32 \<Rightarrow> 'a utask_scheme \<Rightarrow> 'a utask_scheme" where
  "user_task_set_current_mapping_state base pages stack s =
     (let r = \<lparr>code_base = base, code_pages = pages, stack_page = stack\<rparr>;
          s = (case g_user_task_active_slot s of Some i \<Rightarrow> set_task i (\<lambda>t. t\<lparr>ut_runtime := r\<rparr>) s | None \<Rightarrow> s)
      in s\<lparr>g_user_runtime := r\<rparr>)"

definition user_task_clear_current_mapping_state :: "'a utask_scheme \<Rightarrow> 'a utask_scheme" where
  "user_task_clear_current_mapping_state s = user_task_set_current_mapping_state 0 0 0 s"

definition user_task_find_slot_by_pid :: "int \<Rightarrow> 'a utask_scheme \<Rightarrow> nat option" where
  "user_task_find_slot_by_pid pid s =
     (if pid \<le> 0 then None else first_idx (\<lambda>i. ut_used (task s i) \<and> ut_pid (task s i) = pid) USER_TASK_MAX)"

definition user_task_alloc_slot :: "'a utask_scheme \<Rightarrow> nat option" where
  "user_task_alloc_slot s = first_idx (\<lambda>i. \<not> ut_used (task s i)) USER_TASK_MAX"

definition user_task_current_slot :: "'a utask_scheme \<Rightarrow> nat option" where
  "user_task_current_slot s =
     (if g_user_task_running_pid s \<le> 0 then None else user_task_find_slot_by_pid (g_user_task_running_pid s) s)"

section \<open>Blocking and waking\<close>

definition tick_slot :: "u32 \<Rightarrow> int \<Rightarrow> nat \<Rightarrow> 'a utask_scheme \<Rightarrow> 'a utask_scheme" where
  "tick_slot now current_pid i s =
     (if \<not> ut_used (task s i) \<or> ut_state (task s i) \<noteq> BLOCKED then s
      else if ut_block_reason (task s i) \<noteq> BLOCK_SLEEP then s
      else if sint (now - ut_wake_tick (task s i)) < 0 then s
      else
        let s = set_task i (\<lambda>t. t\<lparr>ut_wake_tick := 0, ut_block_reason := BLOCK_NONE\<rparr>) s in
        if ut_pid (task s i) = current_pid then set_task i (\<lambda>t. t\<lparr>ut_state := RUNNING\<rparr>) s
        else user_task_request_schedule (user_task_runq_enqueue i (set_task i (\<lambda>t. t\<lparr>ut_state := RUNNABLE\<rparr>) s)))"

definition user_task_scheduler_tick :: "'a utask_scheme \<Rightarrow> 'a utask_scheme" where
  "user_task_scheduler_tick s =
     fold (tick_slot (g_ticks s) (g_user_task_running_pid s)) [0..<USER_TASK_MAX] s"

definition block_current :: "u32 \<Rightarrow> int \<Rightarrow> int \<Rightarrow> user_task_block_reason \<Rightarrow> 'a utask_scheme \<Rightarrow> 'a utask_scheme" where
  "block_current wake_tick target_pid gui_handle reason s =
     (case user_task_current_slot s of None \<Rightarrow> s
      | Some i \<Rightarrow>
          let s = set_task i (\<lambda>t. t\<lparr>ut_state := BLOCKED, ut_wake_tick := wake_tick, ut_wait_target_pid := target_pid,
                    ut_wait_gui_handle := gui_handle, ut_block_reason := reason\<rparr>) s
          in user_task_request_schedule (user_task_runq_remove i s))"

definition user_task_block_current_sleep_until :: "u32 \<Rightarrow> 'a utask_scheme \<Rightarrow> 'a utask_scheme" where
  "user_task_block_current_sleep_until wake_tick s = block_current wake_tick 0 (-1) BLOCK_SLEEP s"

definition user_task_block_current_waitpid :: "int \<Rightarrow> 'a utask_scheme \<Rightarrow> 'a utask_scheme" where
  "user_task_block_current_waitpid target_pid s = block_current 0 target_pid (-1) BLOCK_WAITPID s"

definition user_task_block_current_gui_wait :: "int \<Rightarrow> 'a utask_scheme \<Rightarrow> 'a utask_scheme" where
  "user_task_block_current_gui_wait gui_handle s = block_current 0 0 gui_handle BLOCK_GUI_EVENT s"

definition user_task_unblock_current :: "'a utask_scheme \<Rightarrow> 'a utask_scheme" where
  "user_task_unblock_current s =
     (case user_task_current_slot s of None \<Rightarrow> s
      | Some i \<Rightarrow> set_task i (\<lambda>t. t\<lparr>ut_state := (if ut_state t = BLOCKED then RUNNING else ut_state t),
           ut_wake_tick := 0, ut_wait_target_pid := 0, ut_wait_gui_handle := -1, ut_block_reason := BLOCK_NONE\<rparr>) s)"

definition user_task_current_is_blocked :: "'a utask_scheme \<Rightarrow> bool" where
  "user_task_current_is_blocked s =
     (case user_task_current_slot s of None \<Rightarrow> False | Some i \<Rightarrow> ut_state (task s i) = BLOCKED)"

definition wake_slot :: "(user_task_slot \<Rightarrow> bool) \<Rightarrow> int \<Rightarrow> nat \<Rightarrow> 'a utask_scheme \<Rightarrow> 'a utask_scheme" where
  "wake_slot waits current_pid i s =
     (if \<not> ut_used (task s i) \<or> ut_state (task s i) \<noteq> BLOCKED then s
      else if \<not> waits (task s i) then s
      else
        let s = set_task i (\<lambda>t. t\<lparr>ut_wait_target_pid := 0, ut_wait_gui_handle := -1, ut_wake_tick := 0,
                  ut_block_reason := BLOCK_NONE\<rparr>) s;
            s = (if ut_pid (task s i) = current_pid then set_task i (\<lambda>t. t\<lparr>ut_state := RUNNING\<rparr>) s
                 else user_task_runq_enqueue i (set_task i (\<lambda>t. t\<lparr>ut_state := RUNNABLE\<rparr>) s))
        in user_task_request_schedule s)"

definition user_task_wake_waiters_for_pid :: "int \<Rightarrow> 'a utask_scheme \<Rightarrow> 'a utask_scheme" where
  "user_task_wake_waiters_for_pid pid s =
     fold (wake_slot (\<lambda>t. ut_block_reason t = BLOCK_WAITPID \<and> ut_wait_target_pid t = pid) (g_user_task_running_pid s)) [0..<USER_TASK_MAX] s"

definition user_task_wake_gui_waiters :: "int \<Rightarrow> 'a utask_scheme \<Rightarrow> 'a utask_scheme" where
  "user_task_wake_gui_waiters gui_handle s =
     fold (wake_slot (\<lambda>t. ut_block_reason t = BLOCK_GUI_EVENT \<and> ut_wait_gui_handle t = gui_handle) (g_user_task_running_pid s)) [0..<USER_TASK_MAX] s"

section \<open>Exit and signals\<close>

definition user_task_capture_syscall_frame :: "regs_t \<Rightarrow> 'a utask_scheme \<Rightarrow> 'a utask_scheme" where
  "user_task_capture_syscall_frame regs s =
     (case user_task_find_slot_by_pid (g_user_task_running_pid s) s of None \<Rightarrow> s
      | Some i \<Rightarrow> set_task i (\<lambda>t. t\<lparr>ut_frame := regs, ut_has_frame := True,
           ut_frame_generation := g_user_task_runtime_generation s\<rparr>) s)"

definition user_task_notify_exit :: "int \<Rightarrow> 'a utask_scheme \<Rightarrow> 'a utask_scheme" where
  "user_task_notify_exit status s =
     (let pid = g_user_task_running_pid s;
          s = (if pid > 0 then
                 let s = (case user_task_find_slot_by_pid pid s of None \<Rightarrow> s
                          | Some i \<Rightarrow> set_task i (\<lambda>t. t\<lparr>ut_state := ZOMBIE, ut_status := status\<rparr>) (user_task_runq_remove i s))
                 in user_task_wake_waiters_for_pid pid s
               else s)
      in user_task_request_schedule
           (s\<lparr>g_user_task_active_slot := None, g_user_task_running_pid := 0, g_user_task_pending_pid := 0,
              g_user_task_active := False, g_user_task_term := -1\<rparr>))"

definition user_task_signal_is_terminating :: "nat \<Rightarrow> bool" where
  "user_task_signal_is_terminating sig \<longleftrightarrow> sig = 2 \<or> sig = 3 \<or> sig = 6 \<or> sig = 9 \<or> sig = 11 \<or> sig = 13 \<or> sig = 14 \<or> sig = 15"

definition user_task_terminate_slot :: "nat \<Rightarrow> nat \<Rightarrow> 'a utask_scheme \<Rightarrow> 'a utask_scheme" where
  "user_task_terminate_slot i sig s =
     (if ut_state (task s i) = ZOMBIE then s
      else if ut_pid (task s i) = g_user_task_running_pid s then user_task_notify_exit (- int sig) s
      else
        let s = user_task_runq_remove i s;
            s = set_task i (\<lambda>t. t\<lparr>ut_state := ZOMBIE, ut_status := - int sig\<rparr>) s;
            s = user_task_wake_waiters_for_pid (ut_pid (task s i)) s;
            s = (case user_task_find_slot_by_pid (ut_parent_pid (task s i)) s of None \<Rightarrow> s
                 | Some p \<Rightarrow>
                     let s = set_task p (\<lambda>t. t\<lparr>ut_sig_pending := ut_sig_pending t OR 2 ^ 17\<rparr>) s;
                         s = (if ut_state (task s p) = BLOCKED
                              then user_task_runq_enqueue p (set_task p (\<lambda>t. t\<lparr>ut_state :=
                                     (if ut_pid t = g_user_task_running_pid s then RUNNING else RUNNABLE)\<rparr>) s)
                              else s)
                     in user_task_request_schedule s)
        in user_task_request_schedule s)"

text \<open>Delivery of the lowest pending signal into the saved frame of a slot.\<close>

definition user_task_handle_pending :: "(kcall \<Rightarrow> 'm \<Rightarrow> u32 \<times> 'm) \<Rightarrow> nat \<Rightarrow> 'm utask_scheme \<Rightarrow> 'm utask_scheme" where
  "user_task_handle_pending kern i s =
     (let pending = ut_sig_pending (task s i) AND NOT (ut_sig_mask (task s i)) in
      case first_idx (\<lambda>k. bit pending (k + 1)) 31 of None \<Rightarrow> s
      | Some k \<Rightarrow>
          let sig = k + 1;
              s = set_task i (\<lambda>t. t\<lparr>ut_sig_pending := ut_sig_pending t AND NOT (2 ^ sig)\<rparr>) s
          in if sig = 9 then user_task_terminate_slot i sig s
             else if ut_sig_handler (task s i) ! sig \<noteq> 0 then
               let newregs = ut_frame (task s i);
                   useresp = (r_esp newregs - 4) AND NOT 3
               in (case call kern (Copyout useresp (bytes_of32 (of_nat sig))) s of (rc, s) \<Rightarrow>
                    if rc = 0 then
                      set_task i (\<lambda>t. t\<lparr>ut_sig_saved_frame := ut_frame t, ut_sig_saved_present := True,
                        ut_frame := newregs\<lparr>r_esp := useresp, r_eip := ut_sig_handler t ! sig\<rparr>, ut_has_frame := True\<rparr>) s
                    else s)
             else if user_task_signal_is_terminating sig then user_task_terminate_slot i sig s
             else s)"

definition user_task_queue_signal :: "int \<Rightarrow> int \<Rightarrow> 'a utask_scheme \<Rightarrow> bool \<times> 'a utask_scheme" where
  "user_task_queue_signal pid sig s =
     (if pid \<le> 0 \<or> sig \<le> 0 \<or> sig \<ge> 32 then (False, s)
      else case user_task_find_slot_by_pid pid s of None \<Rightarrow> (False, s)
      | Some i \<Rightarrow>
          if ut_sig_handler (task s i) ! nat sig = 0 \<and> user_task_signal_is_terminating (nat sig)
          then (True, user_task_terminate_slot i (nat sig) s)
          else
            let s = set_task i (\<lambda>t. t\<lparr>ut_sig_pending := ut_sig_pending t OR 2 ^ nat sig\<rparr>) s;
                s = (if ut_pid (task s i) = g_user_task_running_pid s then s\<lparr>g_user_interrupt := True\<rparr> else s)
            in (True, if ut_state (task s i) = RUNNABLE then user_task_request_schedule s else s))"

definition user_task_set_handler_current :: "int \<Rightarrow> u32 \<Rightarrow> 'a utask_scheme \<Rightarrow> bool \<times> 'a utask_scheme" where
  "user_task_set_handler_current sig handler s =
     (if sig \<le> 0 \<or> sig \<ge> 32 then (False, s)
      else if sig = 9 then (False, s)
      else case user_task_find_slot_by_pid (g_user_task_running_pid s) s of None \<Rightarrow> (False, s)
      | Some i \<Rightarrow> (True, set_task i (\<lambda>t. t\<lparr>ut_sig_handler := (ut_sig_handler t)[nat sig := handler]\<rparr>) s))"

definition user_task_sigreturn_current :: "'a utask_scheme \<Rightarrow> regs_t option \<times> 'a utask_scheme" where
  "user_task_sigreturn_current s =
     (case user_task_find_slot_by_pid (g_user_task_running_pid s) s of None \<Rightarrow> (None, s)
      | Some i \<Rightarrow>
          if \<not> ut_sig_saved_present (task s i) then (None, s)
          else (Some (ut_sig_saved_frame (task s i)), set_task i (\<lambda>t. t\<lparr>ut_sig_saved_present := False\<rparr>) s))"

definition user_task_signal_current :: "int \<Rightarrow> 'a utask_scheme \<Rightarrow> bool \<times> 'a utask_scheme" where
  "user_task_signal_current sig s =
     (if g_user_task_running_pid s \<le> 0 then (False, s) else user_task_queue_signal (g_user_task_running_pid s) sig s)"

definition user_task_get_output_vterm :: "'a utask_scheme \<Rightarrow> int" where
  "user_task_get_output_vterm s =
     (case user_task_current_slot s of
        Some i \<Rightarrow> if ut_origin_vterm (task s i) \<ge> 0 then ut_origin_vterm (task s i)
                  else if g_user_task_term s \<ge> 0 then g_user_task_term s else -1
      | None \<Rightarrow> if g_user_task_term s \<ge> 0 then g_user_task_term s else -1)"

end
