(* ===== verification/CStr.thy ===== *)
theory CStr
  imports Prelude "HOL-Library.Sublist"
begin

text \<open>
  The string functions of \<open>src/utilities/shell/string.c\<close>. A C string is the list of the bytes
  from its pointer up to the terminating zero, and the end of the list reads as this zero (\<open>peek\<close>);
  a zero inside the list ends the string as well. A destination is the whole buffer. \<open>char\<close> is
  signed on the target, so that differences and comparisons with constants are on \<open>sint\<close>.
  Results that are pointers into an argument are indices, \<open>None\<close> for a null pointer. Null
  arguments, which every function rejects first, and the messages on the serial port are left out.
\<close>

definition peek :: "bytes \<Rightarrow> u8" where
  "peek s = (case s of [] \<Rightarrow> 0 | c # _ \<Rightarrow> c)"

lemma peek_simps [simp]: "peek [] = 0" "peek (c # s) = c"
  by (simp_all add: peek_def)

text \<open>The string at the start of a buffer.\<close>

definition cstr :: "bytes \<Rightarrow> bytes" where
  "cstr buf = takeWhile (\<lambda>c. c \<noteq> 0) buf"

lemma cstr_id [simp]: "0 \<notin> set s \<Longrightarrow> cstr s = s"
  unfolding cstr_def takeWhile_eq_all_conv by metis

lemma zero_notin_cstr [simp]: "0 \<notin> set (cstr b)"
  by (auto simp: cstr_def dest: set_takeWhileD)

lemma cstr_eqI:
  assumes "0 \<notin> set c" "take (length c) b = c" "length c < length b" "b ! length c = 0"
  shows "cstr b = c"
proof -
  have "b = c @ 0 # drop (Suc (length c)) b" using assms(2-4) by (metis append_take_drop_id Cons_nth_drop_Suc)
  then show ?thesis using assms(1) unfolding cstr_def
    by (metis (mono_tags, lifting) append_Nil2 takeWhile.simps(2) takeWhile_append2)
qed

lemma cstr_append_0: "0 \<notin> set s \<Longrightarrow> cstr (s @ 0 # r) = s"
  by (rule cstr_eqI) simp_all

section \<open>Lengths, copies\<close>

fun strlen_scan :: "nat \<Rightarrow> nat \<Rightarrow> bytes \<Rightarrow> nat" where
  "strlen_scan 0 i p = 16384"
| "strlen_scan (Suc n) i p = (if peek p = 0 then i else strlen_scan n (Suc i) (tl p))"

definition strlen :: "bytes \<Rightarrow> nat" where
  "strlen s = strlen_scan 16384 0 s"

definition strcpy :: "bytes \<Rightarrow> bytes \<Rightarrow> bytes" where
  "strcpy dest src = blit dest 0 (cstr src @ [0])"

definition strncpy :: "bytes \<Rightarrow> bytes \<Rightarrow> nat \<Rightarrow> bytes" where
  "strncpy dest src n = (let k = min n (length (cstr src)) in blit (blit dest 0 (take k src)) k (replicate (n - k) 0))"

definition strcat :: "bytes \<Rightarrow> bytes \<Rightarrow> bytes" where
  "strcat dest src = blit dest (length (cstr dest)) (cstr src @ [0])"

definition strncat :: "bytes \<Rightarrow> bytes \<Rightarrow> nat \<Rightarrow> bytes" where
  "strncat dest src n = blit dest (length (cstr dest)) (take n (cstr src) @ [0])"

definition safe_strcpy :: "bytes \<Rightarrow> bytes \<Rightarrow> int \<Rightarrow> bytes" where
  "safe_strcpy dest src dest_size =
     (if dest_size \<le> 0 then dest else blit dest 0 (take (nat (dest_size - 1)) (cstr src) @ [0]))"

fun strlength :: "u16 \<Rightarrow> bytes \<Rightarrow> u16" where
  "strlength i [] = i"
| "strlength i (c # s) = (if c = 0 then i else strlength (i + 1) s)"

section \<open>Comparisons\<close>

fun strcmp :: "bytes \<Rightarrow> bytes \<Rightarrow> int" where
  "strcmp [] t = - sint (peek t)"
| "strcmp (a # s) t = (if a \<noteq> 0 \<and> peek t \<noteq> 0 \<and> a = peek t then strcmp s (tl t) else sint a - sint (peek t))"

fun strncmp :: "bytes \<Rightarrow> bytes \<Rightarrow> nat \<Rightarrow> int" where
  "strncmp s t 0 = 0"
| "strncmp s t (Suc n) = (if peek s \<noteq> 0 \<and> peek t \<noteq> 0 \<and> peek s = peek t then strncmp (tl s) (tl t) n
     else sint (peek s) - sint (peek t))"

definition to_lower :: "u8 \<Rightarrow> u8" where
  "to_lower c = (if 65 \<le> sint c \<and> sint c \<le> 90 then c - 65 + 97 else c)"

fun strcasecmp :: "bytes \<Rightarrow> bytes \<Rightarrow> int" where
  "strcasecmp [] t = - int (unat (peek t))"
| "strcasecmp (a # s) t =
     (if a \<noteq> 0 \<and> peek t \<noteq> 0 then
        (if to_lower a \<noteq> to_lower (peek t) then int (unat (to_lower a)) - int (unat (to_lower (peek t)))
         else strcasecmp s (tl t))
      else int (unat a) - int (unat (peek t)))"

definition strEql :: "bytes \<Rightarrow> bytes \<Rightarrow> bool" where
  "strEql s t = (strcmp s t = 0)"

definition cmdEql :: "bytes \<Rightarrow> bytes \<Rightarrow> bool" where
  "cmdEql s t = (strcmp s t = 0)"

section \<open>Searches\<close>

definition strchr :: "bytes \<Rightarrow> u8 \<Rightarrow> nat option" where
  "strchr s c = (case first_idx (\<lambda>i. cstr s ! i = c) (length (cstr s)) of
      Some i \<Rightarrow> Some i | None \<Rightarrow> if c = 0 then Some (length (cstr s)) else None)"

fun last_index :: "nat \<Rightarrow> nat option \<Rightarrow> bytes \<Rightarrow> u8 \<Rightarrow> nat option" where
  "last_index i latest [] c = (if c = 0 then Some i else latest)"
| "last_index i latest (a # s) c =
     (if a = 0 then (if c = 0 then Some i else latest) else last_index (Suc i) (if a = c then Some i else latest) s c)"

definition strrchr :: "bytes \<Rightarrow> u8 \<Rightarrow> nat option" where
  "strrchr s c = last_index 0 None s c"

fun strstr_from :: "nat \<Rightarrow> nat \<Rightarrow> bytes \<Rightarrow> bytes \<Rightarrow> nat option" where
  "strstr_from needle_len i [] needle = None"
| "strstr_from needle_len i (a # s) needle =
     (if a = 0 then None
      else if strncmp (a # s) needle needle_len = 0 then Some i
      else strstr_from needle_len (Suc i) s needle)"

definition strstr :: "bytes \<Rightarrow> bytes \<Rightarrow> nat option" where
  "strstr haystack needle = (if peek needle = 0 then Some 0 else strstr_from (strlen needle) 0 haystack needle)"

fun strspn :: "nat \<Rightarrow> bytes \<Rightarrow> bytes \<Rightarrow> nat" where
  "strspn count [] accept = count"
| "strspn count (a # s) accept =
     (if a = 0 then count else if a \<notin> set (cstr accept) then count else strspn (Suc count) s accept)"

fun strpbrk :: "nat \<Rightarrow> bytes \<Rightarrow> bytes \<Rightarrow> nat option" where
  "strpbrk i [] accept = None"
| "strpbrk i (a # s) accept =
     (if a = 0 then None else if a \<in> set (cstr accept) then Some i else strpbrk (Suc i) s accept)"

text \<open>\<open>strtok_r\<close> with \<open>*saveptr\<close> as the rest of the string; the token is what the returned
  pointer shows once the delimiter behind it has become a zero.\<close>

fun skip_delims :: "bytes \<Rightarrow> bytes \<Rightarrow> bytes" where
  "skip_delims delim [] = []"
| "skip_delims delim (c # s) = (if c \<noteq> 0 \<and> strchr delim c \<noteq> None then skip_delims delim s else c # s)"

fun token_end :: "bytes \<Rightarrow> bytes \<Rightarrow> bytes \<times> bytes" where
  "token_end delim [] = ([], [])"
| "token_end delim (c # s) =
     (if c \<noteq> 0 \<and> strchr delim c = None then (case token_end delim s of (t, r) \<Rightarrow> (c # t, r)) else ([], c # s))"

definition strtok_r :: "bytes \<Rightarrow> bytes \<Rightarrow> bytes option \<times> bytes" where
  "strtok_r delim save =
     (let save = skip_delims delim save in
      if peek save = 0 then (None, save)
      else case token_end delim save of (t, r) \<Rightarrow> (Some t, if peek r \<noteq> 0 then tl r else r))"

section \<open>Numbers\<close>

function digit_loop :: "u32 \<Rightarrow> bytes" where
  "digit_loop n = (if sint n > 0 then (0x30 + ucast (n mod 10)) # digit_loop (n div 10) else [])"
  by pat_completeness auto

termination
proof (relation "measure unat")
  fix n :: u32 assume "sint n > 0"
  then have "n \<noteq> 0" by auto
  then show "(n div 10, n) \<in> measure unat" by (simp add: unat_div unat_gt_0 div_less_dividend)
qed simp

text \<open>The loop that reverses \<open>buffer[0 .. i)\<close> in place.\<close>

fun reverse_loop :: "nat \<Rightarrow> nat \<Rightarrow> bytes \<Rightarrow> bytes" where
  "reverse_loop 0 j b = b"
| "reverse_loop (Suc n) j b =
     (let k = length b - 1 - j in reverse_loop n (Suc j) (b[j := b ! k, k := b ! j]))"

definition int_to_string :: "u32 \<Rightarrow> bytes" where
  "int_to_string n =
     (if n = 0 then [0x30]
      else let is_negative = (sint n < 0);
               n = (if is_negative then - n else n);
               buffer = digit_loop n @ (if is_negative then [0x2D] else [])
           in reverse_loop (length buffer div 2) 0 buffer)"

fun digits_value :: "u32 \<Rightarrow> bytes \<Rightarrow> u32" where
  "digits_value result [] = result"
| "digits_value result (c # s) =
     (if 0x30 \<le> sint c \<and> sint c \<le> 0x39 then digits_value (result * 10 + (scast c - 0x30)) s else result)"

definition str_to_int :: "bytes \<Rightarrow> u32" where
  "str_to_int str =
     (if peek str = 0x2D then digits_value 0 (tl str) * -1
      else if peek str = 0x2B then digits_value 0 (tl str)
      else digits_value 0 str)"

definition str_to_uint :: "bytes \<Rightarrow> u32" where
  "str_to_uint s = digits_value 0 s"

definition atoi :: "bytes \<Rightarrow> u32" where
  "atoi s = str_to_int s"

section \<open>Validation, redirection\<close>

fun validate_string :: "bytes \<Rightarrow> nat \<Rightarrow> bool" where
  "validate_string s 0 = True"
| "validate_string s (Suc max_length) =
     (if peek s = 0 then True
      else if sint (peek s) < 32 \<or> sint (peek s) > 126 then False
      else validate_string (tl s) max_length)"

definition validate_file_path :: "bytes \<Rightarrow> bool" where
  "validate_file_path path =
     (if strstr path [0x2E, 0x2E] \<noteq> None \<or> strstr path [0x2F, 0x2F] \<noteq> None \<or> strstr path [0x5C] \<noteq> None then False
      else if peek path = 0x2F then False
      else validate_string path 256)"

fun redir_cmd :: "nat \<Rightarrow> bytes \<Rightarrow> bytes \<times> bool \<times> bytes" where
  "redir_cmd 0 input = ([], False, input)"
| "redir_cmd (Suc room) input =
     (if peek input = 0 then ([], False, input)
      else if peek input = 0x3E then ([], True, tl input)
      else case redir_cmd room (tl input) of (cmd, found, rest) \<Rightarrow> (peek input # cmd, found, rest))"

fun skip_spaces :: "bytes \<Rightarrow> bytes" where
  "skip_spaces [] = []"
| "skip_spaces (c # s) = (if c = 0x20 then skip_spaces s else c # s)"

fun redir_file :: "nat \<Rightarrow> bytes \<Rightarrow> bytes" where
  "redir_file 0 input = []"
| "redir_file (Suc room) input =
     (if peek input \<noteq> 0 \<and> peek input \<noteq> 0x20 then peek input # redir_file room (tl input) else [])"

text \<open>The results are the two strings written and, as a bool, the number returned.\<close>

definition parse_redirection :: "bytes \<Rightarrow> bytes \<times> bytes option \<times> bool" where
  "parse_redirection input =
     (case redir_cmd 255 input of (cmd, found, rest) \<Rightarrow>
        if \<not> found then (cmd, None, False) else (cmd, Some (redir_file 63 (skip_spaces rest)), True))"

section \<open>What they compute\<close>

lemma cstr_Cons: "cstr (c # s) = (if c = 0 then [] else c # cstr s)"
  by (simp add: cstr_def)

lemma cstr_Nil [simp]: "cstr [] = []"
  by (simp add: cstr_def)

lemma peek_cstr: "peek s = peek (cstr s)"
  by (cases s) (simp_all add: cstr_Cons)

lemma peek_0: "peek s = 0 \<longleftrightarrow> cstr s = []"
  by (cases s) (simp_all add: cstr_Cons)

lemma sint_0 [simp]: "sint (c :: u8) = 0 \<longleftrightarrow> c = 0"
  by (rule signed_eq_0_iff)

lemma sint_diff_0 [simp]: "sint (c :: u8) - sint d = 0 \<longleftrightarrow> c = d" "sint c = sint d \<longleftrightarrow> c = d"
  by (auto intro: signed_word_eqI)

lemma strcmp_0: "strcmp s t = 0 \<longleftrightarrow> cstr s = cstr t"
proof (induction s arbitrary: t)
  case Nil
  show ?case using peek_0 [of t] by auto
next
  case (Cons a s)
  then show ?case by (cases t) (auto simp: cstr_Cons)
qed

lemma strncmp_0: "strncmp s t n = 0 \<longleftrightarrow> take n (cstr s) = take n (cstr t)"
proof (induction n arbitrary: s t)
  case (Suc n)
  then show ?case by (cases s; cases t) (auto simp: cstr_Cons)
qed simp

lemma strlen_scan: "length (cstr p) < n \<Longrightarrow> strlen_scan n i p = i + length (cstr p)"
proof (induction n arbitrary: i p)
  case (Suc n)
  then show ?case by (cases p) (auto simp: cstr_Cons)
qed simp

lemma strlen: "length (cstr p) < 16384 \<Longrightarrow> strlen p = length (cstr p)"
  by (simp add: strlen_def strlen_scan)

lemma strchr_None: "strchr s c = None \<longleftrightarrow> c \<noteq> 0 \<and> c \<notin> set (cstr s)"
proof (cases "first_idx (\<lambda>i. cstr s ! i = c) (length (cstr s))")
  case None
  then have "c \<notin> set (cstr s)" unfolding first_idx_None by (metis in_set_conv_nth)
  then show ?thesis using None by (simp add: strchr_def)
next
  case (Some i)
  then have "c \<in> set (cstr s)" unfolding first_idx_Some by auto
  then show ?thesis using Some by (simp add: strchr_def)
qed

text \<open>The idiom \<open>strncpy(buf, s, n); buf[n - 1] = 0\<close> gives the first \<open>n - 1\<close> bytes.\<close>

lemma take_cstr: "n \<le> length (cstr s) \<Longrightarrow> take n s = take n (cstr s)"
proof (induction s arbitrary: n)
  case (Cons a s)
  then show ?case by (cases n) (auto simp: cstr_Cons split: if_splits)
qed simp

lemma length_cstr: "length (cstr s) \<le> length s"
  unfolding cstr_def by (rule length_takeWhile_le)

lemma strncpy_eq:
  assumes "n \<le> length dest"
  shows "strncpy dest s n = take n (cstr s) @ replicate (n - length (cstr s)) 0 @ drop n dest"
proof (cases "length (cstr s) \<le> n")
  case True
  then show ?thesis using assms take_cstr [of "length (cstr s)" s] length_cstr [of s] by (simp add: strncpy_def Let_def blit_def min_def)
next
  case False
  then show ?thesis using assms take_cstr [of n s] length_cstr [of s] by (simp add: strncpy_def Let_def blit_def min_def)
qed

lemma length_strncpy [simp, len_simps]: "n \<le> length dest \<Longrightarrow> length (strncpy dest s n) = length dest"
  by (auto simp: strncpy_eq)

lemma cstr_strncpy:
  assumes "0 < n" "n \<le> length dest"
  shows "cstr ((strncpy dest s n)[n - 1 := 0]) = take (n - 1) (cstr s)"
proof (rule cstr_eqI)
  show "0 \<notin> set (take (n - 1) (cstr s))" by (meson in_set_takeD zero_notin_cstr)
  show "take (length (take (n - 1) (cstr s))) ((strncpy dest s n)[n - 1 := 0]) = take (n - 1) (cstr s)"
    using assms by (simp add: strncpy_eq min_def)
  show "length (take (n - 1) (cstr s)) < length ((strncpy dest s n)[n - 1 := 0])" using assms by simp
  show "(strncpy dest s n)[n - 1 := 0] ! length (take (n - 1) (cstr s)) = 0"
    using assms by (auto simp: strncpy_eq min_def nth_list_update nth_append)
qed

section \<open>Numbers and strings\<close>

lemma reverse_loop:
  assumes "2 * (n + j) = length b \<or> 2 * (n + j) + 1 = length b"
  shows "reverse_loop n j b = take j b @ rev (drop j (take (length b - j) b)) @ drop (length b - j) b"
  using assms
proof (induction n arbitrary: j b)
  case 0
  then have "length b = j + j \<or> length b = Suc (j + j)" by auto
  then show ?case by (auto intro!: nth_equalityI simp: nth_append rev_nth)
next
  case (Suc n)
  let ?k = "length b - 1 - j"
  let ?b = "b[j := b ! ?k, ?k := b ! j]"
  have jk: "j < ?k" "?k < length b" using Suc.prems by auto
  have "reverse_loop (Suc n) j b = take (Suc j) ?b @ rev (drop (Suc j) (take (length b - Suc j) ?b)) @ drop (length b - Suc j) ?b"
    using Suc.IH [of "Suc j" ?b] Suc.prems by (simp add: Let_def)
  also have "\<dots> = take j b @ rev (drop j (take (length b - j) b)) @ drop (length b - j) b"
  proof (rule nth_equalityI)
    show "length (take (Suc j) ?b @ rev (drop (Suc j) (take (length b - Suc j) ?b)) @ drop (length b - Suc j) ?b)
        = length (take j b @ rev (drop j (take (length b - j) b)) @ drop (length b - j) b)"
      using jk by simp
  next
    fix i assume "i < length (take (Suc j) ?b @ rev (drop (Suc j) (take (length b - Suc j) ?b)) @ drop (length b - Suc j) ?b)"
    then have i: "i < length b" using jk by simp
    consider "i < j" | "i = j" | "j < i" "i < ?k" | "i = ?k" | "?k < i" by linarith
    then show "(take (Suc j) ?b @ rev (drop (Suc j) (take (length b - Suc j) ?b)) @ drop (length b - Suc j) ?b) ! i
        = (take j b @ rev (drop j (take (length b - j) b)) @ drop (length b - j) b) ! i"
      using jk i by cases (auto simp: nth_append rev_nth nth_list_update Suc_diff_Suc)
  qed
  finally show ?case .
qed

lemma reverse_loop_rev: "reverse_loop (length b div 2) 0 b = rev b"
  by (subst reverse_loop) auto

lemma sint_u32: "sint (n :: u32) = (if unat n < 2147483648 then int (unat n) else int (unat n) - 4294967296)"
proof -
  have lt: "uint n < 4294967296" using uint_lt2p [of n] by simp
  have bit: "bit (uint n) 31 \<longleftrightarrow> \<not> uint n < 2147483648"
  proof -
    have "uint n div 2147483648 = (if uint n < 2147483648 then 0 else 1)"
      using lt by (auto simp: div_pos_pos_trivial intro!: int_div_pos_eq [where r = "uint n - 2147483648"])
    then show ?thesis by (simp add: bit_iff_odd)
  qed
  have "sint n = uint n - 4294967296 * of_bool (bit (uint n) 31)"
    by (simp add: sint_uint signed_take_bit_eq_take_bit_minus take_bit_int_eq_self lt)
  moreover have u: "uint n = int (unat n)" by simp
  moreover have "uint n < 2147483648 \<longleftrightarrow> unat n < 2147483648" unfolding u by linarith
  ultimately show ?thesis using bit by (cases "unat n < 2147483648") (simp_all del: int_nat_eq of_nat_unat)
qed

lemma digit_word: "d < 10 \<Longrightarrow> scast (0x30 + of_nat d :: u8) - 0x30 = (of_nat d :: u32) \<and>
    0x30 \<le> sint (0x30 + of_nat d :: u8) \<and> sint (0x30 + of_nat d :: u8) \<le> 0x39"
proof -
  assume d: "d < 10"
  consider "d = 0" | "d = 1" | "d = 2" | "d = 3" | "d = 4" | "d = 5" | "d = 6" | "d = 7" | "d = 8" | "d = 9"
    using d by (auto simp: less_Suc_eq eval_nat_numeral)
  then show ?thesis by cases simp_all
qed

lemma digits_value_snoc:
  "\<forall>c \<in> set s. 0x30 \<le> sint c \<and> sint c \<le> 0x39 \<Longrightarrow> 0x30 \<le> sint c \<Longrightarrow> sint c \<le> 0x39 \<Longrightarrow>
   digits_value r (s @ [c]) = digits_value r s * 10 + (scast c - 0x30)"
  by (induction s arbitrary: r) auto

declare digit_loop.simps [simp del]

lemma digit_loop:
  "0 < unat n \<Longrightarrow> unat n < 2147483648 \<Longrightarrow>
   digits_value 0 (rev (digit_loop n)) = n \<and> (\<forall>c \<in> set (digit_loop n). 0x30 \<le> sint c \<and> sint c \<le> 0x39) \<and> digit_loop n \<noteq> []"
proof (induction n rule: digit_loop.induct)
  case (1 n)
  let ?c = "0x30 + ucast (n mod 10) :: u8"
  have "sint n = int (unat n)" unfolding sint_u32 using "1.prems" by (simp only: if_True)
  then have pos: "sint n > 0" using "1.prems" by linarith
  have m: "unat n mod 10 = unat (n mod 10)" by (simp add: unat_mod)
  have c: "?c = 0x30 + of_nat (unat n mod 10)" by (simp add: m)
  note d = digit_word [of "unat n mod 10", folded c]
  have eq: "n = (n div 10) * 10 + of_nat (unat n mod 10)"
    using word_mod_div_equality [of n 10] by (simp add: m add.commute)
  have step: "digit_loop n = ?c # digit_loop (n div 10)" using pos by (subst digit_loop.simps) simp
  show ?case
  proof (cases "n div 10 = 0")
    case True
    then have "digit_loop (n div 10) = []" by (subst digit_loop.simps) simp
    then show ?thesis using step d eq True by simp
  next
    case False
    then have "0 < unat (n div 10)" unfolding unat_gt_0 .
    moreover have "unat (n div 10) < 2147483648" using "1.prems" by (simp add: unat_div)
    ultimately show ?thesis using "1.IH" [OF pos] step d eq digits_value_snoc [of "rev (digit_loop (n div 10))" ?c 0]
      by (auto simp del: digits_value.simps)
  qed
qed

text \<open>The decimal representation of every \<open>int\<close> reads back as the number, except for the smallest,
  whose negation overflows: its representation is the sign alone.\<close>


section \<open>Paths\<close>

lemma strstr_from_None:
  "0 \<notin> set needle \<Longrightarrow> needle \<noteq> [] \<Longrightarrow> strstr_from (length needle) i s needle = None \<longleftrightarrow> \<not> sublist needle (cstr s)"
proof (induction s arbitrary: i)
  case (Cons a s)
  have "strncmp (a # s) needle (length needle) = 0 \<longleftrightarrow> prefix needle (cstr (a # s))"
    using Cons.prems by (auto simp: strncmp_0 prefix_def) (metis append_take_drop_id)
  then show ?case using Cons by (simp add: cstr_Cons sublist_Cons_right)
qed simp

lemma strstr_None:
  assumes "0 \<notin> set needle" "needle \<noteq> []" "length needle < 16384"
  shows "strstr s needle = None \<longleftrightarrow> \<not> sublist needle (cstr s)"
proof -
  have "peek needle \<noteq> 0" using assms(1,2) by (cases needle) auto
  then show ?thesis using assms strlen [of needle] strstr_from_None [of needle 0 s] by (simp add: strstr_def)
qed

lemma validate_string: "validate_string s n \<longleftrightarrow> (\<forall>c \<in> set (take n (cstr s)). 32 \<le> sint c \<and> sint c \<le> 126)"
proof (induction n arbitrary: s)
  case (Suc n)
  then show ?case by (cases s) (auto simp: cstr_Cons not_less)
qed simp

text \<open>validate_file_path accepts exactly the relative paths without "..", "//" and backslashes
  whose first 256 characters are printable ASCII; what follows these is not inspected.\<close>

theorem validate_file_path_spec:
  "validate_file_path path \<longleftrightarrow> \<not> sublist [0x2E, 0x2E] (cstr path) \<and> \<not> sublist [0x2F, 0x2F] (cstr path) \<and> 0x5C \<notin> set (cstr path)
     \<and> (cstr path = [] \<or> hd (cstr path) \<noteq> 0x2F) \<and> set (take 256 (cstr path)) \<subseteq> {32..126}"
proof -
  have one: "sublist [c] xs \<longleftrightarrow> c \<in> set xs" for c :: u8 and xs
    by (induction xs) (auto simp: sublist_Cons_right)
  have hd: "peek path \<noteq> 0x2F \<longleftrightarrow> cstr path = [] \<or> hd (cstr path) \<noteq> 0x2F"
    by (cases path) (simp_all add: cstr_Cons)
  have range: "32 \<le> sint c \<and> sint c \<le> 126 \<longleftrightarrow> c \<in> {32..126}" for c :: u8
  proof -
    have "\<forall>c \<in> set (map (word_of_nat :: nat \<Rightarrow> u8) [0..<256]). (32 \<le> sint c \<and> sint c \<le> 126) = (32 \<le> c \<and> c \<le> 126)" by code_simp
    moreover have "c = word_of_nat (unat c)" "unat c < 256" using unsigned_less [of c, where 'a = nat] by simp_all
    ultimately show ?thesis by (metis atLeastAtMost_iff atLeastLessThan_iff image_eqI list.set_map set_upt zero_le)
  qed
  have "validate_string path 256 \<longleftrightarrow> set (take 256 (cstr path)) \<subseteq> {32..126}"
    unfolding validate_string range by blast
  then show ?thesis unfolding validate_file_path_def hd [symmetric]
    by (simp add: strstr_None one)
qed

theorem validate_file_path_spec_witness:
  "validate_file_path [0x61, 0x2F, 0x62, 0] \<and> set (take 256 (cstr [0x61, 0x2F, 0x62, 0])) \<subseteq> {32..126}"
proof -
  have "validate_file_path [0x61, 0x2F, 0x62, 0]" by code_simp
  then show ?thesis using validate_file_path_spec [of "[0x61, 0x2F, 0x62, 0]"] by blast
qed

text \<open>The components of a path: its maximal pieces without the separator.\<close>

fun split_path :: "bytes \<Rightarrow> bytes list" where
  "split_path [] = [[]]"
| "split_path (c # s) = (if c = 0x2F then [] # split_path s else (c # hd (split_path s)) # tl (split_path s))"

definition components :: "bytes \<Rightarrow> bytes list" where
  "components s = filter (\<lambda>t. t \<noteq> []) (split_path s)"

lemma split_path_Nil [simp]: "split_path s \<noteq> []"
  by (cases s) simp_all

abbreviation slash :: bytes where "slash \<equiv> [0x2F]"

lemma strchr_slash: "c \<noteq> 0 \<Longrightarrow> strchr slash c = None \<longleftrightarrow> c \<noteq> 0x2F"
  by (simp add: strchr_None)

lemma skip_slashes: "0 \<notin> set s \<Longrightarrow> components (skip_delims slash s) = components s"
  by (induction s) (auto simp: strchr_slash components_def)

lemma skip_slashes_hd: "0 \<notin> set s \<Longrightarrow> skip_delims slash s = [] \<or> (\<exists>c r. skip_delims slash s = c # r \<and> c \<noteq> 0x2F)"
  by (induction s) (auto simp: strchr_slash)

lemma skip_delims_suffix: "suffix (skip_delims d s) s"
  by (induction s) (auto intro: suffix_ConsI)

lemma token_end_split:
  "0 \<notin> set s \<Longrightarrow> token_end slash s = (t, r) \<Longrightarrow>
   s = t @ r \<and> split_path s = t # (if r = [] then [] else split_path (tl r)) \<and> (r = [] \<or> hd r = 0x2F)"
proof (induction s arbitrary: t r)
  case (Cons c s)
  obtain t' r' where "token_end slash s = (t', r')" by fastforce
  then show ?case using Cons strchr_slash [of c] by (cases "c = 0x2F") auto
qed simp

lemma strtok_components:
  assumes "0 \<notin> set s"
  shows "case components s of [] \<Rightarrow> fst (strtok_r slash s) = None
    | t # ts \<Rightarrow> \<exists>r. strtok_r slash s = (Some t, r) \<and> components r = ts \<and> 0 \<notin> set r \<and> length r < length s"
proof -
  let ?k = "skip_delims slash s"
  have k0: "0 \<notin> set ?k" and len: "length ?k \<le> length s"
    using assms skip_delims_suffix [of slash s] by (auto dest: set_mono_suffix suffix_length_le)
  show ?thesis
  proof (cases ?k)
    case Nil
    then show ?thesis using skip_slashes [OF assms] by (simp add: strtok_r_def components_def split: list.split)
  next
    case (Cons c u)
    then have c: "c \<noteq> 0x2F" "c \<noteq> 0" using skip_slashes_hd [OF assms] k0 by auto
    obtain t r where tr: "token_end slash ?k = (t, r)" by fastforce
    note te = token_end_split [OF k0 tr]
    have t: "t \<noteq> []" using te Cons c by (cases t) auto
    have r0: "0 \<notin> set r" "length r < length ?k" using te k0 t by (auto simp del: Cons)
    have comp: "components s = t # components (if peek r \<noteq> 0 then tl r else r)"
      using te t r0 skip_slashes [OF assms, symmetric] by (cases r) (auto simp: components_def)
    have "strtok_r slash s = (Some t, if peek r \<noteq> 0 then tl r else r)"
      using c Cons tr by (simp add: strtok_r_def Let_def)
    then show ?thesis using comp r0 len by (cases r) auto
  qed
qed

end
