(* ===== verification/UserElf.thy ===== *)
theory UserElf
  imports UserTask CStr
begin

text \<open>
  The program loader of \<open>src/cpu/user_elf.c\<close>: the checks of an ELF32 file, the interpreter that a
  program may name, the mapping of its segments and of the stack, the initial stack with the
  arguments, and the entry into ring 3; and \<open>user_task_cleanup_mappings\<close> of \<open>utilities/util.c\<close>.
  The file in memory is \<open>elf_byte\<close>: offsets behind its end, which the code may reach by 32-bit
  overflow, read what lies in memory there (\<open>ee_beyond\<close>). A load that never ends is \<open>None\<close>; printed
  messages are left out.
\<close>

section \<open>Environment and results\<close>

record 'm elf_env =
  ee_kern :: "kcall \<Rightarrow> 'm \<Rightarrow> u32 \<times> 'm"
  ee_stat :: "u8 \<Rightarrow> bytes \<Rightarrow> 'm \<Rightarrow> (bool \<times> int) option"
  ee_read :: "u8 \<Rightarrow> bytes \<Rightarrow> int \<Rightarrow> 'm \<Rightarrow> bytes option \<times> 'm"
  ee_beyond :: "u32 \<Rightarrow> u8"

text \<open>Control leaves to user mode or comes back with a value.\<close>

datatype 'r control = Ring3 | Back 'r

abbreviation (input) PAGE_SIZE :: u32 where "PAGE_SIZE \<equiv> 4096"
abbreviation (input) USER_CODE_BASE :: u32 where "USER_CODE_BASE \<equiv> 0x00400000"
abbreviation (input) USER_STACK_BASE :: u32 where "USER_STACK_BASE \<equiv> 0xB0000000"
abbreviation (input) USER_STACK_TOP :: u32 where "USER_STACK_TOP \<equiv> 0xC0000000"
abbreviation (input) USER_ELF_MAX_FILE_BYTES :: int where "USER_ELF_MAX_FILE_BYTES \<equiv> 16777216"
abbreviation (input) USER_ELF_INITIAL_STACK_PAGES :: u32 where "USER_ELF_INITIAL_STACK_PAGES \<equiv> 8"
abbreviation (input) USER_ELF_MAX_ARGC :: nat where "USER_ELF_MAX_ARGC \<equiv> 32"
abbreviation (input) USER_ELF_MAX_ARG_BYTES :: u32 where "USER_ELF_MAX_ARG_BYTES \<equiv> 2048"
abbreviation (input) PT_LOAD :: u32 where "PT_LOAD \<equiv> 1"
abbreviation (input) PT_INTERP :: u32 where "PT_INTERP \<equiv> 3"

definition user_elf_ctx_allow :: "u32 \<Rightarrow> u32 \<Rightarrow> 'a utask_scheme \<Rightarrow> bool \<times> 'a utask_scheme" where
  "user_elf_ctx_allow caps cost s =
     (case ctx_allow caps cost (kctx.truncate s) of (ok, k) \<Rightarrow> (ok, kctx.extend k (kctx.more s)))"

definition align_down :: "u32 \<Rightarrow> u32 \<Rightarrow> u32" where
  "align_down v a = v AND NOT (a - 1)"

definition align_up :: "u32 \<Rightarrow> u32 \<Rightarrow> u32" where
  "align_up v a = (v + a - 1) AND NOT (a - 1)"

text \<open>The addresses of the loop \<open>for (va = first; va < end; va += PAGE_SIZE)\<close>.\<close>

definition pages_between :: "u32 \<Rightarrow> u32 \<Rightarrow> u32 list" where
  "pages_between first end' =
     (if first < end' then map (\<lambda>k. first + of_nat k * PAGE_SIZE) [0..<(unat (end' - first) + 4095) div 4096] else [])"

section \<open>Reading the file\<close>

definition elf_byte :: "(u32 \<Rightarrow> u8) \<Rightarrow> bytes \<Rightarrow> u32 \<Rightarrow> u8" where
  "elf_byte beyond file off = (if unat off < length file then file ! unat off else beyond off)"

definition rd16 :: "(u32 \<Rightarrow> u8) \<Rightarrow> u32 \<Rightarrow> u16" where
  "rd16 b off = get16 [b off, b (off + 1)] 0"

definition rd32 :: "(u32 \<Rightarrow> u8) \<Rightarrow> u32 \<Rightarrow> u32" where
  "rd32 b off = get32 [b off, b (off + 1), b (off + 2), b (off + 3)] 0"

definition rd_bytes :: "(u32 \<Rightarrow> u8) \<Rightarrow> u32 \<Rightarrow> nat \<Rightarrow> bytes" where
  "rd_bytes b off n = map (\<lambda>k. b (off + of_nat k)) [0..<n]"

record elf_phdr =
  p_type :: u32
  p_offset :: u32
  p_vaddr :: u32
  p_filesz :: u32
  p_memsz :: u32

definition elf_phdr_at :: "(u32 \<Rightarrow> u8) \<Rightarrow> u32 \<Rightarrow> elf_phdr" where
  "elf_phdr_at b off = \<lparr>p_type = rd32 b off, p_offset = rd32 b (off + 4), p_vaddr = rd32 b (off + 8),
     p_filesz = rd32 b (off + 16), p_memsz = rd32 b (off + 20)\<rparr>"

definition e_entry :: "(u32 \<Rightarrow> u8) \<Rightarrow> u32" where "e_entry b = rd32 b 24"
definition e_phoff :: "(u32 \<Rightarrow> u8) \<Rightarrow> u32" where "e_phoff b = rd32 b 28"
definition e_phentsize :: "(u32 \<Rightarrow> u8) \<Rightarrow> u32" where "e_phentsize b = ucast (rd16 b 42)"
definition e_phnum :: "(u32 \<Rightarrow> u8) \<Rightarrow> u32" where "e_phnum b = ucast (rd16 b 44)"

definition elf_phdrs :: "(u32 \<Rightarrow> u8) \<Rightarrow> elf_phdr list" where
  "elf_phdrs b = map (\<lambda>i. elf_phdr_at b (e_phoff b + of_nat i * e_phentsize b)) [0..<unat (e_phnum b)]"

text \<open>The checks of the header and of the place of the program headers; \<open>n\<close> bytes were read.\<close>

definition elf_header_ok :: "(u32 \<Rightarrow> u8) \<Rightarrow> nat \<Rightarrow> bool" where
  "elf_header_ok b n \<longleftrightarrow>
     \<not> n < 52
     \<and> b 0 = 0x7F \<and> b 1 = 0x45 \<and> b 2 = 0x4C \<and> b 3 = 0x46
     \<and> b 4 = 1 \<and> b 5 = 1 \<and> rd16 b 18 = 3
     \<and> e_phoff b \<noteq> 0 \<and> \<not> e_phentsize b < 32 \<and> e_phnum b \<noteq> 0
     \<and> \<not> e_phoff b + e_phnum b * e_phentsize b > of_nat n"

text \<open>The path of the interpreter: the first header of type \<open>PT_INTERP\<close> inside the file, at most
  255 bytes of it, up to the terminator.\<close>

definition elf_interp :: "(u32 \<Rightarrow> u8) \<Rightarrow> nat \<Rightarrow> bytes" where
  "elf_interp b n =
     (case List.find (\<lambda>ph. p_type ph = PT_INTERP \<and> p_offset ph + p_filesz ph \<le> of_nat n) (elf_phdrs b) of
        None \<Rightarrow> []
      | Some ph \<Rightarrow> takeWhile (\<lambda>c. c \<noteq> 0)
          (rd_bytes b (p_offset ph) (unat (if p_filesz ph \<ge> 256 then 255 else p_filesz ph))))"

definition user_elf_resolve_interp_path :: "bytes \<Rightarrow> bytes \<Rightarrow> bytes" where
  "user_elf_resolve_interp_path prog interp =
     (if interp = [] then []
      else if hd interp = 0x2F \<or> prog = [] \<or> hd prog \<noteq> 0x2F then take 255 interp
      else
        let prefix_len = (case strrchr prog 0x2F of Some d \<Rightarrow> d + 1 | None \<Rightarrow> 1);
            prefix_len = (if prefix_len \<ge> 256 then 255 else prefix_len);
            rel = (if take 2 interp = [0x2E, 0x2F] then drop 2 interp else interp)
        in take 255 (take prefix_len prog @ rel))"

text \<open>The span of the loadable segments: lowest and highest address and their number.\<close>

definition elf_span :: "elf_phdr list \<Rightarrow> u32 \<times> u32 \<times> nat" where
  "elf_span phs =
     fold (\<lambda>ph (lo, hi, k). if p_type ph \<noteq> PT_LOAD \<or> p_memsz ph = 0 then (lo, hi, k)
        else let lo = (if p_vaddr ph < lo then p_vaddr ph else lo);
                 end' = p_vaddr ph + p_memsz ph;
                 hi = (if end' > hi then end' else hi)
             in (lo, hi, Suc k)) phs (0xFFFFFFFF, 0, 0)"

text \<open>The range to map: start and number of pages, or a refusal.\<close>

definition elf_range :: "elf_phdr list \<Rightarrow> (u32 \<times> u32) option" where
  "elf_range phs =
     (case elf_span phs of (min_vaddr, max_vaddr, load_count) \<Rightarrow>
        if load_count = 0 \<or> min_vaddr = 0xFFFFFFFF \<or> max_vaddr \<le> min_vaddr then None
        else
          let map_start = align_down min_vaddr PAGE_SIZE; map_end = align_up max_vaddr PAGE_SIZE in
          if map_start < USER_CODE_BASE \<or> map_end \<ge> USER_STACK_BASE then None
          else
            let pages = (map_end - map_start) div PAGE_SIZE in
            if pages = 0 \<or> pages > 16384 then None else Some (map_start, pages))"

section \<open>The initial stack\<close>

text \<open>Strings from the last to the first, each below the one before; the pointers come out in the
  order of the strings. The writes are those made so far, also when there is no room left.\<close>

fun push_strings :: "u32 \<Rightarrow> bytes list \<Rightarrow> u32 \<Rightarrow> u32 \<Rightarrow> u32 list \<Rightarrow> (u32 \<times> bytes) list \<Rightarrow> (u32 \<times> u32 \<times> u32 list) option \<times> (u32 \<times> bytes) list" where
  "push_strings floor [] sp tot ptrs ws = (Some (sp, tot, ptrs), ws)"
| "push_strings floor (str # strs) sp tot ptrs ws =
     (let len = of_nat (length str) + 1;
          tot = tot + len;
          sp' = sp - len
      in if tot > USER_ELF_MAX_ARG_BYTES then (None, ws)
         else if sp' < floor then (None, ws)
         else push_strings floor strs sp' tot (sp' # ptrs) (ws @ [(sp', str @ [0])]))"

fun push_words :: "u32 \<Rightarrow> u32 list \<Rightarrow> u32 \<Rightarrow> (u32 \<times> bytes) list \<Rightarrow> u32 option \<times> (u32 \<times> bytes) list" where
  "push_words floor [] sp ws = (Some sp, ws)"
| "push_words floor (v # vs) sp ws =
     (let sp' = sp - 4 in
      if sp' < floor then (None, ws) else push_words floor vs sp' (ws @ [(sp', bytes_of32 v)]))"

definition stack_argv :: "bytes \<Rightarrow> bytes option list \<Rightarrow> bytes list" where
  "stack_argv prog argv = prog # take (USER_ELF_MAX_ARGC - 1) (map the (filter (\<lambda>a. a \<noteq> None) argv))"

definition user_stack_build_argv :: "u32 \<Rightarrow> u32 \<Rightarrow> bytes \<Rightarrow> bytes option list \<Rightarrow> bytes list \<Rightarrow> u32 option \<times> (u32 \<times> bytes) list" where
  "user_stack_build_argv stack_top floor prog argv envp =
     (let local_argv = stack_argv prog argv; env = take USER_ELF_MAX_ARGC envp in
      case push_strings floor (rev local_argv) stack_top 0 [] [] of
        (None, ws) \<Rightarrow> (None, ws)
      | (Some (sp, tot, argv_ptrs), ws) \<Rightarrow>
          (case push_strings floor (rev env) sp tot [] ws of
             (None, ws) \<Rightarrow> (None, ws)
           | (Some (sp, tot, env_ptrs), ws) \<Rightarrow>
               push_words floor ([0, 0, 0] @ rev env_ptrs @ [0] @ rev argv_ptrs @ [of_nat (length local_argv)])
                 (align_down sp 4) ws))"

section \<open>Mapping\<close>

definition user_task_cleanup_mappings :: "'m elf_env \<Rightarrow> 'm utask_scheme \<Rightarrow> 'm utask_scheme" where
  "user_task_cleanup_mappings env s =
     (let r = user_task_get_current_mapping_state s;
          s = (if code_base r \<noteq> 0 \<and> code_pages r \<noteq> 0
               then fold (\<lambda>i. do_call (ee_kern env) (Unmap_page (code_base r + of_nat i * PAGE_SIZE))) [0..<unat (code_pages r)] s
               else s);
          s = (if as_stack_bottom s \<ge> USER_STACK_BASE \<and> as_stack_bottom s < USER_STACK_TOP
               then fold (\<lambda>va. do_call (ee_kern env) (Unmap_page va)) (pages_between (as_stack_bottom s) USER_STACK_TOP) s
               else if stack_page r \<noteq> 0 then do_call (ee_kern env) (Unmap_page (stack_page r)) s
               else s);
          s = user_task_clear_current_mapping_state s;
          s = s\<lparr>g_user_segdom := (0x1B, 0x23), as_stack_bottom := USER_STACK_TOP - PAGE_SIZE\<rparr>
      in case call (ee_kern env) Pipeline_active s of (act, s) \<Rightarrow>
         let s = (if act = 0 then do_call (ee_kern env) Reset_user_fds s else s)
         in do_call (ee_kern env) Reset_user_streams s)"

text \<open>The loops over pages stop at the first failure.\<close>

fun map_demand :: "'m elf_env \<Rightarrow> u32 list \<Rightarrow> 'm utask_scheme \<Rightarrow> bool \<times> 'm utask_scheme" where
  "map_demand env [] s = (True, s)"
| "map_demand env (va # vas) s =
     (case call (ee_kern env) (Walk_demand va) s of (pte, s) \<Rightarrow>
        if pte = 0 then (False, s) else map_demand env vas s)"

text \<open>A fresh zeroed frame for each page, kept out of the page replacement for now.\<close>

fun map_fresh :: "'m elf_env \<Rightarrow> u32 list \<Rightarrow> 'm utask_scheme \<Rightarrow> bool \<times> 'm utask_scheme" where
  "map_fresh env [] s = (True, s)"
| "map_fresh env (va # vas) s =
     (case call (ee_kern env) Frame_alloc s of (frame, s) \<Rightarrow>
        if frame = 0 then (False, s)
        else case call (ee_kern env) (Map_page va frame) (do_call (ee_kern env) (Zero_frame frame) s) of (rc, s) \<Rightarrow>
          if rc \<noteq> 0 then (False, do_call (ee_kern env) (Frame_free frame) s)
          else map_fresh env vas (do_call (ee_kern env) (Clock_remove frame) s))"

definition segment_pages :: "elf_phdr \<Rightarrow> u32 list" where
  "segment_pages ph =
     pages_between (align_down (p_vaddr ph) PAGE_SIZE) (align_up (p_vaddr ph + p_filesz ph) PAGE_SIZE)"

fun load_segments :: "'m elf_env \<Rightarrow> (u32 \<Rightarrow> u8) \<Rightarrow> nat \<Rightarrow> elf_phdr list \<Rightarrow> 'm utask_scheme \<Rightarrow> bool \<times> 'm utask_scheme" where
  "load_segments env b n [] s = (True, s)"
| "load_segments env b n (ph # phs) s =
     (if p_type ph \<noteq> PT_LOAD \<or> p_memsz ph = 0 then load_segments env b n phs s
      else if p_filesz ph > p_memsz ph then (False, s)
      else if p_offset ph + p_filesz ph > of_nat n then (False, s)
      else case map_fresh env (segment_pages ph) s of (ok, s) \<Rightarrow>
        if \<not> ok then (False, s)
        else
          let s = (if p_filesz ph \<noteq> 0
                   then do_call (ee_kern env) (Copy_user (p_vaddr ph) (rd_bytes b (p_offset ph) (unat (p_filesz ph)))) s else s)
          in load_segments env b n phs s)"

definition user_stack_page_base :: u32 where
  "user_stack_page_base = USER_STACK_TOP - USER_ELF_INITIAL_STACK_PAGES * PAGE_SIZE"

text \<open>The state that a new program starts from.\<close>

definition begin_program :: "'m elf_env \<Rightarrow> 'm utask_scheme \<Rightarrow> 'm utask_scheme" where
  "begin_program env s =
     (let s = user_task_cleanup_mappings env s;
          s = (if g_user_fd_inherit_mode s then s
               else (do_call (ee_kern env) Reset_user_fds s)\<lparr>g_user_stdio := (0, 1, 2)\<rparr>);
          s = do_call (ee_kern env) Reset_user_guis (do_call (ee_kern env) Reset_user_streams s);
          s = s\<lparr>g_user_interrupt := False, g_user_task_active := True\<rparr>
      in case call (ee_kern env) Focused_term s of (term, s) \<Rightarrow>
         let s = s\<lparr>g_user_task_term := (if sint term < 0 then 0 else sint term)\<rparr>
         in do_call (ee_kern env) (Stdin_clear (g_user_task_term s)) s)"

text \<open>The entry into ring 3: the pending process becomes the running one, and the slot that is
  being launched gets a frame to resume from.\<close>

definition entry_frame :: "u32 \<Rightarrow> u32 \<Rightarrow> 'a utask_scheme \<Rightarrow> regs_t" where
  "entry_frame entry esp s = zero_regs\<lparr>r_eip := entry, r_esp := esp, r_useresp := esp, r_cs := ucast (fst (g_user_segdom s)),
     r_ss := ucast (snd (g_user_segdom s)), r_eflags := 0x202\<rparr>"

definition enter_ring3 :: "'m elf_env \<Rightarrow> u32 \<Rightarrow> u32 \<Rightarrow> 'm utask_scheme \<Rightarrow> 'm utask_scheme" where
  "enter_ring3 env entry esp s =
     (let s = do_call (ee_kern env) Load_segdom (s\<lparr>g_user_segdom := (0x0F, 0x17)\<rparr>);
          g = g_user_task_runtime_generation s + 1;
          s = s\<lparr>g_user_task_running_pid := g_user_task_pending_pid s, g_user_task_pending_pid := 0,
                g_user_task_runtime_generation := (if g = 0 then 1 else g)\<rparr>
      in case g_user_task_active_slot s of None \<Rightarrow> s
         | Some i \<Rightarrow> set_task i (\<lambda>t. t\<lparr>ut_frame := entry_frame entry esp s, ut_has_frame := True,
             ut_frame_generation := g_user_task_runtime_generation s\<rparr>) s)"

text \<open>Loading a checked file without an interpreter, from the computation of its range on.\<close>

definition load_image :: "'m elf_env \<Rightarrow> (u32 \<Rightarrow> u8) \<Rightarrow> nat \<Rightarrow> u32 \<Rightarrow> bytes \<Rightarrow> bytes option list \<Rightarrow> bytes list \<Rightarrow>
    'm utask_scheme \<Rightarrow> int control \<times> 'm utask_scheme" where
  "load_image env b n file prog argv envp s =
     (let free = do_call (ee_kern env) (Free file); cleanup = user_task_cleanup_mappings env in
      case elf_range (elf_phdrs b) of None \<Rightarrow> (Back (-1), free s)
      | Some (map_start, pages) \<Rightarrow>
          let image_pages = map (\<lambda>i. map_start + of_nat i * PAGE_SIZE) [0..<unat pages];
              stack_pages = map (\<lambda>i. user_stack_page_base + of_nat i * PAGE_SIZE) [0..<unat USER_ELF_INITIAL_STACK_PAGES];
              map_end = map_start + pages * PAGE_SIZE;
              s = user_task_set_current_mapping_state map_start 0 0 (begin_program env s);
              s = s\<lparr>as_stack_bottom := USER_STACK_TOP - PAGE_SIZE\<rparr>
          in case map_demand env image_pages s of (ok, s) \<Rightarrow>
             if \<not> ok then (Back (-1), free (cleanup s))
             else
               let s = user_task_set_current_mapping_state map_start pages 0 s;
                   s = user_task_set_current_mapping_state map_start pages user_stack_page_base
                         (s\<lparr>as_stack_bottom := user_stack_page_base\<rparr>)
               in case map_fresh env stack_pages s of (ok, s) \<Rightarrow>
             if \<not> ok then (Back (-1), free (cleanup s))
             else case load_segments env b n (elf_phdrs b) s of (ok, s) \<Rightarrow>
             if \<not> ok then (Back (-1), free (cleanup s))
             else if e_entry b = 0 \<or> e_entry b < map_start \<or> e_entry b \<ge> map_end then (Back (-1), free (cleanup s))
             else
               let s = free s; (esp, ws) = user_stack_build_argv (USER_STACK_TOP - 0x10) user_stack_page_base prog argv envp;
                   s = fold (\<lambda>(va, bs). do_call (ee_kern env) (Copy_user va bs)) ws s
               in case esp of None \<Rightarrow> (Back (-1), cleanup s)
                  | Some esp \<Rightarrow>
                      let s = fold (\<lambda>va. do_call (ee_kern env) (Clock_add va)) (image_pages @ stack_pages) s
                      in (Ring3, enter_ring3 env (e_entry b) esp s))"

text \<open>The file in a buffer of the kernel, after the checks of context, size and memory.\<close>

definition elf_read_file :: "'m elf_env \<Rightarrow> u8 \<Rightarrow> bytes \<Rightarrow> 'm utask_scheme \<Rightarrow> (u32 \<times> bytes) option \<times> 'm utask_scheme" where
  "elf_read_file env drive prog s =
     (case user_elf_ctx_allow CAP_READ_FS SCHED_COST_FS s of (allow, s) \<Rightarrow>
      if \<not> allow then (None, s)
      else case ee_stat env drive prog (utask.more s) of None \<Rightarrow> (None, s)
      | Some (is_file, fsize) \<Rightarrow>
          if \<not> is_file \<or> fsize \<le> 0 then (None, s)
          else if fsize > USER_ELF_MAX_FILE_BYTES then (None, s)
          else case user_elf_ctx_allow CAP_ALLOC_MEMORY SCHED_COST_ALLOC s of (allow, s) \<Rightarrow>
          if \<not> allow then (None, s)
          else case call (ee_kern env) (Malloc (nat fsize)) s of (file, s) \<Rightarrow>
          if file = 0 then (None, s)
          else case user_elf_ctx_allow CAP_READ_FS SCHED_COST_FS s of (allow, s) \<Rightarrow>
            if \<not> allow then (None, do_call (ee_kern env) (Free file) s)
            else case ee_read env drive prog fsize (utask.more s) of (content, m) \<Rightarrow>
            let s = s\<lparr>utask.more := m\<rparr> in
            case content of None \<Rightarrow> (None, do_call (ee_kern env) (Free file) s)
            | Some data \<Rightarrow> (Some (file, data), s))"

text \<open>\<open>argv\<close> is the array of \<open>argc\<close> arguments, \<open>envp\<close> the environment up to its terminator.\<close>

partial_function (option) user_elf_run_argv :: "'m elf_env \<Rightarrow> u8 \<Rightarrow> bytes \<Rightarrow> bytes option list \<Rightarrow> bytes list \<Rightarrow>
    'm utask_scheme \<Rightarrow> (int control \<times> 'm utask_scheme) option" where
  "user_elf_run_argv env drive prog argv envp s =
     (if prog = [] then Some (Back (-1), s)
      else case elf_read_file env drive prog s of (None, s) \<Rightarrow> Some (Back (-1), s)
      | (Some (file, data), s) \<Rightarrow>
          let n = length data; b = elf_byte (ee_beyond env) data in
          if \<not> elf_header_ok b n then Some (Back (-1), do_call (ee_kern env) (Free file) s)
          else if elf_interp b n \<noteq> [] then
            let interp = user_elf_resolve_interp_path prog (elf_interp b n);
                interp_argv = take USER_ELF_MAX_ARGC (Some prog # filter (\<lambda>a. a \<noteq> None) argv)
            in user_elf_run_argv env drive (if interp = [] then elf_interp b n else interp)
                 (take (length interp_argv - 1) interp_argv) [] (do_call (ee_kern env) (Free file) s)
          else Some (load_image env b n file prog argv envp s))"

end
