(* ===== verification/UserRun.thy ===== *)
theory UserRun
  imports UserElf
begin

text \<open>
  Running user tasks (\<open>src/cpu/user_elf.c\<close>, \<open>user_task_abort_continue\<close> of \<open>utilities/util.c\<close>):
  launching a slot, spawning, choosing the next task, the switch at the end of a system call, and
  waiting for a child. Control that goes to user mode is \<open>Ring3\<close>; an operation that never ends is
  \<open>None\<close>. Preemption from the timer interrupt is off in the default configuration
  (\<open>CONFIG_SCHED_MLFQ_IRQ_PREEMPT = 0\<close>), so \<open>user_task_try_preempt_from_irq\<close> returns at once.
\<close>

section \<open>Images\<close>

abbreviation (input) USER_TASK_MAX_SPAWN_ARGC :: nat where "USER_TASK_MAX_SPAWN_ARGC \<equiv> 16"

text \<open>The strings of the arguments, NULL as the empty string; on failure those made so far are freed.\<close>

fun copy_args :: "'m elf_env \<Rightarrow> bytes option list \<Rightarrow> u32 list \<Rightarrow> 'm utask_scheme \<Rightarrow> u32 list option \<times> 'm utask_scheme" where
  "copy_args env [] ptrs s = (Some ptrs, s)"
| "copy_args env (a # args) ptrs s =
     (case call (ee_kern env) (Malloc (length (case a of None \<Rightarrow> [] | Some str \<Rightarrow> str) + 1)) s of (ptr, s) \<Rightarrow>
        if ptr = 0 then (None, fold (\<lambda>p. do_call (ee_kern env) (Free p)) ptrs s)
        else copy_args env args (ptrs @ [ptr]) s)"

definition user_task_image_build :: "'m elf_env \<Rightarrow> u8 \<Rightarrow> bytes \<Rightarrow> bytes option list \<Rightarrow> 'm utask_scheme \<Rightarrow>
    user_task_image option \<times> 'm utask_scheme" where
  "user_task_image_build env drive prog argv s =
     (if prog = [] then (None, s)
      else
        let argv = take USER_TASK_MAX_SPAWN_ARGC argv; free = (\<lambda>p. do_call (ee_kern env) (Free p)) in
        case call (ee_kern env) (Malloc 140) s of (ptr, s) \<Rightarrow>
        if ptr = 0 then (None, s)
        else case call (ee_kern env) (Malloc (length prog + 1)) s of (path_ptr, s) \<Rightarrow>
        if path_ptr = 0 then (None, free ptr s)
        else case copy_args env argv [] s of
          (None, s) \<Rightarrow> (None, free ptr (free path_ptr s))
        | (Some ptrs, s) \<Rightarrow>
            (Some \<lparr>im_ptr = ptr, im_drive = drive, im_path = prog, im_path_ptr = path_ptr,
                   im_argv = map (\<lambda>a. case a of None \<Rightarrow> [] | Some str \<Rightarrow> str) argv, im_arg_ptrs = ptrs\<rparr>, s))"

definition user_task_image_free :: "'m elf_env \<Rightarrow> user_task_image option \<Rightarrow> 'm utask_scheme \<Rightarrow> 'm utask_scheme" where
  "user_task_image_free env img s =
     (case img of None \<Rightarrow> s
      | Some im \<Rightarrow>
          let s = fold (\<lambda>p s. if p \<noteq> 0 then do_call (ee_kern env) (Free p) s else s) (im_arg_ptrs im) s;
              s = (if im_path_ptr im \<noteq> 0 then do_call (ee_kern env) (Free (im_path_ptr im)) s else s)
          in do_call (ee_kern env) (Free (im_ptr im)) s)"

section \<open>Launching\<close>

definition user_task_launch_slot :: "'m elf_env \<Rightarrow> nat \<Rightarrow> 'm utask_scheme \<Rightarrow> (int control \<times> 'm utask_scheme) option" where
  "user_task_launch_slot env i s =
     (case ut_image (task s i) of None \<Rightarrow> Some (Back (-1), s)
      | Some im \<Rightarrow>
          let s = user_task_runq_remove i s;
              s = (if ut_mlfq_slice_left (task s i) = 0
                   then set_task i (\<lambda>t. t\<lparr>ut_mlfq_slice_left := user_task_level_quantum_ticks (ucast (ut_mlfq_level t)) s\<rparr>) s else s);
              s = set_task i (\<lambda>t. t\<lparr>ut_state := RUNNING, ut_wait_target_pid := 0, ut_wait_gui_handle := -1, ut_wake_tick := 0,
                    ut_block_reason := BLOCK_NONE, ut_has_frame := False, ut_frame_generation := 0\<rparr>) s;
              s = s\<lparr>g_user_task_active_slot := Some i, g_user_task_pending_pid := ut_pid (task s i),
                    g_user_task_term := ut_origin_vterm (task s i)\<rparr>;
              s = user_task_apply_stdio_state i s
          in case user_elf_run_argv env (im_drive im) (im_path im) (map Some (im_argv im)) [] s of
               None \<Rightarrow> None
             | Some (Ring3, s) \<Rightarrow> Some (Ring3, s)
             | Some (Back rc, s) \<Rightarrow>
                 let s = s\<lparr>g_user_task_active_slot := None\<rparr>;
                     s = (if g_user_task_pending_pid s = ut_pid (task s i) then s\<lparr>g_user_task_pending_pid := 0\<rparr> else s);
                     s = (if g_user_task_running_pid s = ut_pid (task s i) then s\<lparr>g_user_task_running_pid := 0\<rparr> else s);
                     s = set_task i (\<lambda>t. t\<lparr>ut_state := ZOMBIE, ut_status := (if rc = 0 then 0 else -1)\<rparr>) s
                 in Some (Back rc, s))"

text \<open>The loop over the queued slots, until one can be launched.\<close>

partial_function (option) schedule_loop :: "'m elf_env \<Rightarrow> 'm utask_scheme \<Rightarrow> (bool control \<times> 'm utask_scheme) option" where
  "schedule_loop env s =
     (case user_task_runq_pop_highest s of
        (None, s) \<Rightarrow> Some (Back False, s)
      | (Some i, s) \<Rightarrow>
          if \<not> ut_used (task s i) \<or> ut_state (task s i) \<noteq> RUNNABLE then schedule_loop env s
          else
            let s = (if ut_mlfq_slice_left (task s i) = 0
                     then set_task i (\<lambda>t. t\<lparr>ut_mlfq_slice_left := user_task_level_quantum_ticks (ucast (ut_mlfq_level t)) s\<rparr>) s else s)
            in (case user_task_launch_slot env i s of None \<Rightarrow> None
                | Some (Ring3, s) \<Rightarrow> Some (Ring3, s)
                | Some (Back rc, s) \<Rightarrow> Some (Back True, s)))"

definition user_task_continue_or_schedule :: "'m elf_env \<Rightarrow> 'm utask_scheme \<Rightarrow> (bool control \<times> 'm utask_scheme) option" where
  "user_task_continue_or_schedule env s =
     schedule_loop env (user_task_mlfq_boost_if_due (user_task_runq_bootstrap s))"

definition user_task_poll_scheduler :: "'m elf_env \<Rightarrow> 'm utask_scheme \<Rightarrow> (bool control \<times> 'm utask_scheme) option" where
  "user_task_poll_scheduler env s =
     (if \<not> g_user_task_schedule_request s then Some (Back False, s)
      else if g_user_task_active s then Some (Back False, s)
      else case user_task_continue_or_schedule env s of None \<Rightarrow> None
        | Some (Ring3, s) \<Rightarrow> Some (Ring3, s)
        | Some (Back launched, s) \<Rightarrow> Some (Back launched, if launched then s else s\<lparr>g_user_task_schedule_request := False\<rparr>))"

text \<open>The part of \<open>user_task_abort_continue\<close> up to the scheduler: what happens after a task has left.\<close>

definition user_task_abort_continue :: "'m elf_env \<Rightarrow> 'm utask_scheme \<Rightarrow> (bool control \<times> 'm utask_scheme) option" where
  "user_task_abort_continue env s =
     (let s = kctx.extend (command_context_clear (kctx.truncate s)) (kctx.more s);
          s = user_task_cleanup_mappings env s;
          s = s\<lparr>g_user_task_active := False, g_user_task_term := -1\<rparr>
      in user_task_continue_or_schedule env s)"

section \<open>Spawning\<close>

definition fresh_slot :: "user_task_image \<Rightarrow> int \<Rightarrow> int \<Rightarrow> int \<Rightarrow> u32 \<Rightarrow> bool \<Rightarrow> int \<times> int \<times> int \<Rightarrow> user_task_slot" where
  "fresh_slot img pid parent vterm quantum inherit stdio =
     \<lparr>ut_used = True, ut_pid = pid, ut_parent_pid = parent, ut_status = 0, ut_state = RUNNABLE, ut_wait_target_pid = 0,
      ut_wait_gui_handle = -1, ut_wake_tick = 0, ut_block_reason = BLOCK_NONE, ut_mlfq_level = ucast SCHED_MLFQ_LEVEL_HIGH,
      ut_in_runq = False, ut_fd_inherit_mode = inherit, ut_stdio = stdio, ut_runq_next = -1, ut_origin_vterm = vterm,
      ut_mlfq_slice_left = quantum, ut_runtime = \<lparr>code_base = 0, code_pages = 0, stack_page = 0\<rparr>, ut_image = Some img,
      ut_sig_pending = 0, ut_sig_mask = 0, ut_sig_handler = replicate 32 0, ut_sig_saved_frame = zero_regs,
      ut_sig_saved_present = False, ut_has_frame = False, ut_frame_generation = 0, ut_frame = zero_regs\<rparr>"

text \<open>The body that the two spawn functions share; the result is the process number, \<open>-1\<close> if there is
  no slot or no memory.\<close>

definition spawn_with :: "'m elf_env \<Rightarrow> u8 \<Rightarrow> bytes \<Rightarrow> bytes option list \<Rightarrow> ('m utask_scheme \<Rightarrow> bool \<times> int \<times> int \<times> int) \<Rightarrow>
    'm utask_scheme \<Rightarrow> (int control \<times> 'm utask_scheme) option" where
  "spawn_with env drive prog argv stdio s =
     (case user_task_alloc_slot s of None \<Rightarrow> Some (Back (-1), s)
      | Some i \<Rightarrow>
          case user_task_image_build env drive prog argv s of (None, s) \<Rightarrow> Some (Back (-1), s)
          | (Some img, s) \<Rightarrow>
              let pid = g_user_task_next_pid s;
                  s = set_task i (\<lambda>_. fresh_slot img pid (g_user_task_running_pid s) (g_user_task_term s)
                        (user_task_level_quantum_ticks SCHED_MLFQ_LEVEL_HIGH s) (fst (stdio s)) (snd (stdio s))) s;
                  next = int32 (pid + 1);
                  s = s\<lparr>g_user_task_next_pid := (if next \<le> 0 then 1 else next)\<rparr>;
                  s = user_task_runq_enqueue i (user_task_runq_bootstrap s)
              in if g_user_task_active s then Some (Back pid, user_task_request_schedule s)
                 else case user_task_continue_or_schedule env s of None \<Rightarrow> None
                   | Some (Ring3, s) \<Rightarrow> Some (Ring3, s)
                   | Some (Back launched, s) \<Rightarrow> Some (Back (ut_pid (task s i)), s))"

definition user_task_spawn_argv :: "'m elf_env \<Rightarrow> u8 \<Rightarrow> bytes \<Rightarrow> bytes option list \<Rightarrow> 'm utask_scheme \<Rightarrow>
    (int control \<times> 'm utask_scheme) option" where
  "user_task_spawn_argv env drive prog argv s =
     spawn_with env drive prog argv (\<lambda>s. (g_user_fd_inherit_mode s, g_user_stdio s)) s"

definition user_task_spawn_argv_stdio :: "'m elf_env \<Rightarrow> u8 \<Rightarrow> bytes \<Rightarrow> bytes option list \<Rightarrow> int \<times> int \<times> int \<Rightarrow> bool \<Rightarrow>
    'm utask_scheme \<Rightarrow> (int control \<times> 'm utask_scheme) option" where
  "user_task_spawn_argv_stdio env drive prog argv stdio inherit_mode s =
     spawn_with env drive prog argv (\<lambda>_. (inherit_mode, stdio)) s"

section \<open>Switching at the end of a system call\<close>

definition user_task_runtime_matches_live :: "user_task_runtime \<Rightarrow> 'a utask_scheme \<Rightarrow> bool" where
  "user_task_runtime_matches_live rt s \<longleftrightarrow>
     code_base rt = code_base (g_user_runtime s) \<and> code_pages rt = code_pages (g_user_runtime s)
     \<and> stack_page rt = stack_page (g_user_runtime s)"

definition resumable :: "int \<Rightarrow> 'a utask_scheme \<Rightarrow> user_task_slot \<Rightarrow> bool" where
  "resumable current_pid s t \<longleftrightarrow> ut_used t \<and> ut_pid t \<noteq> current_pid \<and> ut_state t = RUNNABLE \<and> ut_has_frame t
     \<and> ut_frame_generation t = g_user_task_runtime_generation s \<and> user_task_runtime_matches_live (ut_runtime t) s"

definition resume_target :: "int \<Rightarrow> 'a utask_scheme \<Rightarrow> nat option" where
  "resume_target current_pid s =
     fold (\<lambda>i target. if \<not> resumable current_pid s (task s i) then target
        else case target of None \<Rightarrow> Some i
          | Some k \<Rightarrow> if ut_mlfq_level (task s i) > ut_mlfq_level (task s k) then Some i else Some k) [0..<USER_TASK_MAX] None"

text \<open>The frame to return to, if another task is resumed.\<close>

definition user_task_try_resume_from_syscall :: "'m elf_env \<Rightarrow> regs_t \<Rightarrow> 'm utask_scheme \<Rightarrow> regs_t option \<times> 'm utask_scheme" where
  "user_task_try_resume_from_syscall env regs s =
     (if \<not> g_user_task_schedule_request s then (None, s)
      else if \<not> g_user_task_active s then (None, s)
      else
        let s = user_task_mlfq_boost_if_due (user_task_runq_bootstrap s); current_pid = g_user_task_running_pid s in
        case user_task_find_slot_by_pid current_pid s of None \<Rightarrow> (None, s)
        | Some current \<Rightarrow>
            (case resume_target current_pid s of None \<Rightarrow> (None, s)
             | Some target \<Rightarrow>
                 let s = user_task_capture_stdio_state current s;
                     s = set_task current (\<lambda>t. t\<lparr>ut_frame := regs, ut_has_frame := True,
                           ut_frame_generation := g_user_task_runtime_generation s\<rparr>) s;
                     s = user_task_mlfq_account_preempt current s;
                     s = set_task current (\<lambda>t. t\<lparr>ut_state := RUNNABLE\<rparr>) s;
                     s = user_task_runq_remove target (user_task_runq_enqueue current s);
                     s = (if ut_mlfq_slice_left (task s target) = 0
                          then set_task target (\<lambda>t. t\<lparr>ut_mlfq_slice_left := user_task_level_quantum_ticks (ucast (ut_mlfq_level t)) s\<rparr>) s else s);
                     s = user_task_handle_pending (ee_kern env) target s;
                     regs = ut_frame (task s target);
                     s = user_task_apply_stdio_state target s;
                     s = set_task target (\<lambda>t. t\<lparr>ut_state := RUNNING\<rparr>) s
                 in (Some regs, s\<lparr>g_user_task_active_slot := Some target, g_user_task_running_pid := ut_pid (task s target),
                       g_user_task_term := ut_origin_vterm (task s target), g_user_task_schedule_request := False\<rparr>)))"

definition user_task_try_preempt_from_irq :: "'a utask_scheme \<Rightarrow> bool \<times> 'a utask_scheme" where
  "user_task_try_preempt_from_irq s = (False, s)"

section \<open>Waiting for a child\<close>

definition reap_slot :: "'m elf_env \<Rightarrow> nat \<Rightarrow> 'm utask_scheme \<Rightarrow> 'm utask_scheme" where
  "reap_slot env i s =
     (let s = user_task_runq_remove i s;
          s = user_task_image_free env (ut_image (task s i)) s;
          s = set_task i (\<lambda>t. t\<lparr>ut_image := None, ut_used := False, ut_pid := 0, ut_state := UNUSED, ut_status := 0,
                ut_wait_target_pid := 0, ut_wait_gui_handle := -1, ut_wake_tick := 0, ut_block_reason := BLOCK_NONE,
                ut_mlfq_level := ucast SCHED_MLFQ_LEVEL_HIGH,
                ut_mlfq_slice_left := user_task_level_quantum_ticks SCHED_MLFQ_LEVEL_HIGH s,
                ut_in_runq := False, ut_runq_next := -1, ut_fd_inherit_mode := False, ut_stdio := (0, 1, 2),
                ut_has_frame := False, ut_frame_generation := 0\<rparr>) s
      in user_task_request_schedule s)"

text \<open>The loop; \<open>idle\<close> is what interrupts do while the processor halts. The result is a process number
  with its status, or \<open>-1\<close> or \<open>0\<close> with none.\<close>

partial_function (option) waitpid_loop :: "'m elf_env \<Rightarrow> ('m utask_scheme \<Rightarrow> 'm utask_scheme) \<Rightarrow> int \<Rightarrow> bool \<Rightarrow> nat \<Rightarrow>
    'm utask_scheme \<Rightarrow> ((int \<times> int option) control \<times> 'm utask_scheme) option" where
  "waitpid_loop env idle pid nohang i s =
     (if ut_state (task s i) = ZOMBIE then
        let s = user_task_unblock_current s; status = ut_status (task s i)
        in Some (Back (pid, Some status), reap_slot env i s)
      else case user_task_continue_or_schedule env s of None \<Rightarrow> None
      | Some (Ring3, s) \<Rightarrow> Some (Ring3, s)
      | Some (Back launched, s) \<Rightarrow>
          if launched then
            (case user_task_find_slot_by_pid pid s of None \<Rightarrow> Some (Back (-1, None), s)
             | Some i \<Rightarrow> waitpid_loop env idle pid nohang i s)
          else if nohang then Some (Back (0, None), user_task_unblock_current s)
          else
            let s = idle s in
            (case user_task_find_slot_by_pid pid s of None \<Rightarrow> Some (Back (-1, None), s)
             | Some i \<Rightarrow> waitpid_loop env idle pid nohang i s))"

definition user_task_waitpid :: "'m elf_env \<Rightarrow> ('m utask_scheme \<Rightarrow> 'm utask_scheme) \<Rightarrow> int \<Rightarrow> bool \<Rightarrow>
    'm utask_scheme \<Rightarrow> ((int \<times> int option) control \<times> 'm utask_scheme) option" where
  "user_task_waitpid env idle pid nohang s =
     (case user_task_find_slot_by_pid pid s of None \<Rightarrow> Some (Back (-1, None), s)
      | Some i \<Rightarrow>
          let s = (if ut_state (task s i) \<noteq> ZOMBIE \<and> \<not> nohang then user_task_block_current_waitpid pid s else s)
          in waitpid_loop env idle pid nohang i s)"

end
