(* ===== verification/UserTaskSpec.thy ===== *)
theory UserTaskSpec
  imports UserTask
begin

text \<open>
  What the run queues of the user tasks promise. \<open>task_queues s q\<close> says that the links, the flags
  and the three queues of \<open>s\<close> represent the lists \<open>q\<close>; the operations implement the interface
  \<open>ready_queues\<close>, like those of the work scheduler. \<open>task_inv X s\<close> is the invariant of the table:
  a slot outside \<open>X\<close> is queued exactly when it is used and runnable; \<open>X\<close> holds the slots that an
  operation is about to move. Every operation keeps \<open>task_inv {}\<close>.
\<close>

section \<open>Representation\<close>

definition task_queues :: "'a utask_scheme \<Rightarrow> (nat \<Rightarrow> nat list) \<Rightarrow> bool" where
  "task_queues s q \<longleftrightarrow> length (g_user_tasks s) = 16 \<and> length (g_user_task_runq s) = 3 \<and> g_user_task_runq_initialized s
     \<and> queues_ok (map ut_runq_next (g_user_tasks s)) (g_user_task_runq s) (map ut_in_runq (g_user_tasks s)) q"

definition runnable :: "user_task_slot \<Rightarrow> bool" where
  "runnable t \<longleftrightarrow> ut_used t \<and> ut_state t = RUNNABLE"

lemma task_level_less [simp]: "task_level t < 3"
proof -
  have "unat (if (w :: u32) \<ge> 3 then 2 else w) < 3" for w by (auto simp: word_le_nat_alt)
  then show ?thesis by (simp add: task_level_def)
qed

lemma set_task_fields [simp]:
  "g_user_task_runq (set_task i f s) = g_user_task_runq s" "length (g_user_tasks (set_task i f s)) = length (g_user_tasks s)"
  "g_user_task_runq_initialized (set_task i f s) = g_user_task_runq_initialized s"
  "g_user_task_running_pid (set_task i f s) = g_user_task_running_pid s" "g_ticks (set_task i f s) = g_ticks s"
  "g_mlfq_quantum_ticks (set_task i f s) = g_mlfq_quantum_ticks s"
  "g_user_task_runtime_generation (set_task i f s) = g_user_task_runtime_generation s"
  "g_user_task_next_pid (set_task i f s) = g_user_task_next_pid s"
  "g_user_task_pending_pid (set_task i f s) = g_user_task_pending_pid s"
  "g_user_task_active_slot (set_task i f s) = g_user_task_active_slot s"
  "g_user_task_active (set_task i f s) = g_user_task_active s"
  "g_user_task_schedule_request (set_task i f s) = g_user_task_schedule_request s"
  "g_user_runtime (set_task i f s) = g_user_runtime s"
  by (simp_all add: set_task_def)

lemma nth_set_task: "i < length (g_user_tasks s) \<Longrightarrow> task (set_task i f s) j = (if j = i then f (task s i) else task s j)"
  by (auto simp: set_task_def nth_list_update)

lemma map_set_task: "map g (g_user_tasks (set_task i f s)) = (map g (g_user_tasks s))[i := g (f (task s i))]"
  by (simp add: set_task_def map_update)

lemma task_queues_lengths:
  "task_queues s q \<Longrightarrow> length (g_user_tasks s) = 16" "task_queues s q \<Longrightarrow> length (g_user_task_runq s) = 3"
  "task_queues s q \<Longrightarrow> g_user_task_runq_initialized s"
  by (simp_all add: task_queues_def)

lemma task_queues_in_runq: "task_queues s q \<Longrightarrow> i < 16 \<Longrightarrow> ut_in_runq (task s i) \<longleftrightarrow> (\<exists>p. i \<in> set (q p))"
  using queues_okD(5) [of "map ut_runq_next (g_user_tasks s)" "g_user_task_runq s" "map ut_in_runq (g_user_tasks s)" q i]
  by (simp add: task_queues_def)

lemma task_queues_member: "task_queues s q \<Longrightarrow> i \<in> set (q p) \<Longrightarrow> i < 16"
  using queues_member [of "map ut_runq_next (g_user_tasks s)"] by (fastforce simp: task_queues_def)

lemma task_queues_beyond: "task_queues s q \<Longrightarrow> p \<ge> 3 \<Longrightarrow> q p = []"
  by (simp add: task_queues_def queues_ok_def)

lemma task_queues_set:
  assumes "task_queues s q" "ut_runq_next (f (task s i)) = ut_runq_next (task s i)" "ut_in_runq (f (task s i)) = ut_in_runq (task s i)"
  shows "task_queues (set_task i f s) q"
  using assms unfolding task_queues_def map_set_task by (simp add: map_update_same)

lemma task_queues_cong:
  "g_user_tasks s' = g_user_tasks s \<Longrightarrow> g_user_task_runq s' = g_user_task_runq s \<Longrightarrow>
   g_user_task_runq_initialized s' = g_user_task_runq_initialized s \<Longrightarrow> task_queues s' q = task_queues s q"
  by (simp add: task_queues_def)

lemma bootstrap_idle: "g_user_task_runq_initialized s \<Longrightarrow> user_task_runq_bootstrap s = s"
  by (simp add: user_task_runq_bootstrap_def)

section \<open>Enqueueing\<close>

lemma task_enqueue_length [simp]: "length (g_user_tasks (user_task_runq_enqueue i s)) = length (g_user_tasks s)"
  by (simp add: user_task_runq_enqueue_def user_task_runq_bootstrap_def Let_def)

lemma enqueue_skip: "\<not> runnable (task s i) \<Longrightarrow> user_task_runq_enqueue i s = s"
  by (auto simp: user_task_runq_enqueue_def runnable_def)

lemma task_enqueue_new:
  assumes tq: "task_queues s q" and i: "i < 16" "\<And>p. i \<notin> set (q p)" "runnable (task s i)"
  shows "task_queues (user_task_runq_enqueue i s) (q(task_level (task s i) := q (task_level (task s i)) @ [i]))"
proof -
  let ?p = "task_level (task s i)" and ?nx = "map ut_runq_next (g_user_tasks s)" and ?inq = "map ut_in_runq (g_user_tasks s)"
  let ?q = "g_user_task_runq s ! ?p"
  have ok: "queues_ok ?nx (g_user_task_runq s) ?inq q" and len: "length (g_user_tasks s) = 16" "length (g_user_task_runq s) = 3"
    and init: "g_user_task_runq_initialized s" using tq by (simp_all add: task_queues_def)
  have out: "\<not> ut_in_runq (task s i)" using task_queues_in_runq [OF tq i(1)] i(2) by blast
  let ?s = "user_task_runq_enqueue i s"
  have tail: "nat (q_tail ?q) < 16" "nat (q_tail ?q) \<noteq> i" if "q_tail ?q \<ge> 0"
  proof -
    have "nat (q_tail ?q) \<in> set (q ?p)"
      using queues_okD(2) [OF ok, of ?p] that len by (auto simp: queue_of_def split: if_splits)
    then show "nat (q_tail ?q) < 16" "nat (q_tail ?q) \<noteq> i" using task_queues_member [OF tq] i(2) by auto
  qed
  have e: "map ut_runq_next (g_user_tasks ?s) = append_links ?nx ?q i"
    "g_user_task_runq ?s = (g_user_task_runq s)[?p := append_queue ?q i]"
    "map ut_in_runq (g_user_tasks ?s) = ?inq[i := True]" "g_user_task_runq_initialized ?s"
    using i(1,3) out len tail init
    by (auto simp: user_task_runq_enqueue_def Let_def bootstrap_idle append_links_def append_queue_def runnable_def
        nth_set_task intro!: nth_equalityI simp: nth_list_update split: if_splits)
  have "queues_ok (append_links ?nx ?q i) ((g_user_task_runq s)[?p := append_queue ?q i]) (?inq[i := True]) (q(?p := q ?p @ [i]))"
    by (rule queues_append [OF ok]) (use i len out in simp_all)
  then show ?thesis using len e unfolding task_queues_def by simp
qed

lemma task_enqueue_queued: "task_queues s q \<Longrightarrow> i \<in> set (q p) \<Longrightarrow> user_task_runq_enqueue i s = s"
  using task_queues_in_runq [of s q i] task_queues_member [of s q i p] task_queues_lengths(3) [of s q]
  by (auto simp: user_task_runq_enqueue_def bootstrap_idle)

section \<open>Taking the first element\<close>

lemma pop_none: "task_queues s q \<Longrightarrow> q p = [] \<Longrightarrow> p < 3 \<Longrightarrow> runq_pop p s = (None, s)"
  using queues_head [of "map ut_runq_next (g_user_tasks s)" "g_user_task_runq s" "map ut_in_runq (g_user_tasks s)" q p]
  by (auto simp: runq_pop_def task_queues_def Let_def)

lemma pop_some:
  assumes tq: "task_queues s q" and q: "q p = i # is"
  shows "\<exists>rq. runq_pop p s = (Some i, set_task i (\<lambda>t. t\<lparr>ut_runq_next := -1, ut_in_runq := False\<rparr>) (s\<lparr>g_user_task_runq := rq\<rparr>))
     \<and> task_queues (set_task i (\<lambda>t. t\<lparr>ut_runq_next := -1, ut_in_runq := False\<rparr>) (s\<lparr>g_user_task_runq := rq\<rparr>)) (q(p := is))"
proof -
  let ?nx = "map ut_runq_next (g_user_tasks s)" and ?inq = "map ut_in_runq (g_user_tasks s)"
  have ok: "queues_ok ?nx (g_user_task_runq s) ?inq q" and len: "length (g_user_tasks s) = 16" "length (g_user_task_runq s) = 3"
    and init: "g_user_task_runq_initialized s" using tq by (simp_all add: task_queues_def)
  have p: "p < 3" using task_queues_beyond [OF tq, of p] q by (cases "p < 3") auto
  have i: "i < 16" using task_queues_member [OF tq, of i p] q by simp
  note t = queues_take [OF ok p [folded len(2)] q]
  let ?Q = "\<lparr>q_head = ?nx ! i, q_tail = (if ?nx ! i < 0 then -1 else q_tail (g_user_task_runq s ! p))\<rparr>"
  let ?s = "set_task i (\<lambda>t. t\<lparr>ut_runq_next := -1, ut_in_runq := False\<rparr>) (s\<lparr>g_user_task_runq := (g_user_task_runq s)[p := ?Q]\<rparr>)"
  have nx: "?nx ! i = ut_runq_next (task s i)" using i len by simp
  have "runq_pop p s = (Some i, ?s)"
    using t(1) nx by (cases "g_user_task_runq s ! p") (simp add: runq_pop_def Let_def)
  moreover have "task_queues ?s (q(p := is))"
    unfolding task_queues_def map_set_task using t(2) len init by simp
  ultimately show ?thesis by blast
qed

section \<open>Taking out a slot\<close>

text \<open>Two slots that differ only in what the scheduler keeps in them: link, flag, level and slice.\<close>

definition same_task :: "user_task_slot \<Rightarrow> user_task_slot \<Rightarrow> bool" where
  "same_task t t' \<longleftrightarrow> t'\<lparr>ut_runq_next := -1, ut_in_runq := False, ut_mlfq_level := 0, ut_mlfq_slice_left := 0\<rparr>
     = t\<lparr>ut_runq_next := -1, ut_in_runq := False, ut_mlfq_level := 0, ut_mlfq_slice_left := 0\<rparr>"

lemma same_task_refl [simp]: "same_task t t"
  by (simp add: same_task_def)

lemma same_task_trans: "same_task t t' \<Longrightarrow> same_task t' t'' \<Longrightarrow> same_task t t''"
  by (simp add: same_task_def)

lemma same_task_links [simp]:
  "same_task t (t'\<lparr>ut_runq_next := a\<rparr>) = same_task t t'" "same_task t (t'\<lparr>ut_in_runq := b\<rparr>) = same_task t t'"
  "same_task t (t'\<lparr>ut_mlfq_level := l\<rparr>) = same_task t t'" "same_task t (t'\<lparr>ut_mlfq_slice_left := v\<rparr>) = same_task t t'"
  by (simp_all add: same_task_def)

lemma same_taskD:
  assumes "same_task t t'"
  shows "ut_used t' = ut_used t" "ut_pid t' = ut_pid t" "ut_parent_pid t' = ut_parent_pid t" "ut_state t' = ut_state t"
    "ut_status t' = ut_status t" "ut_block_reason t' = ut_block_reason t"
    "ut_wake_tick t' = ut_wake_tick t" "ut_wait_target_pid t' = ut_wait_target_pid t" "ut_has_frame t' = ut_has_frame t"
    "ut_frame_generation t' = ut_frame_generation t" "ut_image t' = ut_image t" "ut_runtime t' = ut_runtime t"
    "ut_wait_gui_handle t' = ut_wait_gui_handle t" "ut_sig_pending t' = ut_sig_pending t" "ut_sig_handler t' = ut_sig_handler t"
proof -
  note e = assms [unfolded same_task_def]
  show "ut_used t' = ut_used t" using arg_cong [OF e, of ut_used] by simp
  show "ut_pid t' = ut_pid t" using arg_cong [OF e, of ut_pid] by simp
  show "ut_parent_pid t' = ut_parent_pid t" using arg_cong [OF e, of ut_parent_pid] by simp
  show "ut_state t' = ut_state t" using arg_cong [OF e, of ut_state] by simp
  show "ut_status t' = ut_status t" using arg_cong [OF e, of ut_status] by simp
  show "ut_block_reason t' = ut_block_reason t" using arg_cong [OF e, of ut_block_reason] by simp
  show "ut_wake_tick t' = ut_wake_tick t" using arg_cong [OF e, of ut_wake_tick] by simp
  show "ut_wait_target_pid t' = ut_wait_target_pid t" using arg_cong [OF e, of ut_wait_target_pid] by simp
  show "ut_has_frame t' = ut_has_frame t" using arg_cong [OF e, of ut_has_frame] by simp
  show "ut_frame_generation t' = ut_frame_generation t" using arg_cong [OF e, of ut_frame_generation] by simp
  show "ut_image t' = ut_image t" using arg_cong [OF e, of ut_image] by simp
  show "ut_runtime t' = ut_runtime t" using arg_cong [OF e, of ut_runtime] by simp
  show "ut_wait_gui_handle t' = ut_wait_gui_handle t" using arg_cong [OF e, of ut_wait_gui_handle] by simp
  show "ut_sig_pending t' = ut_sig_pending t" using arg_cong [OF e, of ut_sig_pending] by simp
  show "ut_sig_handler t' = ut_sig_handler t" using arg_cong [OF e, of ut_sig_handler] by simp
qed

lemma same_task_runnable: "same_task t t' \<Longrightarrow> runnable t' = runnable t"
  using same_taskD(1,4) by (simp add: runnable_def)

lemma runq_scan_absent: "path (map ut_runq_next ts) cur is \<Longrightarrow> idx \<notin> set is \<Longrightarrow> runq_scan n ts idx prev cur = None"
proof (induction "is" arbitrary: n prev cur)
  case Nil
  then show ?case by (cases n) auto
next
  case (Cons i "is")
  then show ?case by (cases n) auto
qed

lemma runq_scan_found:
  "path (map ut_runq_next ts) cur (is @ idx # js) \<Longrightarrow> idx \<notin> set is \<Longrightarrow> length is < n \<Longrightarrow>
   runq_scan n ts idx prev cur = Some (if is = [] then prev else int (last is), ut_runq_next (ts ! idx))"
proof (induction "is" arbitrary: n prev cur)
  case Nil
  then show ?case by (cases n) auto
next
  case (Cons i "is")
  then show ?case by (cases n) auto
qed

lemma remove_levels_found:
  assumes tq: "task_queues s q" and p: "p < 3" "q p = is @ x # js" and l: "level \<le> p" "level + n = 3"
  shows "\<exists>ts rq. remove_levels n level x s = s\<lparr>g_user_tasks := ts, g_user_task_runq := rq\<rparr>
    \<and> (\<forall>j. same_task (task s j) (ts ! j))
    \<and> task_queues (remove_levels n level x s) (q(p := is @ js))"
  using l
proof (induction n arbitrary: level)
  case 0
  then show ?case using p by simp
next
  case (Suc n)
  let ?nx = "map ut_runq_next (g_user_tasks s)" and ?inq = "map ut_in_runq (g_user_tasks s)"
  have ok: "queues_ok ?nx (g_user_task_runq s) ?inq q" and len: "length (g_user_tasks s) = 16" "length (g_user_task_runq s) = 3"
    and init: "g_user_task_runq_initialized s" using tq by (simp_all add: task_queues_def)
  have ql: "queue_of ?nx (g_user_task_runq s ! level) (q level)" using queues_okD(2) [OF ok, of level] Suc.prems p len by simp
  have mem: "x \<in> set (q p)" using p by simp
  have x: "x < 16" using task_queues_member [OF tq mem] .
  show ?case
  proof (cases "level = p")
    case False
    then have "x \<notin> set (q level)" using queues_okD(4) [OF ok mem, of level] by blast
    then have "runq_scan 16 (g_user_tasks s) x (-1) (q_head (g_user_task_runq s ! level)) = None"
      using ql by (intro runq_scan_absent) (auto simp: queue_of_def)
    then have "remove_levels (Suc n) level x s = remove_levels n (Suc level) x s" by simp
    then show ?thesis using Suc.IH [of "Suc level"] Suc.prems False by simp
  next
    case True
    have d: "distinct (is @ x # js)" and pa: "path ?nx (q_head (g_user_task_runq s ! p)) (is @ x # js)"
      using ql True p(2) by (auto simp: queue_of_def)
    have "set is \<subseteq> {..<16} - {x}" using path_bound [OF pa] len d by auto
    then have "card (set is) \<le> card ({..<16} - {x})" by (rule card_mono [rotated]) simp
    then have "length is < 16" using d x distinct_card [of "is"] by simp
    then have scan: "runq_scan 16 (g_user_tasks s) x (-1) (q_head (g_user_task_runq s ! p))
        = Some (if is = [] then -1 else int (last is), ut_runq_next (task s x))"
      using runq_scan_found [OF pa] d by simp
    have li: "last is < 16" "last is \<noteq> x" if "is \<noteq> []"
      using path_bound [OF pa] len d last_in_set [OF that] by auto
    define Q where "Q = (if is = [] then \<lparr>q_head = ?nx ! x, q_tail = (if q_tail (g_user_task_runq s ! p) = int x then -1 else q_tail (g_user_task_runq s ! p))\<rparr>
               else (g_user_task_runq s ! p)\<lparr>q_tail := (if q_tail (g_user_task_runq s ! p) = int x then int (last is) else q_tail (g_user_task_runq s ! p))\<rparr>)"
    define s1 where "s1 = (if is = [] then s else set_task (last is) (\<lambda>t. t\<lparr>ut_runq_next := ut_runq_next (task s x)\<rparr>) s)"
    have s1: "g_user_task_runq s1 = g_user_task_runq s" "length (g_user_tasks s1) = 16" "g_user_task_runq_initialized s1"
      using len init by (simp_all add: s1_def)
    have rm: "remove_levels (Suc n) level x s = set_task x (\<lambda>t. t\<lparr>ut_in_runq := False, ut_runq_next := -1\<rparr>)
        (s1\<lparr>g_user_task_runq := (g_user_task_runq s)[p := Q]\<rparr>)"
      using scan True x len by (cases "g_user_task_runq s ! p") (auto simp: Q_def s1_def Let_def)
    have "task_queues (remove_levels (Suc n) level x s) (q(p := is @ js))"
    proof -
      have "map ut_runq_next (g_user_tasks (remove_levels (Suc n) level x s)) = (if is = [] then ?nx[x := -1] else ?nx[last is := ?nx ! x, x := -1])"
        "map ut_in_runq (g_user_tasks (remove_levels (Suc n) level x s)) = ?inq[x := False]"
        using x len li unfolding rm map_set_task by (auto simp: s1_def map_set_task nth_set_task map_update_same)
      then show ?thesis using queues_delete [OF ok _ p(2)] p(1) len s1 unfolding task_queues_def rm by (simp add: Q_def)
    qed
    moreover have "remove_levels (Suc n) level x s = s\<lparr>g_user_tasks := g_user_tasks (remove_levels (Suc n) level x s),
          g_user_task_runq := g_user_task_runq (remove_levels (Suc n) level x s)\<rparr>"
      unfolding rm by (simp add: s1_def set_task_def)
    moreover have "same_task (task s j) (task s1 j)" for j using len li by (simp add: s1_def nth_set_task)
    then have "same_task (task s j) (task (remove_levels (Suc n) level x s) j)" for j
      using x s1 unfolding rm by (simp add: nth_set_task)
    ultimately show ?thesis by blast
  qed
qed

text \<open>Two states that differ only in what the scheduler keeps.\<close>

definition unscheduled :: "'a utask_scheme \<Rightarrow> 'a utask_scheme" where
  "unscheduled s = s\<lparr>g_user_tasks := [], g_user_task_runq := [], g_user_task_runq_initialized := False, g_user_task_last_boost_tick := 0\<rparr>"

definition same_tasks :: "'a utask_scheme \<Rightarrow> 'a utask_scheme \<Rightarrow> bool" where
  "same_tasks s s' \<longleftrightarrow> unscheduled s' = unscheduled s \<and> length (g_user_tasks s') = length (g_user_tasks s)
     \<and> (\<forall>j < length (g_user_tasks s). same_task (task s j) (task s' j))"

lemma unscheduled_simps [simp]:
  "unscheduled (s\<lparr>g_user_tasks := ts\<rparr>) = unscheduled s" "unscheduled (s\<lparr>g_user_task_runq := rq\<rparr>) = unscheduled s"
  "unscheduled (s\<lparr>g_user_task_runq_initialized := b\<rparr>) = unscheduled s"
  "unscheduled (s\<lparr>g_user_task_last_boost_tick := c\<rparr>) = unscheduled s" "unscheduled (set_task i f s) = unscheduled s"
  by (simp_all add: unscheduled_def set_task_def)

lemma same_tasks_refl [simp]: "same_tasks s s"
  by (simp add: same_tasks_def)

lemma same_tasks_trans: "same_tasks s s' \<Longrightarrow> same_tasks s' s'' \<Longrightarrow> same_tasks s s''"
  unfolding same_tasks_def using same_task_trans by metis

lemma same_tasks_set:
  assumes "same_tasks s s'" "\<And>t. same_task t (f t)"
  shows "same_tasks s (set_task i f s')"
proof (rule same_tasks_trans [OF assms(1)])
  have "same_task (task s' j) ((g_user_tasks s')[i := f (task s' i)] ! j)" if "j < length (g_user_tasks s')" for j
    using that assms(2) by (cases "i = j") simp_all
  then show "same_tasks s' (set_task i f s')" by (simp add: same_tasks_def) (simp add: set_task_def)
qed

lemma same_tasks_fields:
  "same_tasks s s' \<Longrightarrow> same_tasks s (s'\<lparr>g_user_task_runq := rq\<rparr>)"
  "same_tasks s s' \<Longrightarrow> same_tasks s (s'\<lparr>g_user_task_runq_initialized := b\<rparr>)"
  "same_tasks s s' \<Longrightarrow> same_tasks s (s'\<lparr>g_user_task_last_boost_tick := c\<rparr>)"
  by (simp_all add: same_tasks_def)

lemma same_tasks_map:
  "same_tasks s s' \<Longrightarrow> (\<And>t. same_task t (f t)) \<Longrightarrow> same_tasks s (s'\<lparr>g_user_tasks := map f (g_user_tasks s')\<rparr>)"
  by (erule same_tasks_trans) (simp add: same_tasks_def)

lemma same_tasks_map2:
  "same_tasks s s' \<Longrightarrow> (\<And>t. same_task t (f t)) \<Longrightarrow>
   same_tasks s (s'\<lparr>g_user_task_runq := rq, g_user_tasks := map f (g_user_tasks s')\<rparr>)"
  by (erule same_tasks_trans) (simp add: same_tasks_def)

lemma if_same_tasks: "(P \<Longrightarrow> same_tasks s a) \<Longrightarrow> (\<not> P \<Longrightarrow> same_tasks s b) \<Longrightarrow> same_tasks s (if P then a else b)"
  by simp

lemmas same_tasks_steps = same_tasks_refl same_tasks_set same_tasks_fields same_tasks_map

lemma same_tasks_fold: "(\<And>i s. same_tasks s (f i s)) \<Longrightarrow> same_tasks s (fold f is s)"
proof (induction "is" arbitrary: s)
  case (Cons i "is")
  show ?case using same_tasks_trans [OF Cons.prems(1) Cons.IH] Cons.prems by simp
qed simp

lemma same_tasks_bootstrap: "same_tasks s (user_task_runq_bootstrap s)"
  unfolding user_task_runq_bootstrap_def same_tasks_def by (simp add: Let_def)

lemma same_tasks_enqueue: "same_tasks s (user_task_runq_enqueue i s)"
proof -
  define s1 where "s1 = user_task_runq_bootstrap s"
  have "same_tasks s1 (user_task_runq_enqueue i s)" if "runnable (task s i)"
    using that unfolding user_task_runq_enqueue_def Let_def runnable_def s1_def [symmetric]
    by (simp split del: if_split) (intro same_tasks_steps if_same_tasks; simp)
  then show ?thesis using same_tasks_trans [OF same_tasks_bootstrap] enqueue_skip [of s i] unfolding s1_def by (cases "runnable (task s i)") auto
qed

lemma same_tasks_remove_levels: "same_tasks s (remove_levels n level i s)"
proof (induction n arbitrary: level)
  case 0
  show ?case by (simp add: same_tasks_steps)
next
  case (Suc n)
  show ?case
  proof (cases "runq_scan 16 (g_user_tasks s) i (-1) (q_head (g_user_task_runq s ! level))")
    case None
    then show ?thesis using Suc by simp
  next
    case (Some r)
    then show ?thesis
      by (cases r) (simp add: Let_def split del: if_split, intro same_tasks_steps if_same_tasks; simp)
  qed
qed

lemma same_tasks_remove: "same_tasks s (user_task_runq_remove i s)"
  unfolding user_task_runq_remove_def
  by (intro if_same_tasks same_tasks_refl same_tasks_trans [OF same_tasks_bootstrap same_tasks_remove_levels])

lemma same_tasks_pop: "same_tasks s (snd (runq_pop p s))"
  unfolding runq_pop_def Let_def if_distrib [of snd] snd_conv
  by (intro same_tasks_steps if_same_tasks; simp)

lemma same_tasks_pop_levels: "same_tasks s (snd (pop_levels n s))"
proof (induction n arbitrary: s)
  case (Suc n)
  then show ?case using same_tasks_pop [of s n] same_tasks_trans by (fastforce split: prod.splits option.splits)
qed simp

lemma same_tasks_pop_highest: "same_tasks s (snd (user_task_runq_pop_highest s))"
  unfolding user_task_runq_pop_highest_def by (rule same_tasks_trans [OF same_tasks_bootstrap same_tasks_pop_levels])

lemma same_tasks_rebuild: "same_tasks s (user_task_runq_rebuild s)"
proof -
  have "same_tasks s ((user_task_runq_bootstrap s)\<lparr>g_user_task_runq := rq,
    g_user_tasks := map (\<lambda>t. t\<lparr>ut_runq_next := -1, ut_in_runq := False\<rparr>) (g_user_tasks (user_task_runq_bootstrap s))\<rparr>)" for rq
    by (intro same_tasks_map2 same_tasks_bootstrap) simp
  then show ?thesis unfolding user_task_runq_rebuild_def Let_def
    by (rule same_tasks_trans [OF _ same_tasks_fold]) (simp add: same_tasks_enqueue)
qed

lemma same_tasks_boost: "same_tasks s (user_task_mlfq_boost_if_due s)"
  unfolding user_task_mlfq_boost_if_due_def Let_def
  by (intro if_same_tasks same_tasks_bootstrap same_tasks_fields same_tasks_trans [OF _ same_tasks_rebuild] same_tasks_map) simp

lemma same_tasks_account: "same_tasks s (user_task_mlfq_account_preempt i s)"
  unfolding user_task_mlfq_account_preempt_def Let_def
  by (intro same_tasks_steps if_same_tasks; simp)

lemmas same_tasks_ops = same_tasks_bootstrap same_tasks_enqueue same_tasks_remove same_tasks_pop_highest
  same_tasks_rebuild same_tasks_boost same_tasks_account

section \<open>The interface\<close>

lemma same_tasks_nth: "same_tasks s s' \<Longrightarrow> j < length (g_user_tasks s) \<Longrightarrow> same_task (task s j) (task s' j)"
  by (simp add: same_tasks_def)

lemma same_tasks_length: "same_tasks s s' \<Longrightarrow> length (g_user_tasks s') = length (g_user_tasks s)"
  by (simp add: same_tasks_def)

lemma same_tasks_globals:
  assumes "same_tasks s s'"
  shows "g_user_task_running_pid s' = g_user_task_running_pid s" "g_user_task_pending_pid s' = g_user_task_pending_pid s"
    "g_user_task_next_pid s' = g_user_task_next_pid s" "g_user_task_runtime_generation s' = g_user_task_runtime_generation s"
    "g_user_task_active_slot s' = g_user_task_active_slot s" "g_user_task_active s' = g_user_task_active s"
    "g_user_task_schedule_request s' = g_user_task_schedule_request s" "g_ticks s' = g_ticks s"
    "g_user_runtime s' = g_user_runtime s" "utask.more s' = utask.more s"
proof -
  have e: "unscheduled s' = unscheduled s" using assms by (simp add: same_tasks_def)
  show "g_user_task_running_pid s' = g_user_task_running_pid s" using arg_cong [OF e, of g_user_task_running_pid] by (simp add: unscheduled_def)
  show "g_user_task_pending_pid s' = g_user_task_pending_pid s" using arg_cong [OF e, of g_user_task_pending_pid] by (simp add: unscheduled_def)
  show "g_user_task_next_pid s' = g_user_task_next_pid s" using arg_cong [OF e, of g_user_task_next_pid] by (simp add: unscheduled_def)
  show "g_user_task_runtime_generation s' = g_user_task_runtime_generation s"
    using arg_cong [OF e, of g_user_task_runtime_generation] by (simp add: unscheduled_def)
  show "g_user_task_active_slot s' = g_user_task_active_slot s" using arg_cong [OF e, of g_user_task_active_slot] by (simp add: unscheduled_def)
  show "g_user_task_active s' = g_user_task_active s" using arg_cong [OF e, of g_user_task_active] by (simp add: unscheduled_def)
  show "g_user_task_schedule_request s' = g_user_task_schedule_request s"
    using arg_cong [OF e, of g_user_task_schedule_request] by (simp add: unscheduled_def)
  show "g_ticks s' = g_ticks s" using arg_cong [OF e, of g_ticks] by (simp add: unscheduled_def)
  show "g_user_runtime s' = g_user_runtime s" using arg_cong [OF e, of g_user_runtime] by (simp add: unscheduled_def)
  show "utask.more s' = utask.more s" using arg_cong [OF e, of utask.more] by (simp add: unscheduled_def)
qed

lemma task_enqueue_level: "g_user_task_runq_initialized s \<Longrightarrow> ut_mlfq_level (task (user_task_runq_enqueue i s) j) = ut_mlfq_level (task s j)"
  by (simp add: user_task_runq_enqueue_def bootstrap_idle set_task_def Let_def field_list_update [of ut_mlfq_level])

text \<open>The state of the interface carries the proof that the queues are set up: an operation on any
  other state is left out.\<close>

definition put_task :: "nat \<Rightarrow> 'a utask_scheme \<Rightarrow> 'a utask_scheme" where
  "put_task i s = (if g_user_task_runq_initialized s \<and> i < length (g_user_tasks s) then user_task_runq_enqueue i s else s)"

definition take_task :: "nat \<Rightarrow> 'a utask_scheme \<Rightarrow> nat option \<times> 'a utask_scheme" where
  "take_task p s = (if p < 3 then runq_pop p s else (None, s))"

lemma runnable_enqueue: "j < length (g_user_tasks s) \<Longrightarrow> runnable (task (user_task_runq_enqueue i s) j) = runnable (task s j)"
  using same_task_runnable [OF same_tasks_nth [OF same_tasks_enqueue]] .

interpretation tasks: ready_queues task_queues put_task take_task "\<lambda>s i. task_level (task s i)"
  "\<lambda>s i. i < 16 \<and> i < length (g_user_tasks s) \<and> runnable (task s i)"
proof (unfold_locales, goal_cases)
  case (1 s q i)
  then show ?case using task_enqueue_new [OF 1(1)] task_queues_lengths [OF 1(1)] by (simp add: put_task_def)
next
  case (2 s q i p)
  then show ?case using task_enqueue_queued [OF 2] by (simp add: put_task_def)
next
  case (3 i s j)
  then show ?case using task_enqueue_level [of s i j] by (simp add: put_task_def task_level_def)
next
  case (4 i s j)
  then show ?case using runnable_enqueue [of j s i] by (auto simp: put_task_def)
next
  case (5 s q p)
  then show ?case using pop_none by (auto simp: take_task_def)
next
  case (6 s q p i "is")
  then have "p < 3" using task_queues_beyond [OF 6(1), of p] by (cases "p < 3") auto
  then show ?case using pop_some [OF 6] by (auto simp: take_task_def)
qed

end
