(* ===== verification/UserTaskInv.thy ===== *)
theory UserTaskInv
  imports UserTaskSpec
begin

text \<open>
  The invariant of the user task table: a slot is in a run queue exactly when it is used and
  runnable, and in one queue only. Blocking, waking, signals and exit keep it.
\<close>

section \<open>The invariant\<close>

definition task_inv :: "nat set \<Rightarrow> 'a utask_scheme \<Rightarrow> bool" where
  "task_inv X s \<longleftrightarrow> length (g_user_tasks s) = 16
     \<and> (g_user_task_runq_initialized s \<longrightarrow> (\<exists>q. task_queues s q))
     \<and> (\<not> g_user_task_runq_initialized s \<longrightarrow> (\<forall>j < 16. \<not> ut_in_runq (task s j)))
     \<and> (\<forall>j < 16. j \<notin> X \<longrightarrow> ut_in_runq (task s j) = runnable (task s j))"

lemma task_inv_length: "task_inv X s \<Longrightarrow> length (g_user_tasks s) = 16"
  by (simp add: task_inv_def)

lemma task_inv_in_runq: "task_inv X s \<Longrightarrow> j < 16 \<Longrightarrow> j \<notin> X \<Longrightarrow> ut_in_runq (task s j) = runnable (task s j)"
  by (simp add: task_inv_def)

lemma task_inv_mono: "task_inv X s \<Longrightarrow> X \<subseteq> Y \<Longrightarrow> task_inv Y s"
  by (auto simp: task_inv_def)

lemma task_inv_close: "task_inv (insert i X) s \<Longrightarrow> ut_in_runq (task s i) = runnable (task s i) \<Longrightarrow> task_inv X s"
  unfolding task_inv_def by (metis insertE)

lemma task_inv_cong:
  "g_user_tasks s' = g_user_tasks s \<Longrightarrow> g_user_task_runq s' = g_user_task_runq s \<Longrightarrow>
   g_user_task_runq_initialized s' = g_user_task_runq_initialized s \<Longrightarrow> task_inv X s' = task_inv X s"
  by (simp add: task_inv_def task_queues_def)

lemma task_inv_frame [simp]:
  "task_inv X (s\<lparr>g_user_task_schedule_request := b\<rparr>) = task_inv X s" "task_inv X (s\<lparr>g_user_task_active := b\<rparr>) = task_inv X s"
  "task_inv X (s\<lparr>g_user_task_term := n\<rparr>) = task_inv X s" "task_inv X (s\<lparr>g_user_task_running_pid := n\<rparr>) = task_inv X s"
  "task_inv X (s\<lparr>g_user_task_pending_pid := n\<rparr>) = task_inv X s" "task_inv X (s\<lparr>g_user_task_next_pid := n\<rparr>) = task_inv X s"
  "task_inv X (s\<lparr>g_user_task_active_slot := a\<rparr>) = task_inv X s" "task_inv X (s\<lparr>g_user_interrupt := b\<rparr>) = task_inv X s"
  "task_inv X (s\<lparr>g_user_fd_inherit_mode := b\<rparr>) = task_inv X s" "task_inv X (s\<lparr>g_user_stdio := f\<rparr>) = task_inv X s"
  "task_inv X (s\<lparr>g_user_runtime := r\<rparr>) = task_inv X s" "task_inv X (s\<lparr>g_user_segdom := d\<rparr>) = task_inv X s"
  "task_inv X (s\<lparr>as_stack_bottom := w\<rparr>) = task_inv X s" "task_inv X (s\<lparr>g_user_task_runtime_generation := w\<rparr>) = task_inv X s"
  "task_inv X (s\<lparr>g_user_task_last_boost_tick := w\<rparr>) = task_inv X s" "task_inv X (user_task_request_schedule s) = task_inv X s"
  by (simp_all add: task_inv_def task_queues_def user_task_request_schedule_def)

text \<open>A change of slot \<open>i\<close> that keeps its link and its flag.\<close>

lemma task_inv_set:
  assumes "task_inv X s" "i < 16" "\<And>t. ut_runq_next (f t) = ut_runq_next t" "\<And>t. ut_in_runq (f t) = ut_in_runq t"
  shows "task_inv (insert i X) (set_task i f s)"
proof -
  have "\<exists>q. task_queues (set_task i f s) q" if "g_user_task_runq_initialized s"
    using that assms(1,3,4) task_queues_set [of s _ f i] unfolding task_inv_def by blast
  then show ?thesis using assms unfolding task_inv_def by (auto simp: nth_set_task)
qed

lemma task_inv_same:
  assumes "task_inv X s" "i < 16" "\<And>t. ut_runq_next (f t) = ut_runq_next t" "\<And>t. ut_in_runq (f t) = ut_in_runq t"
    "runnable (f (task s i)) = runnable (task s i)"
  shows "task_inv X (set_task i f s)"
proof (cases "i \<in> X")
  case True
  then show ?thesis using task_inv_set [OF assms(1-4)] by (simp add: insert_absorb)
next
  case False
  show ?thesis
    by (rule task_inv_close [OF task_inv_set [OF assms(1-4)]])
       (use task_inv_in_runq [OF assms(1,2) False] assms task_inv_length [OF assms(1)] in \<open>simp add: nth_set_task\<close>)
qed

lemma task_inv_settle:
  assumes "task_inv (insert i X) s" "i < 16" "\<not> ut_in_runq (task s i)" "\<And>t. ut_runq_next (f t) = ut_runq_next t"
    "\<And>t. ut_in_runq (f t) = ut_in_runq t" "\<not> runnable (f (task s i))"
  shows "task_inv X (set_task i f s)"
proof (rule task_inv_close)
  show "task_inv (insert i X) (set_task i f s)" using task_inv_set [OF assms(1,2,4,5)] by simp
  show "ut_in_runq (task (set_task i f s) i) = runnable (task (set_task i f s) i)"
    using assms task_inv_length [OF assms(1)] by (simp add: nth_set_task)
qed

section \<open>The queue operations\<close>

lemma member_append: "(\<exists>r. j \<in> set ((q(p := q p @ [i])) r)) \<longleftrightarrow> j = i \<or> (\<exists>r. j \<in> set (q r))"
proof -
  have "j \<in> set ((q(p := q p @ [i])) r) \<longleftrightarrow> (r = p \<and> j = i) \<or> j \<in> set (q r)" for r by auto
  then show ?thesis by (simp only:) blast
qed

lemma bootstrap_init [simp]: "g_user_task_runq_initialized (user_task_runq_bootstrap s)"
  by (simp add: user_task_runq_bootstrap_def)

lemma bootstrap_empty:
  "\<not> g_user_task_runq_initialized s \<Longrightarrow> length (g_user_tasks s) = 16 \<Longrightarrow> task_queues (user_task_runq_bootstrap s) (\<lambda>_. [])"
  unfolding task_queues_def by (auto simp: user_task_runq_bootstrap_def Let_def intro!: queues_empty split: if_splits)

lemma task_inv_bootstrap:
  assumes "task_inv X s"
  shows "task_inv X (user_task_runq_bootstrap s)"
    and "j < 16 \<Longrightarrow> ut_in_runq (task (user_task_runq_bootstrap s) j) = ut_in_runq (task s j)"
proof -
  have len: "length (g_user_tasks s) = 16" using assms by (rule task_inv_length)
  have "\<exists>q. task_queues (user_task_runq_bootstrap s) q" if "\<not> g_user_task_runq_initialized s"
    using bootstrap_empty [OF that len] by blast
  moreover have flag: "ut_in_runq (task (user_task_runq_bootstrap s) j) = ut_in_runq (task s j)" if "j < 16" for j
    using assms that unfolding task_inv_def user_task_runq_bootstrap_def by (simp add: Let_def)
  moreover have "runnable (task (user_task_runq_bootstrap s) j) = runnable (task s j)" if "j < 16" for j
    using same_task_runnable [OF same_tasks_nth [OF same_tasks_bootstrap, of j s]] that len by simp
  ultimately show "task_inv X (user_task_runq_bootstrap s)"
    using assms same_tasks_length [OF same_tasks_bootstrap, of s] unfolding task_inv_def by (cases "g_user_task_runq_initialized s") (auto simp: bootstrap_idle)
  show "ut_in_runq (task (user_task_runq_bootstrap s) j) = ut_in_runq (task s j)" if "j < 16" using flag [OF that] .
qed

lemma task_inv_queues:
  assumes "task_inv X s"
  obtains q where "task_queues (user_task_runq_bootstrap s) q"
  using task_inv_bootstrap(1) [OF assms] by (auto simp: task_inv_def)

text \<open>The queues change and the slots that leave or enter them do.\<close>

lemma task_inv_step:
  assumes "task_inv X s" "same_tasks s s'" "task_queues s' q'"
    and "\<And>j. j < 16 \<Longrightarrow> j \<notin> Y \<Longrightarrow> ut_in_runq (task s' j) = runnable (task s j)"
  shows "task_inv Y s'"
proof -
  have "runnable (task s' j) = runnable (task s j)" if "j < 16" for j
    using same_task_runnable [OF same_tasks_nth [OF assms(2)]] that task_inv_length [OF assms(1)] by simp
  then show ?thesis using assms task_queues_lengths [OF assms(3)] unfolding task_inv_def by auto
qed

lemma enqueue_bootstrap: "runnable (task s i) \<Longrightarrow> i < length (g_user_tasks s) \<Longrightarrow>
  user_task_runq_enqueue i s = user_task_runq_enqueue i (user_task_runq_bootstrap s)"
  using same_taskD(1,4) [OF same_tasks_nth [OF same_tasks_bootstrap, of i s]]
  by (simp add: user_task_runq_enqueue_def runnable_def bootstrap_idle)

lemma task_inv_enqueue:
  assumes inv: "task_inv (insert i X) s" and i: "i < 16" "ut_in_runq (task s i) \<longrightarrow> runnable (task s i)"
  shows "task_inv X (user_task_runq_enqueue i s)"
proof (cases "runnable (task s i)")
  case False
  then show ?thesis using task_inv_close [OF inv] i by (simp add: enqueue_skip)
next
  case run: True
  let ?s = "user_task_runq_bootstrap s"
  have len: "length (g_user_tasks s) = 16" using inv by (rule task_inv_length)
  obtain q where q: "task_queues ?s q" using task_inv_queues [OF inv] .
  have run': "runnable (task ?s i)" using same_task_runnable [OF same_tasks_nth [OF same_tasks_bootstrap, of i s]] run i len by simp
  have b: "user_task_runq_enqueue i s = user_task_runq_enqueue i ?s" using enqueue_bootstrap [of s i] run i len by simp
  show ?thesis
  proof (cases "ut_in_runq (task ?s i)")
    case True
    then obtain p where "i \<in> set (q p)" using task_queues_in_runq [OF q i(1)] by blast
    then have "user_task_runq_enqueue i s = ?s" using task_enqueue_queued [OF q] b by simp
    then show ?thesis using task_inv_close [OF task_inv_bootstrap(1) [OF inv]] True run' by simp
  next
    case False
    then have "i \<notin> set (q p)" for p using task_queues_in_runq [OF q i(1)] by blast
    note new = task_enqueue_new [OF q i(1) this run']
    let ?lv = "task_level (task ?s i)"
    show ?thesis unfolding b
    proof (rule task_inv_step [OF task_inv_bootstrap(1) [OF inv] same_tasks_enqueue new])
      fix j assume j: "j < 16" "j \<notin> X"
      have "ut_in_runq (task (user_task_runq_enqueue i ?s) j) \<longleftrightarrow> j = i \<or> ut_in_runq (task ?s j)"
        unfolding task_queues_in_runq [OF new j(1)] task_queues_in_runq [OF q j(1)]
        by (rule member_append)
      then show "ut_in_runq (task (user_task_runq_enqueue i ?s) j) = runnable (task ?s j)"
        using task_inv_in_runq [OF task_inv_bootstrap(1) [OF inv] j(1)] j run' by auto
    qed
  qed
qed

lemma task_inv_remove:
  assumes inv: "task_inv X s" and i: "i < 16"
  shows "task_inv (insert i X) (user_task_runq_remove i s)" "\<not> ut_in_runq (task (user_task_runq_remove i s) i)"
proof -
  let ?s = "user_task_runq_bootstrap s" and ?r = "user_task_runq_remove i s"
  have "task_inv (insert i X) ?r \<and> \<not> ut_in_runq (task ?r i)"
  proof (cases "ut_in_runq (task s i)")
    case False
    then show ?thesis using task_inv_mono [OF inv] by (simp add: user_task_runq_remove_def subset_insertI)
  next
    case True
    obtain q where q: "task_queues ?s q" using task_inv_queues [OF inv] .
    obtain p where p: "i \<in> set (q p)" using True task_queues_in_runq [OF q i] task_inv_bootstrap(2) [OF inv i] by blast
    then have "p < 3" using task_queues_beyond [OF q, of p] by (cases "p < 3") auto
    moreover obtain "is" js where split: "q p = is @ i # js" using split_list [OF p] by blast
    ultimately have new: "task_queues ?r (q(p := is @ js))"
      using remove_levels_found [OF q _ split, of 0 3] True by (auto simp: user_task_runq_remove_def)
    have "queue_of (map ut_runq_next (g_user_tasks ?s)) (g_user_task_runq ?s ! p) (q p)"
      using q \<open>p < 3\<close> queues_okD(2) unfolding task_queues_def by metis
    then have d: "i \<notin> set (is @ js)" using split by (simp add: queue_of_def)
    have other: "i \<notin> set (q r)" if "r \<noteq> p" for r
      using q p that unfolding task_queues_def queues_ok_def by blast
    have flag: "ut_in_runq (task ?r j) \<longleftrightarrow> j \<noteq> i \<and> ut_in_runq (task ?s j)" if "j < 16" for j
      unfolding task_queues_in_runq [OF new that] task_queues_in_runq [OF q that]
    proof (cases "j = i")
      case True
      then show "(\<exists>r. j \<in> set ((q(p := is @ js)) r)) \<longleftrightarrow> j \<noteq> i \<and> (\<exists>r. j \<in> set (q r))" using d other by auto
    next
      case False
      have "j \<in> set ((q(p := is @ js)) r) \<longleftrightarrow> j \<in> set (q r)" for r using split False by auto
      then show "(\<exists>r. j \<in> set ((q(p := is @ js)) r)) \<longleftrightarrow> j \<noteq> i \<and> (\<exists>r. j \<in> set (q r))" using False by blast
    qed
    have "task_inv (insert i X) ?r"
    proof (rule task_inv_step [OF task_inv_bootstrap(1) [OF inv] _ new])
      show "same_tasks ?s ?r" using True by (simp add: user_task_runq_remove_def same_tasks_remove_levels)
      show "ut_in_runq (task ?r j) = runnable (task ?s j)" if "j < 16" "j \<notin> insert i X" for j
        using flag [OF that(1)] task_inv_in_runq [OF task_inv_bootstrap(1) [OF inv] that(1)] that(2) by simp
    qed
    then show ?thesis using flag [OF i] by simp
  qed
  then show "task_inv (insert i X) ?r" "\<not> ut_in_runq (task ?r i)" by simp_all
qed

section \<open>Blocking and waking\<close>

lemma task_inv_fold: "(\<And>i s. i < n \<Longrightarrow> task_inv X s \<Longrightarrow> task_inv X (f i s)) \<Longrightarrow> task_inv X s \<Longrightarrow> task_inv X (fold f [0..<n] s)"
  by (induction n) auto

lemma find_slot_less: "user_task_find_slot_by_pid pid s = Some i \<Longrightarrow> i < 16"
  by (auto simp: user_task_find_slot_by_pid_def first_idx_Some split: if_splits)

lemma current_slot_less: "user_task_current_slot s = Some i \<Longrightarrow> i < 16"
  by (auto simp: user_task_current_slot_def find_slot_less split: if_splits)

lemma task_inv_unqueue: "task_inv (insert i X) s \<Longrightarrow> \<not> ut_in_runq (task s i) \<Longrightarrow> \<not> runnable (task s i) \<Longrightarrow> task_inv X s"
  using task_inv_close [of i X s] by simp

text \<open>A blocked slot becomes runnable and is queued.\<close>

lemma task_inv_wake:
  assumes "task_inv X s" "i < 16" "ut_used (task s i)" "ut_state (task s i) = BLOCKED"
  shows "task_inv X (user_task_runq_enqueue i (set_task i (\<lambda>t. t\<lparr>ut_state := RUNNABLE\<rparr>) s))"
    and "task_inv X (set_task i (\<lambda>t. t\<lparr>ut_state := RUNNING\<rparr>) s)"
proof -
  have len: "length (g_user_tasks s) = 16" using assms(1) by (rule task_inv_length)
  show "task_inv X (user_task_runq_enqueue i (set_task i (\<lambda>t. t\<lparr>ut_state := RUNNABLE\<rparr>) s))"
    by (rule task_inv_enqueue [OF task_inv_set [OF assms(1,2)] assms(2)])
       (use assms len in \<open>simp_all add: nth_set_task runnable_def\<close>)
  show "task_inv X (set_task i (\<lambda>t. t\<lparr>ut_state := RUNNING\<rparr>) s)"
    by (rule task_inv_same [OF assms(1,2)]) (use assms in \<open>simp_all add: runnable_def\<close>)
qed

lemma task_inv_tick_slot:
  assumes "task_inv X s" "i < 16"
  shows "task_inv X (tick_slot now pid i s)"
proof -
  let ?s = "set_task i (\<lambda>t. t\<lparr>ut_wake_tick := 0, ut_block_reason := BLOCK_NONE\<rparr>) s"
  have "task_inv X ?s" by (rule task_inv_same [OF assms]) (simp_all add: runnable_def)
  moreover have "task ?s i = (task s i)\<lparr>ut_wake_tick := 0, ut_block_reason := BLOCK_NONE\<rparr>"
    using assms task_inv_length [OF assms(1)] by (simp add: nth_set_task)
  ultimately show ?thesis using assms task_inv_wake [of X ?s i] by (simp add: tick_slot_def Let_def)
qed

lemma task_inv_tick: "task_inv X s \<Longrightarrow> task_inv X (user_task_scheduler_tick s)"
  unfolding user_task_scheduler_tick_def by (intro task_inv_fold task_inv_tick_slot)

lemma task_inv_wake_slot:
  assumes "task_inv X s" "i < 16"
  shows "task_inv X (wake_slot waits pid i s)"
proof -
  let ?s = "set_task i (\<lambda>t. t\<lparr>ut_wait_target_pid := 0, ut_wait_gui_handle := -1, ut_wake_tick := 0, ut_block_reason := BLOCK_NONE\<rparr>) s"
  have "task_inv X ?s" by (rule task_inv_same [OF assms]) (simp_all add: runnable_def)
  moreover have "task ?s i = (task s i)\<lparr>ut_wait_target_pid := 0, ut_wait_gui_handle := -1, ut_wake_tick := 0, ut_block_reason := BLOCK_NONE\<rparr>"
    using assms task_inv_length [OF assms(1)] by (simp add: nth_set_task)
  ultimately show ?thesis using assms task_inv_wake [of X ?s i] by (simp add: wake_slot_def Let_def)
qed

lemma task_inv_wake_waiters: "task_inv X s \<Longrightarrow> task_inv X (user_task_wake_waiters_for_pid pid s)"
  unfolding user_task_wake_waiters_for_pid_def by (intro task_inv_fold task_inv_wake_slot)

lemma task_inv_wake_gui: "task_inv X s \<Longrightarrow> task_inv X (user_task_wake_gui_waiters h s)"
  unfolding user_task_wake_gui_waiters_def by (intro task_inv_fold task_inv_wake_slot)

lemma task_inv_block:
  assumes "task_inv X s"
  shows "task_inv X (block_current w p h r s)"
proof (cases "user_task_current_slot s")
  case None
  then show ?thesis using assms by (simp add: block_current_def)
next
  case (Some i)
  let ?f = "\<lambda>t. t\<lparr>ut_state := BLOCKED, ut_wake_tick := w, ut_wait_target_pid := p, ut_wait_gui_handle := h, ut_block_reason := r\<rparr>"
  let ?s = "set_task i ?f s"
  have i: "i < 16" using current_slot_less [OF Some] .
  have inv: "task_inv (insert i X) ?s" by (rule task_inv_set [OF assms i]) simp_all
  have "same_task (task ?s i) (task (user_task_runq_remove i ?s) i)"
    using same_tasks_nth [OF same_tasks_remove, of i ?s i] i task_inv_length [OF inv] by simp
  then have "\<not> runnable (task (user_task_runq_remove i ?s) i)"
    using i task_inv_length [OF assms] by (simp add: same_task_runnable nth_set_task) (simp add: runnable_def)
  moreover have "task_inv (insert i X) (user_task_runq_remove i ?s)" using task_inv_remove(1) [OF inv i] by simp
  ultimately have "task_inv X (user_task_runq_remove i ?s)" using task_inv_remove(2) [OF inv i] by (rule task_inv_unqueue [rotated 2])
  then show ?thesis using Some by (simp add: block_current_def Let_def)
qed

lemma task_inv_unblock: "task_inv X s \<Longrightarrow> task_inv X (user_task_unblock_current s)"
proof (cases "user_task_current_slot s")
  case (Some i)
  assume inv: "task_inv X s"
  show ?thesis unfolding user_task_unblock_current_def Some option.case
    by (rule task_inv_same [OF inv current_slot_less [OF Some]]) (simp_all add: runnable_def)
qed (simp add: user_task_unblock_current_def)

section \<open>Exit and signals\<close>

text \<open>Taking a slot out of its queue and making it a zombie.\<close>

lemma task_inv_bury:
  assumes "task_inv X s" "i < 16"
  shows "task_inv X (set_task i (\<lambda>t. t\<lparr>ut_state := ZOMBIE, ut_status := v\<rparr>) (user_task_runq_remove i s))"
  using task_inv_remove [OF assms] by (intro task_inv_settle assms) (simp_all add: runnable_def)

lemma task_inv_notify_exit: "task_inv X s \<Longrightarrow> task_inv X (user_task_notify_exit status s)"
  by (auto simp: user_task_notify_exit_def Let_def split: option.splits
      intro!: task_inv_wake_waiters task_inv_bury find_slot_less)

lemma task_inv_terminate:
  assumes "task_inv X s" "i < 16"
  shows "task_inv X (user_task_terminate_slot i sig s)"
proof -
  define s1 where "s1 = user_task_wake_waiters_for_pid
    (ut_pid (task (set_task i (\<lambda>t. t\<lparr>ut_state := ZOMBIE, ut_status := - int sig\<rparr>) (user_task_runq_remove i s)) i))
    (set_task i (\<lambda>t. t\<lparr>ut_state := ZOMBIE, ut_status := - int sig\<rparr>) (user_task_runq_remove i s))"
  have s1: "task_inv X s1" unfolding s1_def by (intro task_inv_wake_waiters task_inv_bury assms)
  define s2 where "s2 p = set_task p (\<lambda>t. t\<lparr>ut_sig_pending := ut_sig_pending t OR 2 ^ 17\<rparr>) s1" for p
  have s2: "task_inv X (s2 p)" if "p < 16" for p
    unfolding s2_def by (rule task_inv_same [OF s1 that]) (simp_all add: runnable_def)
  have parent: "task_inv X (if ut_state (task (s2 p) p) = BLOCKED
      then user_task_runq_enqueue p (set_task p (\<lambda>t. t\<lparr>ut_state :=
             (if ut_pid t = g_user_task_running_pid (s2 p) then RUNNING else RUNNABLE)\<rparr>) (s2 p))
      else s2 p)" if f: "user_task_find_slot_by_pid (ut_parent_pid (task s1 i)) s1 = Some p" for p
  proof -
    have p: "p < 16" using find_slot_less [OF f] .
    have used: "ut_used (task (s2 p) p)" using f p task_inv_length [OF s1]
      by (auto simp: user_task_find_slot_by_pid_def first_idx_Some s2_def nth_set_task split: if_splits)
    have run: "user_task_runq_enqueue p (set_task p (\<lambda>t. t\<lparr>ut_state := RUNNING\<rparr>) s) = set_task p (\<lambda>t. t\<lparr>ut_state := RUNNING\<rparr>) s"
      if "length (g_user_tasks s) = 16" for s using p that by (intro enqueue_skip) (simp add: nth_set_task runnable_def)
    have "set_task p (\<lambda>t. t\<lparr>ut_state := (if ut_pid t = g_user_task_running_pid (s2 p) then RUNNING else RUNNABLE)\<rparr>) (s2 p)
        = (if ut_pid (task (s2 p) p) = g_user_task_running_pid (s2 p) then set_task p (\<lambda>t. t\<lparr>ut_state := RUNNING\<rparr>) (s2 p)
           else set_task p (\<lambda>t. t\<lparr>ut_state := RUNNABLE\<rparr>) (s2 p))" by (simp add: set_task_def)
    then show ?thesis using s2 [OF p] task_inv_wake [OF s2 [OF p] p used] run [OF task_inv_length [OF s2 [OF p]]] by auto
  qed
  have pid: "g_user_task_running_pid (set_task p f s) = g_user_task_running_pid s" for p f and s :: "'a utask_scheme" by simp
  have zombie: "task_inv X (user_task_request_schedule
      (case user_task_find_slot_by_pid (ut_parent_pid (task s1 i)) s1 of None \<Rightarrow> s1
       | Some p \<Rightarrow> user_task_request_schedule (if ut_state (task (s2 p) p) = BLOCKED
      then user_task_runq_enqueue p (set_task p (\<lambda>t. t\<lparr>ut_state :=
             (if ut_pid t = g_user_task_running_pid (s2 p) then RUNNING else RUNNABLE)\<rparr>) (s2 p))
      else s2 p)))" using s1 parent by (simp split: option.split)
  show ?thesis unfolding user_task_terminate_slot_def Let_def s1_def [symmetric] s2_def [symmetric]
    using assms zombie task_inv_notify_exit [OF assms(1)] by simp
qed

lemma task_inv_call: "task_inv X (snd (call kern c s)) = task_inv X s" "task_inv X (do_call kern c s) = task_inv X s"
  by (simp_all add: call_def do_call_def task_inv_def task_queues_def split: prod.split)

lemma call_tasks: "call kern c s = (r, s') \<Longrightarrow> \<exists>m. s' = s\<lparr>utask.more := m\<rparr>"
  by (auto simp: call_def split: prod.splits)

lemma task_inv_more: "task_inv X (s\<lparr>utask.more := m\<rparr>) = task_inv X s"
  by (simp add: task_inv_def task_queues_def)

lemma task_inv_handle_pending:
  assumes "task_inv X s" "i < 16"
  shows "task_inv X (user_task_handle_pending kern i s)"
proof (cases "first_idx (\<lambda>k. bit (ut_sig_pending (task s i) AND NOT (ut_sig_mask (task s i))) (k + 1)) 31")
  case None
  then show ?thesis using assms by (simp add: user_task_handle_pending_def Let_def)
next
  case (Some k)
  define s1 where "s1 = set_task i (\<lambda>t. t\<lparr>ut_sig_pending := ut_sig_pending t AND NOT (2 ^ (k + 1))\<rparr>) s"
  have s1: "task_inv X s1" unfolding s1_def by (rule task_inv_same [OF assms]) (simp_all add: runnable_def)
  have deliver: "task_inv X (set_task i f s')" if "task_inv X s'"
    "\<And>t. ut_runq_next (f t) = ut_runq_next t" "\<And>t. ut_in_runq (f t) = ut_in_runq t" "\<And>t. runnable (f t) = runnable t" for s' f
    by (rule task_inv_same [OF that(1) assms(2) that(2,3,4)])
  let ?sp = "(r_esp (ut_frame (task s1 i)) - 4) AND NOT 3"
  obtain rc m where c: "call kern (Copyout ?sp (bytes_of32 (of_nat (k + 1)))) s1 = (rc, s1\<lparr>utask.more := m\<rparr>)"
    using call_tasks by (metis surj_pair)
  show ?thesis
    unfolding user_task_handle_pending_def Let_def Some option.case s1_def [symmetric] c
    using s1 task_inv_terminate [OF s1 assms(2)] task_inv_more [of X m s1]
    by (auto intro!: deliver simp: runnable_def)
qed

lemma task_inv_queue_signal: "task_inv X s \<Longrightarrow> task_inv X (snd (user_task_queue_signal pid sig s))"
proof (cases "user_task_find_slot_by_pid pid s")
  case (Some i)
  assume inv: "task_inv X s"
  have i: "i < 16" using find_slot_less [OF Some] .
  define s1 where "s1 = set_task i (\<lambda>t. t\<lparr>ut_sig_pending := ut_sig_pending t OR 2 ^ nat sig\<rparr>) s"
  have s1: "task_inv X s1" unfolding s1_def by (rule task_inv_same [OF inv i]) (simp_all add: runnable_def)
  show ?thesis unfolding user_task_queue_signal_def Some option.case Let_def s1_def [symmetric]
    using inv s1 task_inv_terminate [OF inv i] by simp
qed (simp add: user_task_queue_signal_def)

lemma task_inv_signal_current: "task_inv X s \<Longrightarrow> task_inv X (snd (user_task_signal_current sig s))"
  by (simp add: user_task_signal_current_def task_inv_queue_signal)

lemma task_inv_set_handler: "task_inv X s \<Longrightarrow> task_inv X (snd (user_task_set_handler_current sig h s))"
  by (auto simp: user_task_set_handler_current_def runnable_def split: option.split intro!: task_inv_same find_slot_less)

lemma task_inv_sigreturn: "task_inv X s \<Longrightarrow> task_inv X (snd (user_task_sigreturn_current s))"
  by (auto simp: user_task_sigreturn_current_def runnable_def split: option.split intro!: task_inv_same find_slot_less)

lemma task_inv_capture: "task_inv X s \<Longrightarrow> task_inv X (user_task_capture_syscall_frame regs s)"
  by (auto simp: user_task_capture_syscall_frame_def runnable_def split: option.split intro!: task_inv_same find_slot_less)

section \<open>Rebuilding, boosting and popping\<close>

lemma task_enqueue_other:
  assumes "g_user_task_runq_initialized s" "j \<noteq> i"
  shows "ut_in_runq (task (user_task_runq_enqueue i s) j) = ut_in_runq (task s j)"
  using assms by (simp add: user_task_runq_enqueue_def bootstrap_idle set_task_def Let_def field_list_update [of ut_in_runq])

lemma enqueue_init: "g_user_task_runq_initialized s \<Longrightarrow> g_user_task_runq_initialized (user_task_runq_enqueue i s)"
  by (simp add: user_task_runq_enqueue_def bootstrap_idle Let_def)

lemma rebuild_loop:
  assumes "task_inv UNIV s" "g_user_task_runq_initialized s" "\<And>j. j < 16 \<Longrightarrow> \<not> ut_in_runq (task s j)" "n \<le> 16"
  defines "f \<equiv> \<lambda>i s. if \<not> ut_used (task s i) \<or> ut_state (task s i) \<noteq> RUNNABLE then s else user_task_runq_enqueue i s"
  shows "task_inv {n..} (fold f [0..<n] s) \<and> g_user_task_runq_initialized (fold f [0..<n] s)
    \<and> (\<forall>j. n \<le> j \<longrightarrow> j < 16 \<longrightarrow> \<not> ut_in_runq (task (fold f [0..<n] s) j))"
  using assms(4)
proof (induction n)
  case 0
  then show ?case using assms(1-3) by simp
next
  case (Suc n)
  let ?s = "fold f [0..<n] s"
  have IH: "task_inv {n..} ?s" "g_user_task_runq_initialized ?s" "\<And>j. n \<le> j \<Longrightarrow> j < 16 \<Longrightarrow> \<not> ut_in_runq (task ?s j)"
    using Suc by auto
  have e: "fold f [0..<Suc n] s = user_task_runq_enqueue n ?s" using enqueue_skip [of ?s n] by (auto simp: f_def runnable_def)
  have "{n..} = insert n {Suc n..}" by auto
  then have "task_inv {Suc n..} (user_task_runq_enqueue n ?s)" using IH Suc.prems by (intro task_inv_enqueue) auto
  then show ?case unfolding e using IH Suc.prems task_enqueue_other [OF IH(2)] enqueue_init [OF IH(2)] by auto
qed

lemma task_inv_rebuild:
  assumes "length (g_user_tasks s) = 16"
  shows "task_inv {} (user_task_runq_rebuild s)"
proof -
  define s1 where "s1 = (user_task_runq_bootstrap s)\<lparr>g_user_task_runq := replicate 3 \<lparr>q_head = -1, q_tail = -1\<rparr>,
     g_user_tasks := map (\<lambda>t. t\<lparr>ut_runq_next := -1, ut_in_runq := False\<rparr>) (g_user_tasks (user_task_runq_bootstrap s))\<rparr>"
  have len: "length (g_user_tasks s1) = 16" using assms same_tasks_length [OF same_tasks_bootstrap, of s] by (simp add: s1_def)
  have "task_queues s1 (\<lambda>_. [])" using len by (auto simp: task_queues_def s1_def intro!: queues_empty)
  then have "task_inv UNIV s1" using len by (auto simp: task_inv_def s1_def)
  then have "task_inv {16..} (user_task_runq_rebuild s)"
    using rebuild_loop [of s1 16] len unfolding user_task_runq_rebuild_def Let_def
    by (simp add: s1_def del: upt_rec_numeral)
  then show ?thesis by (simp add: task_inv_def)
qed

lemma task_inv_boost:
  assumes "task_inv {} s"
  shows "task_inv {} (user_task_mlfq_boost_if_due s)"
proof -
  have "length (g_user_tasks (user_task_runq_bootstrap s)) = 16"
    using task_inv_length [OF assms] same_tasks_length [OF same_tasks_bootstrap, of s] by simp
  then show ?thesis unfolding user_task_mlfq_boost_if_due_def Let_def
    using task_inv_bootstrap(1) [OF assms] by (simp add: task_inv_rebuild)
qed

lemma task_inv_level:
  assumes "task_inv X s" "i < 16"
  shows "task_inv X (set_task i (\<lambda>t. t\<lparr>ut_mlfq_slice_left := g t\<rparr>) s)" "task_inv X (set_task i (\<lambda>t. t\<lparr>ut_mlfq_level := h t\<rparr>) s)"
  by (rule task_inv_same [OF assms]; simp add: runnable_def)+

lemma task_inv_account: "task_inv X s \<Longrightarrow> i < 16 \<Longrightarrow> task_inv X (user_task_mlfq_account_preempt i s)"
  by (simp add: user_task_mlfq_account_preempt_def Let_def task_inv_level)

text \<open>The next slot: the first one of the highest level that has any.\<close>

definition run_order :: "(nat \<Rightarrow> nat list) \<Rightarrow> nat list" where
  "run_order q = q 2 @ q 1 @ q 0"

lemma pop_highest_order:
  assumes "task_queues s q"
  shows "case run_order q of
      [] \<Rightarrow> user_task_runq_pop_highest s = (None, s)
    | i # is \<Rightarrow> \<exists>rq q'. user_task_runq_pop_highest s
          = (Some i, set_task i (\<lambda>t. t\<lparr>ut_runq_next := -1, ut_in_runq := False\<rparr>) (s\<lparr>g_user_task_runq := rq\<rparr>))
        \<and> task_queues (set_task i (\<lambda>t. t\<lparr>ut_runq_next := -1, ut_in_runq := False\<rparr>) (s\<lparr>g_user_task_runq := rq\<rparr>)) q'
        \<and> run_order q' = is"
proof -
  have b: "user_task_runq_pop_highest s = pop_levels 3 s"
    using task_queues_lengths(3) [OF assms] by (simp add: user_task_runq_pop_highest_def bootstrap_idle)
  have l: "pop_levels 3 s = (case runq_pop 2 s of (Some i, s) \<Rightarrow> (Some i, s) | (None, s) \<Rightarrow>
      (case runq_pop 1 s of (Some i, s) \<Rightarrow> (Some i, s) | (None, s) \<Rightarrow>
      (case runq_pop 0 s of (Some i, s) \<Rightarrow> (Some i, s) | (None, s) \<Rightarrow> (None, s))))"
    by (simp add: eval_nat_numeral split: prod.split option.split)
  note none = pop_none [OF assms] and some = pop_some [OF assms]
  show ?thesis
  proof (cases "q 2")
    case (Cons i "is")
    then show ?thesis unfolding b l using some [OF Cons] by (fastforce simp: run_order_def)
  next
    case two: Nil
    show ?thesis
    proof (cases "q 1")
      case (Cons i "is")
      then show ?thesis unfolding b l using two none [of 2] some [OF Cons] by (fastforce simp: run_order_def)
    next
      case one: Nil
      show ?thesis
      proof (cases "q 0")
        case (Cons i "is")
        then show ?thesis unfolding b l using two one none [of 2] none [of 1] some [OF Cons] by (fastforce simp: run_order_def)
      next
        case Nil
        then show ?thesis unfolding b l using two one none [of 2] none [of 1] none [of 0] by (simp add: run_order_def)
      qed
    qed
  qed
qed

lemma run_order_set: "i \<in> set (run_order q) \<Longrightarrow> \<exists>p. i \<in> set (q p)"
  by (auto simp: run_order_def)

lemma task_inv_pop:
  assumes inv: "task_inv X s" and init: "g_user_task_runq_initialized s"
  shows "case user_task_runq_pop_highest s of
      (None, s') \<Rightarrow> s' = s
    | (Some i, s') \<Rightarrow> i < 16 \<and> task_inv (insert i X) s' \<and> \<not> ut_in_runq (task s' i) \<and> g_user_task_runq_initialized s'"
proof -
  obtain q where q: "task_queues s q" using inv init by (auto simp: task_inv_def)
  show ?thesis
  proof (cases "run_order q")
    case Nil
    then show ?thesis using pop_highest_order [OF q] by simp
  next
    case (Cons i "is")
    then obtain rq q' where p: "user_task_runq_pop_highest s
          = (Some i, set_task i (\<lambda>t. t\<lparr>ut_runq_next := -1, ut_in_runq := False\<rparr>) (s\<lparr>g_user_task_runq := rq\<rparr>))"
        "task_queues (set_task i (\<lambda>t. t\<lparr>ut_runq_next := -1, ut_in_runq := False\<rparr>) (s\<lparr>g_user_task_runq := rq\<rparr>)) q'"
      using pop_highest_order [OF q] by auto
    let ?s = "set_task i (\<lambda>t. t\<lparr>ut_runq_next := -1, ut_in_runq := False\<rparr>) (s\<lparr>g_user_task_runq := rq\<rparr>)"
    have i: "i < 16" using run_order_set [of i q] task_queues_member [OF q] Cons by auto
    have len: "length (g_user_tasks s) = 16" using task_inv_length [OF inv] .
    have "task_inv (insert i X) ?s"
      by (rule task_inv_step [OF inv _ p(2)])
         (use same_tasks_pop_highest [of s] p(1) i len task_inv_in_runq [OF inv] in \<open>auto simp: nth_set_task\<close>)
    then show ?thesis using p(1) i len init by (simp add: nth_set_task)
  qed
qed

end
