(* ===== verification/UserRunInv.thy ===== *)
theory UserRunInv
  imports UserRun UserTaskInv
begin

text \<open>
  Loading and launching keep the invariant of the task table. The loader touches the table only
  through the mapping it records and the frame it prepares (\<open>core\<close>), so what it does with memory is
  left open. \<open>resume_ok\<close> is the second invariant: among the slots with a frame of the current
  generation only the running process is found.
\<close>

section \<open>What the loader leaves alone\<close>

definition no_runtime :: "user_task_slot \<Rightarrow> user_task_slot" where
  "no_runtime t = t\<lparr>ut_runtime := \<lparr>code_base = 0, code_pages = 0, stack_page = 0\<rparr>\<rparr>"

definition core :: "'a utask_scheme \<Rightarrow> user_task_slot list \<times> nat option \<times> int \<times> int \<times> u32 \<times> sched_queue list \<times> bool \<times> u32" where
  "core s = (map no_runtime (g_user_tasks s), g_user_task_active_slot s, g_user_task_pending_pid s, g_user_task_running_pid s,
     g_user_task_runtime_generation s, g_user_task_runq s, g_user_task_runq_initialized s, g_ticks s)"

named_theorems core_simps \<open>operations of the loader that keep the task table\<close>

lemma core_fields [core_simps]:
  "core (s\<lparr>utask.more := m\<rparr>) = core s" "core (s\<lparr>g_user_runtime := r\<rparr>) = core s" "core (s\<lparr>g_user_segdom := d\<rparr>) = core s"
  "core (s\<lparr>as_stack_bottom := w\<rparr>) = core s" "core (s\<lparr>g_user_stdio := f\<rparr>) = core s" "core (s\<lparr>g_user_interrupt := b\<rparr>) = core s"
  "core (s\<lparr>g_user_task_active := b\<rparr>) = core s" "core (s\<lparr>g_user_task_term := n\<rparr>) = core s"
  "core (s\<lparr>g_user_fd_inherit_mode := b\<rparr>) = core s" "core (s\<lparr>g_user_task_schedule_request := b\<rparr>) = core s"
  by (simp_all add: core_def)

lemma core_call [core_simps]: "core (do_call kern c s) = core s"
  by (simp add: do_call_def call_def core_simps split: prod.split)

lemma core_call_pair: "call kern c s = (r, s') \<Longrightarrow> core s' = core s"
  by (auto simp: call_def core_simps split: prod.splits)

lemma core_fold: "(\<And>x s. core (f x s) = core s) \<Longrightarrow> core (fold f xs s) = core s"
  by (induction xs arbitrary: s) simp_all

lemma core_mapping [core_simps]: "core (user_task_set_current_mapping_state a b c s) = core s"
proof -
  have e: "no_runtime (t\<lparr>ut_runtime := r\<rparr>) = no_runtime t" for t r by (simp add: no_runtime_def)
  have "map no_runtime ((g_user_tasks s)[i := (task s i)\<lparr>ut_runtime := r\<rparr>]) = map no_runtime (g_user_tasks s)" for i r
    by (simp add: map_update e map_update_same)
  then show ?thesis by (simp add: user_task_set_current_mapping_state_def core_def Let_def set_task_def split: option.split)
qed

lemma core_cleanup [core_simps]: "core (user_task_cleanup_mappings env s) = core s"
proof -
  define s1 where "s1 = (let r = user_task_get_current_mapping_state s;
          s = (if code_base r \<noteq> 0 \<and> code_pages r \<noteq> 0
               then fold (\<lambda>i. do_call (ee_kern env) (Unmap_page (code_base r + of_nat i * PAGE_SIZE))) [0..<unat (code_pages r)] s
               else s)
      in (if as_stack_bottom s \<ge> USER_STACK_BASE \<and> as_stack_bottom s < USER_STACK_TOP
               then fold (\<lambda>va. do_call (ee_kern env) (Unmap_page va)) (pages_between (as_stack_bottom s) USER_STACK_TOP) s
               else if stack_page r \<noteq> 0 then do_call (ee_kern env) (Unmap_page (stack_page r)) s
               else s))"
  have s1: "core s1 = core s"
    unfolding s1_def Let_def by (simp add: core_simps core_fold split del: if_split split: if_split)
  have "user_task_cleanup_mappings env s = (case call (ee_kern env) Pipeline_active
        ((user_task_clear_current_mapping_state s1)\<lparr>g_user_segdom := (0x1B, 0x23), as_stack_bottom := USER_STACK_TOP - PAGE_SIZE\<rparr>) of (act, s) \<Rightarrow>
         do_call (ee_kern env) Reset_user_streams (if act = 0 then do_call (ee_kern env) Reset_user_fds s else s))"
    unfolding user_task_cleanup_mappings_def s1_def Let_def by simp
  then show ?thesis
    using s1 by (auto simp: core_simps user_task_clear_current_mapping_state_def dest!: core_call_pair split: prod.split)
qed

lemma core_ctx_allow: "user_elf_ctx_allow caps cost s = (ok, s') \<Longrightarrow> core s' = core s"
  by (cases s) (auto simp: user_elf_ctx_allow_def core_def kctx.defs split: prod.splits)

lemma core_begin [core_simps]: "core (begin_program env s) = core s"
  by (auto simp: begin_program_def Let_def core_simps dest!: core_call_pair split: prod.split)

lemma core_map_demand: "map_demand env vas s = (ok, s') \<Longrightarrow> core s' = core s"
proof (induction vas arbitrary: s)
  case (Cons va vas)
  obtain r s1 where c: "call (ee_kern env) (Walk_demand va) s = (r, s1)" by (metis surj_pair)
  then show ?case using Cons core_call_pair [OF c] by (auto split: if_splits)
qed simp

lemma core_map_fresh: "map_fresh env vas s = (ok, s') \<Longrightarrow> core s' = core s"
proof (induction vas arbitrary: s)
  case (Cons va vas)
  obtain r s1 where c: "call (ee_kern env) Frame_alloc s = (r, s1)" by (metis surj_pair)
  obtain r2 s2 where c2: "call (ee_kern env) (Map_page va r) (do_call (ee_kern env) (Zero_frame r) s1) = (r2, s2)" by (metis surj_pair)
  have "core s2 = core s" using core_call_pair [OF c] core_call_pair [OF c2] by (simp add: core_simps)
  then show ?case using Cons c c2 core_call_pair [OF c] by (auto simp: core_simps split: if_splits)
qed simp

lemma core_load_segments: "load_segments env b n phs s = (ok, s') \<Longrightarrow> core s' = core s"
proof (induction phs arbitrary: s)
  case (Cons ph phs)
  obtain r s1 where c: "map_fresh env (segment_pages ph) s = (r, s1)" by (metis surj_pair)
  then show ?case using Cons core_map_fresh [OF c] by (auto simp: core_simps split: if_splits)
qed simp

lemma load_image_core:
  assumes "load_image env b n file prog argv envp s = (r, s')"
  shows "case r of Ring3 \<Rightarrow> \<exists>entry esp s1. core s1 = core s \<and> s' = enter_ring3 env entry esp s1 | Back rc \<Rightarrow> core s' = core s"
proof (cases "elf_range (elf_phdrs b)")
  case None
  then show ?thesis using assms by (auto simp: load_image_def core_simps)
next
  case (Some range)
  obtain map_start pages where range: "range = (map_start, pages)" by (cases range)
  define s0 where "s0 = (user_task_set_current_mapping_state map_start 0 0 (begin_program env s))\<lparr>as_stack_bottom := USER_STACK_TOP - PAGE_SIZE\<rparr>"
  have s0: "core s0 = core s" by (simp add: s0_def core_simps)
  define ip where "ip = map (\<lambda>i. map_start + of_nat i * PAGE_SIZE) [0..<unat pages]"
  define sp where "sp = map (\<lambda>i. user_stack_page_base + of_nat i * PAGE_SIZE) [0..<unat USER_ELF_INITIAL_STACK_PAGES]"
  obtain ok1 s1 where m1: "map_demand env ip s0 = (ok1, s1)" by (metis surj_pair)
  define s1' where "s1' = user_task_set_current_mapping_state map_start pages user_stack_page_base
    ((user_task_set_current_mapping_state map_start pages 0 s1)\<lparr>as_stack_bottom := user_stack_page_base\<rparr>)"
  obtain ok2 s2 where m2: "map_fresh env sp s1' = (ok2, s2)" by (metis surj_pair)
  obtain ok3 s3 where m3: "load_segments env b n (elf_phdrs b) s2 = (ok3, s3)" by (metis surj_pair)
  obtain esp ws where st: "user_stack_build_argv (USER_STACK_TOP - 0x10) user_stack_page_base prog argv envp = (esp, ws)" by (metis surj_pair)
  define s4 where "s4 = fold (\<lambda>(va, bs). do_call (ee_kern env) (Copy_user va bs)) ws (do_call (ee_kern env) (Free file) s3)"
  have c: "core s1 = core s" "core s1' = core s" "core s2 = core s" "core s3 = core s"
    using core_map_demand [OF m1] core_map_fresh [OF m2] core_load_segments [OF m3] s0 by (simp_all add: s1'_def core_simps)
  have s4: "core s4 = core s" unfolding s4_def by (subst core_fold) (auto simp: core_simps c)
  define s5 where "s5 = fold (\<lambda>va. do_call (ee_kern env) (Clock_add va)) (ip @ sp) s4"
  have s5: "core s5 = core s" unfolding s5_def by (subst core_fold) (simp_all add: core_simps s4)
  show ?thesis
    using assms unfolding load_image_def Let_def Some option.case range prod.case s0_def [symmetric] ip_def [symmetric] sp_def [symmetric]
      m1 s1'_def [symmetric] m2 m3 st s4_def [symmetric] s5_def [symmetric]
    by (cases esp) (use s5 in \<open>auto simp: core_simps c s4 split: if_splits\<close>)
qed

lemma core_read_file: "elf_read_file env drive prog s = (r, s') \<Longrightarrow> core s' = core s"
  by (auto simp: elf_read_file_def Let_def core_simps split: if_splits prod.splits option.splits dest!: core_ctx_allow core_call_pair)

lemma run_argv_core:
  assumes h: "user_elf_run_argv env drive prog argv envp s = Some x"
  shows "case fst x of Ring3 \<Rightarrow> \<exists>entry esp s1. core s1 = core s \<and> snd x = enter_ring3 env entry esp s1 | Back rc \<Rightarrow> core (snd x) = core s"
proof (rule user_elf_run_argv.raw_induct [where P = "\<lambda>env drive prog argv envp s x.
    case fst x of Ring3 \<Rightarrow> \<exists>entry esp s1. core s1 = core s \<and> snd x = enter_ring3 env entry esp s1 | Back rc \<Rightarrow> core (snd x) = core s", OF _ h],
    goal_cases)
  case (1 run env drive prog argv envp s x)
  obtain f s1 where r: "elf_read_file env drive prog s = (f, s1)" by (metis surj_pair)
  note s1 = core_read_file [OF r]
  show ?case
  proof (cases f)
    case None
    then show ?thesis using 1(2) r s1 by (auto split: if_splits)
  next
    case (Some fd)
    obtain fp data where fd: "fd = (fp, data)" by (cases fd)
    let ?b = "elf_byte (ee_beyond env) data" and ?n = "length data"
    show ?thesis
    proof (cases "prog = [] \<or> \<not> elf_header_ok ?b ?n")
      case True
      then show ?thesis using 1(2) r s1 Some fd by (cases "prog = []") (auto simp: Let_def core_simps)
    next
      case ok: False
      show ?thesis
      proof (cases "elf_interp ?b ?n = []")
        case True
        then have "load_image env ?b ?n fp prog argv envp s1 = (fst x, snd x)" using 1(2) r Some fd ok by (simp add: Let_def)
        from load_image_core [OF this] show ?thesis unfolding s1 .
      next
        case False
        obtain p' a' where "run env drive p' a' [] (do_call (ee_kern env) (Free fp) s1) = Some x"
          using 1(2) r Some fd ok False by (simp add: Let_def)
        from 1(1) [OF this] show ?thesis unfolding core_simps s1 .
      qed
    qed
  qed
qed

section \<open>Process numbers and frames\<close>

text \<open>What the second invariant is about: whether a slot is used without an image, its frame with the
  process number and the generation; and the numbers of the running and the pending process.\<close>

definition tag :: "user_task_slot \<Rightarrow> bool \<times> (int \<times> u32) option" where
  "tag t = (ut_used t \<and> ut_image t = None,
     if ut_used t \<and> ut_has_frame t then Some (ut_pid t, ut_frame_generation t) else None)"

definition frames :: "'a utask_scheme \<Rightarrow> (bool \<times> (int \<times> u32) option) list \<times> u32 \<times> int \<times> int" where
  "frames s = (map tag (g_user_tasks s), g_user_task_runtime_generation s, g_user_task_running_pid s, g_user_task_pending_pid s)"

named_theorems frames_simps \<open>operations that keep process numbers and frames\<close>

lemma frames_set [frames_simps]:
  assumes "\<And>t. tag (f t) = tag t"
  shows "frames (set_task i f s) = frames s"
  using map_update_same [of tag "g_user_tasks s" i] assms by (simp add: frames_def) (simp add: set_task_def map_update)

lemma frames_fields [frames_simps]:
  "frames (s\<lparr>g_user_task_schedule_request := b\<rparr>) = frames s" "frames (s\<lparr>g_user_interrupt := b\<rparr>) = frames s"
  "frames (s\<lparr>g_user_fd_inherit_mode := b\<rparr>) = frames s" "frames (s\<lparr>g_user_stdio := f\<rparr>) = frames s"
  "frames (s\<lparr>g_user_task_active := b\<rparr>) = frames s" "frames (s\<lparr>g_user_task_term := n\<rparr>) = frames s"
  "frames (s\<lparr>utask.more := m\<rparr>) = frames s" "frames (s\<lparr>g_user_task_active_slot := a\<rparr>) = frames s"
  "frames (s\<lparr>g_user_task_next_pid := n\<rparr>) = frames s" "frames (s\<lparr>g_ticks := w\<rparr>) = frames s"
  by (simp_all add: frames_def)

lemma same_task_tag: "same_task t t' \<Longrightarrow> tag t' = tag t"
  using same_taskD [of t t'] by (simp add: tag_def)

lemma frames_same_tasks:
  assumes "same_tasks s s'"
  shows "frames s' = frames s"
proof -
  have "map tag (g_user_tasks s') = map tag (g_user_tasks s)"
    using same_task_tag [OF same_tasks_nth [OF assms]] same_tasks_length [OF assms] by (intro nth_equalityI) simp_all
  then show ?thesis using same_tasks_globals [OF assms] by (simp add: frames_def)
qed

lemmas frames_queue_ops [frames_simps] = same_tasks_ops [THEN frames_same_tasks]

lemma tag_simps [simp]:
  "tag (t\<lparr>ut_state := x\<rparr>) = tag t" "tag (t\<lparr>ut_wake_tick := w\<rparr>) = tag t" "tag (t\<lparr>ut_block_reason := r\<rparr>) = tag t"
  "tag (t\<lparr>ut_wait_target_pid := n\<rparr>) = tag t" "tag (t\<lparr>ut_wait_gui_handle := n\<rparr>) = tag t" "tag (t\<lparr>ut_status := n\<rparr>) = tag t"
  "tag (t\<lparr>ut_sig_pending := w\<rparr>) = tag t" "tag (t\<lparr>ut_sig_handler := h\<rparr>) = tag t" "tag (t\<lparr>ut_sig_saved_present := b\<rparr>) = tag t"
  "tag (t\<lparr>ut_mlfq_slice_left := w\<rparr>) = tag t" "tag (t\<lparr>ut_fd_inherit_mode := b\<rparr>) = tag t" "tag (t\<lparr>ut_stdio := f\<rparr>) = tag t"
  by (simp_all add: tag_def)

lemma frames_fold: "(\<And>x s. frames (f x s) = frames s) \<Longrightarrow> frames (fold f xs s) = frames s"
  by (induction xs arbitrary: s) simp_all

lemma frames_request [frames_simps]: "frames (user_task_request_schedule s) = frames s"
  by (simp add: user_task_request_schedule_def frames_simps)

lemma frames_tick [frames_simps]: "frames (user_task_scheduler_tick s) = frames s"
  unfolding user_task_scheduler_tick_def by (rule frames_fold) (simp add: tick_slot_def Let_def frames_simps)

lemma frames_wake_slot: "frames (wake_slot w p i s) = frames s"
  by (simp add: wake_slot_def Let_def frames_simps)

lemma frames_wakes [frames_simps]:
  "frames (user_task_wake_waiters_for_pid pid s) = frames s" "frames (user_task_wake_gui_waiters h s) = frames s"
  unfolding user_task_wake_waiters_for_pid_def user_task_wake_gui_waiters_def by (rule frames_fold, rule frames_wake_slot)+

lemma frames_block [frames_simps]: "frames (block_current w p h r s) = frames s" "frames (user_task_unblock_current s) = frames s"
  by (simp_all add: block_current_def user_task_unblock_current_def Let_def frames_simps split: option.split)

lemma frames_notify_exit: "frames (user_task_notify_exit status s) = (map tag (g_user_tasks s), g_user_task_runtime_generation s, 0, 0)"
proof -
  define s1 where "s1 = (if g_user_task_running_pid s > 0 then
                 let s1 = (case user_task_find_slot_by_pid (g_user_task_running_pid s) s of None \<Rightarrow> s
                          | Some i \<Rightarrow> set_task i (\<lambda>t. t\<lparr>ut_state := ZOMBIE, ut_status := status\<rparr>) (user_task_runq_remove i s))
                 in user_task_wake_waiters_for_pid (g_user_task_running_pid s) s1
               else s)"
  have "frames s1 = frames s" by (simp add: s1_def Let_def frames_simps split: option.split)
  moreover have "frames (user_task_notify_exit status s) = (map tag (g_user_tasks s1), g_user_task_runtime_generation s1, 0, 0)"
    unfolding user_task_notify_exit_def s1_def [symmetric] Let_def by (simp add: frames_def user_task_request_schedule_def s1_def Let_def)
  ultimately show ?thesis by (simp add: frames_def)
qed

lemma frames_terminate:
  "frames (user_task_terminate_slot i sig s) \<in> {frames s, (map tag (g_user_tasks s), g_user_task_runtime_generation s, 0, 0)}"
  by (simp add: user_task_terminate_slot_def Let_def frames_simps frames_notify_exit split: option.split)

lemma frames_queue_signal:
  "frames (snd (user_task_queue_signal pid sig s)) \<in> {frames s, (map tag (g_user_tasks s), g_user_task_runtime_generation s, 0, 0)}"
  using frames_terminate [of _ "nat sig" s]
  by (auto simp: user_task_queue_signal_def Let_def frames_simps split: option.split)

lemma frames_signal_current:
  "frames (snd (user_task_signal_current sig s)) \<in> {frames s, (map tag (g_user_tasks s), g_user_task_runtime_generation s, 0, 0)}"
  using frames_queue_signal [of "g_user_task_running_pid s" sig s] by (simp add: user_task_signal_current_def)

lemma frames_handlers [frames_simps]:
  "frames (snd (user_task_set_handler_current sig h s)) = frames s" "frames (snd (user_task_sigreturn_current s)) = frames s"
  by (simp_all add: user_task_set_handler_current_def user_task_sigreturn_current_def frames_simps split: option.split)

section \<open>The second invariant\<close>

definition images_ok :: "'a utask_scheme \<Rightarrow> bool" where
  "images_ok s \<longleftrightarrow> (\<forall>t \<in> set (g_user_tasks s). ut_used t \<longrightarrow> ut_image t \<noteq> None)"

definition resume_ok :: "'a utask_scheme \<Rightarrow> bool" where
  "resume_ok s \<longleftrightarrow> (\<forall>t \<in> set (g_user_tasks s). ut_used t \<longrightarrow> ut_has_frame t \<longrightarrow>
     ut_frame_generation t \<le> g_user_task_runtime_generation s
     \<and> (ut_frame_generation t = g_user_task_runtime_generation s \<longrightarrow> g_user_task_running_pid s > 0 \<longrightarrow> ut_pid t = g_user_task_running_pid s))"

lemma images_ok_frames: "images_ok s \<longleftrightarrow> (\<forall>x \<in> set (fst (frames s)). \<not> fst x)"
  by (auto simp: images_ok_def frames_def tag_def)

lemma resume_ok_frames: "resume_ok s \<longleftrightarrow> (case frames s of (ts, g, r, p) \<Rightarrow>
    \<forall>x \<in> set ts. \<forall>pid g'. snd x = Some (pid, g') \<longrightarrow> g' \<le> g \<and> (g' = g \<longrightarrow> r > 0 \<longrightarrow> pid = r))"
  by (auto simp: resume_ok_def frames_def tag_def)

lemma frames_cong:
  assumes "frames s' = frames s"
  shows "images_ok s' = images_ok s" "resume_ok s' = resume_ok s"
    "g_user_task_runtime_generation s' = g_user_task_runtime_generation s" "g_user_task_pending_pid s' = g_user_task_pending_pid s"
    "g_user_task_running_pid s' = g_user_task_running_pid s"
  unfolding images_ok_frames resume_ok_frames using assms by (simp_all add: frames_def)

lemma frames_exit:
  assumes "frames s' \<in> {frames s, (map tag (g_user_tasks s), g_user_task_runtime_generation s, 0, 0)}"
  shows "images_ok s \<Longrightarrow> images_ok s'" "resume_ok s \<Longrightarrow> resume_ok s'"
    "g_user_task_runtime_generation s' = g_user_task_runtime_generation s" "g_user_task_pending_pid s = 0 \<Longrightarrow> g_user_task_pending_pid s' = 0"
proof -
  obtain ts g r p where f: "frames s = (ts, g, r, p)" by (metis prod_cases4)
  have "(map tag (g_user_tasks s), g_user_task_runtime_generation s, 0, 0) = (ts, g, 0, 0)" using f by (simp add: frames_def)
  then have f': "frames s' = (ts, g, r, p) \<or> frames s' = (ts, g, 0, 0)" using assms f by auto
  show "images_ok s \<Longrightarrow> images_ok s'" "resume_ok s \<Longrightarrow> resume_ok s'"
    using f f' unfolding images_ok_frames resume_ok_frames by auto
  show "g_user_task_runtime_generation s' = g_user_task_runtime_generation s" "g_user_task_pending_pid s = 0 \<Longrightarrow> g_user_task_pending_pid s' = 0"
    using f f' by (auto simp: frames_def)
qed

lemma set_task_in: "t \<in> set (g_user_tasks (set_task i f s)) \<Longrightarrow> t \<in> set (g_user_tasks s) \<or> (i < length (g_user_tasks s) \<and> t = f (task s i))"
  by (cases "i < length (g_user_tasks s)") (auto simp: set_task_def list_update_beyond dest!: set_update_subset_insert [THEN subsetD])

section \<open>Loading and launching\<close>

lemma core_task:
  assumes "core s' = core s"
  shows "length (g_user_tasks s') = length (g_user_tasks s)" "j < length (g_user_tasks s) \<Longrightarrow> no_runtime (task s' j) = no_runtime (task s j)"
proof -
  have e: "map no_runtime (g_user_tasks s') = map no_runtime (g_user_tasks s)" using assms by (simp add: core_def)
  then show l: "length (g_user_tasks s') = length (g_user_tasks s)" using map_eq_imp_length_eq by blast
  show "j < length (g_user_tasks s) \<Longrightarrow> no_runtime (task s' j) = no_runtime (task s j)"
    using arg_cong [OF e, of "\<lambda>xs. xs ! j"] l by simp
qed

lemma no_runtimeD:
  assumes "no_runtime t = no_runtime u"
  shows "ut_runq_next t = ut_runq_next u" "ut_in_runq t = ut_in_runq u" "runnable t = runnable u" "tag t = tag u" "ut_pid t = ut_pid u"
    "ut_state t = ut_state u"
proof -
  have "ut_runq_next (no_runtime t) = ut_runq_next t" "ut_in_runq (no_runtime t) = ut_in_runq t" "runnable (no_runtime t) = runnable t"
    "tag (no_runtime t) = tag t" "ut_pid (no_runtime t) = ut_pid t" "ut_state (no_runtime t) = ut_state t" for t
    by (simp_all add: no_runtime_def runnable_def tag_def)
  then show "ut_runq_next t = ut_runq_next u" "ut_in_runq t = ut_in_runq u" "runnable t = runnable u" "tag t = tag u" "ut_pid t = ut_pid u"
    "ut_state t = ut_state u" using assms by metis+
qed

lemma core_map:
  assumes "core s' = core s" "\<And>t u. no_runtime t = no_runtime u \<Longrightarrow> f t = f u"
  shows "map f (g_user_tasks s') = map f (g_user_tasks s)"
proof (rule nth_equalityI)
  fix j assume "j < length (map f (g_user_tasks s'))"
  then have j: "j < length (g_user_tasks s)" "j < length (g_user_tasks s')" using core_task(1) [OF assms(1)] by simp_all
  show "map f (g_user_tasks s') ! j = map f (g_user_tasks s) ! j"
    unfolding nth_map [OF j(1)] nth_map [OF j(2)] by (rule assms(2) [OF core_task(2) [OF assms(1) j(1)]])
qed (use core_task(1) [OF assms(1)] in simp)

lemma task_inv_core:
  assumes "core s' = core s"
  shows "task_inv X s' = task_inv X s"
proof -
  have q: "g_user_task_runq s' = g_user_task_runq s" "g_user_task_runq_initialized s' = g_user_task_runq_initialized s"
    using assms by (simp_all add: core_def)
  have m: "map ut_runq_next (g_user_tasks s') = map ut_runq_next (g_user_tasks s)" "map ut_in_runq (g_user_tasks s') = map ut_in_runq (g_user_tasks s)"
    by (rule core_map [OF assms], erule no_runtimeD)+
  have j: "ut_in_runq (task s' j) = ut_in_runq (task s j)" "runnable (task s' j) = runnable (task s j)" if "j < 16" "length (g_user_tasks s) = 16" for j
    using no_runtimeD(2,3) [OF core_task(2) [OF assms]] that by simp_all
  have "task_queues s' q = task_queues s q" for q unfolding task_queues_def m q core_task(1) [OF assms] by (rule refl)
  then show ?thesis unfolding task_inv_def q core_task(1) [OF assms] using j by auto
qed

lemma frames_core: "core s' = core s \<Longrightarrow> frames s' = frames s"
  using core_map [of s' s tag, OF _ no_runtimeD(4)] by (simp add: frames_def core_def)

text \<open>Entering ring 3 as a change of the state.\<close>

lemma enter_ring3_cases:
  obtains m d where "enter_ring3 env entry esp s =
    (let s1 = s\<lparr>g_user_segdom := d, utask.more := m, g_user_task_running_pid := g_user_task_pending_pid s, g_user_task_pending_pid := 0,
        g_user_task_runtime_generation := (if g_user_task_runtime_generation s + 1 = 0 then 1 else g_user_task_runtime_generation s + 1)\<rparr>
     in case g_user_task_active_slot s of None \<Rightarrow> s1
       | Some i \<Rightarrow> set_task i (\<lambda>t. t\<lparr>ut_frame := entry_frame entry esp s1, ut_has_frame := True,
             ut_frame_generation := g_user_task_runtime_generation s1\<rparr>) s1)"
  by (rule that [of "snd (ee_kern env Load_segdom (utask.more s))" "(0x0F, 0x17)"])
     (simp add: enter_ring3_def do_call_def call_def Let_def split: prod.splits option.splits)

lemma task_inv_enter: "task_inv X s \<Longrightarrow> task_inv X (enter_ring3 env entry esp s)"
proof -
  assume inv: "task_inv X s"
  have set: "task_inv X (set_task i f s1)" if "task_inv X s1" "\<And>t. ut_runq_next (f t) = ut_runq_next t" "\<And>t. ut_in_runq (f t) = ut_in_runq t"
    "\<And>t. runnable (f t) = runnable t" for i f and s1 :: "'a utask_scheme"
  proof (cases "i < 16")
    case True
    then show ?thesis by (intro task_inv_same that)
  next
    case False
    then have "set_task i f s1 = s1" using task_inv_length [OF that(1)] by (simp add: set_task_def list_update_beyond)
    then show ?thesis using that(1) by simp
  qed
  show ?thesis
    by (rule enter_ring3_cases [of env entry esp s])
       (use inv in \<open>auto simp: Let_def runnable_def task_inv_more split: option.split intro!: set\<close>)
qed

lemma enter_ring3_fields:
  "g_user_task_running_pid (enter_ring3 env entry esp s) = g_user_task_pending_pid s"
  "g_user_task_pending_pid (enter_ring3 env entry esp s) = 0"
  "g_user_task_runtime_generation s \<noteq> 0xFFFFFFFF \<Longrightarrow> g_user_task_runtime_generation (enter_ring3 env entry esp s) = g_user_task_runtime_generation s + 1"
  "images_ok s \<Longrightarrow> images_ok (enter_ring3 env entry esp s)"
proof -
  have w: "g + 1 = 0 \<longleftrightarrow> g = 0xFFFFFFFF" for g :: u32
  proof -
    have "(0xFFFFFFFF :: u32) = - 1" by simp
    then show ?thesis using eq_neg_iff_add_eq_0 [of g 1] by metis
  qed
  show "g_user_task_running_pid (enter_ring3 env entry esp s) = g_user_task_pending_pid s"
    "g_user_task_pending_pid (enter_ring3 env entry esp s) = 0"
    "g_user_task_runtime_generation s \<noteq> 0xFFFFFFFF \<Longrightarrow> g_user_task_runtime_generation (enter_ring3 env entry esp s) = g_user_task_runtime_generation s + 1"
    by (rule enter_ring3_cases [of env entry esp s]; simp add: Let_def w split: option.split)+
  show "images_ok s \<Longrightarrow> images_ok (enter_ring3 env entry esp s)"
    by (rule enter_ring3_cases [of env entry esp s])
       (auto simp: Let_def images_ok_def dest!: set_task_in split: option.split)
qed

lemma frames_enter:
  assumes ok: "resume_ok s" and g: "g_user_task_runtime_generation s \<noteq> 0xFFFFFFFF"
    and act: "\<And>i. g_user_task_active_slot s = Some i \<Longrightarrow> i < length (g_user_tasks s) \<Longrightarrow> g_user_task_pending_pid s > 0 \<Longrightarrow> ut_pid (task s i) = g_user_task_pending_pid s"
  shows "resume_ok (enter_ring3 env entry esp s)"
proof -
  let ?s = "enter_ring3 env entry esp s"
  have less: "g < g_user_task_runtime_generation s + 1" if "g \<le> g_user_task_runtime_generation s" for g
  proof -
    have "unat (g_user_task_runtime_generation s) \<noteq> 4294967295" using g by (simp add: word_unat_eq_iff)
    then have "unat (g_user_task_runtime_generation s) < 4294967295" using unat_less32 [of "g_user_task_runtime_generation s"] by linarith
    then have "unat (g_user_task_runtime_generation s) + unat (1 :: u32) < 2 ^ 32" by simp
    from unat_add32 [OF this] show ?thesis using that by (simp add: word_le_nat_alt word_less_nat_alt)
  qed
  have "ut_frame_generation t \<le> g_user_task_runtime_generation ?s
     \<and> (ut_frame_generation t = g_user_task_runtime_generation ?s \<longrightarrow> g_user_task_running_pid ?s > 0 \<longrightarrow> ut_pid t = g_user_task_running_pid ?s)"
    if t: "t \<in> set (g_user_tasks ?s)" "ut_used t" "ut_has_frame t" for t
  proof -
    have "(t \<in> set (g_user_tasks s)) \<or> (\<exists>i. g_user_task_active_slot s = Some i \<and> i < length (g_user_tasks s)
        \<and> ut_frame_generation t = g_user_task_runtime_generation ?s \<and> ut_pid t = ut_pid (task s i))"
      by (rule enter_ring3_cases [of env entry esp s])
         (use t(1) in \<open>auto simp: Let_def dest!: set_task_in split: option.splits\<close>)
    then show ?thesis
    proof
      assume "t \<in> set (g_user_tasks s)"
      then have "ut_frame_generation t < g_user_task_runtime_generation s + 1" using ok t(2,3) less by (auto simp: resume_ok_def)
      then show ?thesis unfolding enter_ring3_fields(3) [OF g] by auto
    next
      assume "\<exists>i. g_user_task_active_slot s = Some i \<and> i < length (g_user_tasks s)
        \<and> ut_frame_generation t = g_user_task_runtime_generation ?s \<and> ut_pid t = ut_pid (task s i)"
      then show ?thesis using act by (auto simp: enter_ring3_fields(1))
    qed
  qed
  then show ?thesis by (simp add: resume_ok_def)
qed

end
