(* ===== verification/UserRunSpec.thy ===== *)
theory UserRunSpec
  imports UserRunInv
begin

text \<open>
  What running user tasks promises: \<open>after\<close> is what every operation keeps, the invariant of the
  task table without conditions, and the invariant of the frames as long as the generation counter
  does not wrap.
\<close>

definition user_ok :: "'a utask_scheme \<Rightarrow> bool" where
  "user_ok s \<longleftrightarrow> task_inv {} s \<and> images_ok s"

definition switch_ok :: "'a utask_scheme \<Rightarrow> bool" where
  "switch_ok s \<longleftrightarrow> resume_ok s \<and> g_user_task_pending_pid s = 0"

definition after :: "bool \<Rightarrow> 'a utask_scheme \<Rightarrow> 'a utask_scheme \<Rightarrow> bool" where
  "after entered s s' \<longleftrightarrow> user_ok s' \<and> (switch_ok s \<longrightarrow> g_user_task_runtime_generation s \<noteq> 0xFFFFFFFF \<longrightarrow>
     switch_ok s' \<and> g_user_task_runtime_generation s' = (if entered then g_user_task_runtime_generation s + 1 else g_user_task_runtime_generation s))"

lemma after_trans: "after False s s1 \<Longrightarrow> after b s1 s2 \<Longrightarrow> after b s s2"
  by (auto simp: after_def)

lemma after_refl: "user_ok s \<Longrightarrow> after False s s"
  by (simp add: after_def)

lemma after_frames: "task_inv {} s' \<Longrightarrow> images_ok s \<Longrightarrow> frames s' = frames s \<Longrightarrow> after False s s'"
  using frames_cong [of s' s] by (simp add: after_def user_ok_def switch_ok_def)

lemma after_exit:
  "task_inv {} s' \<Longrightarrow> images_ok s \<Longrightarrow> frames s' \<in> {frames s, (map tag (g_user_tasks s), g_user_task_runtime_generation s, 0, 0)} \<Longrightarrow> after False s s'"
  using frames_exit [of s' s] by (simp add: after_def user_ok_def switch_ok_def)

lemma after_frames_left: "frames s1 = frames s \<Longrightarrow> after b s1 s2 \<Longrightarrow> after b s s2"
  using frames_cong [of s1 s] by (simp add: after_def switch_ok_def)

section \<open>Launching\<close>


lemma resume_ok_running: "resume_ok s \<Longrightarrow> map tag (g_user_tasks s') = map tag (g_user_tasks s) \<Longrightarrow>
  g_user_task_runtime_generation s' = g_user_task_runtime_generation s \<Longrightarrow>
  g_user_task_running_pid s' = g_user_task_running_pid s \<or> g_user_task_running_pid s' \<le> 0 \<Longrightarrow> resume_ok s'"
  unfolding resume_ok_frames by (auto simp: frames_def)

lemma images_ok_tags: "map tag (g_user_tasks s') = map tag (g_user_tasks s) \<Longrightarrow> images_ok s' = images_ok s"
  by (simp add: images_ok_frames frames_def)

text \<open>Before the loader is called.\<close>

definition launch_prepare :: "nat \<Rightarrow> 'a utask_scheme \<Rightarrow> 'a utask_scheme" where
  "launch_prepare i s =
     (let s = user_task_runq_remove i s;
          s = (if ut_mlfq_slice_left (task s i) = 0
               then set_task i (\<lambda>t. t\<lparr>ut_mlfq_slice_left := user_task_level_quantum_ticks (ucast (ut_mlfq_level t)) s\<rparr>) s else s);
          s = set_task i (\<lambda>t. t\<lparr>ut_state := RUNNING, ut_wait_target_pid := 0, ut_wait_gui_handle := -1, ut_wake_tick := 0,
                ut_block_reason := BLOCK_NONE, ut_has_frame := False, ut_frame_generation := 0\<rparr>) s;
          s = s\<lparr>g_user_task_active_slot := Some i, g_user_task_pending_pid := ut_pid (task s i),
                g_user_task_term := ut_origin_vterm (task s i)\<rparr>
      in user_task_apply_stdio_state i s)"

lemma launch_prepare_ok:
  assumes inv: "task_inv {i} s" "i < 16" "images_ok s"
  defines "s' \<equiv> launch_prepare i s"
  shows "task_inv {} s'" "images_ok s'" "resume_ok s \<Longrightarrow> resume_ok s'" "g_user_task_runtime_generation s' = g_user_task_runtime_generation s"
    "g_user_task_active_slot s' = Some i" "ut_pid (task s' i) = g_user_task_pending_pid s'" "ut_state (task s' i) = RUNNING"
    "g_user_task_running_pid s' = g_user_task_running_pid s"
proof -
  define s1 where "s1 = user_task_runq_remove i s"
  define s2 where "s2 = (if ut_mlfq_slice_left (task s1 i) = 0
      then set_task i (\<lambda>t. t\<lparr>ut_mlfq_slice_left := user_task_level_quantum_ticks (ucast (ut_mlfq_level t)) s1\<rparr>) s1 else s1)"
  define s3 where "s3 = set_task i (\<lambda>t. t\<lparr>ut_state := RUNNING, ut_wait_target_pid := 0, ut_wait_gui_handle := -1, ut_wake_tick := 0,
                ut_block_reason := BLOCK_NONE, ut_has_frame := False, ut_frame_generation := 0\<rparr>) s2"
  have s': "s' = user_task_apply_stdio_state i (s3\<lparr>g_user_task_active_slot := Some i, g_user_task_pending_pid := ut_pid (task s3 i),
                g_user_task_term := ut_origin_vterm (task s3 i)\<rparr>)"
    by (simp add: s'_def launch_prepare_def Let_def s1_def s2_def s3_def)
  have len: "length (g_user_tasks s1) = 16" using task_inv_length [OF inv(1)] same_tasks_length [OF same_tasks_remove, of i s] by (simp add: s1_def)
  have f: "frames s2 = frames s" by (simp add: s2_def s1_def frames_simps)
  have "task_inv {i} s1" "\<not> ut_in_runq (task s1 i)" using task_inv_remove [OF inv(1,2)] by (simp_all add: s1_def)
  then have s2: "task_inv {i} s2" "\<not> ut_in_runq (task s2 i)" using inv(2) len by (auto simp: s2_def task_inv_level nth_set_task)
  then have "task_inv {} s3" unfolding s3_def using inv(2) by (intro task_inv_settle) (simp_all add: runnable_def)
  then show "task_inv {} s'" by (simp add: s' user_task_apply_stdio_state_def)
  have len2: "length (g_user_tasks s2) = 16" using task_inv_length [OF s2(1)] .
  have im: "images_ok s2" using frames_cong(1) [OF f] inv(3) by simp
  then have "images_ok s3" unfolding images_ok_def s3_def by (auto dest!: set_task_in)
  then show "images_ok s'" by (simp add: images_ok_def s' user_task_apply_stdio_state_def)
  show "resume_ok s'" if "resume_ok s"
  proof -
    have "resume_ok s2" using frames_cong(2) [OF f] that by simp
    then have "resume_ok s3" unfolding resume_ok_def s3_def by (auto dest!: set_task_in)
    then show ?thesis by (simp add: resume_ok_def s' user_task_apply_stdio_state_def)
  qed
  show "g_user_task_runtime_generation s' = g_user_task_runtime_generation s" "g_user_task_running_pid s' = g_user_task_running_pid s"
    using frames_cong(3,5) [OF f] by (simp_all add: s' s3_def user_task_apply_stdio_state_def)
  show "g_user_task_active_slot s' = Some i" "ut_pid (task s' i) = g_user_task_pending_pid s'" "ut_state (task s' i) = RUNNING"
    using inv(2) len2 by (simp_all add: s' user_task_apply_stdio_state_def s3_def nth_set_task)
qed

lemma launch_ok:
  assumes inv: "task_inv {i} s" "i < 16" "images_ok s" "ut_used (task s i)"
    and run: "user_task_launch_slot env i s = Some (r, s')"
  shows "after (r = Ring3) s s'"
proof -
  have len: "length (g_user_tasks s) = 16" using task_inv_length [OF inv(1)] .
  then have "task s i \<in> set (g_user_tasks s)" using inv(2) by simp
  then obtain im where im: "ut_image (task s i) = Some im" using inv(3,4) by (auto simp: images_ok_def)
  define s1 where "s1 = launch_prepare i s"
  note p = launch_prepare_ok [OF inv(1-3), folded s1_def]
  obtain x where x: "user_elf_run_argv env (im_drive im) (im_path im) (map Some (im_argv im)) [] s1 = Some x"
    using run im by (auto simp: user_task_launch_slot_def launch_prepare_def s1_def Let_def split: option.splits)
  note c = run_argv_core [OF x]
  show ?thesis
  proof (cases "fst x")
    case Ring3
    then obtain entry esp s2 where s2: "core s2 = core s1" "snd x = enter_ring3 env entry esp s2" using c by auto
    have s': "r = Ring3" "s' = enter_ring3 env entry esp s2"
      using run im x Ring3 s2(2) by (cases x; auto simp: user_task_launch_slot_def launch_prepare_def s1_def Let_def)+
    have f: "frames s2 = frames s1" by (rule frames_core [OF s2(1)])
    have a: "g_user_task_active_slot s2 = Some i" "g_user_task_pending_pid s2 = g_user_task_pending_pid s1"
      using s2(1) p(5) by (simp_all add: core_def)
    have pid: "ut_pid (task s2 i) = g_user_task_pending_pid s2"
      using no_runtimeD(5) [OF core_task(2) [OF s2(1)]] p(6) a(2) inv(2) task_inv_length [OF p(1)] by simp
    have "user_ok s'" using task_inv_core [OF s2(1)] p(1,2) frames_cong(1) [OF f] enter_ring3_fields(4) [of s2] task_inv_enter [of "{}" s2]
      by (simp add: user_ok_def s')
    moreover have "switch_ok s' \<and> g_user_task_runtime_generation s' = g_user_task_runtime_generation s + 1"
      if "switch_ok s" "g_user_task_runtime_generation s \<noteq> 0xFFFFFFFF"
    proof -
      have "resume_ok s2" using frames_cong(2) [OF f] p(3) that(1) by (simp add: switch_ok_def)
      then have "resume_ok s'" unfolding s'(2)
        by (rule frames_enter) (use that(2) frames_cong(3) [OF f] p(4) a pid in auto)
      then show ?thesis using that(2) frames_cong(3) [OF f] p(4) by (simp add: switch_ok_def s' enter_ring3_fields)
    qed
    ultimately show ?thesis by (simp add: after_def s')
  next
    case (Back rc)
    define s2 where "s2 = snd x"
    have s2: "core s2 = core s1" using c Back by (simp add: s2_def)
    define s3 where "s3 = (let s = s2\<lparr>g_user_task_active_slot := None\<rparr>;
                     s = (if g_user_task_pending_pid s = ut_pid (task s i) then s\<lparr>g_user_task_pending_pid := 0\<rparr> else s)
                 in (if g_user_task_running_pid s = ut_pid (task s i) then s\<lparr>g_user_task_running_pid := 0\<rparr> else s))"
    have s': "r = Back rc" "s' = set_task i (\<lambda>t. t\<lparr>ut_state := ZOMBIE, ut_status := (if rc = 0 then 0 else -1)\<rparr>) s3"
      using run im x Back by (cases x; auto simp: user_task_launch_slot_def launch_prepare_def s1_def s2_def s3_def Let_def)+
    have t: "g_user_tasks s3 = g_user_tasks s2" "task_inv {} s3" using task_inv_core [OF s2] p(1) by (simp_all add: s3_def Let_def)
    have nr: "ut_state (task s2 i) = RUNNING" "ut_pid (task s2 i) = g_user_task_pending_pid s2"
      using no_runtimeD(5,6) [OF core_task(2) [OF s2]] p(6,7) inv(2) task_inv_length [OF p(1)] s2 by (simp_all add: core_def)
    have "\<not> ut_in_runq (task s3 i)" using task_inv_in_runq [OF t(2) inv(2)] nr(1) by (simp add: t(1) runnable_def)
    then have "task_inv {} s'" unfolding s'(2)
      by (intro task_inv_settle task_inv_mono [OF t(2)] inv(2)) (simp_all add: runnable_def)
    moreover have f: "frames s2 = frames s1" by (rule frames_core [OF s2])
    have tags: "map tag (g_user_tasks s') = map tag (g_user_tasks s2)"
      using frames_set [of "\<lambda>t. t\<lparr>ut_state := ZOMBIE, ut_status := (if rc = 0 then 0 else -1)\<rparr>" i s3] by (simp add: s'(2) frames_def t(1))
    then have "images_ok s'" using images_ok_tags [OF tags] frames_cong(1) [OF f] p(2) by simp
    moreover have "switch_ok s' \<and> g_user_task_runtime_generation s' = g_user_task_runtime_generation s" if "switch_ok s"
    proof -
      have "resume_ok s2" using frames_cong(2) [OF f] p(3) that by (simp add: switch_ok_def)
      then have "resume_ok s'" by (rule resume_ok_running [OF _ tags]) (auto simp: s'(2) s3_def Let_def)
      then show ?thesis using nr(2) frames_cong(3) [OF f] p(4) by (simp add: switch_ok_def s'(2) s3_def Let_def)
    qed
    ultimately show ?thesis by (simp add: after_def user_ok_def s'(1))
  qed
qed

section \<open>Choosing, spawning, waiting\<close>

lemma pop_bootstrap: "user_task_runq_pop_highest (user_task_runq_bootstrap s) = user_task_runq_pop_highest s"
  by (simp add: user_task_runq_pop_highest_def bootstrap_idle)

lemma pop_ok:
  assumes "user_ok s"
  shows "case user_task_runq_pop_highest s of
      (None, s') \<Rightarrow> after False s s'
    | (Some i, s') \<Rightarrow> i < 16 \<and> task_inv {i} s' \<and> \<not> ut_in_runq (task s' i) \<and> images_ok s' \<and> frames s' = frames s"
proof -
  have b: "task_inv {} (user_task_runq_bootstrap s)" "images_ok s" using assms task_inv_bootstrap(1) by (auto simp: user_ok_def)
  have f: "frames (snd (user_task_runq_pop_highest s)) = frames s" by (simp add: frames_simps)
  obtain io s1 where pop: "user_task_runq_pop_highest s = (io, s1)" by (metis surj_pair)
  have f1: "frames s1 = frames s" using f pop by simp
  show ?thesis
  proof (cases io)
    case None
    then have "s1 = user_task_runq_bootstrap s" using task_inv_pop [OF b(1) bootstrap_init] pop by (simp add: pop_bootstrap)
    then show ?thesis using pop None f1 b by (simp add: after_frames)
  next
    case (Some i)
    then show ?thesis using task_inv_pop [OF b(1) bootstrap_init] pop f1 frames_cong(1) [OF f1] b(2) by (simp add: pop_bootstrap)
  qed
qed

lemma schedule_loop_ok:
  assumes "schedule_loop env s = Some x" "user_ok s"
  shows "after (fst x = Ring3) s (snd x)"
proof (rule schedule_loop.raw_induct [where P = "\<lambda>env s x. user_ok s \<longrightarrow> after (fst x = Ring3) s (snd x)", OF _ assms(1), rule_format, OF _ assms(2)],
    goal_cases)
  case (1 loop env s x)
  obtain io s1 where pop: "user_task_runq_pop_highest s = (io, s1)" by (metis surj_pair)
  show ?case
  proof (cases io)
    case None
    then show ?thesis using 1(2,3) pop pop_ok [OF 1(3)] by auto
  next
    case (Some i)
    have p: "i < 16" "task_inv {i} s1" "\<not> ut_in_runq (task s1 i)" "images_ok s1" "frames s1 = frames s"
      using pop_ok [OF 1(3)] pop Some by auto
    have im: "images_ok s" using 1(3) by (simp add: user_ok_def)
    show ?thesis
    proof (cases "runnable (task s1 i)")
      case False
      then have "loop env s1 = Some x" using 1(2) unfolding pop Some runnable_def by simp
      moreover have inv: "task_inv {} s1" using p False by (rule_tac task_inv_unqueue [of i]) simp_all
      then have "user_ok s1" using p(4) by (simp add: user_ok_def)
      ultimately have "after (fst x = Ring3) s1 (snd x)" using 1(1) by blast
      then show ?thesis by (rule after_frames_left [OF p(5)])
    next
      case True
      define s2 where "s2 = (if ut_mlfq_slice_left (task s1 i) = 0
                     then set_task i (\<lambda>t. t\<lparr>ut_mlfq_slice_left := user_task_level_quantum_ticks (ucast (ut_mlfq_level t)) s1\<rparr>) s1 else s1)"
      have f: "frames s2 = frames s" using p(5) by (simp add: s2_def frames_simps)
      have s2: "task_inv {i} s2" "images_ok s2" "ut_used (task s2 i)"
        using p True task_inv_length [OF p(2)] frames_cong(1) [OF f] im
        by (auto simp: s2_def task_inv_level nth_set_task runnable_def)
      have t: "(\<not> ut_used (task s1 i) \<or> ut_state (task s1 i) \<noteq> RUNNABLE) = False" using True by (simp add: runnable_def)
      have e: "(case user_task_launch_slot env i s2 of None \<Rightarrow> None
                | Some (Ring3, s) \<Rightarrow> Some (Ring3, s)
                | Some (Back rc, s) \<Rightarrow> Some (Back True, s)) = Some x"
        using 1(2) unfolding pop Some prod.case option.case t if_False Let_def s2_def .
      obtain y where y: "user_task_launch_slot env i s2 = Some y" using e by (cases "user_task_launch_slot env i s2") simp_all
      obtain a b where ab: "y = (a, b)" by (cases y)
      have x: "x = ((case a of Ring3 \<Rightarrow> Ring3 | Back rc \<Rightarrow> Back True), b)"
        using e unfolding y ab by (cases a) simp_all
      have "snd y = snd x" "(fst x = Ring3) = (fst y = Ring3)" unfolding x ab by (simp_all split: control.split)
      moreover have "after (fst y = Ring3) s2 (snd y)" using launch_ok [OF s2(1) p(1) s2(2,3), of env "fst y" "snd y"] y by simp
      ultimately have "after (fst x = Ring3) s2 (snd x)" by simp
      then show ?thesis by (rule after_frames_left [OF f])
    qed
  qed
qed

lemma continue_ok:
  assumes "user_task_continue_or_schedule env s = Some x" "user_ok s"
  shows "after (fst x = Ring3) s (snd x)"
proof -
  have f: "frames (user_task_mlfq_boost_if_due (user_task_runq_bootstrap s)) = frames s" by (simp add: frames_simps)
  then have "user_ok (user_task_mlfq_boost_if_due (user_task_runq_bootstrap s))"
    using assms(2) frames_cong(1) [OF f] by (simp add: user_ok_def task_inv_boost task_inv_bootstrap(1))
  from schedule_loop_ok [OF assms(1) [unfolded user_task_continue_or_schedule_def] this] show ?thesis
    by (rule after_frames_left [OF f])
qed

lemma poll_ok:
  assumes "user_task_poll_scheduler env s = Some x" "user_ok s"
  shows "after (fst x = Ring3) s (snd x)"
proof (cases "\<not> g_user_task_schedule_request s \<or> g_user_task_active s")
  case True
  then show ?thesis using assms after_refl by (auto simp: user_task_poll_scheduler_def split: if_splits)
next
  case False
  then obtain y where y: "user_task_continue_or_schedule env s = Some y"
    using assms(1) by (auto simp: user_task_poll_scheduler_def split: option.splits)
  have *: "after (fst y = Ring3) s (snd y)" by (rule continue_ok [OF y assms(2)])
  have frame: "after b s (s1\<lparr>g_user_task_schedule_request := False\<rparr>) = after b s s1" for b and s1 :: "'a utask_scheme"
    by (simp add: after_def user_ok_def switch_ok_def images_ok_def resume_ok_def)
  show ?thesis using * y assms(1) False by (cases y; auto simp: user_task_poll_scheduler_def frame split: control.splits)
qed

lemma core_after: "core s' = core s \<Longrightarrow> user_ok s \<Longrightarrow> after False s s'"
  using task_inv_core [of s' s "{}"] frames_core [of s' s] by (intro after_frames) (simp_all add: user_ok_def)

lemma abort_continue_ok:
  assumes "user_task_abort_continue env s = Some x" "user_ok s"
  shows "after (fst x = Ring3) s (snd x)"
proof -
  define s1 where "s1 = (user_task_cleanup_mappings env (kctx.extend (command_context_clear (kctx.truncate s)) (kctx.more s)))
    \<lparr>g_user_task_active := False, g_user_task_term := -1\<rparr>"
  have "core (kctx.extend (command_context_clear (kctx.truncate s)) (kctx.more s)) = core s"
    by (cases s) (simp add: core_def kctx.defs)
  then have "core s1 = core s" by (simp add: s1_def core_simps)
  then have a: "after False s s1" by (rule core_after [OF _ assms(2)])
  then have "user_ok s1" by (simp add: after_def)
  then show ?thesis using continue_ok [of env s1 x] assms(1) after_trans [OF a]
    by (simp add: user_task_abort_continue_def s1_def Let_def)
qed

section \<open>Spawning and reaping\<close>

lemma core_copy_args: "copy_args env args ptrs s = (r, s') \<Longrightarrow> core s' = core s"
proof (induction args arbitrary: ptrs s)
  case (Cons a args)
  obtain p s1 where c: "call (ee_kern env) (Malloc (length (case a of None \<Rightarrow> [] | Some str \<Rightarrow> str) + 1)) s = (p, s1)" by (metis surj_pair)
  have "core (fold (\<lambda>p. do_call (ee_kern env) (Free p)) ptrs s1) = core s1" by (rule core_fold) (simp add: core_simps)
  then show ?case using Cons c core_call_pair [OF c] by (auto split: if_splits)
qed simp

lemma core_image_build: "user_task_image_build env drive prog argv s = (r, s') \<Longrightarrow> core s' = core s"
  by (auto simp: user_task_image_build_def Let_def core_simps split: if_splits prod.splits option.splits
      dest!: core_call_pair core_copy_args)

lemma core_image_free: "core (user_task_image_free env im s) = core s"
proof -
  have "core (fold (\<lambda>p s. if p \<noteq> 0 then do_call (ee_kern env) (Free p) s else s) ps s) = core s" for ps
    by (rule core_fold) (simp add: core_simps)
  then show ?thesis by (simp add: user_task_image_free_def Let_def core_simps split: option.split)
qed

text \<open>A slot that is not queued is filled or emptied.\<close>

lemma task_inv_reset:
  assumes inv: "task_inv X s" and i: "i < 16" "\<not> ut_in_runq (task s i)" "\<not> ut_in_runq (f (task s i))"
  shows "task_inv (insert i X) (set_task i f s)"
proof -
  have len: "length (g_user_tasks s) = 16" using inv by (rule task_inv_length)
  have "\<exists>q. task_queues (set_task i f s) q" if init: "g_user_task_runq_initialized s"
  proof -
    obtain q where q: "task_queues s q" using inv init by (auto simp: task_inv_def)
    have "i \<notin> set (q p)" for p using task_queues_in_runq [OF q i(1)] i(2) by blast
    then have "queues_ok ((map ut_runq_next (g_user_tasks s))[i := ut_runq_next (f (task s i))]) (g_user_task_runq s)
        (map ut_in_runq (g_user_tasks s)) q" using q by (intro queues_frame) (simp_all add: task_queues_def)
    moreover have "(map ut_in_runq (g_user_tasks s))[i := ut_in_runq (f (task s i))] = map ut_in_runq (g_user_tasks s)"
      using map_update_same [of ut_in_runq "g_user_tasks s" i] i by simp
    ultimately have "task_queues (set_task i f s) q" using q unfolding task_queues_def map_set_task by simp
    then show ?thesis by blast
  qed
  then show ?thesis using inv i len unfolding task_inv_def by (auto simp: nth_set_task)
qed

lemma after_set_plain:
  assumes "images_ok s" "ut_used (f (task s i)) \<longrightarrow> ut_image (f (task s i)) \<noteq> None" "\<not> (ut_used (f (task s i)) \<and> ut_has_frame (f (task s i)))"
  shows "images_ok (set_task i f s)" "resume_ok s \<Longrightarrow> resume_ok (set_task i f s)"
  using assms by (auto simp: images_ok_def resume_ok_def dest!: set_task_in)

lemma after_request: "after b s (user_task_request_schedule s') = after b s s'"
  by (simp add: user_task_request_schedule_def after_def user_ok_def switch_ok_def images_ok_def resume_ok_def)

lemma reap_ok:
  assumes "user_ok s" "i < 16" "ut_state (task s i) = ZOMBIE"
  shows "after False s (reap_slot env i s)"
proof -
  define s1 where "s1 = user_task_image_free env (ut_image (task (user_task_runq_remove i s) i)) (user_task_runq_remove i s)"
  have inv: "task_inv {} s" "images_ok s" using assms(1) by (simp_all add: user_ok_def)
  have len: "length (g_user_tasks s) = 16" using inv(1) by (rule task_inv_length)
  have c: "core s1 = core (user_task_runq_remove i s)" by (simp add: s1_def core_image_free)
  have f: "frames s1 = frames s" using frames_core [OF c] by (simp add: frames_simps)
  have r: "task_inv {i} s1" "\<not> ut_in_runq (task s1 i)"
    using task_inv_core [OF c] task_inv_remove [OF inv(1) assms(2)] no_runtimeD(2) [OF core_task(2) [OF c]] assms(2)
      task_inv_length [OF task_inv_remove(1) [OF inv(1) assms(2)]] by simp_all
  let ?f = "\<lambda>t. t\<lparr>ut_image := None, ut_used := False, ut_pid := 0, ut_state := UNUSED, ut_status := 0,
                ut_wait_target_pid := 0, ut_wait_gui_handle := -1, ut_wake_tick := 0, ut_block_reason := BLOCK_NONE,
                ut_mlfq_level := ucast SCHED_MLFQ_LEVEL_HIGH,
                ut_mlfq_slice_left := user_task_level_quantum_ticks SCHED_MLFQ_LEVEL_HIGH s1,
                ut_in_runq := False, ut_runq_next := -1, ut_fd_inherit_mode := False, ut_stdio := (0, 1, 2),
                ut_has_frame := False, ut_frame_generation := 0\<rparr>"
  have inv': "task_inv {i} (set_task i ?f s1)" using task_inv_reset [OF r(1) assms(2) r(2), of ?f] by simp
  then have "task_inv {} (set_task i ?f s1)"
    by (rule task_inv_unqueue) (use assms(2) task_inv_length [OF r(1)] in \<open>simp_all add: nth_set_task runnable_def\<close>)
  moreover have "images_ok (set_task i ?f s1)" "resume_ok s \<Longrightarrow> resume_ok (set_task i ?f s1)"
    using after_set_plain [of s1 ?f i] frames_cong(1,2) [OF f] inv(2) by simp_all
  ultimately have "after False s (set_task i ?f s1)"
    using frames_cong(3,4) [OF f] by (simp add: after_def user_ok_def switch_ok_def)
  moreover have "reap_slot env i s = user_task_request_schedule (set_task i ?f s1)"
    unfolding reap_slot_def Let_def s1_def ..
  ultimately show ?thesis by (simp only: after_request)
qed

lemma unblock_ok: "user_ok s \<Longrightarrow> after False s (user_task_unblock_current s)"
  by (intro after_frames) (simp_all add: frames_simps user_ok_def task_inv_unblock)

lemma after_user_ok: "after b s s' \<Longrightarrow> user_ok s'"
  by (simp add: after_def)

lemma unblock_state: "i < 16 \<Longrightarrow> length (g_user_tasks s) = 16 \<Longrightarrow> ut_state (task s i) = ZOMBIE \<Longrightarrow> ut_state (task (user_task_unblock_current s) i) = ZOMBIE"
  by (cases "user_task_current_slot s") (use current_slot_less [of s] in \<open>auto simp: user_task_unblock_current_def nth_set_task\<close>)

lemma waitpid_loop_ok:
  assumes h: "waitpid_loop env idle pid nohang i s = Some x" and ok: "user_ok s" and i: "i < 16"
    and idle: "\<And>s. user_ok s \<Longrightarrow> after False s (idle s)"
  shows "after (fst x = Ring3) s (snd x)"
proof (rule waitpid_loop.raw_induct [where P = "\<lambda>env idl pid nohang i s x. idl = idle \<longrightarrow> user_ok s \<longrightarrow> i < 16 \<longrightarrow> after (fst x = Ring3) s (snd x)",
      OF _ h, rule_format, OF _ refl ok i], goal_cases)
  case (1 loop env idl pid nohang i s x)
  have len: "length (g_user_tasks s) = 16" using 1(4) by (auto simp: user_ok_def dest: task_inv_length)
  have IH: "loop env idle pid nohang j s1 = Some x \<Longrightarrow> user_ok s1 \<Longrightarrow> j < 16 \<Longrightarrow> after (fst x = Ring3) s1 (snd x)" for j s1
    using 1(1) 1(3) by blast
  have next_round: "after (fst x = Ring3) s1 (snd x)"
    if n: "(case user_task_find_slot_by_pid pid s1 of None \<Rightarrow> Some (Back (-1, None), s1)
             | Some i \<Rightarrow> loop env idle pid nohang i s1) = Some x" and "user_ok s1" for s1
  proof (cases "user_task_find_slot_by_pid pid s1")
    case None
    then show ?thesis using n after_refl [OF that(2)] by auto
  next
    case (Some j)
    then show ?thesis using n IH [of j s1] that(2) find_slot_less [OF Some] by simp
  qed
  show ?case
  proof (cases "ut_state (task s i) = ZOMBIE")
    case True
    have a: "after False s (user_task_unblock_current s)" using unblock_ok [OF 1(4)] .
    have "after False (user_task_unblock_current s) (reap_slot env i (user_task_unblock_current s))"
      by (rule reap_ok [OF after_user_ok [OF a] 1(5)]) (rule unblock_state [OF 1(5) len True])
    from after_trans [OF a this] show ?thesis using 1(2) True by (auto simp: Let_def)
  next
    case False
    then obtain y where y: "user_task_continue_or_schedule env s = Some y"
      using 1(2) by (cases "user_task_continue_or_schedule env s") auto
    note a = continue_ok [OF y 1(4)]
    obtain r s1 where rs: "y = (r, s1)" by (cases y)
    show ?thesis
    proof (cases r)
      case Ring3
      then show ?thesis using 1(2) False y rs a by auto
    next
      case (Back b)
      have a: "after False s s1" using a rs Back by simp
      have e: "(if b then (case user_task_find_slot_by_pid pid s1 of None \<Rightarrow> Some (Back (-1, None), s1)
             | Some i \<Rightarrow> loop env idle pid nohang i s1)
          else if nohang then Some (Back (0, None), user_task_unblock_current s1)
          else (case user_task_find_slot_by_pid pid (idle s1) of None \<Rightarrow> Some (Back (-1, None), idle s1)
             | Some i \<Rightarrow> loop env idle pid nohang i (idle s1))) = Some x"
        using 1(2) unfolding y rs Back 1(3) Let_def control.case prod.case option.case by (simp only: False if_False)
      have "after (fst x = Ring3) s1 (snd x)"
      proof (cases b)
        case True
        then show ?thesis using e next_round [OF _ after_user_ok [OF a]] by simp
      next
        case b: False
        show ?thesis
        proof (cases nohang)
          case True
          then show ?thesis using e b unblock_ok [OF after_user_ok [OF a]] by auto
        next
          case False
          have i: "after False s1 (idle s1)" by (rule idle [OF after_user_ok [OF a]])
          show ?thesis using e b False next_round [OF _ after_user_ok [OF i]] after_trans [OF i] by simp
        qed
      qed
      then show ?thesis by (rule after_trans [OF a])
    qed
  qed
qed

lemma waitpid_ok:
  assumes "user_task_waitpid env idle pid nohang s = Some x" "user_ok s" "\<And>s. user_ok s \<Longrightarrow> after False s (idle s)"
  shows "after (fst x = Ring3) s (snd x)"
proof (cases "user_task_find_slot_by_pid pid s")
  case None
  then show ?thesis using assms(1,2) after_refl by (auto simp: user_task_waitpid_def)
next
  case (Some i)
  define s1 where "s1 = (if ut_state (task s i) \<noteq> ZOMBIE \<and> \<not> nohang then user_task_block_current_waitpid pid s else s)"
  have a: "after False s s1" using assms(2)
    by (intro after_frames) (simp_all add: s1_def user_task_block_current_waitpid_def frames_simps user_ok_def task_inv_block)
  have "after (fst x = Ring3) s1 (snd x)"
    by (rule waitpid_loop_ok [OF _ after_user_ok [OF a] find_slot_less [OF Some] assms(3)])
       (use assms(1) Some in \<open>simp_all add: user_task_waitpid_def s1_def Let_def\<close>)
  then show ?thesis by (rule after_trans [OF a])
qed

lemma spawn_with_ok:
  assumes h: "spawn_with env drive prog argv stdio s = Some x" and ok: "user_ok s"
  shows "after (fst x = Ring3) s (snd x)"
proof (cases "user_task_alloc_slot s")
  case None
  then show ?thesis using h after_refl [OF ok] by (auto simp: spawn_with_def)
next
  case (Some i)
  then have i: "i < 16" "\<not> ut_used (task s i)" by (auto simp: user_task_alloc_slot_def first_idx_Some)
  obtain im s1 where b: "user_task_image_build env drive prog argv s = (im, s1)" by (metis surj_pair)
  have c: "core s1 = core s" by (rule core_image_build [OF b])
  note a = core_after [OF c ok]
  have inv: "task_inv {} s1" "images_ok s1" using after_user_ok [OF a] by (simp_all add: user_ok_def)
  have len: "length (g_user_tasks s1) = 16" using inv(1) by (rule task_inv_length)
  show ?thesis
  proof (cases im)
    case None
    then show ?thesis using h a b Some by (auto simp: spawn_with_def)
  next
    case (Some img)
    define slot where "slot = fresh_slot img (g_user_task_next_pid s1) (g_user_task_running_pid s1) (g_user_task_term s1)
                        (user_task_level_quantum_ticks SCHED_MLFQ_LEVEL_HIGH s1) (fst (stdio s1)) (snd (stdio s1))"
    define s2 where "s2 = set_task i (\<lambda>_. slot) s1"
    define s3 where "s3 = s2\<lparr>g_user_task_next_pid := (if int32 (g_user_task_next_pid s1 + 1) \<le> 0 then 1 else int32 (g_user_task_next_pid s1 + 1))\<rparr>"
    define s4 where "s4 = user_task_runq_enqueue i (user_task_runq_bootstrap s3)"
    have free: "\<not> ut_in_runq (task s1 i)"
      using task_inv_in_runq [OF inv(1) i(1)] no_runtimeD(2,3) [OF core_task(2) [OF c]] i ok
        task_inv_in_runq [of "{}" s i] by (auto simp: user_ok_def runnable_def dest: task_inv_length)
    have "task_inv {i} s2" unfolding s2_def using task_inv_reset [OF inv(1) i(1) free] by (simp add: slot_def fresh_slot_def)
    then have s3: "task_inv {i} s3" by (simp add: s3_def)
    moreover have "\<not> ut_in_runq (task s3 i)" using len i(1) by (simp add: s3_def s2_def nth_set_task slot_def fresh_slot_def)
    ultimately have s4: "task_inv {} s4" unfolding s4_def
      using task_inv_bootstrap [OF s3] i(1) by (intro task_inv_enqueue) simp_all
    have f: "frames s4 = frames s2" by (simp add: s4_def s3_def frames_simps)
    have ok2: "images_ok s2" "resume_ok s1 \<Longrightarrow> resume_ok s2"
      unfolding s2_def using after_set_plain [of s1 "\<lambda>_. slot" i] inv(2) by (simp_all add: slot_def fresh_slot_def)
    then have "after False s1 s4"
      using s4 frames_cong [OF f] by (simp add: after_def user_ok_def switch_ok_def) (simp add: s2_def)
    then have a4: "after False s s4" by (rule after_trans [OF a])
    have e: "(if g_user_task_active s4 then Some (Back (g_user_task_next_pid s1), user_task_request_schedule s4)
                 else case user_task_continue_or_schedule env s4 of None \<Rightarrow> None
                   | Some (Ring3, s) \<Rightarrow> Some (Ring3, s)
                   | Some (Back launched, s) \<Rightarrow> Some (Back (ut_pid (task s i)), s)) = Some x"
      using h unfolding spawn_with_def b Some \<open>user_task_alloc_slot s = Some i\<close> option.case prod.case Let_def
      unfolding slot_def [symmetric] s2_def [symmetric] s3_def [symmetric] s4_def [symmetric] .
    show ?thesis
    proof (cases "g_user_task_active s4")
      case True
      then show ?thesis using e a4 by (auto simp: after_request)
    next
      case False
      then obtain y where y: "user_task_continue_or_schedule env s4 = Some y"
        using e by (cases "user_task_continue_or_schedule env s4") auto
      obtain r s5 where rs: "y = (r, s5)" by (cases y)
      have "snd x = s5" "(fst x = Ring3) = (r = Ring3)" using e False unfolding y rs by (cases r; auto)+
      then show ?thesis using continue_ok [OF y after_user_ok [OF a4]] after_trans [OF a4] rs by simp
    qed
  qed
qed

section \<open>Replacing the program and returning from a system call\<close>

lemma exec_ok:
  assumes h: "user_elf_run_argv env drive prog argv envp s = Some x" and ok: "user_ok s" "switch_ok s"
    and g: "g_user_task_runtime_generation s \<noteq> 0xFFFFFFFF"
  shows "after (fst x = Ring3) s (snd x)"
proof (cases "fst x")
  case (Back rc)
  then show ?thesis using run_argv_core [OF h] core_after [OF _ ok(1)] by simp
next
  case Ring3
  then obtain entry esp s1 where s1: "core s1 = core s" "snd x = enter_ring3 env entry esp s1" using run_argv_core [OF h] by auto
  have f: "frames s1 = frames s" by (rule frames_core [OF s1(1)])
  have p: "g_user_task_pending_pid s1 = 0" using frames_cong(4) [OF f] ok(2) by (simp add: switch_ok_def)
  have "resume_ok (snd x)" unfolding s1(2)
    by (rule frames_enter) (use frames_cong(2,3) [OF f] ok(2) g p in \<open>simp_all add: switch_ok_def\<close>)
  moreover have "user_ok (snd x)" using task_inv_core [OF s1(1)] ok(1) frames_cong(1) [OF f] enter_ring3_fields(4) [of s1] task_inv_enter [of "{}" s1]
    by (simp add: user_ok_def s1(2))
  ultimately show ?thesis using Ring3 g frames_cong(3) [OF f] by (simp add: after_def switch_ok_def s1(2) enter_ring3_fields)
qed

text \<open>No task but the running one has a frame of the current generation.\<close>

lemma no_target:
  assumes ok: "user_ok s" "resume_ok s" and cur: "g_user_task_running_pid s > 0"
  shows "resume_target (g_user_task_running_pid s) s = None"
proof -
  have "\<not> resumable (g_user_task_running_pid s) s (task s i)" if "i < 16" for i
  proof -
    have "task s i \<in> set (g_user_tasks s)" using that ok(1) by (auto simp: user_ok_def dest: task_inv_length)
    then show ?thesis using ok(2) cur by (auto simp: resumable_def resume_ok_def)
  qed
  then have "fold (\<lambda>i target. if \<not> resumable (g_user_task_running_pid s) s (task s i) then target
        else case target of None \<Rightarrow> Some i
          | Some k \<Rightarrow> if ut_mlfq_level (task s i) > ut_mlfq_level (task s k) then Some i else Some k) [0..<n] None = None" if "n \<le> 16" for n
    using that by (induction n) auto
  then show ?thesis unfolding resume_target_def by simp
qed

lemma resume_never:
  assumes ok: "user_ok s" "switch_ok s"
  shows "fst (user_task_try_resume_from_syscall env regs s) = None" "after False s (snd (user_task_try_resume_from_syscall env regs s))"
proof -
  define s1 where "s1 = user_task_mlfq_boost_if_due (user_task_runq_bootstrap s)"
  have f: "frames s1 = frames s" by (simp add: s1_def frames_simps)
  have a: "after False s s1" using ok(1) f by (intro after_frames) (simp_all add: s1_def user_ok_def task_inv_boost task_inv_bootstrap(1))
  have "resume_ok s1" using frames_cong(2) [OF f] ok(2) by (simp add: switch_ok_def)
  then have n: "resume_target (g_user_task_running_pid s1) s1 = None" if "user_task_find_slot_by_pid (g_user_task_running_pid s1) s1 = Some c" for c
    using no_target [OF after_user_ok [OF a]] that by (simp add: user_task_find_slot_by_pid_def split: if_splits)
  show "fst (user_task_try_resume_from_syscall env regs s) = None" "after False s (snd (user_task_try_resume_from_syscall env regs s))"
    unfolding user_task_try_resume_from_syscall_def Let_def s1_def [symmetric]
    using a after_refl [OF ok(1)] n by (simp_all split: option.split)
qed

end
