(* ===== verification/SchedSpec.thy ===== *)
theory SchedSpec
  imports Sched
begin

text \<open>
  What the work scheduler promises. \<open>work_queues s q\<close> says that the tables of \<open>s\<close> represent the
  lists \<open>q\<close>, one for each priority: the links, the membership flags and the bitmap of ready queues
  agree. Enqueueing and dequeueing implement the interface \<open>ready_queues\<close>; every operation keeps
  the representation.
\<close>

section \<open>Representation\<close>

definition work_queues :: "'a sched_scheme \<Rightarrow> (nat \<Rightarrow> nat list) \<Rightarrow> bool" where
  "work_queues s q \<longleftrightarrow> length (g_work s) = 64 \<and> length (g_runq s) = 32
     \<and> queues_ok (map w_next (g_work s)) (g_runq s) (map w_in_queue (g_work s)) q
     \<and> (\<forall>p < 32. bit (g_ready_bitmap s) p \<longleftrightarrow> q p \<noteq> [])"

definition work_level :: "'a sched_scheme \<Rightarrow> nat \<Rightarrow> nat" where
  "work_level s i = sched_mlfq_level_to_prio (ucast (w_mlfq_level (g_work s ! i)))"

lemma level_to_prio_less [simp]: "sched_mlfq_level_to_prio l < 32"
  by (simp add: sched_mlfq_level_to_prio_def Let_def)

lemma work_level_less [simp]: "work_level s i < 32"
  by (simp add: work_level_def)

lemma bit_set [simp]: "k < 32 \<Longrightarrow> bit (w OR 2 ^ p :: u32) k \<longleftrightarrow> bit w k \<or> k = p"
  by (auto simp: bit_or_iff bit_exp_iff possible_bit_def)

lemma bit_clear [simp]: "k < 32 \<Longrightarrow> bit (w AND NOT (2 ^ p) :: u32) k \<longleftrightarrow> bit w k \<and> k \<noteq> p"
  by (auto simp: bit_and_iff bit_not_iff bit_exp_iff possible_bit_def)

lemma set_work_fields [simp]:
  "g_runq (set_work i f s) = g_runq s" "g_ready_bitmap (set_work i f s) = g_ready_bitmap s"
  "length (g_work (set_work i f s)) = length (g_work s)"
  "g_ticks (set_work i f s) = g_ticks s" "g_mlfq_quantum_ticks (set_work i f s) = g_mlfq_quantum_ticks s"
  "g_sched_work_inflight (set_work i f s) = g_sched_work_inflight s"
  by (simp_all add: set_work_def)

lemma map_next_set: "map w_next (g_work (set_work i f s)) = (map w_next (g_work s))[i := w_next (f (g_work s ! i))]"
  by (simp add: set_work_def map_update)

lemma map_in_queue_set: "map w_in_queue (g_work (set_work i f s)) = (map w_in_queue (g_work s))[i := w_in_queue (f (g_work s ! i))]"
  by (simp add: set_work_def map_update)

lemma nth_set_work: "i < length (g_work s) \<Longrightarrow> g_work (set_work i f s) ! j = (if j = i then f (g_work s ! i) else g_work s ! j)"
  by (auto simp: set_work_def nth_list_update)

lemma work_queues_lengths: "work_queues s q \<Longrightarrow> length (g_work s) = 64" "work_queues s q \<Longrightarrow> length (g_runq s) = 32"
  by (simp_all add: work_queues_def)

lemma work_queues_in_queue: "work_queues s q \<Longrightarrow> i < 64 \<Longrightarrow> w_in_queue (g_work s ! i) \<longleftrightarrow> (\<exists>p. i \<in> set (q p))"
  using queues_okD(5) [of "map w_next (g_work s)" "g_runq s" "map w_in_queue (g_work s)" q i] by (simp add: work_queues_def)

lemma work_queues_member: "work_queues s q \<Longrightarrow> i \<in> set (q p) \<Longrightarrow> i < 64"
  using queues_member [of "map w_next (g_work s)"] by (fastforce simp: work_queues_def)

lemma work_queues_beyond: "work_queues s q \<Longrightarrow> p \<ge> 32 \<Longrightarrow> q p = []"
  by (simp add: work_queues_def queues_ok_def)

text \<open>A change of an item that keeps its link and its flag keeps the representation.\<close>

lemma work_queues_set:
  assumes "work_queues s q" "w_next (f (g_work s ! i)) = w_next (g_work s ! i)" "w_in_queue (f (g_work s ! i)) = w_in_queue (g_work s ! i)"
  shows "work_queues (set_work i f s) q"
  using assms unfolding work_queues_def map_next_set map_in_queue_set by (simp add: map_update_same)

section \<open>Enqueueing and dequeueing\<close>

lemma enqueue_length [simp]: "length (g_work (sched_work_enqueue i s)) = length (g_work s)"
  by (simp add: sched_work_enqueue_def Let_def)

lemma enqueue_new:
  assumes wq: "work_queues s q" and i: "i < 64" "\<And>p. i \<notin> set (q p)"
  shows "work_queues (sched_work_enqueue i s) (q(work_level s i := q (work_level s i) @ [i]))"
proof -
  let ?p = "work_level s i" and ?nx = "map w_next (g_work s)" and ?inq = "map w_in_queue (g_work s)"
  let ?q = "g_runq s ! ?p"
  have ok: "queues_ok ?nx (g_runq s) ?inq q" and len: "length (g_work s) = 64" "length (g_runq s) = 32"
    and bits: "\<forall>p < 32. bit (g_ready_bitmap s) p \<longleftrightarrow> q p \<noteq> []" using wq by (simp_all add: work_queues_def)
  have out: "\<not> w_in_queue (g_work s ! i)" using work_queues_in_queue [OF wq i(1)] i(2) by blast
  let ?s = "sched_work_enqueue i s"
  have tail: "nat (q_tail ?q) < 64" "nat (q_tail ?q) \<noteq> i" if "q_tail ?q \<ge> 0"
  proof -
    have "nat (q_tail ?q) \<in> set (q ?p)"
      using queues_okD(2) [OF ok, of ?p] that len by (auto simp: queue_of_def split: if_splits)
    then show "nat (q_tail ?q) < 64" "nat (q_tail ?q) \<noteq> i" using work_queues_member [OF wq] i(2) by auto
  qed
  have e: "map w_next (g_work ?s) = append_links ?nx ?q i" "g_runq ?s = (g_runq s)[?p := append_queue ?q i]"
    "map w_in_queue (g_work ?s) = ?inq[i := True]"
    "g_ready_bitmap ?s = (if q_head ?q < 0 then g_ready_bitmap s OR push_bit ?p 1 else g_ready_bitmap s)"
    using i(1) out len tail
    by (auto simp: sched_work_enqueue_def Let_def work_level_def [symmetric] append_links_def append_queue_def
        nth_set_work intro!: nth_equalityI simp: nth_list_update split: if_splits)
  have "queues_ok (append_links ?nx ?q i) ((g_runq s)[?p := append_queue ?q i]) (?inq[i := True]) (q(?p := q ?p @ [i]))"
    by (rule queues_append [OF ok]) (use i len out in simp_all)
  moreover have "bit (g_ready_bitmap ?s) p \<longleftrightarrow> (q(?p := q ?p @ [i])) p \<noteq> []" if "p < 32" for p
    using that bits queues_head [OF ok, of ?p] len unfolding e(4) by auto
  ultimately show ?thesis using len e(1-3) arg_cong [OF e(1), of length]
    unfolding work_queues_def by (auto simp: append_links_def)
qed

lemma enqueue_queued: "work_queues s q \<Longrightarrow> i \<in> set (q p) \<Longrightarrow> sched_work_enqueue i s = s"
  using work_queues_in_queue [of s q i] work_queues_member [of s q i p] by (auto simp: sched_work_enqueue_def)

lemma dequeue_none: "work_queues s q \<Longrightarrow> q p = [] \<Longrightarrow> sched_work_dequeue_prio p s = (None, s)"
  using queues_head [of "map w_next (g_work s)" "g_runq s" "map w_in_queue (g_work s)" q p]
  by (auto simp: sched_work_dequeue_prio_def work_queues_def Let_def)

lemma dequeue_some:
  assumes wq: "work_queues s q" and q: "q p = i # is"
  shows "\<exists>s'. sched_work_dequeue_prio p s = (Some i, s') \<and> work_queues s' (q(p := is))
     \<and> (\<forall>j. w_mlfq_level (g_work s' ! j) = w_mlfq_level (g_work s ! j) \<and> w_run (g_work s' ! j) = w_run (g_work s ! j)
          \<and> w_budget_left (g_work s' ! j) = w_budget_left (g_work s ! j) \<and> w_affinity_mask (g_work s' ! j) = w_affinity_mask (g_work s ! j))"
proof -
  let ?nx = "map w_next (g_work s)" and ?inq = "map w_in_queue (g_work s)"
  have ok: "queues_ok ?nx (g_runq s) ?inq q" and len: "length (g_work s) = 64" "length (g_runq s) = 32"
    and bits: "\<forall>p < 32. bit (g_ready_bitmap s) p \<longleftrightarrow> q p \<noteq> []" using wq by (simp_all add: work_queues_def)
  have p: "p < 32" using work_queues_beyond [OF wq, of p] q by (cases "p < 32") auto
  have i: "i < 64" using work_queues_member [OF wq, of i p] q by simp
  note t = queues_take [OF ok p [folded len(2)] q]
  define s1 where "s1 = (if w_next (g_work s ! i) < 0
     then s\<lparr>g_runq := (g_runq s)[p := (g_runq s ! p)\<lparr>q_head := w_next (g_work s ! i), q_tail := -1\<rparr>], g_ready_bitmap := g_ready_bitmap s AND NOT (push_bit p 1)\<rparr>
     else s\<lparr>g_runq := (g_runq s)[p := (g_runq s ! p)\<lparr>q_head := w_next (g_work s ! i)\<rparr>]\<rparr>)"
  let ?s = "set_work i (\<lambda>w. w\<lparr>w_next := -1, w_in_queue := False\<rparr>) s1"
  have nx: "?nx ! i = w_next (g_work s ! i)" using i len by simp
  have g: "g_work s1 = g_work s" by (simp add: s1_def)
  have r: "g_runq s1 = (g_runq s)[p := \<lparr>q_head = ?nx ! i, q_tail = (if ?nx ! i < 0 then -1 else q_tail (g_runq s ! p))\<rparr>]"
    using nx by (cases "g_runq s ! p") (auto simp: s1_def)
  have "sched_work_dequeue_prio p s = (Some i, ?s)"
    using p t(1) by (simp add: sched_work_dequeue_prio_def s1_def Let_def)
  moreover have "work_queues ?s (q(p := is))"
    unfolding work_queues_def map_next_set map_in_queue_set g set_work_fields r
    using t(2,3) len bits p q nx by (auto simp: s1_def)
  moreover have "\<forall>j. w_mlfq_level (g_work ?s ! j) = w_mlfq_level (g_work s ! j) \<and> w_run (g_work ?s ! j) = w_run (g_work s ! j)
          \<and> w_budget_left (g_work ?s ! j) = w_budget_left (g_work s ! j) \<and> w_affinity_mask (g_work ?s ! j) = w_affinity_mask (g_work s ! j)"
    using i len by (simp add: nth_set_work g)
  ultimately show ?thesis by blast
qed

lemma enqueue_level: "w_mlfq_level (g_work (sched_work_enqueue i s) ! j) = w_mlfq_level (g_work s ! j)"
  by (simp add: sched_work_enqueue_def set_work_def Let_def field_list_update [of w_mlfq_level])

interpretation work: ready_queues work_queues sched_work_enqueue sched_work_dequeue_prio work_level "\<lambda>s i. i < 64"
proof (unfold_locales, goal_cases)
  case (1 s q i)
  then show ?case by (intro enqueue_new) simp_all
next
  case (2 s q i p)
  then show ?case by (rule enqueue_queued)
next
  case (6 s q p i "is")
  then show ?case using dequeue_some by blast
qed (use dequeue_none in \<open>simp_all add: work_level_def enqueue_level\<close>)

section \<open>The invariant of the work scheduler\<close>

definition unused_idle :: "'a sched_scheme \<Rightarrow> bool" where
  "unused_idle s \<longleftrightarrow> (\<forall>i < length (g_work s). w_id (g_work s ! i) = 0 \<longrightarrow> \<not> w_in_queue (g_work s ! i))"

definition work_inv :: "'a sched_scheme \<Rightarrow> bool" where
  "work_inv s \<longleftrightarrow> (\<exists>q. work_queues s q) \<and> unused_idle s"

lemma enqueue_id: "w_id (g_work (sched_work_enqueue i s) ! j) = w_id (g_work s ! j)"
  by (simp add: sched_work_enqueue_def set_work_def Let_def field_list_update [of w_id])

lemma enqueue_other: "j \<noteq> i \<Longrightarrow> w_in_queue (g_work (sched_work_enqueue i s) ! j) = w_in_queue (g_work s ! j)"
  by (simp add: sched_work_enqueue_def set_work_def Let_def field_list_update [of w_in_queue])

lemma work_inv_enqueue:
  assumes "work_inv s" "i < 64" "w_id (g_work s ! i) \<noteq> 0"
  shows "work_inv (sched_work_enqueue i s)"
proof -
  obtain q where q: "work_queues s q" "unused_idle s" using assms(1) by (auto simp: work_inv_def)
  have "unused_idle (sched_work_enqueue i s)"
    unfolding unused_idle_def
  proof (intro allI impI)
    fix j assume "j < length (g_work (sched_work_enqueue i s))" "w_id (g_work (sched_work_enqueue i s) ! j) = 0"
    then have "j < length (g_work s)" "w_id (g_work s ! j) = 0" "j \<noteq> i" using assms(3) by (auto simp: enqueue_id)
    then show "\<not> w_in_queue (g_work (sched_work_enqueue i s) ! j)" using q(2) by (simp add: enqueue_other unused_idle_def)
  qed
  moreover have "\<exists>q. work_queues (sched_work_enqueue i s) q"
    using enqueue_new [OF q(1) assms(2)] enqueue_queued [OF q(1)] q(1) by metis
  ultimately show ?thesis by (simp add: work_inv_def)
qed

lemma work_inv_set:
  assumes "work_inv s" "\<And>w. w_next (f w) = w_next w" "\<And>w. w_in_queue (f w) = w_in_queue w" "\<And>w. w_id (f w) = w_id w"
  shows "work_inv (set_work i f s)"
proof -
  have "unused_idle (set_work i f s)"
    using assms unfolding work_inv_def unused_idle_def
    by (simp add: set_work_def field_list_update [of w_id] field_list_update [of w_in_queue])
  moreover obtain q where "work_queues s q" using assms(1) by (auto simp: work_inv_def)
  then have "work_queues (set_work i f s) q" using assms(2,3) by (intro work_queues_set) simp_all
  ultimately show ?thesis unfolding work_inv_def by blast
qed

text \<open>Fields that the representation does not mention.\<close>

lemma work_inv_frame:
  "work_inv (s\<lparr>g_mlfq_work_demotions := a\<rparr>) = work_inv s" "work_inv (s\<lparr>g_mlfq_work_runs := a\<rparr>) = work_inv s"
  "work_inv (s\<lparr>g_mlfq_work_boosts := a\<rparr>) = work_inv s" "work_inv (s\<lparr>g_mlfq_last_global_boost_tick := a\<rparr>) = work_inv s"
  "work_inv (s\<lparr>g_sched_work_inflight := b\<rparr>) = work_inv s"
  by (simp_all add: work_inv_def work_queues_def unused_idle_def)

lemma work_inv_dequeue:
  assumes "work_inv s"
  shows "work_inv (snd (sched_work_dequeue_prio p s))"
    and "fst (sched_work_dequeue_prio p s) = Some i \<Longrightarrow> i < 64 \<and> w_id (g_work (snd (sched_work_dequeue_prio p s)) ! i) \<noteq> 0"
proof -
  obtain q where q: "work_queues s q" "unused_idle s" using assms by (auto simp: work_inv_def)
  have len: "length (g_work s) = 64" using work_queues_lengths(1) [OF q(1)] .
  have "unused_idle (snd (sched_work_dequeue_prio p s))"
    using q(2) len unfolding unused_idle_def
    by (auto simp: sched_work_dequeue_prio_def Let_def set_work_def nth_update split: if_splits)
  moreover have "\<exists>q'. work_queues (snd (sched_work_dequeue_prio p s)) q'"
  proof (cases "q p")
    case Nil
    then show ?thesis using dequeue_none [OF q(1)] q(1) by auto
  next
    case (Cons j js)
    then show ?thesis using dequeue_some [OF q(1) Cons] by force
  qed
  ultimately show "work_inv (snd (sched_work_dequeue_prio p s))" by (simp add: work_inv_def)
  assume i: "fst (sched_work_dequeue_prio p s) = Some i"
  then obtain js where c: "q p = i # js"
    using dequeue_none [OF q(1), of p] dequeue_some [OF q(1), of p] by (cases "q p") force+
  then have m: "i \<in> set (q p)" by simp
  then have "i < 64" "w_in_queue (g_work s ! i)"
    using work_queues_member [OF q(1) m] work_queues_in_queue [OF q(1), of i] by auto
  moreover from this have "w_id (g_work s ! i) \<noteq> 0" using q(2) len by (auto simp: unused_idle_def)
  moreover have "w_id (g_work (snd (sched_work_dequeue_prio p s)) ! i) = w_id (g_work s ! i)"
    by (simp add: sched_work_dequeue_prio_def Let_def set_work_def field_list_update [of w_id])
  ultimately show "i < 64 \<and> w_id (g_work (snd (sched_work_dequeue_prio p s)) ! i) \<noteq> 0" by simp
qed

section \<open>Rebuilding the queues\<close>

text \<open>In the middle of \<open>sched_work_requeue_all\<close> the flags from \<open>i\<close> on are still those of the old
  queues; \<open>settled i\<close> hides them.\<close>

definition settled :: "nat \<Rightarrow> 'a sched_scheme \<Rightarrow> 'a sched_scheme" where
  "settled i s = s\<lparr>g_work := map (\<lambda>j. if j < i then g_work s ! j else (g_work s ! j)\<lparr>w_in_queue := False\<rparr>) [0..<length (g_work s)]\<rparr>"

lemma settled_all: "length (g_work s) \<le> i \<Longrightarrow> settled i s = s"
  unfolding settled_def by (rule sched.equality) (auto intro!: nth_equalityI)

lemma settled_idle: "\<not> w_in_queue (g_work s ! i) \<Longrightarrow> settled (Suc i) s = settled i s"
  unfolding settled_def by (rule sched.equality) (auto intro!: nth_equalityI simp: less_Suc_eq)

lemma settled_enqueue:
  assumes len: "length (g_work s) = 64" and i: "i < 64" and wq: "work_queues (settled i s) q"
    and old: "\<And>j p. j \<in> set (q p) \<Longrightarrow> j < i"
  shows "settled (Suc i) (sched_work_enqueue i (set_work i (\<lambda>w. w\<lparr>w_in_queue := False, w_next := -1\<rparr>) s)) = sched_work_enqueue i (settled i s)"
proof -
  let ?lv = "sched_mlfq_level_to_prio (ucast (w_mlfq_level (g_work s ! i)))"
  let ?q = "g_runq s ! ?lv"
  have wi: "g_work (settled i s) ! j = (if j < i then g_work s ! j else (g_work s ! j)\<lparr>w_in_queue := False\<rparr>)" if "j < 64" for j
    using that len by (simp add: settled_def)
  have rq: "g_runq (settled i s) = g_runq s" by (simp add: settled_def)
  have tail: "nat (q_tail ?q) < i" if "q_tail ?q \<ge> 0"
  proof -
    have "?lv < length (g_runq (settled i s))" using work_queues_lengths(2) [OF wq] by simp
    then have "queue_of (map w_next (g_work (settled i s))) ?q (q ?lv)"
      using wq queues_okD(2) rq unfolding work_queues_def by metis
    then have "nat (q_tail ?q) \<in> set (q ?lv)" using that by (auto simp: queue_of_def split: if_splits)
    then show ?thesis by (rule old)
  qed
  show ?thesis
    using i len tail
    by (intro sched.equality)
       (auto simp: settled_def sched_work_enqueue_def Let_def set_work_def nth_update intro!: nth_equalityI)
qed

lemma requeue_loop_ok:
  assumes "length (g_work s) = 64" "unused_idle s" "work_queues (settled i s) q" "\<And>j p. j \<in> set (q p) \<Longrightarrow> j < i" "i + n = 64"
  shows "work_inv (requeue_loop n i s)"
  using assms
proof (induction n arbitrary: i s q)
  case 0
  then have "settled i s = s" by (intro settled_all) simp
  then show ?case using 0 by (auto simp: work_inv_def)
next
  case (Suc n)
  show ?case
  proof (cases "w_id (g_work s ! i) = 0 \<or> \<not> w_in_queue (g_work s ! i)")
    case True
    then have idle: "\<not> w_in_queue (g_work s ! i)" using Suc.prems(1,2,5) by (auto simp: unused_idle_def)
    have "work_inv (requeue_loop n (Suc i) s)"
      by (rule Suc.IH [of s "Suc i" q]) (use Suc.prems settled_idle [OF idle] in \<open>auto intro: less_SucI\<close>)
    then show ?thesis using True by auto
  next
    case False
    let ?s = "sched_work_enqueue i (set_work i (\<lambda>w. w\<lparr>w_in_queue := False, w_next := -1\<rparr>) s)"
    have i: "i < 64" using Suc.prems(5) by simp
    have "i \<notin> set (q p)" for p using Suc.prems(4) [of i p] by auto
    then have wq: "work_queues (settled (Suc i) ?s) (q(work_level (settled i s) i := q (work_level (settled i s) i) @ [i]))"
      using enqueue_new [OF Suc.prems(3) i] settled_enqueue [OF Suc.prems(1) i Suc.prems(3,4)] by simp
    have "unused_idle ?s"
      unfolding unused_idle_def
    proof (intro allI impI)
      fix j assume j: "j < length (g_work ?s)" "w_id (g_work ?s ! j) = 0"
      then have "w_id (g_work s ! j) = 0" by (simp add: enqueue_id set_work_def field_list_update [of w_id])
      then have "j \<noteq> i" "\<not> w_in_queue (g_work s ! j)" using False Suc.prems(2) j by (auto simp: unused_idle_def)
      then show "\<not> w_in_queue (g_work ?s ! j)" by (simp add: enqueue_other set_work_def)
    qed
    then have "work_inv (requeue_loop n (Suc i) ?s)"
      by (intro Suc.IH [OF _ _ wq]) (use Suc.prems(1,4,5) in \<open>auto intro: less_SucI split: if_splits\<close>)
    then show ?thesis using False by auto
  qed
qed

lemma work_inv_requeue:
  assumes "length (g_work s) = 64" "unused_idle s"
  shows "work_inv (sched_work_requeue_all s)"
proof -
  let ?s = "s\<lparr>g_runq := replicate 32 \<lparr>q_head = -1, q_tail = -1\<rparr>, g_ready_bitmap := 0\<rparr>"
  have "work_queues (settled 0 ?s) (\<lambda>_. [])"
    using assms(1) by (auto simp: work_queues_def settled_def intro!: queues_empty)
  then show ?thesis unfolding sched_work_requeue_all_def
    by (intro requeue_loop_ok) (use assms in \<open>auto simp: unused_idle_def\<close>)
qed

lemma work_inv_boost:
  assumes "work_inv s"
  shows "work_inv (sched_mlfq_boost_if_due s)"
proof -
  have len: "length (g_work s) = 64" "unused_idle s" using assms work_queues_lengths(1) by (auto simp: work_inv_def)
  let ?s = "s\<lparr>g_work := map (\<lambda>w. if w_id w = 0 then w
                    else w\<lparr>w_mlfq_level := ucast SCHED_MLFQ_LEVEL_HIGH,
                           w_mlfq_slice_left := sched_mlfq_level_quantum_ticks SCHED_MLFQ_LEVEL_HIGH s,
                           w_mlfq_last_boost_tick := g_ticks s\<rparr>) (g_work s)\<rparr>"
  have "work_inv (sched_work_requeue_all ?s)"
    using len by (intro work_inv_requeue) (auto simp: unused_idle_def)
  then show ?thesis using assms by (simp add: sched_mlfq_boost_if_due_def Let_def work_inv_frame)
qed

lemma work_inv_account: "work_inv s \<Longrightarrow> work_inv (sched_mlfq_account_run i s)"
  by (simp add: sched_mlfq_account_run_def Let_def work_inv_set work_inv_frame)

section \<open>Which item runs\<close>

lemma bsr_None: "sched_bsr32 v = None \<longleftrightarrow> v = 0"
proof -
  have "v = 0" if "\<forall>k < 32. \<not> bit v (31 - k)"
  proof (rule bit_word_eqI)
    fix n assume "n < LENGTH(32)"
    then show "bit v n = bit (0 :: u32) n" using that [rule_format, of "31 - n"] by simp
  qed
  then show ?thesis by (auto simp: sched_bsr32_def first_idx_None)
qed

lemma bsr_Some: "sched_bsr32 v = Some p \<Longrightarrow> p < 32 \<and> bit v p \<and> (\<forall>k. p < k \<longrightarrow> k < 32 \<longrightarrow> \<not> bit v k)"
proof -
  assume "sched_bsr32 v = Some p"
  then obtain m where m: "m < 32" "bit v (31 - m)" "\<forall>j < m. \<not> bit v (31 - j)" "p = 31 - m"
    by (auto simp: sched_bsr32_def first_idx_Some split: if_splits)
  have "\<not> bit v k" if "p < k" "k < 32" for k
    using m(3) [rule_format, of "31 - k"] that m(1,4) by simp
  then show ?thesis using m by auto
qed

definition ready_order :: "(nat \<Rightarrow> nat list) \<Rightarrow> nat list" where
  "ready_order q = concat (map q (rev [0..<32]))"

lemma ready_order_Nil: "ready_order (\<lambda>_. []) = []"
  by (simp add: ready_order_def concat_eq_Nil_conv)

definition eligible :: "'a sched_scheme \<Rightarrow> nat \<Rightarrow> bool" where
  "eligible s i \<longleftrightarrow> w_run (g_work s ! i) \<noteq> 0 \<and> w_budget_left (g_work s ! i) \<noteq> 0"

definition same_items :: "'a sched_scheme \<Rightarrow> 'a sched_scheme \<Rightarrow> bool" where
  "same_items s s' \<longleftrightarrow> (\<forall>j. w_mlfq_level (g_work s' ! j) = w_mlfq_level (g_work s ! j) \<and> w_run (g_work s' ! j) = w_run (g_work s ! j)
     \<and> w_budget_left (g_work s' ! j) = w_budget_left (g_work s ! j) \<and> w_affinity_mask (g_work s' ! j) = w_affinity_mask (g_work s ! j))"

lemma same_items_refl [simp]: "same_items s s"
  by (simp add: same_items_def)

lemma same_items_trans: "same_items s s' \<Longrightarrow> same_items s' s'' \<Longrightarrow> same_items s s''"
  by (simp add: same_items_def)

lemma same_items_eligible: "same_items s s' \<Longrightarrow> eligible s' = eligible s"
  by (simp add: same_items_def eligible_def fun_eq_iff)

lemma ready_order_split:
  assumes "p < 32" "\<And>k. p < k \<Longrightarrow> k < 32 \<Longrightarrow> q k = []"
  shows "ready_order q = q p @ concat (map q (rev [0..<p]))"
proof -
  have "concat (map q (rev [Suc p..<32])) = []" using assms(2) by auto
  moreover have "[0..<p + (32 - p)] = [0..<p] @ [p..<p + (32 - p)]" by (rule upt_add_eq_append) simp
  then have "[0..<32] = [0..<p] @ p # [Suc p..<32]" using assms(1) by (simp add: upt_conv_Cons [of p 32] del: upt_rec_numeral)
  ultimately show ?thesis by (simp add: ready_order_def del: upt_rec_numeral concat_eq_Nil_conv)
qed

lemma ready_order_update:
  assumes "p < 32" "\<And>k. p < k \<Longrightarrow> k < 32 \<Longrightarrow> q k = []"
  shows "ready_order (q(p := is)) = is @ concat (map q (rev [0..<p]))"
proof -
  have "ready_order (q(p := is)) = (q(p := is)) p @ concat (map (q(p := is)) (rev [0..<p]))"
    by (rule ready_order_split) (use assms in auto)
  moreover have "map (q(p := is)) (rev [0..<p]) = map q (rev [0..<p])" by (rule map_cong) auto
  ultimately show ?thesis by (simp del: map_eq_conv)
qed

lemma clear_bit_less:
  assumes "bit w p" "p < 32"
  shows "card {k. k < 32 \<and> bit (w AND NOT (2 ^ p) :: u32) k} < card {k. k < 32 \<and> bit w k}"
proof (rule psubset_card_mono)
  show "finite {k. k < 32 \<and> bit w k}" by simp
  have "p \<in> {k. k < 32 \<and> bit w k}" "p \<notin> {k. k < 32 \<and> bit (w AND NOT (2 ^ p)) k}" using assms by simp_all
  moreover have "{k. k < 32 \<and> bit (w AND NOT (2 ^ p)) k} \<subseteq> {k. k < 32 \<and> bit w k}" by (auto simp: bit_and_iff)
  ultimately show "{k. k < 32 \<and> bit (w AND NOT (2 ^ p)) k} \<subset> {k. k < 32 \<and> bit w k}" by blast
qed

text \<open>The loop returns, and it runs the first eligible item in the order of the queues.\<close>

lemma timeslice_loop_result:
  assumes "work_queues s q" "\<And>p. p < 32 \<Longrightarrow> q p \<noteq> [] \<Longrightarrow> bit ready p"
    and "\<And>i. i \<in> set (ready_order q) \<Longrightarrow> w_affinity_mask (g_work s ! i) AND 1 \<noteq> 0"
  shows "case List.find (eligible s) (ready_order q) of
      None \<Rightarrow> \<exists>s'. timeslice_loop run ready s = Some (False, s') \<and> work_queues s' (\<lambda>_. [])
    | Some i \<Rightarrow> \<exists>s' q'. timeslice_loop run ready s = Some (True, work_run_item run i s') \<and> work_queues s' q' \<and> same_items s s'
        \<and> ready_order q' = tl (dropWhile (\<lambda>i. \<not> eligible s i) (ready_order q))"
  using assms
proof (induction "length (ready_order q) + card {k. k < 32 \<and> bit ready k}" arbitrary: s q ready rule: less_induct)
  case less
  show ?case
  proof (cases "sched_bsr32 ready")
    case None
    then have "ready = 0" by (simp add: bsr_None)
    then have "q p = []" for p using less.prems(2) [of p] work_queues_beyond [OF less.prems(1), of p] by (cases "p < 32") auto
    then have "q = (\<lambda>_. [])" by blast
    moreover have "timeslice_loop run ready s = Some (False, s)" using None by (subst timeslice_loop.simps) simp
    ultimately show ?thesis using less.prems(1) ready_order_Nil by simp
  next
    case (Some p)
    note b = bsr_Some [OF Some]
    have above: "q k = []" if "p < k" "k < 32" for k using less.prems(2) [of k] b that by auto
    note split = ready_order_split [OF conjunct1 [OF b] above] and upd = ready_order_update [OF conjunct1 [OF b] above]
    show ?thesis
    proof (cases "q p")
      case Nil
      let ?r = "ready AND NOT (2 ^ p)" and ?s = "s\<lparr>g_ready_bitmap := g_ready_bitmap s AND NOT (2 ^ p)\<rparr>"
      have run: "timeslice_loop run ready s = timeslice_loop run ?r ?s"
        using Some dequeue_none [OF less.prems(1) Nil] by (subst timeslice_loop.simps) simp
      have wq: "work_queues ?s q" using less.prems(1) Nil unfolding work_queues_def by auto
      have same: "eligible ?s = eligible s" "same_items s ?s" by (auto simp: eligible_def same_items_def fun_eq_iff)
      have "case List.find (eligible ?s) (ready_order q) of
          None \<Rightarrow> \<exists>s'. timeslice_loop run ?r ?s = Some (False, s') \<and> work_queues s' (\<lambda>_. [])
        | Some i \<Rightarrow> \<exists>s' q'. timeslice_loop run ?r ?s = Some (True, work_run_item run i s') \<and> work_queues s' q' \<and> same_items ?s s'
            \<and> ready_order q' = tl (dropWhile (\<lambda>i. \<not> eligible ?s i) (ready_order q))"
        by (rule less.hyps) (use clear_bit_less [of ready p] b wq less.prems Nil in auto)
      then show ?thesis unfolding run same(1) using same_items_trans [OF same(2)] by (auto split: option.splits)
    next
      case (Cons i "is")
      obtain s1 where s1: "sched_work_dequeue_prio p s = (Some i, s1)" "work_queues s1 (q(p := is))" "same_items s s1"
        using dequeue_some [OF less.prems(1) Cons] by (auto simp: same_items_def)
      have ord: "ready_order q = i # ready_order (q(p := is))" using split upd Cons by simp
      have el: "eligible s1 = eligible s" by (rule same_items_eligible [OF s1(3)])
      have aff: "w_affinity_mask (g_work s1 ! j) AND 1 \<noteq> 0" if "j \<in> set (ready_order q)" for j
        using less.prems(3) [OF that] s1(3) by (simp add: same_items_def)
      show ?thesis
      proof (cases "eligible s i")
        case True
        then have "timeslice_loop run ready s = Some (True, work_run_item run i s1)"
          using Some s1(1) el aff [of i] ord by (subst timeslice_loop.simps) (auto simp: eligible_def fun_eq_iff)
        then show ?thesis using True s1(2,3) ord by auto
      next
        case False
        then have run: "timeslice_loop run ready s = timeslice_loop run ready s1"
          using Some s1(1) el by (subst timeslice_loop.simps) (auto simp: eligible_def fun_eq_iff)
        have "case List.find (eligible s1) (ready_order (q(p := is))) of
            None \<Rightarrow> \<exists>s'. timeslice_loop run ready s1 = Some (False, s') \<and> work_queues s' (\<lambda>_. [])
          | Some i \<Rightarrow> \<exists>s' q'. timeslice_loop run ready s1 = Some (True, work_run_item run i s') \<and> work_queues s' q' \<and> same_items s1 s'
              \<and> ready_order q' = tl (dropWhile (\<lambda>i. \<not> eligible s1 i) (ready_order (q(p := is))))"
          by (rule less.hyps) (use ord s1(2) less.prems(2) b aff in \<open>auto split: if_splits\<close>)
        then show ?thesis unfolding run el using False ord same_items_trans [OF s1(3)] by (auto split: option.splits)
      qed
    qed
  qed
qed

end
