(* ===== verification/SchedWork.thy ===== *)
theory SchedWork
  imports SchedSpec
begin

text \<open>
  The properties of the work scheduler: its queues survive every sequence of operations, items of
  one priority run in the order in which they became ready, the end of a timeslice runs the first
  eligible item and returns, unless an item is bound to another processor, and the queue of the
  deterministic mode is a bounded FIFO.
\<close>

section \<open>Sequences of operations\<close>

datatype work_op =
    Register u32 u32 u32 u32 u32 u32
  | Set_ready u32
  | Unready u32
  | Update_budget u32 u32
  | Timeslice

fun work_step :: "(nat \<Rightarrow> 'a sched_scheme \<Rightarrow> 'a sched_scheme) \<Rightarrow> work_op \<Rightarrow> 'a sched_scheme \<Rightarrow> 'a sched_scheme option" where
  "work_step run (Register f u p a b h) s = Some (snd (sched_work_register f u p a b h s))"
| "work_step run (Set_ready wid) s = Some (snd (sched_work_set_ready wid s))"
| "work_step run (Unready wid) s = Some (snd (sched_work_unready wid s))"
| "work_step run (Update_budget wid b) s = Some (snd (sched_work_update_budget wid b s))"
| "work_step run Timeslice s = map_option snd (sched_work_on_timeslice_end run s)"

fun work_steps :: "(nat \<Rightarrow> 'a sched_scheme \<Rightarrow> 'a sched_scheme) \<Rightarrow> work_op list \<Rightarrow> 'a sched_scheme \<Rightarrow> 'a sched_scheme option" where
  "work_steps run [] s = Some s"
| "work_steps run (op # ops) s = Option.bind (work_step run op s) (work_steps run ops)"

text \<open>A callback may use the scheduler: it keeps the invariant and releases no item.\<close>

definition callback_ok :: "(nat \<Rightarrow> 'a sched_scheme \<Rightarrow> 'a sched_scheme) \<Rightarrow> bool" where
  "callback_ok run \<longleftrightarrow> (\<forall>i s. work_inv s \<longrightarrow> work_inv (run i s) \<and> (\<forall>j < 64. w_id (g_work s ! j) \<noteq> 0 \<longrightarrow> w_id (g_work (run i s) ! j) \<noteq> 0))"

lemma work_get_Some: "sched_work_get wid s = Some i \<Longrightarrow> i < 64 \<and> w_id (g_work s ! i) \<noteq> 0"
  by (auto simp: sched_work_get_def Let_def split: if_splits)

lemma set_work_id: "(\<And>w. w_id (f w) = w_id w) \<Longrightarrow> w_id (g_work (set_work i f s) ! j) = w_id (g_work s ! j)"
  by (simp add: set_work_def field_list_update [of w_id])

lemma account_run_id: "w_id (g_work (sched_mlfq_account_run i s) ! j) = w_id (g_work s ! j)"
  by (simp add: sched_mlfq_account_run_def Let_def set_work_id)

lemma work_inv_run_item:
  assumes "callback_ok run" "work_inv s" "i < 64" "w_id (g_work s ! i) \<noteq> 0"
  shows "work_inv (work_run_item run i s)"
proof -
  have r: "work_inv (run i s)" "w_id (g_work (run i s) ! i) \<noteq> 0" using assms by (auto simp: callback_ok_def)
  define s1 where "s1 = (if w_budget_left (g_work (run i s) ! i) > 0
    then set_work i (\<lambda>w. w\<lparr>w_budget_left := w_budget_left w - 1\<rparr>) (run i s) else run i s)"
  have s1: "work_inv (sched_mlfq_account_run i s1)" "w_id (g_work (sched_mlfq_account_run i s1) ! i) \<noteq> 0"
    using r by (simp_all add: s1_def work_inv_set work_inv_account account_run_id set_work_id)
  show ?thesis unfolding work_run_item_def Let_def s1_def [symmetric]
    using s1 assms(3) by (simp add: work_inv_frame work_inv_enqueue)
qed

lemma timeslice_loop_inv:
  assumes h: "timeslice_loop run ready s = Some r"
  shows "callback_ok run \<longrightarrow> work_inv s \<longrightarrow> work_inv (snd r)"
proof (rule timeslice_loop.raw_induct [where P = "\<lambda>run ready s r. callback_ok run \<longrightarrow> work_inv s \<longrightarrow> work_inv (snd r)", OF _ h], goal_cases)
  case (1 loop run ready s r)
  show ?case
  proof (intro impI)
    assume cb: "callback_ok run" and inv: "work_inv s"
    note step = 1(1) [rule_format, OF _ cb] and res = 1(2)
    show "work_inv (snd r)"
    proof (cases "sched_bsr32 ready")
      case None
      then show ?thesis using res inv by auto
    next
      case (Some p)
      obtain o1 s1 where d: "sched_work_dequeue_prio p s = (o1, s1)" by fastforce
      have inv1: "work_inv s1" "\<And>i. o1 = Some i \<Longrightarrow> i < 64 \<and> w_id (g_work s1 ! i) \<noteq> 0"
        using work_inv_dequeue [OF inv, of p] d by auto
      show ?thesis
      proof (cases o1)
        case None
        obtain q where q: "work_queues s q" using inv by (auto simp: work_inv_def)
        have e: "q p = []" using dequeue_some [OF q, of p] d None by (cases "q p") force+
        have "work_queues (s\<lparr>g_ready_bitmap := g_ready_bitmap s AND NOT (push_bit p 1)\<rparr>) q"
          using q e unfolding work_queues_def by auto
        then have "work_inv (s1\<lparr>g_ready_bitmap := g_ready_bitmap s1 AND NOT (push_bit p 1)\<rparr>)"
          using d dequeue_none [OF q e] inv by (auto simp: work_inv_def unused_idle_def)
        then show ?thesis using step res Some d None by auto
      next
        case (Some i)
        then have i: "i < 64" "w_id (g_work s1 ! i) \<noteq> 0" using inv1(2) by auto
        show ?thesis using step [of ready s1 r] step [of ready "sched_work_enqueue i s1" r] res \<open>sched_bsr32 ready = Some p\<close> d Some inv1(1)
            work_inv_enqueue [OF inv1(1) i] work_inv_run_item [OF cb inv1(1) i]
          by (auto split: if_splits)
      qed
    qed
  qed
qed

lemma work_inv_register: "work_inv s \<Longrightarrow> work_inv (snd (sched_work_register f u p a b h s))"
proof (cases "f = 0 \<or> first_idx (\<lambda>i. w_id (g_work s ! i) = 0) 64 = None")
  case False
  assume inv: "work_inv s"
  obtain i where i: "first_idx (\<lambda>i. w_id (g_work s ! i) = 0) 64 = Some i" using False by auto
  then have lt: "i < 64" "w_id (g_work s ! i) = 0" by (simp_all add: first_idx_Some)
  obtain q where q: "work_queues s q" "unused_idle s" using inv by (auto simp: work_inv_def)
  have len: "length (g_work s) = 64" by (rule work_queues_lengths(1) [OF q(1)])
  define w where "w = \<lparr>w_id = of_nat (i + 1), w_priority = p, w_next = -1, w_in_queue = False, w_mlfq_level = ucast (sched_priority_to_mlfq_level p),
    w_run = f, w_userdata = u, w_affinity_mask = (if a \<noteq> 0 then a else SCHED_WORK_CPU_ANY), w_budget_ticks = b, w_budget_left = b,
    w_cache_hint = h, w_mlfq_slice_left = sched_mlfq_level_quantum_ticks (sched_priority_to_mlfq_level p) s, w_mlfq_last_boost_tick = g_ticks s\<rparr>"
  have "unat (of_nat (i + 1) :: u32) = i + 1" using lt(1) by (intro unat_of_nat32) simp
  then have wid: "w_id w \<noteq> 0" "w_next w = -1" "\<not> w_in_queue w" by (auto simp: w_def)
  have out: "\<not> w_in_queue (g_work s ! i)" "i \<notin> set (q r)" for r
    using q(2) len lt work_queues_in_queue [OF q(1) lt(1)] by (auto simp: unused_idle_def)
  have "work_queues (set_work i (\<lambda>_. w) s) q"
  proof -
    have "queues_ok ((map w_next (g_work s))[i := -1]) (g_runq s) (map w_in_queue (g_work s)) q"
      using q(1) out(2) by (intro queues_frame) (simp_all add: work_queues_def)
    moreover have "(map w_in_queue (g_work s))[i := False] = map w_in_queue (g_work s)"
      using map_update_same [of w_in_queue "g_work s" i] out(1) by simp
    ultimately show ?thesis using q(1) wid unfolding work_queues_def map_next_set map_in_queue_set by simp
  qed
  moreover have "unused_idle (set_work i (\<lambda>_. w) s)"
    using q(2) wid unfolding unused_idle_def by (simp add: set_work_def nth_update)
  ultimately have new: "work_inv (set_work i (\<lambda>_. w) s)" by (auto simp: work_inv_def)
  then have "work_inv (sched_work_enqueue i (set_work i (\<lambda>_. w) s))"
    using lt(1) wid len by (intro work_inv_enqueue) (simp_all add: nth_set_work)
  moreover have "snd (sched_work_register f u p a b h s)
      = (if b \<noteq> 0 then sched_work_enqueue i (set_work i (\<lambda>_. w) s) else set_work i (\<lambda>_. w) s)"
    using False i by (simp add: sched_work_register_def Let_def w_def)
  ultimately show ?thesis using new by simp
qed (auto simp: sched_work_register_def)

lemma work_inv_set_ready: "work_inv s \<Longrightarrow> work_inv (snd (sched_work_set_ready wid s))"
  by (auto simp: sched_work_set_ready_def Let_def set_work_id split: option.split dest: work_get_Some
      intro!: work_inv_enqueue work_inv_set)

lemma work_inv_init: "work_inv (sched_init s)"
proof -
  have "work_queues (sched_init s) (\<lambda>_. [])"
    by (auto simp: sched_init_def sched_work_init_def work_queues_def Let_def intro!: queues_empty)
  then show ?thesis by (auto simp: work_inv_def unused_idle_def sched_init_def sched_work_init_def Let_def)
qed

lemma work_inv_step: "work_step run op s = Some s' \<Longrightarrow> callback_ok run \<Longrightarrow> work_inv s \<Longrightarrow> work_inv s'"
proof (cases op)
  case Timeslice
  assume h: "work_step run op s = Some s'" "callback_ok run" "work_inv s"
  have "work_inv (sched_mlfq_boost_if_due (s\<lparr>g_sched_work_inflight := True\<rparr>))"
    using h(3) by (simp add: work_inv_boost work_inv_frame)
  then have "work_inv (snd r)" if "timeslice_loop run ready (sched_mlfq_boost_if_due (s\<lparr>g_sched_work_inflight := True\<rparr>)) = Some r" for ready r
    using timeslice_loop_inv [OF that] h(2) by blast
  then show ?thesis using h
    by (fastforce simp: Timeslice sched_work_on_timeslice_end_def Let_def work_inv_frame split: if_splits)
qed (auto simp: work_inv_register work_inv_set_ready sched_work_unready_def sched_work_update_budget_def
    split: option.splits intro!: work_inv_set)

text \<open>C8. Whatever is registered, made ready, charged or run, in any order and with callbacks that use
  the scheduler themselves, the run queues stay well formed: every priority has a proper list, no
  item is in two of them or twice in one, the flag of an item says whether it is queued, and a bit
  of the ready bitmap is set exactly when its queue is not empty.\<close>

theorem sched_queues_invariant:
  assumes "callback_ok run" and "work_steps run ops (sched_init s0) = Some s"
  shows "\<exists>q. length (g_work s) = 64 \<and> length (g_runq s) = 32
     \<and> (\<forall>p < 32. queue_of (map w_next (g_work s)) (g_runq s ! p) (q p) \<and> (bit (g_ready_bitmap s) p \<longleftrightarrow> q p \<noteq> []))
     \<and> (\<forall>p < 32. \<forall>r < 32. p \<noteq> r \<longrightarrow> set (q p) \<inter> set (q r) = {})
     \<and> (\<forall>i < 64. w_in_queue (g_work s ! i) \<longleftrightarrow> (\<exists>p < 32. i \<in> set (q p)))"
proof -
  have "work_inv s'" if "work_steps run ops s1 = Some s'" "work_inv s1" for s1 s'
    using that
  proof (induction ops arbitrary: s1)
    case (Cons op ops)
    then obtain s2 where "work_step run op s1 = Some s2" "work_steps run ops s2 = Some s'" by (auto simp: bind_eq_Some_conv)
    then show ?case using Cons work_inv_step [OF _ assms(1)] by blast
  qed simp
  then have "work_inv s" using assms(2) work_inv_init by blast
  then obtain q where q: "work_queues s q" unfolding work_inv_def by blast
  then have ok: "queues_ok (map w_next (g_work s)) (g_runq s) (map w_in_queue (g_work s)) q" by (simp add: work_queues_def)
  have "w_in_queue (g_work s ! i) \<longleftrightarrow> (\<exists>p < 32. i \<in> set (q p))" if "i < 64" for i
    using work_queues_in_queue [OF q that] work_queues_beyond [OF q] by (metis emptyE linorder_not_less list.set(1))
  then show ?thesis using q queues_okD(2,4) [OF ok] by (intro exI [of _ q]) (auto simp: work_queues_def)
qed

section \<open>First in, first out\<close>

text \<open>Items of one priority leave their queue in the order in which they became ready: after
  enqueueing any distinct items that are not queued, dequeueing their priority yields first what
  was there and then these items in order.\<close>

theorem sched_fifo:
  assumes "work_queues s q" and "distinct is"
    and "\<And>i. i \<in> set is \<Longrightarrow> i < 64 \<and> work_level s i = p \<and> (\<forall>r. i \<notin> set (q r))"
  shows "fst (drain (sched_work_dequeue_prio p) (length (q p) + length is) (fold sched_work_enqueue is s)) = q p @ is"
  using assms by (rule work.fifo)

section \<open>The end of a timeslice\<close>

text \<open>C30. When no boost is due and every queued item may run on this processor, the end of a timeslice
  returns: it runs the first item, by priority and then by age, that has a callback and some budget,
  drops the items before it from their queues and leaves those behind it queued; if no queued item
  is eligible it runs nothing and empties the queues.\<close>

theorem sched_timeslice_picks:
  assumes "work_queues s q" and "\<not> g_sched_work_inflight s"
    and "g_ticks s - g_mlfq_last_global_boost_tick s < g_mlfq_boost_interval_ticks s"
    and "\<And>i. i \<in> set (ready_order q) \<Longrightarrow> w_affinity_mask (g_work s ! i) AND 1 \<noteq> 0"
  shows "case List.find (eligible s) (ready_order q) of
      None \<Rightarrow> \<exists>s'. sched_work_on_timeslice_end run s = Some (False, s') \<and> work_queues s' (\<lambda>_. [])
    | Some i \<Rightarrow> \<exists>s1 q1. sched_work_on_timeslice_end run s = Some (True, (work_run_item run i s1)\<lparr>g_sched_work_inflight := False\<rparr>)
        \<and> work_queues s1 q1 \<and> same_items s s1
        \<and> ready_order q1 = tl (dropWhile (\<lambda>i. \<not> eligible s i) (ready_order q))"
proof -
  let ?s = "s\<lparr>g_sched_work_inflight := True\<rparr>"
  have b: "sched_mlfq_boost_if_due ?s = ?s" using assms(3) by (simp add: sched_mlfq_boost_if_due_def)
  have wq: "work_queues ?s q" using assms(1) by (simp add: work_queues_def)
  have e: "eligible ?s = eligible s" "same_items s ?s" by (simp_all add: eligible_def same_items_def fun_eq_iff)
  have bits: "bit (g_ready_bitmap ?s) p" if "p < 32" "q p \<noteq> []" for p using assms(1) that by (simp add: work_queues_def)
  have run: "sched_work_on_timeslice_end run s = map_option (\<lambda>(ran, s). (ran, s\<lparr>g_sched_work_inflight := False\<rparr>)) (timeslice_loop run (g_ready_bitmap ?s) ?s)"
    using assms(2) by (simp add: sched_work_on_timeslice_end_def b)
  have "case List.find (eligible ?s) (ready_order q) of
      None \<Rightarrow> \<exists>s'. timeslice_loop run (g_ready_bitmap ?s) ?s = Some (False, s') \<and> work_queues s' (\<lambda>_. [])
    | Some i \<Rightarrow> \<exists>s' q'. timeslice_loop run (g_ready_bitmap ?s) ?s = Some (True, work_run_item run i s') \<and> work_queues s' q' \<and> same_items ?s s'
        \<and> ready_order q' = tl (dropWhile (\<lambda>i. \<not> eligible ?s i) (ready_order q))"
    by (rule timeslice_loop_result [OF wq bits]) (use assms(4) in simp_all)
  moreover have "work_queues (s'\<lparr>g_sched_work_inflight := False\<rparr>) q'" if "work_queues s' q'" for s' :: "'a sched_scheme" and q'
    using that by (simp add: work_queues_def)
  ultimately show ?thesis unfolding run e(1) using same_items_trans [OF e(2)] by (fastforce split: option.splits)
qed

text \<open>C31. The end of a timeslice always returns when no registered item is bound to another processor,
  whether a boost is due or not and whatever the callbacks do.\<close>

theorem sched_timeslice_returns:
  assumes "work_inv s" and "\<And>i. i < 64 \<Longrightarrow> w_affinity_mask (g_work s ! i) AND 1 \<noteq> 0"
  shows "\<exists>r. sched_work_on_timeslice_end run s = Some r"
proof (cases "g_sched_work_inflight s")
  case False
  let ?s = "sched_mlfq_boost_if_due (s\<lparr>g_sched_work_inflight := True\<rparr>)"
  have "work_inv ?s" using assms(1) by (simp add: work_inv_boost work_inv_frame)
  then obtain q where q: "work_queues ?s q" by (auto simp: work_inv_def)
  have requeue: "w_affinity_mask (g_work (requeue_loop n i s) ! j) = w_affinity_mask (g_work s ! j)" for n i j and s :: "'a sched_scheme"
    by (induction n arbitrary: i s) (simp_all add: sched_work_enqueue_def set_work_def Let_def field_list_update [of w_affinity_mask])
  have len: "length (g_work s) = 64" using assms(1) work_queues_lengths(1) by (auto simp: work_inv_def)
  have "w_affinity_mask (g_work ?s ! i) = w_affinity_mask (g_work s ! i)" if "i < 64" for i
    using len that by (simp add: sched_mlfq_boost_if_due_def sched_work_requeue_all_def requeue Let_def)
  then have "w_affinity_mask (g_work ?s ! i) AND 1 \<noteq> 0" if "i \<in> set (ready_order q)" for i
    using that assms(2) [of i] work_queues_member [OF q, of i] by (auto simp: ready_order_def)
  then have "\<exists>r. timeslice_loop run (g_ready_bitmap ?s) ?s = Some r"
    using timeslice_loop_result [OF q, of "g_ready_bitmap ?s" run] q by (fastforce simp: work_queues_def split: option.splits)
  then show ?thesis using False by (auto simp: sched_work_on_timeslice_end_def Let_def)
qed (auto simp: sched_work_on_timeslice_end_def)

lemma enqueue_same_items: "same_items s (sched_work_enqueue i s)"
  by (simp add: same_items_def sched_work_enqueue_def set_work_def Let_def field_list_update [of w_mlfq_level]
      field_list_update [of w_run] field_list_update [of w_budget_left] field_list_update [of w_affinity_mask])

definition lone_foreign :: "nat \<Rightarrow> nat \<Rightarrow> 'a sched_scheme \<Rightarrow> bool" where
  "lone_foreign p i s \<longleftrightarrow> work_queues s ((\<lambda>_. [])(p := [i])) \<and> p = work_level s i \<and> eligible s i \<and> w_affinity_mask (g_work s ! i) AND 1 = 0"

lemma lone_foreign_round:
  assumes "lone_foreign p i s"
  shows "\<exists>s1. sched_work_dequeue_prio p s = (Some i, s1) \<and> eligible s1 i \<and> w_affinity_mask (g_work s1 ! i) AND 1 = 0
     \<and> lone_foreign p i (sched_work_enqueue i s1)"
proof -
  let ?q = "(\<lambda>_. [])(p := [i])"
  have wq: "work_queues s ?q" using assms unfolding lone_foreign_def by blast
  obtain s1 where s1: "sched_work_dequeue_prio p s = (Some i, s1)" "work_queues s1 (?q(p := []))" "same_items s s1"
    using dequeue_some [OF wq, of p i "[]"] by (auto simp: same_items_def)
  have i: "i < 64" using work_queues_member [OF wq, of i p] by simp
  have lv: "work_level s1 i = p" using assms s1(3) by (simp add: lone_foreign_def work_level_def same_items_def)
  have "work_queues (sched_work_enqueue i s1) ((?q(p := []))(work_level s1 i := (?q(p := [])) (work_level s1 i) @ [i]))"
    by (rule enqueue_new [OF s1(2) i]) simp
  moreover have "(?q(p := []))(p := (?q(p := [])) p @ [i]) = ?q" by (simp add: fun_eq_iff)
  ultimately have "work_queues (sched_work_enqueue i s1) ?q" unfolding lv by metis
  moreover have "same_items s (sched_work_enqueue i s1)" by (rule same_items_trans [OF s1(3) enqueue_same_items])
  ultimately show ?thesis using s1(1,3) assms unfolding lone_foreign_def work_level_def same_items_def eligible_def by auto
qed

lemma lone_foreign_loops:
  assumes h: "timeslice_loop run ready s = Some r"
  shows "sched_bsr32 ready = Some p \<longrightarrow> \<not> lone_foreign p i s"
proof (rule timeslice_loop.raw_induct [where P = "\<lambda>run ready s r. sched_bsr32 ready = Some p \<longrightarrow> \<not> lone_foreign p i s", OF _ h], goal_cases)
  case (1 loop run ready s r)
  show ?case
  proof (intro impI notI)
    assume b: "sched_bsr32 ready = Some p" and l: "lone_foreign p i s"
    obtain s1 where s1: "sched_work_dequeue_prio p s = (Some i, s1)" "eligible s1 i" "w_affinity_mask (g_work s1 ! i) AND 1 = 0"
      "lone_foreign p i (sched_work_enqueue i s1)" using lone_foreign_round [OF l] by blast
    then have "loop run ready (sched_work_enqueue i s1) = Some r" using 1(2) b by (simp add: eligible_def)
    then show False using 1(1) b s1(4) by blast
  qed
qed

text \<open>C32. A ready item whose affinity mask excludes this processor hangs the kernel: if it is the only
  queued item, has a callback and budget, and no boost is due, the end of the timeslice takes it
  from its queue and puts it back for ever.\<close>

theorem sched_affinity_livelock:
  assumes "work_queues s ((\<lambda>_. [])(p := [i]))" and "p = work_level s i" and "eligible s i"
    and "w_affinity_mask (g_work s ! i) AND 1 = 0" and "\<not> g_sched_work_inflight s"
    and "g_ticks s - g_mlfq_last_global_boost_tick s < g_mlfq_boost_interval_ticks s"
  shows "sched_work_on_timeslice_end run s = None"
proof -
  let ?s = "s\<lparr>g_sched_work_inflight := True\<rparr>"
  have b: "sched_mlfq_boost_if_due ?s = ?s" using assms(6) by (simp add: sched_mlfq_boost_if_due_def)
  have l: "lone_foreign p i ?s"
    using assms(1-4) by (simp add: lone_foreign_def work_queues_def work_level_def eligible_def)
  have p: "p < 32" using assms(2) by simp
  have bits: "bit (g_ready_bitmap ?s) k \<longleftrightarrow> k = p" if "k < 32" for k using assms(1) that by (simp add: work_queues_def)
  then have "bit (g_ready_bitmap ?s) p" using p by blast
  then have "g_ready_bitmap ?s \<noteq> 0" by force
  then obtain k where k: "sched_bsr32 (g_ready_bitmap ?s) = Some k" using bsr_None by blast
  then have "k = p" using bsr_Some [OF k] bits by blast
  then have "timeslice_loop run (g_ready_bitmap ?s) ?s = None"
    using lone_foreign_loops [of run "g_ready_bitmap ?s" ?s _ p i] k l by (cases "timeslice_loop run (g_ready_bitmap ?s) ?s") blast+
  then show ?thesis using assms(5) by (simp add: sched_work_on_timeslice_end_def b)
qed

section \<open>Milliseconds and ticks\<close>


section \<open>The deterministic mode\<close>

text \<open>The ring holds the interrupts \<open>xs\<close>, oldest first.\<close>

definition det_holds :: "'a sched_scheme \<Rightarrow> u8 list \<Rightarrow> bool" where
  "det_holds s xs \<longleftrightarrow> length (g_det_queue s) = 256 \<and> unat (g_det_head s) < 256 \<and> length xs < 256
     \<and> unat (g_det_tail s) = (unat (g_det_head s) + length xs) mod 256
     \<and> (\<forall>k < length xs. g_det_queue s ! ((unat (g_det_head s) + k) mod 256) = \<lparr>ev_type = DET_EVENT_IRQ, ev_irq = xs ! k\<rparr>)"

lemma ring_next: "unat w < 256 \<Longrightarrow> unat ((w + 1) AND 255 :: u16) = (unat w + 1) mod 256"
proof -
  assume w: "unat w < 256"
  have "(w + 1) AND 255 = (w + 1) mod 256" using take_bit_eq_mask [of 8 "w + 1"] by (simp add: mask_numeral take_bit_eq_mod)
  then have "unat ((w + 1) AND 255) = unat (w + 1) mod 256" by (simp add: unat_mod)
  moreover have "unat (w + 1) = unat w + 1" using w by (simp add: unat_word_ariths)
  ultimately show ?thesis by simp
qed

lemma ring_index_inj:
  assumes "(h + k) mod 256 = (h + n) mod 256" "k < 256" "n < (256 :: nat)"
  shows "k = n"
proof -
  have "(int h + int k) mod 256 = (int h + int n) mod 256" using arg_cong [OF assms(1), of int] by (simp add: zmod_int)
  then have "256 dvd (int h + int k) - (int h + int n)" by (simp only: mod_eq_dvd_iff)
  then obtain c where "int k - int n = 256 * c" by (auto elim: dvdE)
  moreover from this have "c = 0" using assms(2,3) by linarith
  ultimately show ?thesis by simp
qed

lemma det_queue_put:
  assumes d: "det_holds s xs" and "g_det_enabled s"
  shows "if length xs < 255 then fst (sched_det_queue_irq irq s) \<and> det_holds (snd (sched_det_queue_irq irq s)) (xs @ [irq])
     else sched_det_queue_irq irq s = (False, s)"
proof -
  define h where "h = unat (g_det_head s)"
  have q: "length (g_det_queue s) = 256" "h < 256" "length xs < 256" "unat (g_det_tail s) = (h + length xs) mod 256"
    "\<forall>k < length xs. g_det_queue s ! ((h + k) mod 256) = \<lparr>ev_type = 1, ev_irq = xs ! k\<rparr>"
    using d by (simp_all add: det_holds_def h_def)
  let ?n = "(g_det_tail s + 1) AND 255"
  have n: "unat ?n = (h + length xs + 1) mod 256" using ring_next [of "g_det_tail s"] q(4) by (simp add: mod_Suc_eq)
  show ?thesis
  proof (cases "length xs < 255")
    case True
    have "?n \<noteq> g_det_head s"
    proof
      assume "?n = g_det_head s"
      then have "(h + (length xs + 1)) mod 256 = (h + 0) mod 256" using n q(2) by (simp add: h_def)
      then show False using ring_index_inj [of h "length xs + 1" 0] True by simp
    qed
    then have run: "sched_det_queue_irq irq s = (True, s\<lparr>g_det_queue := (g_det_queue s)[unat (g_det_tail s) := \<lparr>ev_type = 1, ev_irq = irq\<rparr>], g_det_tail := ?n\<rparr>)"
      using assms(2) by (simp add: sched_det_queue_irq_def)
    have "(g_det_queue s)[(h + length xs) mod 256 := \<lparr>ev_type = 1, ev_irq = irq\<rparr>] ! ((h + k) mod 256)
        = \<lparr>ev_type = 1, ev_irq = (xs @ [irq]) ! k\<rparr>" if "k < length xs + 1" for k
    proof (cases "k = length xs")
      case False
      then have "(h + k) mod 256 \<noteq> (h + length xs) mod 256" using that True ring_index_inj [of h k "length xs"] by auto
      then show ?thesis using q(5) that False by (simp add: nth_append)
    qed (use q(1) in simp)
    then show ?thesis using True run q n by (simp add: det_holds_def h_def)
  next
    case False
    then have "length xs = 255" using q(3) by simp
    then have "unat ?n = h" using n q(2) by simp
    then have "?n = g_det_head s" by (simp only: h_def word_unat_eq_iff)
    then show ?thesis using False assms(2) by (simp add: sched_det_queue_irq_def)
  qed
qed

text \<open>A handler that leaves the ring alone.\<close>

definition keeps_ring :: "('a sched_scheme \<Rightarrow> 'a sched_scheme) \<Rightarrow> bool" where
  "keeps_ring f \<longleftrightarrow> (\<forall>s xs. det_holds s xs \<longrightarrow> det_holds (f s) xs)"

lemma det_loop_result:
  assumes "det_holds s xs" "keeps_ring tick" "\<And>irq. keeps_ring (dispatch irq)"
  shows "\<exists>s'. det_loop tick dispatch n s = (min n (length xs), s') \<and> det_holds s' (drop n xs)"
  using assms(1)
proof (induction n arbitrary: s xs)
  case (Suc n)
  define h where "h = unat (g_det_head s)"
  have q: "length (g_det_queue s) = 256" "h < 256" "length xs < 256" "unat (g_det_tail s) = (h + length xs) mod 256"
    "\<forall>k < length xs. g_det_queue s ! ((h + k) mod 256) = \<lparr>ev_type = 1, ev_irq = xs ! k\<rparr>"
    using Suc.prems by (simp_all add: det_holds_def h_def)
  have e: "g_det_head s = g_det_tail s \<longleftrightarrow> xs = []"
  proof
    assume "g_det_head s = g_det_tail s"
    then have "unat (g_det_tail s) = h" by (simp only: h_def)
    then have "(h + length xs) mod 256 = (h + 0) mod 256" using q(2,4) by simp
    then show "xs = []" using ring_index_inj [of h "length xs" 0] q(3) by simp
  next
    assume "xs = []"
    then have "unat (g_det_tail s) = unat (g_det_head s)" using q(2,4) unfolding h_def by simp
    then show "g_det_head s = g_det_tail s" by (simp only: word_unat_eq_iff)
  qed
  show ?case
  proof (cases xs)
    case Nil
    then show ?thesis using e Suc.prems by simp
  next
    case (Cons x ys)
    let ?s = "s\<lparr>g_det_head := (g_det_head s + 1) AND 255\<rparr>"
    have hd: "g_det_queue s ! h = \<lparr>ev_type = 1, ev_irq = x\<rparr>" using q(5) [rule_format, of 0] q(2) Cons by simp
    have "g_det_queue s ! ((Suc h mod 256 + k) mod 256) = \<lparr>ev_type = 1, ev_irq = ys ! k\<rparr>" if "k < length ys" for k
    proof -
      have "(Suc h mod 256 + k) mod 256 = (h + Suc k) mod 256" by (metis add_Suc_shift mod_add_left_eq)
      moreover have "Suc k < length xs" using that Cons by simp
      ultimately show ?thesis using q(5) Cons by (metis nth_Cons_Suc)
    qed
    moreover have "(h + length xs) mod 256 = (Suc h mod 256 + length ys) mod 256"
      using Cons by (metis add_Suc_shift length_Cons mod_add_left_eq)
    moreover have "unat ((g_det_head s + 1) AND 255) = Suc h mod 256" using ring_next [of "g_det_head s"] q(2) by (simp add: h_def)
    ultimately have "det_holds ?s ys"
      using q(1,3,4) Cons unfolding det_holds_def by simp
    then have "det_holds (if x = 0 then tick ?s else dispatch x ?s) ys"
      using assms(2,3) by (auto simp: keeps_ring_def)
    from Suc.IH [OF this] show ?thesis using e hd Cons by (auto simp: h_def Let_def)
  qed
qed simp


section \<open>A scheduler with two items\<close>

definition sched_boot :: sched where
  "sched_boot = sched_init \<lparr>g_work = [], g_current_slice = 0, g_det_enabled = False, yield_polls = 0, g_ctx_stack = [], g_ctx_top = -1,
     current_command_context = None, g_runq = [], g_sched_work_inflight = False, g_ready_bitmap = 0,
     g_mlfq_quantum_ms = [10, 25, 50], g_mlfq_quantum_ticks = [1, 1, 1], g_mlfq_boost_interval_ticks = 1,
     g_mlfq_last_global_boost_tick = 0, g_mlfq_work_runs = 0, g_mlfq_work_demotions = 0, g_mlfq_work_boosts = 0, g_ticks = 0,
     g_tick_hz = 1000, g_timeslice_ticks = 100, g_idle_hlt_count = 0,
     g_det_queue = replicate 256 \<lparr>ev_type = 0, ev_irq = 0\<rparr>, g_det_head = 0, g_det_tail = 0, g_det_processing = False\<rparr>"

lemma level_prio [simp]: "sched_mlfq_level_to_prio 0 = 0" "sched_mlfq_level_to_prio 1 = 16" "sched_mlfq_level_to_prio 2 = 31"
  by code_simp+

definition ready_item :: "nat \<Rightarrow> u8 \<Rightarrow> u32 \<Rightarrow> sched \<Rightarrow> sched" where
  "ready_item i lv affinity = set_work i (\<lambda>w. w\<lparr>w_id := of_nat (i + 1), w_run := 7, w_mlfq_level := lv,
     w_affinity_mask := affinity, w_budget_ticks := 5, w_budget_left := 5\<rparr>)"

lemma boot_queues: "work_queues sched_boot (\<lambda>_. [])"
  by (auto simp: sched_boot_def sched_init_def sched_work_init_def work_queues_def Let_def intro!: queues_empty)

lemma ready_item_queues: "work_queues s q \<Longrightarrow> work_queues (ready_item i lv a s) q"
  unfolding ready_item_def by (rule work_queues_set) simp_all

lemma ready_item_fields [simp]:
  "g_sched_work_inflight (ready_item i lv a s) = g_sched_work_inflight s" "g_ticks (ready_item i lv a s) = g_ticks s"
  "g_mlfq_last_global_boost_tick (ready_item i lv a s) = g_mlfq_last_global_boost_tick s"
  "g_mlfq_boost_interval_ticks (ready_item i lv a s) = g_mlfq_boost_interval_ticks s"
  "length (g_work (ready_item i lv a s)) = length (g_work s)"
  by (simp_all add: ready_item_def set_work_def)

lemma ready_item_nth:
  "length (g_work s) = 64 \<Longrightarrow> i < 64 \<Longrightarrow> g_work (ready_item i lv a s) ! j = (if j = i then (g_work s ! i)\<lparr>w_id := of_nat (i + 1), w_run := 7, w_mlfq_level := lv,
     w_affinity_mask := a, w_budget_ticks := 5, w_budget_left := 5\<rparr> else g_work s ! j)"
  by (simp add: ready_item_def nth_set_work)

lemma enqueue_clock:
  "g_sched_work_inflight (sched_work_enqueue i s) = g_sched_work_inflight s" "g_ticks (sched_work_enqueue i s) = g_ticks s"
  "g_mlfq_last_global_boost_tick (sched_work_enqueue i s) = g_mlfq_last_global_boost_tick s"
  "g_mlfq_boost_interval_ticks (sched_work_enqueue i s) = g_mlfq_boost_interval_ticks s"
  by (simp_all add: sched_work_enqueue_def set_work_def Let_def)

lemma boot_fields:
  "length (g_work sched_boot) = 64" "\<not> g_sched_work_inflight sched_boot" "g_ticks sched_boot = 0"
  "g_mlfq_last_global_boost_tick sched_boot = 0" "g_mlfq_boost_interval_ticks sched_boot = 1000"
  by code_simp+

text \<open>Item 0 of the highest and item 1 of the middle level, both ready.\<close>

definition two_ready :: sched where
  "two_ready = sched_work_enqueue 1 (sched_work_enqueue 0 (ready_item 1 1 1 (ready_item 0 2 1 sched_boot)))"

lemma two_ready_queues: "work_queues two_ready ((\<lambda>_. [])(31 := [0], 16 := [1]))"
proof -
  let ?s = "ready_item 1 1 1 (ready_item 0 2 1 sched_boot)"
  have "work_queues ?s (\<lambda>_. [])" by (intro ready_item_queues boot_queues)
  then have "work_queues (sched_work_enqueue 0 ?s) ((\<lambda>_. [])(31 := [0]))"
    using enqueue_new [of ?s "\<lambda>_. []" 0] by (simp add: work_level_def ready_item_nth boot_fields)
  then show ?thesis
    using enqueue_new [of "sched_work_enqueue 0 ?s" "(\<lambda>_. [])(31 := [0])" 1] unfolding two_ready_def
    by (simp add: work_level_def enqueue_level ready_item_nth boot_fields)
qed

lemma two_ready_items: "i < 2 \<Longrightarrow> eligible two_ready i \<and> w_affinity_mask (g_work two_ready ! i) AND 1 \<noteq> 0"
proof -
  assume i: "i < 2"
  let ?s = "ready_item 1 1 1 (ready_item 0 2 1 sched_boot)"
  have "same_items ?s two_ready" unfolding two_ready_def by (rule same_items_trans [OF enqueue_same_items enqueue_same_items])
  moreover have "eligible ?s i \<and> w_affinity_mask (g_work ?s ! i) AND 1 \<noteq> 0"
    using i by (auto simp: eligible_def ready_item_nth boot_fields)
  ultimately show ?thesis by (simp add: same_items_def eligible_def)
qed

lemma two_ready_clock: "\<not> g_sched_work_inflight two_ready"
  "g_ticks two_ready - g_mlfq_last_global_boost_tick two_ready < g_mlfq_boost_interval_ticks two_ready"
  by (simp_all add: two_ready_def enqueue_clock boot_fields)

lemma two_ready_order: "ready_order ((\<lambda>_. [])(31 := [0], 16 := [1])) = [0, 1]"
  by (simp add: ready_order_def upt_rec)

theorem sched_timeslice_picks_witness:
  "\<exists>s1 q1. sched_work_on_timeslice_end (\<lambda>_ s. s) two_ready = Some (True, (work_run_item (\<lambda>_ s. s) 0 s1)\<lparr>g_sched_work_inflight := False\<rparr>)
     \<and> ready_order q1 = [1]"
proof -
  have e: "eligible two_ready 0" using two_ready_items [of 0] by simp
  have "w_affinity_mask (g_work two_ready ! i) AND 1 \<noteq> 0" if "i \<in> set (ready_order ((\<lambda>_. [])(31 := [0], 16 := [1])))" for i
    using that two_ready_items [of i] unfolding two_ready_order by auto
  then show ?thesis
    using sched_timeslice_picks [OF two_ready_queues two_ready_clock, of "\<lambda>_ s. s"] e unfolding two_ready_order by auto
qed

theorem sched_timeslice_returns_witness:
  "\<exists>r. sched_work_on_timeslice_end (\<lambda>_ s. s) sched_boot = Some r"
proof (rule sched_timeslice_returns)
  show "work_inv sched_boot" unfolding sched_boot_def by (rule work_inv_init)
  have "list_all (\<lambda>w. w_affinity_mask w AND 1 \<noteq> 0) (g_work sched_boot)" by code_simp
  then show "w_affinity_mask (g_work sched_boot ! i) AND 1 \<noteq> 0" if "i < 64" for i
    using that boot_fields(1) by (simp add: list_all_length)
qed

theorem sched_affinity_livelock_witness:
  "sched_work_on_timeslice_end (\<lambda>_ s. s) (sched_work_enqueue 5 (ready_item 5 0 2 sched_boot)) = None"
proof -
  let ?s = "ready_item 5 0 2 sched_boot" and ?t = "sched_work_enqueue 5 (ready_item 5 0 2 sched_boot)"
  have lv: "work_level ?s 5 = 0" by (simp add: work_level_def ready_item_nth boot_fields)
  have "work_queues ?s (\<lambda>_. [])" by (intro ready_item_queues boot_queues)
  then have wq: "work_queues ?t ((\<lambda>_. [])(0 := [5]))" using enqueue_new [of ?s "\<lambda>_. []" 5] lv by simp
  have "eligible ?s 5" "w_affinity_mask (g_work ?s ! 5) AND 1 = 0" by (simp_all add: eligible_def ready_item_nth boot_fields)
  then have "eligible ?t 5" "w_affinity_mask (g_work ?t ! 5) AND 1 = 0"
    using enqueue_same_items [of ?s 5] by (simp_all add: same_items_def eligible_def)
  moreover have "0 = work_level ?t 5" using lv by (simp add: work_level_def enqueue_level)
  ultimately show ?thesis using wq by (intro sched_affinity_livelock [of ?t 0 5]) (simp_all add: enqueue_clock boot_fields)
qed

theorem sched_fifo_witness:
  "fst (drain (sched_work_dequeue_prio 31) 2 (fold sched_work_enqueue [1, 0] (ready_item 1 2 1 (ready_item 0 2 1 sched_boot)))) = [1, 0]"
proof -
  let ?s = "ready_item 1 2 1 (ready_item 0 2 1 sched_boot)"
  have "work_queues ?s (\<lambda>_. [])" by (intro ready_item_queues boot_queues)
  moreover have "work_level ?s 0 = 31" "work_level ?s 1 = 31"
    by (simp_all add: work_level_def ready_item_nth boot_fields)
  ultimately have "fst (drain (sched_work_dequeue_prio 31) (length ((\<lambda>_. []) 31 :: nat list) + length [1, 0 :: nat]) (fold sched_work_enqueue [1, 0] ?s))
      = (\<lambda>_. []) 31 @ [1, 0]"
    by (intro sched_fifo) auto
  moreover have "length ((\<lambda>_. []) 31 :: nat list) + length [1, 0 :: nat] = 2" by simp
  ultimately show ?thesis by (simp only: append_Nil)
qed

theorem sched_queues_invariant_witness:
  "\<exists>s. work_steps (\<lambda>_ s. s) [Register 7 0 31 1 5 0, Set_ready 1, Update_budget 1 3] sched_boot = Some s \<and> length (g_runq s) = 32"
proof -
  obtain s where s: "work_steps (\<lambda>_ s. s) [Register 7 0 31 1 5 0, Set_ready 1, Update_budget 1 3] sched_boot = Some s" by simp
  have "callback_ok (\<lambda>_ s. s)" by (simp add: callback_ok_def)
  then show ?thesis using sched_queues_invariant s unfolding sched_boot_def by blast
qed


lemma det_irq_flags: "g_det_enabled (snd (sched_det_queue_irq i s)) = g_det_enabled s"
  "g_det_processing (snd (sched_det_queue_irq i s)) = g_det_processing s"
  by (simp_all add: sched_det_queue_irq_def Let_def)


end
