(* ===== verification/UserWork.thy ===== *)
theory UserWork
  imports UserRunSpec SchedWork
begin

text \<open>
  User tasks over time: any sequence of the operations that the system call layer, the shell and the
  interrupts call, and what holds in every state they reach.
\<close>

section \<open>Steps\<close>

text \<open>What may happen while the processor waits in \<open>hlt\<close>: a timer tick, a GUI event, or the end of the
  running task by Control-C.\<close>

inductive interrupt :: "'m utask_scheme \<Rightarrow> 'm utask_scheme \<Rightarrow> bool" where
  none: "interrupt s s"
| tick: "interrupt s (user_task_scheduler_tick (s\<lparr>g_ticks := g_ticks s + 1\<rparr>))"
| gui: "interrupt s (user_task_wake_gui_waiters h s)"
| abort: "interrupt s (user_task_notify_exit status s)"

inductive user_step :: "'m elf_env \<Rightarrow> 'm utask_scheme \<Rightarrow> 'm utask_scheme \<Rightarrow> bool" for env where
  spawn: "user_task_spawn_argv env drive prog argv s = Some x \<Longrightarrow> user_step env s (snd x)"
| spawn_stdio: "user_task_spawn_argv_stdio env drive prog argv stdio inherit s = Some x \<Longrightarrow> user_step env s (snd x)"
| exec: "user_elf_run_argv env drive prog argv envp s = Some x \<Longrightarrow> user_step env s (snd x)"
| poll: "user_task_poll_scheduler env s = Some x \<Longrightarrow> user_step env s (snd x)"
| abort_continue: "user_task_abort_continue env s = Some x \<Longrightarrow> user_step env s (snd x)"
| waitpid: "user_task_waitpid env idle pid nohang s = Some x \<Longrightarrow> (\<And>s. interrupt s (idle s)) \<Longrightarrow> user_step env s (snd x)"
| capture: "user_step env s (user_task_capture_syscall_frame regs s)"
| resume: "user_step env s (snd (user_task_try_resume_from_syscall env regs s))"
| sleep: "user_step env s (user_task_block_current_sleep_until wake_tick s)"
| gui_wait: "user_step env s (user_task_block_current_gui_wait h s)"
| unblock: "user_step env s (user_task_unblock_current s)"
| signal: "user_step env s (snd (user_task_queue_signal pid sig s))"
| signal_self: "user_step env s (snd (user_task_signal_current sig s))"
| handler: "user_step env s (snd (user_task_set_handler_current sig addr s))"
| sigreturn: "user_step env s (snd (user_task_sigreturn_current s))"
| exit: "user_step env s (user_task_notify_exit status s)"
| irq: "interrupt s s' \<Longrightarrow> user_step env s s'"

inductive user_steps :: "'m elf_env \<Rightarrow> nat \<Rightarrow> 'm utask_scheme \<Rightarrow> 'm utask_scheme \<Rightarrow> bool" for env where
  zero: "user_steps env 0 s s"
| Suc: "user_steps env n s s1 \<Longrightarrow> user_step env s1 s2 \<Longrightarrow> user_steps env (Suc n) s s2"

inductive_cases user_steps_SucE: "user_steps env (Suc n) s s'"

text \<open>The state at boot: no task, no frame, the first generation.\<close>

definition user_boot :: "'m utask_scheme \<Rightarrow> bool" where
  "user_boot s \<longleftrightarrow> length (g_user_tasks s) = 16 \<and> (\<forall>t \<in> set (g_user_tasks s). \<not> ut_used t \<and> \<not> ut_in_runq t)
     \<and> \<not> g_user_task_runq_initialized s \<and> g_user_task_pending_pid s = 0 \<and> g_user_task_running_pid s = 0
     \<and> g_user_task_runtime_generation s = 1"

lemma interrupt_ok: "interrupt s s' \<Longrightarrow> user_ok s \<Longrightarrow> after False s s'"
proof (induction rule: interrupt.induct)
  case (tick s)
  have "task_inv {} (s\<lparr>g_ticks := g_ticks s + 1\<rparr>)" using tick by (simp add: user_ok_def task_inv_def task_queues_def)
  then show ?case using tick by (intro after_frames) (simp_all add: frames_simps user_ok_def task_inv_tick)
next
  case (gui h s)
  then show ?case by (intro after_frames) (simp_all add: frames_simps user_ok_def task_inv_wake_gui)
next
  case (abort status s)
  then show ?case by (intro after_exit) (simp_all add: frames_notify_exit user_ok_def task_inv_notify_exit)
qed (rule after_refl)

text \<open>The frame of a system call is that of the running process.\<close>

lemma capture_ok:
  assumes "user_ok s"
  shows "after False s (user_task_capture_syscall_frame regs s)"
proof (cases "user_task_find_slot_by_pid (g_user_task_running_pid s) s")
  case None
  then show ?thesis using after_refl [OF assms] by (simp add: user_task_capture_syscall_frame_def)
next
  case (Some i)
  let ?s = "user_task_capture_syscall_frame regs s"
  have i: "i < 16" "ut_used (task s i)" "ut_pid (task s i) = g_user_task_running_pid s"
    using Some by (auto simp: user_task_find_slot_by_pid_def first_idx_Some split: if_splits)
  have e: "?s = set_task i (\<lambda>t. t\<lparr>ut_frame := regs, ut_has_frame := True, ut_frame_generation := g_user_task_runtime_generation s\<rparr>) s"
    using Some by (simp add: user_task_capture_syscall_frame_def)
  have mem: "task s i \<in> set (g_user_tasks s)" using i(1) assms by (auto simp: user_ok_def dest: task_inv_length)
  have "images_ok ?s" using assms mem unfolding e images_ok_def user_ok_def by (auto dest!: set_task_in)
  moreover have "resume_ok ?s" if "resume_ok s" using that i(3) unfolding e resume_ok_def by (auto dest!: set_task_in)
  moreover have "g_user_task_runtime_generation ?s = g_user_task_runtime_generation s" "g_user_task_pending_pid ?s = g_user_task_pending_pid s"
    by (simp_all add: e)
  ultimately show ?thesis using assms by (simp add: after_def user_ok_def switch_ok_def task_inv_capture)
qed

definition settled_tasks :: "'a utask_scheme \<Rightarrow> bool" where
  "settled_tasks s \<longleftrightarrow> user_ok s \<and> switch_ok s"

lemma step_ok:
  assumes "user_step env s s'" "settled_tasks s" "g_user_task_runtime_generation s \<noteq> 0xFFFFFFFF"
  shows "\<exists>b. after b s s'"
  using assms
proof (induction rule: user_step.induct)
  case (waitpid idle pid nohang s x)
  then show ?case using waitpid_ok [OF waitpid(1)] interrupt_ok [OF waitpid(2)] unfolding settled_tasks_def by blast
next
  case (exec drive prog argv envp s x)
  then show ?case using exec_ok [OF exec(1)] by (auto simp: settled_tasks_def)
next
  case (resume s regs)
  then show ?case using resume_never(2) by (auto simp: settled_tasks_def)
next
  case (signal s pid sig)
  then show ?case by (intro exI [of _ False] after_exit frames_queue_signal) (auto simp: settled_tasks_def user_ok_def task_inv_queue_signal)
next
  case (signal_self s sig)
  then show ?case by (intro exI [of _ False] after_exit frames_signal_current) (auto simp: settled_tasks_def user_ok_def task_inv_signal_current)
next
  case (exit s status)
  then show ?case by (intro exI [of _ False] interrupt_ok interrupt.abort) (simp add: settled_tasks_def)
next
  case (irq s s')
  then show ?case using interrupt_ok by (auto simp: settled_tasks_def)
next
  case (spawn drive prog argv s x)
  then show ?case using spawn_with_ok [of env drive prog argv _ s x] unfolding user_task_spawn_argv_def settled_tasks_def by blast
next
  case (spawn_stdio drive prog argv stdio inherit s x)
  then show ?case using spawn_with_ok [of env drive prog argv _ s x] unfolding user_task_spawn_argv_stdio_def settled_tasks_def by blast
next
  case (poll s x)
  then show ?case using poll_ok unfolding settled_tasks_def by blast
next
  case (abort_continue s x)
  then show ?case using abort_continue_ok unfolding settled_tasks_def by blast
next
  case (capture s regs)
  then show ?case using capture_ok unfolding settled_tasks_def by blast
next
  case (unblock s)
  then show ?case using unblock_ok unfolding settled_tasks_def by blast
qed (intro exI [of _ False] after_frames;
     simp add: settled_tasks_def user_ok_def frames_simps task_inv_block task_inv_set_handler task_inv_sigreturn
       user_task_block_current_sleep_until_def user_task_block_current_gui_wait_def)+

lemma steps_ok:
  assumes "user_steps env n s s'" "user_boot s" "n < 2 ^ 32 - 2"
  shows "settled_tasks s' \<and> unat (g_user_task_runtime_generation s') \<le> n + 1"
  using assms
proof (induction)
  case (zero s)
  have "task_inv {} s" using zero by (auto simp: user_boot_def task_inv_def runnable_def)
  then show ?case using zero by (auto simp: settled_tasks_def user_ok_def switch_ok_def user_boot_def images_ok_def resume_ok_def)
next
  case (Suc n s s1 s2)
  have n: "n < 2 ^ 32 - 2" using Suc.prems(2) by linarith
  have IH: "settled_tasks s1" "unat (g_user_task_runtime_generation s1) \<le> n + 1" using Suc.IH Suc.prems(1) n by blast+
  have g: "unat (g_user_task_runtime_generation s1) < 4294967295" using IH(2) Suc.prems(2) by simp
  then have ne: "g_user_task_runtime_generation s1 \<noteq> 0xFFFFFFFF" by auto
  obtain b where a: "after b s1 s2" using step_ok [OF Suc.hyps(2) IH(1) ne] by blast
  have "unat (g_user_task_runtime_generation s1 + 1) = unat (g_user_task_runtime_generation s1) + 1"
    using unat_add32 [of "g_user_task_runtime_generation s1" 1] g by simp
  then show ?case using a IH ne by (auto simp: after_def settled_tasks_def)
qed

section \<open>Ticks\<close>

definition sleep_over :: "u32 \<Rightarrow> user_task_slot \<Rightarrow> bool" where
  "sleep_over now t \<longleftrightarrow> ut_used t \<and> ut_state t = BLOCKED \<and> ut_block_reason t = BLOCK_SLEEP \<and> \<not> sint (now - ut_wake_tick t) < 0"

lemma tick_slot_other:
  assumes "i \<noteq> j" "i < 16" "j < 16" "length (g_user_tasks s) = 16"
  shows "same_task (task s j) (task (tick_slot now pid i s) j)"
proof -
  have "same_task (task s' j) (task (user_task_runq_enqueue i s') j)" if "length (g_user_tasks s') = 16" for s' :: "'a utask_scheme"
    using same_tasks_nth [OF same_tasks_enqueue, of j s' i] assms(3) that by simp
  from this [of "set_task i f (set_task i g s)" for f g] assms show ?thesis
    by (auto simp: tick_slot_def Let_def nth_set_task user_task_request_schedule_def)
qed

lemma tick_slot_self:
  assumes "i < 16" "length (g_user_tasks s) = 16"
  shows "ut_state (task (tick_slot now pid i s) i)
    = (if sleep_over now (task s i) then if ut_pid (task s i) = pid then RUNNING else RUNNABLE else ut_state (task s i))"
proof -
  have "ut_state (task (user_task_runq_enqueue i s') i) = ut_state (task s' i)" if "length (g_user_tasks s') = 16" for s' :: "'a utask_scheme"
    using same_taskD(4) [OF same_tasks_nth [OF same_tasks_enqueue, of i s' i]] assms(1) that by simp
  from this [of "set_task i f (set_task i g s)" for f g] assms show ?thesis
    by (auto simp: tick_slot_def Let_def nth_set_task user_task_request_schedule_def sleep_over_def)
qed

lemma tick_slot_length: "length (g_user_tasks (tick_slot now pid i s)) = length (g_user_tasks s)"
  by (simp add: tick_slot_def Let_def user_task_request_schedule_def)

lemma same_task_sleep: "same_task t u \<Longrightarrow> sleep_over now u = sleep_over now t"
  using same_taskD [of t u] by (simp add: sleep_over_def)

lemma tick_loop:
  assumes "n \<le> 16" "length (g_user_tasks s) = 16"
  shows "length (g_user_tasks (fold (tick_slot now pid) [0..<n] s)) = 16
    \<and> (\<forall>j < 16. j < n \<longrightarrow> ut_state (task (fold (tick_slot now pid) [0..<n] s) j)
        = (if sleep_over now (task s j) then if ut_pid (task s j) = pid then RUNNING else RUNNABLE else ut_state (task s j)))
    \<and> (\<forall>j < 16. n \<le> j \<longrightarrow> same_task (task s j) (task (fold (tick_slot now pid) [0..<n] s) j))"
  using assms(1)
proof (induction n)
  case 0
  then show ?case using assms(2) by simp
next
  case (Suc n)
  let ?s = "fold (tick_slot now pid) [0..<n] s"
  have IH: "length (g_user_tasks ?s) = 16" "same_task (task s n) (task ?s n)" using Suc by auto
  have self: "ut_state (task (tick_slot now pid n ?s) n)
      = (if sleep_over now (task s n) then if ut_pid (task s n) = pid then RUNNING else RUNNABLE else ut_state (task s n))"
    using tick_slot_self [of n ?s now pid] IH Suc.prems same_task_sleep [OF IH(2)] same_taskD [OF IH(2)] by simp
  have other: "same_task (task ?s j) (task (tick_slot now pid n ?s) j)" if "j \<noteq> n" "j < 16" for j
    using tick_slot_other [of n j ?s now pid] that IH(1) Suc.prems by simp
  show ?case
    using Suc IH(1) self other same_taskD(4) [OF other] same_task_trans [OF _ other] tick_slot_length [of now pid n ?s]
    by (auto simp: less_Suc_eq)
qed

section \<open>The next task\<close>

lemma set_tasks_same:
  assumes "length (g_user_tasks s) = 16" "same_tasks s s'" "i < 16"
  shows "ut_state (task s' i) = ut_state (task s i)" "ut_pid (task s' i) = ut_pid (task s i)" "ut_used (task s' i) = ut_used (task s i)"
  using same_taskD [OF same_tasks_nth [OF assms(2)]] assms(1,3) by simp_all

text \<open>Launching slot \<open>i\<close> leaves the state of the other slots; in ring 3, \<open>i\<close> is the running process.\<close>

lemma launch_states:
  assumes run: "user_task_launch_slot env i s = Some (r, s')" and i: "i < 16" "length (g_user_tasks s) = 16" "ut_image (task s i) \<noteq> None"
  shows "length (g_user_tasks s') = 16" "j < 16 \<Longrightarrow> j \<noteq> i \<Longrightarrow> ut_state (task s' j) = ut_state (task s j)"
    "r = Ring3 \<Longrightarrow> ut_state (task s' i) = RUNNING \<and> g_user_task_running_pid s' = ut_pid (task s' i)"
proof -
  obtain im where im: "ut_image (task s i) = Some im" using i(3) by blast
  define s1 where "s1 = launch_prepare i s"
  have same: "same_tasks s (user_task_runq_remove i s)" by (rule same_tasks_remove)
  note l = same_tasks_length [OF same, unfolded i(2)]
  have s1: "length (g_user_tasks s1) = 16" "ut_state (task s1 i) = RUNNING" "g_user_task_pending_pid s1 = ut_pid (task s1 i)"
      "g_user_task_active_slot s1 = Some i"
    using i(1) l by (simp_all add: s1_def launch_prepare_def Let_def user_task_apply_stdio_state_def nth_set_task)
  have s1_other: "ut_state (task s1 j) = ut_state (task s j)" if "j < 16" "j \<noteq> i" for j
    using i(1) l that set_tasks_same(1) [OF i(2) same that(1)]
    by (simp add: s1_def launch_prepare_def Let_def user_task_apply_stdio_state_def nth_set_task)
  obtain x where x: "user_elf_run_argv env (im_drive im) (im_path im) (map Some (im_argv im)) [] s1 = Some x"
    using run im by (auto simp: user_task_launch_slot_def launch_prepare_def s1_def Let_def split: option.splits)
  note c = run_argv_core [OF x]
  have "length (g_user_tasks s') = 16 \<and> (\<forall>j < 16. j \<noteq> i \<longrightarrow> ut_state (task s' j) = ut_state (task s j))
    \<and> (r = Ring3 \<longrightarrow> ut_state (task s' i) = RUNNING \<and> g_user_task_running_pid s' = ut_pid (task s' i))"
  proof (cases "fst x")
    case Ring3
    then obtain entry esp s2 where s2: "core s2 = core s1" "snd x = enter_ring3 env entry esp s2" using c by auto
    have s': "s' = enter_ring3 env entry esp s2"
      using run im x Ring3 s2(2) by (cases x; auto simp: user_task_launch_slot_def launch_prepare_def s1_def Let_def)
    have len: "length (g_user_tasks s2) = 16" using core_task(1) [OF s2(1)] s1(1) by simp
    have t: "ut_state (task s2 j) = ut_state (task s1 j)" "ut_pid (task s2 j) = ut_pid (task s1 j)" if "j < 16" for j
      using no_runtimeD(5,6) [OF core_task(2) [OF s2(1)]] s1(1) that by simp_all
    have a: "g_user_task_active_slot s2 = Some i" "g_user_task_pending_pid s2 = g_user_task_pending_pid s1"
      using s2(1) s1(4) by (simp_all add: core_def)
    have "length (g_user_tasks s') = 16 \<and> (\<forall>j < 16. ut_state (task s' j) = ut_state (task s2 j) \<and> ut_pid (task s' j) = ut_pid (task s2 j))"
      unfolding s' by (rule enter_ring3_cases [of env entry esp s2]) (use len a i(1) in \<open>auto simp: Let_def nth_set_task\<close>)
    then show ?thesis using t a s1 s1_other i(1) by (simp add: s' enter_ring3_fields)
  next
    case (Back rc)
    define s2 where "s2 = snd x"
    have s2: "core s2 = core s1" using c Back by (simp add: s2_def)
    have len: "length (g_user_tasks s2) = 16" using core_task(1) [OF s2] s1(1) by simp
    have t: "ut_state (task s2 j) = ut_state (task s1 j)" if "j < 16" for j
      using no_runtimeD(6) [OF core_task(2) [OF s2]] s1(1) that by simp
    define s3 where "s3 = (let s = s2\<lparr>g_user_task_active_slot := None\<rparr>;
                     s = (if g_user_task_pending_pid s = ut_pid (task s i) then s\<lparr>g_user_task_pending_pid := 0\<rparr> else s)
                 in (if g_user_task_running_pid s = ut_pid (task s i) then s\<lparr>g_user_task_running_pid := 0\<rparr> else s))"
    have s': "r = Back rc" "s' = set_task i (\<lambda>t. t\<lparr>ut_state := ZOMBIE, ut_status := (if rc = 0 then 0 else -1)\<rparr>) s3"
      using run im x Back by (cases x; auto simp: user_task_launch_slot_def launch_prepare_def s1_def s2_def s3_def Let_def)+
    have "g_user_tasks s3 = g_user_tasks s2" by (simp add: s3_def Let_def)
    then show ?thesis using len t s1_other i(1) by (simp add: s' nth_set_task)
  qed
  then show "length (g_user_tasks s') = 16" "j < 16 \<Longrightarrow> j \<noteq> i \<Longrightarrow> ut_state (task s' j) = ut_state (task s j)"
    "r = Ring3 \<Longrightarrow> ut_state (task s' i) = RUNNING \<and> g_user_task_running_pid s' = ut_pid (task s' i)" by blast+
qed

text \<open>A running slot stays running while others are launched, and another one takes the processor.\<close>

definition stranded :: "nat \<Rightarrow> bool \<Rightarrow> 'a utask_scheme \<Rightarrow> bool" where
  "stranded c entered s \<longleftrightarrow> length (g_user_tasks s) = 16 \<and> ut_state (task s c) = RUNNING
     \<and> (entered \<longrightarrow> (\<exists>i < 16. i \<noteq> c \<and> ut_state (task s i) = RUNNING \<and> g_user_task_running_pid s = ut_pid (task s i)))"

lemma stranded_same: "same_tasks s s' \<Longrightarrow> c < 16 \<Longrightarrow> stranded c False s \<Longrightarrow> stranded c False s'"
  using same_tasks_length [of s s'] set_tasks_same(1) [of s s' c] by (simp add: stranded_def)

lemma schedule_stranded:
  assumes "schedule_loop env s = Some x" "user_ok s" "stranded c False s" "c < 16"
  shows "stranded c (fst x = Ring3) (snd x)"
proof (rule schedule_loop.raw_induct [where P = "\<lambda>env s x. user_ok s \<longrightarrow> stranded c False s \<longrightarrow> stranded c (fst x = Ring3) (snd x)",
      OF _ assms(1), rule_format, OF _ assms(2,3)], goal_cases)
  case (1 loop env s x)
  obtain io s1 where pop: "user_task_runq_pop_highest s = (io, s1)" by (metis surj_pair)
  have st: "stranded c False s1" using stranded_same [OF same_tasks_pop_highest [of s] assms(4) 1(4)] pop by simp
  show ?case
  proof (cases io)
    case None
    then show ?thesis using 1(2) pop st by auto
  next
    case (Some i)
    have p: "i < 16" "task_inv {i} s1" "\<not> ut_in_runq (task s1 i)" "images_ok s1" "frames s1 = frames s"
      using pop_ok [OF 1(3)] pop Some by auto
    show ?thesis
    proof (cases "runnable (task s1 i)")
      case False
      then have "loop env s1 = Some x" using 1(2) unfolding pop Some runnable_def by simp
      moreover have "task_inv {} s1" using task_inv_unqueue [of i "{}" s1] p False by simp
      then have "user_ok s1" using p(4) by (simp add: user_ok_def)
      ultimately show ?thesis using 1(1) st by blast
    next
      case True
      define s2 where "s2 = (if ut_mlfq_slice_left (task s1 i) = 0
                     then set_task i (\<lambda>t. t\<lparr>ut_mlfq_slice_left := user_task_level_quantum_ticks (ucast (ut_mlfq_level t)) s1\<rparr>) s1 else s1)"
      have t: "(\<not> ut_used (task s1 i) \<or> ut_state (task s1 i) \<noteq> RUNNABLE) = False" using True by (simp add: runnable_def)
      have e: "(case user_task_launch_slot env i s2 of None \<Rightarrow> None
                | Some (Ring3, s) \<Rightarrow> Some (Ring3, s)
                | Some (Back rc, s) \<Rightarrow> Some (Back True, s)) = Some x"
        using 1(2) unfolding pop Some prod.case option.case t if_False Let_def s2_def .
      have len: "length (g_user_tasks s1) = 16" using p(2) by (rule task_inv_length)
      have "task s1 i \<in> set (g_user_tasks s1)" using len p(1) by simp
      then have im: "ut_image (task s1 i) \<noteq> None" using p(4) True by (auto simp: images_ok_def runnable_def)
      have s2: "length (g_user_tasks s2) = 16" "ut_image (task s2 i) \<noteq> None" "ut_state (task s2 j) = ut_state (task s1 j)" for j
        using len p(1) im by (auto simp: s2_def nth_set_task)
      have ci: "c \<noteq> i" using st True by (auto simp: stranded_def runnable_def)
      obtain y where y: "user_task_launch_slot env i s2 = Some y" using e by (cases "user_task_launch_slot env i s2") simp_all
      obtain a b where ab: "y = (a, b)" by (cases y)
      have x: "x = ((case a of Ring3 \<Rightarrow> Ring3 | Back rc \<Rightarrow> Back True), b)"
        using e unfolding y ab by (cases a) simp_all
      note l = launch_states [OF y [unfolded ab] p(1) s2(1,2)]
      have "stranded c (a = Ring3) b" using l(1) l(2) [OF assms(4) ci] l(3) s2(3) st p(1) ci by (auto simp: stranded_def)
      then show ?thesis unfolding x by (cases a) simp_all
    qed
  qed
qed

lemma continue_stranded:
  assumes "user_task_continue_or_schedule env s = Some x" "user_ok s" "stranded c False s" "c < 16"
  shows "stranded c (fst x = Ring3) (snd x)"
proof (rule schedule_stranded [OF assms(1) [unfolded user_task_continue_or_schedule_def] _ _ assms(4)])
  have f: "frames (user_task_mlfq_boost_if_due (user_task_runq_bootstrap s)) = frames s" by (simp add: frames_simps)
  show "user_ok (user_task_mlfq_boost_if_due (user_task_runq_bootstrap s))"
    using assms(2) frames_cong(1) [OF f] by (simp add: user_ok_def task_inv_boost task_inv_bootstrap(1))
  show "stranded c False (user_task_mlfq_boost_if_due (user_task_runq_bootstrap s))"
    by (rule stranded_same [OF same_tasks_trans [OF same_tasks_bootstrap same_tasks_boost] assms(4,3)])
qed

lemma waitpid_nohang_loop:
  assumes "waitpid_loop env idle pid True i s = Some (Ring3, s')" "user_ok s" "stranded c False s" "c < 16"
  shows "user_ok s' \<and> stranded c True s'"
proof -
  have "user_ok (snd x) \<and> stranded c True (snd x)" if h: "waitpid_loop env idle pid True i s = Some x" and r: "fst x = Ring3" for x
  proof (rule waitpid_loop.raw_induct [where P = "\<lambda>env idl pid nohang i s x. nohang \<longrightarrow> user_ok s \<longrightarrow> stranded c False s \<longrightarrow>
      fst x = Ring3 \<longrightarrow> user_ok (snd x) \<and> stranded c True (snd x)", OF _ h, rule_format, OF _ TrueI assms(2,3) r], goal_cases)
    case (1 loop env idl pid nohang i s x)
    have nz: "ut_state (task s i) \<noteq> ZOMBIE" using 1(2) 1(6) by (auto simp: Let_def)
    then obtain y where y: "user_task_continue_or_schedule env s = Some y"
      using 1(2) by (cases "user_task_continue_or_schedule env s") auto
    obtain r s1 where rs: "y = (r, s1)" by (cases y)
    have ok: "user_ok s1" "stranded c (r = Ring3) s1"
      using after_user_ok [OF continue_ok [OF y 1(4)]] continue_stranded [OF y 1(4) 1(5) assms(4)] rs by simp_all
    show ?case
    proof (cases r)
      case Ring3
      then have "x = (Ring3, s1)" using 1(2) nz y rs by auto
      then show ?thesis using ok Ring3 by simp
    next
      case (Back b)
      then have b: "b" "(case user_task_find_slot_by_pid pid s1 of None \<Rightarrow> Some (Back (-1, None), s1)
             | Some i \<Rightarrow> loop env idl pid nohang i s1) = Some x"
        using 1(2) 1(3) 1(6) nz y rs by (auto split: if_splits)
      then obtain j where "loop env idl pid nohang j s1 = Some x" using 1(6) by (auto split: option.splits)
      from 1(1) [OF this] show ?thesis using 1(3) 1(6) ok Back by simp
    qed
  qed
  from this [OF assms(1)] show ?thesis by simp
qed

section \<open>A concrete machine\<close>

text \<open>A kernel that gives the same answer to every call, and keeps nothing.\<close>

definition plain_env :: "(kcall \<Rightarrow> u32) \<Rightarrow> bytes \<Rightarrow> unit elf_env" where
  "plain_env answer program = \<lparr>ee_kern = (\<lambda>c m. (answer c, m)), ee_stat = (\<lambda>_ _ _. if program = [] then None else Some (True, int (length program))),
     ee_read = (\<lambda>_ _ _ m. (Some program, m)), ee_beyond = (\<lambda>_. 0)\<rparr>"

definition empty_slot :: user_task_slot where
  "empty_slot = (fresh_slot \<lparr>im_ptr = 0, im_drive = 0, im_path = [], im_path_ptr = 0, im_argv = [], im_arg_ptrs = []\<rparr> 0 0 0 0 False (0, 0, 0))
     \<lparr>ut_used := False, ut_state := UNUSED, ut_image := None\<rparr>"

definition utask_boot :: "unit utask_scheme" where
  "utask_boot = \<lparr>g_work = g_work sched_boot, g_current_slice = g_current_slice sched_boot, g_det_enabled = g_det_enabled sched_boot, yield_polls =
     yield_polls sched_boot, g_ctx_stack = g_ctx_stack sched_boot, g_ctx_top = g_ctx_top sched_boot, current_command_context =
     current_command_context sched_boot, g_runq = g_runq sched_boot, g_sched_work_inflight = g_sched_work_inflight sched_boot,
     g_ready_bitmap = g_ready_bitmap sched_boot, g_mlfq_quantum_ms = g_mlfq_quantum_ms sched_boot, g_mlfq_quantum_ticks =
     g_mlfq_quantum_ticks sched_boot, g_mlfq_boost_interval_ticks = g_mlfq_boost_interval_ticks sched_boot,
     g_mlfq_last_global_boost_tick = g_mlfq_last_global_boost_tick sched_boot, g_mlfq_work_runs = g_mlfq_work_runs sched_boot,
     g_mlfq_work_demotions = g_mlfq_work_demotions sched_boot, g_mlfq_work_boosts = g_mlfq_work_boosts sched_boot, g_ticks = g_ticks
     sched_boot, g_tick_hz = g_tick_hz sched_boot, g_timeslice_ticks = g_timeslice_ticks sched_boot, g_idle_hlt_count =
     g_idle_hlt_count sched_boot, g_det_queue = g_det_queue sched_boot, g_det_head = g_det_head sched_boot, g_det_tail = g_det_tail
     sched_boot, g_det_processing = g_det_processing sched_boot,
     g_user_tasks = replicate 16 empty_slot, g_user_task_active_slot = None, g_user_task_next_pid = 1, g_user_task_pending_pid = 0,
     g_user_task_running_pid = 0, g_user_task_schedule_request = False, g_user_task_runtime_generation = 1, g_user_task_runq = [],
     g_user_task_runq_initialized = False, g_user_task_last_boost_tick = 0, g_user_task_active = False, g_user_task_term = -1,
     g_user_interrupt = False, g_user_fd_inherit_mode = False, g_user_stdio = (0, 1, 2),
     g_user_runtime = \<lparr>code_base = 0, code_pages = 0, stack_page = 0\<rparr>, g_user_segdom = (0x1B, 0x23), as_stack_bottom = 0\<rparr>"

lemma user_boot_utask_boot: "user_boot utask_boot"
  by (simp add: user_boot_def utask_boot_def empty_slot_def fresh_slot_def)

text \<open>A first task is spawned while a program is active, so it is queued.\<close>

definition spawn_boot :: "unit utask_scheme" where
  "spawn_boot = utask_boot\<lparr>g_user_task_active := True\<rparr>"

definition spawned :: "unit utask_scheme" where
  "spawned = snd (the (user_task_spawn_argv (plain_env (\<lambda>_. 64) []) 0 [0x61] [] spawn_boot))"

lemma spawn_boot_result: "user_task_spawn_argv (plain_env (\<lambda>_. 64) []) 0 [0x61] [] spawn_boot = Some (Back 1, spawned)"
proof -
  have "map_option fst (user_task_spawn_argv (plain_env (\<lambda>_. 64) []) 0 [0x61] [] spawn_boot) = Some (Back 1)" by code_simp
  then show ?thesis unfolding spawned_def by auto
qed

lemma spawned_steps: "user_steps (plain_env (\<lambda>_. 64) []) 1 spawn_boot spawned"
  using user_steps.Suc [OF user_steps.zero user_step.spawn [OF spawn_boot_result]] by simp

lemma user_boot_spawn_boot: "user_boot spawn_boot"
  using user_boot_utask_boot by (simp add: user_boot_def spawn_boot_def)

text \<open>Two tasks that are ready, in the slots 0 and 1.\<close>

definition ready_slot :: "int \<Rightarrow> user_task_slot" where
  "ready_slot pid = fresh_slot \<lparr>im_ptr = 0, im_drive = 0, im_path = [0x61], im_path_ptr = 0, im_argv = [], im_arg_ptrs = []\<rparr> pid 0 0 50 False (0, 1, 2)"

definition two_tasks :: "unit utask_scheme" where
  "two_tasks = user_task_runq_enqueue 1 (user_task_runq_enqueue 0 (user_task_runq_bootstrap
     (utask_boot\<lparr>g_user_tasks := [ready_slot 1, ready_slot 2] @ replicate 14 empty_slot, g_mlfq_boost_interval_ticks := 1000\<rparr>)))"

text \<open>A program of one page that does nothing, and a kernel that has memory for it.\<close>

definition tiny_elf :: bytes where
  "tiny_elf = [0x7F, 0x45, 0x4C, 0x46, 1, 1, 1, 0, 0, 0, 0, 0, 0, 0, 0, 0,
     2, 0, 3, 0, 1, 0, 0, 0, 0, 0, 0x40, 0, 52, 0, 0, 0, 0, 0, 0, 0, 0, 0, 0, 0, 52, 0, 32, 0, 1, 0, 0, 0, 0, 0, 0, 0,
     1, 0, 0, 0, 0, 0, 0, 0, 0, 0, 0x40, 0, 0, 0, 0, 0, 4, 0, 0, 0, 0, 0x10, 0, 0, 5, 0, 0, 0, 0, 0x10, 0, 0]"

definition tiny_env :: "unit elf_env" where
  "tiny_env = plain_env (\<lambda>c. case c of Malloc n \<Rightarrow> 64 | Frame_alloc \<Rightarrow> 0x1000 | Walk_demand va \<Rightarrow> 64 | _ \<Rightarrow> 0) tiny_elf"

abbreviation "tiny_byte \<equiv> elf_byte (\<lambda>_. 0) tiny_elf"

lemma tiny_facts:
  "elf_header_ok tiny_byte 84" "elf_interp tiny_byte 84 = []" "length tiny_elf = 84" "e_entry tiny_byte = 0x400000"
  "elf_phdrs tiny_byte = [\<lparr>p_type = 1, p_offset = 0, p_vaddr = 0x400000, p_filesz = 4, p_memsz = 0x1000\<rparr>]"
  "elf_range [\<lparr>p_type = 1, p_offset = 0, p_vaddr = 0x400000, p_filesz = 4, p_memsz = 0x1000\<rparr>] = Some (0x400000, 1)"
  by code_simp+

lemma tiny_call: "call (ee_kern tiny_env) c s = ((case c of Malloc n \<Rightarrow> 64 | Frame_alloc \<Rightarrow> 0x1000 | Walk_demand va \<Rightarrow> 64 | _ \<Rightarrow> 0), s)"
  by (simp add: call_def tiny_env_def plain_env_def)

lemma tiny_do_call: "do_call (ee_kern tiny_env) c s = s" by (simp add: do_call_def tiny_call)

lemma tiny_demand: "map_demand tiny_env vas s = (True, s)" by (induction vas) (simp_all add: tiny_call)

lemma tiny_fresh: "map_fresh tiny_env vas s = (True, s)" by (induction vas) (simp_all add: tiny_call tiny_do_call)

lemma tiny_stack: "\<exists>esp ws. user_stack_build_argv 0xBFFFFFF0 user_stack_page_base [0x61] [] [] = (Some esp, ws)"
proof -
  have "fst (user_stack_build_argv 0xBFFFFFF0 user_stack_page_base [0x61] [] []) \<noteq> None" by code_simp
  then show ?thesis by (auto simp: prod_eq_iff)
qed

lemma tiny_load: "fst (load_image tiny_env tiny_byte 84 p [0x61] [] [] s) = Ring3"
proof -
  obtain esp ws where st: "user_stack_build_argv 0xBFFFFFF0 user_stack_page_base [0x61] [] [] = (Some esp, ws)" using tiny_stack by blast
  show ?thesis by (simp add: load_image_def Let_def tiny_facts tiny_demand tiny_fresh tiny_do_call st split: prod.split)
qed

lemma allow_without_context: "current_command_context s = None \<Longrightarrow> user_elf_ctx_allow caps cost s = (True, s)"
  by (cases s) (simp add: user_elf_ctx_allow_def ctx_allow_def ctx_denies_def ctx_account_def kctx.defs)

lemma tiny_file: "ee_stat tiny_env drive p m = Some (True, 84)" "ee_read tiny_env drive p k m = (Some tiny_elf, m)"
  by (simp_all add: tiny_env_def plain_env_def tiny_elf_def)

lemma tiny_read: "current_command_context s = None \<Longrightarrow> elf_read_file tiny_env drive p s = (Some (64, tiny_elf), s)"
  by (simp add: elf_read_file_def allow_without_context tiny_call tiny_file)

lemma tiny_run:
  assumes "current_command_context s = None"
  shows "\<exists>s'. user_elf_run_argv tiny_env drive [0x61] [] [] s = Some (Ring3, s')"
proof -
  have "ee_beyond tiny_env = (\<lambda>_. 0)" by (simp add: tiny_env_def plain_env_def)
  then show ?thesis using tiny_load [of 64 s] by (subst user_elf_run_argv.simps) (auto simp: tiny_facts tiny_read [OF assms] prod_eq_iff)
qed

lemma kctx_set_task [simp]: "current_command_context (set_task i f s) = current_command_context s" by (simp add: set_task_def)

lemma kctx_remove_levels: "current_command_context (remove_levels n l i s) = current_command_context s"
  by (induction n l i s rule: remove_levels.induct) (simp_all add: Let_def split: option.split)

lemma kctx_remove [simp]: "current_command_context (user_task_runq_remove i s) = current_command_context s"
  by (simp add: user_task_runq_remove_def kctx_remove_levels user_task_runq_bootstrap_def)

lemma tiny_launch:
  assumes "current_command_context s = None" "ut_image (task s i) = Some im" "im_path im = [0x61]" "im_argv im = []"
  shows "\<exists>s'. user_task_launch_slot tiny_env i s = Some (Ring3, s')"
proof -
  have *: "\<exists>s'. (case user_elf_run_argv tiny_env d [0x61] (map Some []) [] t of None \<Rightarrow> None | Some (Ring3, s) \<Rightarrow> Some (Ring3, s)
      | Some (Back rc, s) \<Rightarrow> g rc s) = Some (Ring3, s')" if "current_command_context t = None" for d t g
    using tiny_run [OF that, of d] by auto
  show ?thesis unfolding user_task_launch_slot_def Let_def assms(2,3,4) option.case
    by (rule *) (simp add: user_task_apply_stdio_state_def assms(1))
qed

lemma tiny_schedule:
  assumes "user_task_runq_pop_highest (user_task_mlfq_boost_if_due (user_task_runq_bootstrap s)) = (Some i, s1)"
    "current_command_context s1 = None" "ut_image (task s1 i) = Some im" "im_path im = [0x61]" "im_argv im = []" "runnable (task s1 i)"
    "ut_mlfq_slice_left (task s1 i) \<noteq> 0"
  shows "\<exists>s'. user_task_continue_or_schedule tiny_env s = Some (Ring3, s')"
proof -
  obtain s' where "user_task_launch_slot tiny_env i s1 = Some (Ring3, s')" using tiny_launch [OF assms(2-5)] ..
  then show ?thesis using assms unfolding user_task_continue_or_schedule_def 
    by (subst schedule_loop.simps) (simp add: runnable_def Let_def)
qed

text \<open>A process in the slot 0 that runs, and its child in the slot 1 that is ready.\<close>

definition nohang_base :: "unit utask_scheme" where
  "nohang_base = utask_boot\<lparr>g_user_tasks := [(ready_slot 1)\<lparr>ut_state := RUNNING\<rparr>, ready_slot 2] @ replicate 14 empty_slot,
     g_user_task_running_pid := 1, g_user_task_active := True, g_mlfq_boost_interval_ticks := 1000\<rparr>"

definition nohang_boot :: "unit utask_scheme" where
  "nohang_boot = user_task_runq_enqueue 1 nohang_base"

lemma nohang_ok: "user_ok nohang_boot"
proof -
  have tasks: "g_user_tasks nohang_base = [(ready_slot 1)\<lparr>ut_state := RUNNING\<rparr>, ready_slot 2] @ replicate 14 empty_slot"
    "\<not> g_user_task_runq_initialized nohang_base" by (simp_all add: nohang_base_def utask_boot_def)
  have "\<not> ut_in_runq (task nohang_base j) \<and> (j = 1 \<or> \<not> runnable (task nohang_base j))" if "j < 16" for j
    using that by (auto simp: tasks nth_append runnable_def ready_slot_def fresh_slot_def empty_slot_def nth_Cons split: nat.split)
  then have "task_inv (insert 1 {}) nohang_base" using tasks by (auto simp: task_inv_def)
  moreover have "list_all (\<lambda>t. ut_used t \<longrightarrow> ut_image t \<noteq> None) (g_user_tasks nohang_boot)" by code_simp
  moreover have "\<not> ut_in_runq (task nohang_base 1)" by (simp add: tasks ready_slot_def fresh_slot_def)
  ultimately show ?thesis unfolding user_ok_def images_ok_def nohang_boot_def using task_inv_enqueue [of 1 "{}" nohang_base]
    by (simp add: list_all_iff)
qed

lemma nohang_launch: "\<exists>s'. user_task_waitpid tiny_env id 2 True nohang_boot = Some (Ring3, s')"
proof -
  let ?p = "user_task_runq_pop_highest (user_task_mlfq_boost_if_due (user_task_runq_bootstrap nohang_boot))"
  have "fst ?p = Some 1" "current_command_context (snd ?p) = None" "map_option im_path (ut_image (task (snd ?p) 1)) = Some [0x61]"
    "map_option im_argv (ut_image (task (snd ?p) 1)) = Some []" "runnable (task (snd ?p) 1)"
    "ut_mlfq_slice_left (task (snd ?p) 1) \<noteq> 0"
    by code_simp+
  then obtain s' where s': "user_task_continue_or_schedule tiny_env nohang_boot = Some (Ring3, s')"
    using tiny_schedule [of nohang_boot 1 "snd ?p"] by (auto simp: prod_eq_iff)
  have "user_task_find_slot_by_pid 2 nohang_boot = Some 1" "ut_state (task nohang_boot 1) \<noteq> ZOMBIE" by code_simp+
  then show ?thesis by (subst user_task_waitpid_def, simp, subst waitpid_loop.simps) (simp add: s')
qed

definition nohang_end :: "unit utask_scheme" where
  "nohang_end = snd (the (user_task_waitpid tiny_env id 2 True nohang_boot))"

definition exec_end :: "unit utask_scheme" where
  "exec_end = snd (the (user_elf_run_argv tiny_env 0 [0x61] [] [] utask_boot))"

lemma exec_runs: "user_elf_run_argv tiny_env 0 [0x61] [] [] utask_boot = Some (Ring3, exec_end)"
proof -
  have "current_command_context utask_boot = None" by code_simp
  then show ?thesis using tiny_run [of utask_boot 0] unfolding exec_end_def by auto
qed

lemma two_tasks_queues: "task_queues two_tasks (\<lambda>p. if p = 2 then [0, 1] else [])"
proof -
  let ?s = "utask_boot\<lparr>g_user_tasks := [ready_slot 1, ready_slot 2] @ replicate 14 empty_slot, g_mlfq_boost_interval_ticks := 1000\<rparr>"
  let ?b = "user_task_runq_bootstrap ?s"
  have f: "length (g_user_tasks ?s) = 16" "\<not> g_user_task_runq_initialized ?s" "runnable (task ?b 0)" "runnable (task (user_task_runq_enqueue 0 ?b) 1)"
    "task_level (task ?b 0) = 2" "task_level (task (user_task_runq_enqueue 0 ?b) 1) = 2" by code_simp+
  have "task_queues ?b (\<lambda>_. [])" by (rule bootstrap_empty [OF f(2,1)])
  from task_enqueue_new [OF this, of 0] f have q: "task_queues (user_task_runq_enqueue 0 ?b) ((\<lambda>_. [])(2 := [0]))" by simp
  have "1 \<notin> set (((\<lambda>_. [])(2 := [0::nat])) p)" for p :: nat by simp
  from task_enqueue_new [OF q _ this f(4), unfolded f(6)] show ?thesis
    unfolding two_tasks_def by (simp add: fun_upd_def cong: if_cong)
qed

section \<open>Properties\<close>

text \<open>The lists of the three queues; before the queues are set up they are empty.\<close>

definition queues_hold :: "'a utask_scheme \<Rightarrow> (nat \<Rightarrow> nat list) \<Rightarrow> bool" where
  "queues_hold s q = (if g_user_task_runq_initialized s then task_queues s q else q = (\<lambda>_. []))"

text \<open>C3. In every state that spawning, running, blocking, waking, signals, exit, waiting and interrupts
  reach (fewer than 2^32 - 2 operations, so that the generation counter does not wrap), the run queues
  hold exactly the runnable tasks: a slot is used and runnable if and only if it is in one of the three
  queues, and then in exactly one; no runnable task is lost, and no sleeping, waiting or dead task is
  queued.\<close>

theorem user_tasks_invariant:
  assumes "user_boot s0" "user_steps env n s0 s" "n < 2 ^ 32 - 2"
  shows "\<exists>q. queues_hold s q
    \<and> map (\<lambda>t. ut_used t \<and> ut_state t = RUNNABLE) (g_user_tasks s) = map (\<lambda>i. \<exists>!p. i \<in> set (q p)) [0..<16]"
proof -
  have inv: "task_inv {} s" using steps_ok [OF assms(2,1,3)] by (simp add: settled_tasks_def user_ok_def)
  have run: "ut_in_runq (task s i) = runnable (task s i)" if "i < 16" for i using task_inv_in_runq [OF inv that] by simp
  have len: "length (g_user_tasks s) = 16" using inv by (rule task_inv_length)
  show ?thesis
  proof (cases "g_user_task_runq_initialized s")
    case True
    then obtain q where q: "task_queues s q" using inv by (auto simp: task_inv_def)
    have "ut_in_runq (task s i) = (\<exists>!p. i \<in> set (q p))" if "i < 16" for i
      unfolding task_queues_in_runq [OF q that] using q unfolding task_queues_def queues_ok_def by blast
    then have "queues_hold s q
        \<and> map (\<lambda>t. ut_used t \<and> ut_state t = RUNNABLE) (g_user_tasks s) = map (\<lambda>i. \<exists>!p. i \<in> set (q p)) [0..<16]"
      using q run len True by (auto simp: runnable_def queues_hold_def intro!: nth_equalityI simp del: upt_rec_numeral)
    then show ?thesis by blast
  next
    case False
    then have "\<not> ut_in_runq (task s i)" if "i < 16" for i using inv that by (simp add: task_inv_def)
    then show ?thesis using run False len
      by (intro exI [of _ "\<lambda>_. []"]) (auto simp: runnable_def queues_hold_def intro!: nth_equalityI simp del: upt_rec_numeral)
  qed
qed

theorem user_tasks_invariant_witness:
  "\<exists>q. queues_hold spawned q
    \<and> map (\<lambda>t. ut_used t \<and> ut_state t = RUNNABLE) (g_user_tasks spawned) = map (\<lambda>i. \<exists>!p. i \<in> set (q p)) [0..<16]"
  by (rule user_tasks_invariant [OF user_boot_spawn_boot spawned_steps]) simp

text \<open>C19. The switch to another task at the end of a system call never happens. Every program start gives
  a new generation, a frame may be resumed in its own generation only, and only the process that was
  started last runs in it; so in every reachable state user_task_try_resume_from_syscall finds no task to
  resume and returns to the caller.\<close>

theorem user_tasks_never_switch:
  assumes "user_boot s0" "user_steps env n s0 s" "n < 2 ^ 32 - 2"
  shows "fst (user_task_try_resume_from_syscall env regs s) = None"
  using steps_ok [OF assms(2,1,3)] resume_never(1) by (auto simp: settled_tasks_def)

theorem user_tasks_never_switch_witness:
  "fst (user_task_try_resume_from_syscall (plain_env (\<lambda>_. 64) []) zero_regs spawned) = None"
  by (rule user_tasks_never_switch [OF user_boot_spawn_boot spawned_steps]) simp

text \<open>C20. Without a boost, the scheduler launches the first task of the highest level that has a task, and
  the tasks behind it keep their order.\<close>

theorem schedule_highest_first:
  assumes q: "task_queues s q" "run_order q = i # is" and run: "runnable (task s i)" and slice: "ut_mlfq_slice_left (task s i) \<noteq> 0"
    and calm: "g_ticks s - g_user_task_last_boost_tick s < g_mlfq_boost_interval_ticks s"
  shows "\<exists>s1 q'. task_queues s1 q' \<and> run_order q' = is \<and> user_task_continue_or_schedule env s
    = map_option (\<lambda>(r, s'). ((case r of Ring3 \<Rightarrow> Ring3 | Back rc \<Rightarrow> Back True), s')) (user_task_launch_slot env i s1)"
proof -
  have init: "user_task_runq_bootstrap s = s" by (rule bootstrap_idle [OF task_queues_lengths(3) [OF q(1)]])
  have boost: "user_task_mlfq_boost_if_due s = s"
    using calm by (auto simp: user_task_mlfq_boost_if_due_def init Let_def sched_mlfq_boost_interval_ticks_def)
  obtain rq q' where p: "user_task_runq_pop_highest s
          = (Some i, set_task i (\<lambda>t. t\<lparr>ut_runq_next := -1, ut_in_runq := False\<rparr>) (s\<lparr>g_user_task_runq := rq\<rparr>))"
      "task_queues (set_task i (\<lambda>t. t\<lparr>ut_runq_next := -1, ut_in_runq := False\<rparr>) (s\<lparr>g_user_task_runq := rq\<rparr>)) q'" "run_order q' = is"
    using pop_highest_order [OF q(1)] q(2) by auto
  let ?s = "set_task i (\<lambda>t. t\<lparr>ut_runq_next := -1, ut_in_runq := False\<rparr>) (s\<lparr>g_user_task_runq := rq\<rparr>)"
  have "i < 16" using run_order_set [of i q] task_queues_member [OF q(1)] q(2) by auto
  then have i: "task ?s i = (task s i)\<lparr>ut_runq_next := -1, ut_in_runq := False\<rparr>"
    using task_queues_lengths(1) [OF q(1)] by (simp add: nth_set_task)
  have "user_task_continue_or_schedule env s = (case user_task_launch_slot env i ?s of None \<Rightarrow> None
                | Some (Ring3, s) \<Rightarrow> Some (Ring3, s)
                | Some (Back rc, s) \<Rightarrow> Some (Back True, s))"
    unfolding user_task_continue_or_schedule_def init boost
    by (subst schedule_loop.simps) (use run slice in \<open>simp add: p(1) i runnable_def Let_def\<close>)
  also have "\<dots> = map_option (\<lambda>(r, s'). ((case r of Ring3 \<Rightarrow> Ring3 | Back rc \<Rightarrow> Back True), s')) (user_task_launch_slot env i ?s)"
    by (cases "user_task_launch_slot env i ?s") (auto split: control.split)
  finally have "user_task_continue_or_schedule env s = map_option (\<lambda>(r, s'). ((case r of Ring3 \<Rightarrow> Ring3 | Back rc \<Rightarrow> Back True), s')) (user_task_launch_slot env i ?s)" .
  then show ?thesis using p(2,3) by blast
qed

theorem schedule_highest_first_witness:
  "\<exists>s1 q'. task_queues s1 q' \<and> run_order q' = [1] \<and> user_task_continue_or_schedule tiny_env two_tasks
    = map_option (\<lambda>(r, s'). ((case r of Ring3 \<Rightarrow> Ring3 | Back rc \<Rightarrow> Back True), s')) (user_task_launch_slot tiny_env 0 s1)"
  by (rule schedule_highest_first [OF two_tasks_queues]) (simp add: run_order_def, code_simp+)

text \<open>C35. A timer tick wakes exactly the sleepers whose time has come: a slot that sleeps until a tick that
  is not in the future (as a signed difference) becomes runnable, or running if it is the current process;
  every other slot keeps its state.\<close>

theorem tick_wakes_sleepers:
  assumes "length (g_user_tasks s) = 16"
  shows "map ut_state (g_user_tasks (user_task_scheduler_tick s))
    = map (\<lambda>t. if sleep_over (g_ticks s) t then if ut_pid t = g_user_task_running_pid s then RUNNING else RUNNABLE else ut_state t)
        (g_user_tasks s)"
  using tick_loop [of 16 s "g_ticks s" "g_user_task_running_pid s"] assms
  by (intro nth_equalityI) (simp_all add: user_task_scheduler_tick_def del: upt_rec_numeral)

theorem tick_wakes_sleepers_witness:
  "map ut_state (g_user_tasks (user_task_scheduler_tick two_tasks))
    = map (\<lambda>t. if sleep_over (g_ticks two_tasks) t then if ut_pid t = g_user_task_running_pid two_tasks then RUNNING else RUNNABLE else ut_state t)
        (g_user_tasks two_tasks)"
  by (rule tick_wakes_sleepers) code_simp



text \<open>C37. Waiting without blocking strands the caller: if the wait launches another task, the caller is
  still marked as running while the processor belongs to another process, so two tasks are running; the
  caller is in no queue.\<close>

theorem waitpid_nohang_strands:
  assumes "user_task_waitpid env idle pid True s = Some (Ring3, s')" "user_ok s" "c < 16" "ut_state (task s c) = RUNNING"
  shows "ut_state (task s' c) = RUNNING \<and> \<not> ut_in_runq (task s' c)
    \<and> (\<exists>i < 16. i \<noteq> c \<and> ut_state (task s' i) = RUNNING \<and> g_user_task_running_pid s' = ut_pid (task s' i))"
proof -
  have len: "length (g_user_tasks s) = 16" using assms(2) by (auto simp: user_ok_def dest: task_inv_length)
  obtain i where i: "user_task_find_slot_by_pid pid s = Some i" "waitpid_loop env idle pid True i s = Some (Ring3, s')"
    using assms(1) by (auto simp: user_task_waitpid_def split: option.splits)
  have st: "stranded c False s" using len assms(4) by (simp add: stranded_def)
  have "user_ok s' \<and> stranded c True s'" by (rule waitpid_nohang_loop [OF i(2) assms(2) st assms(3)])
  then show ?thesis using task_inv_in_runq [of "{}" s' c] assms(3) by (auto simp: stranded_def user_ok_def runnable_def)
qed

theorem waitpid_nohang_strands_witness:
  "ut_state (task nohang_end 0) = RUNNING \<and> \<not> ut_in_runq (task nohang_end 0)
    \<and> (\<exists>i < 16. i \<noteq> 0 \<and> ut_state (task nohang_end i) = RUNNING \<and> g_user_task_running_pid nohang_end = ut_pid (task nohang_end i))"
proof -
  have "user_task_waitpid tiny_env id 2 True nohang_boot = Some (Ring3, nohang_end)" using nohang_launch by (auto simp: nohang_end_def)
  moreover have "ut_state (task nohang_boot 0) = RUNNING" by code_simp
  ultimately show ?thesis by (intro waitpid_nohang_strands [OF _ nohang_ok, of tiny_env id 2]) auto
qed

end
