(* ===== verification/Caps.thy ===== *)
theory Caps
  imports Ctx
begin

text \<open>
  The capability registry of \<open>src/misc/capabilities.c\<close> (i386 build, so \<open>uintptr\<close> is 32
  bits wide): a table of 64 registered objects, each with an epoch, and tokens whose tag
  mixes the object, its type, the rights and the epoch with a boot-time secret. The time
  stamp counter and the two addresses that seed the secret are arguments of \<open>cap_init\<close>; the
  interrupt masking around the table accesses has no effect on a single processor's state.
\<close>

section \<open>Data\<close>

record cap_entry =
  ce_obj :: u32
  ce_type :: u32
  ce_epoch :: u32
  ce_flags :: u32

record cap_t =
  ct_obj :: u32
  ct_type :: u32
  ct_rights :: u32
  ct_epoch :: u32
  ct_tag_lo :: u32
  ct_tag_hi :: u32

record caps =
  g_cap_registry :: "cap_entry list"
  cap_s0 :: u32
  cap_s1 :: u32

abbreviation (input) CAP_REGISTRY_MAX :: nat where "CAP_REGISTRY_MAX \<equiv> 64"
abbreviation (input) CAP_OBJ_NONE :: u32 where "CAP_OBJ_NONE \<equiv> 0"

section \<open>Operations\<close>

definition cap_fold_ptr :: "u32 \<Rightarrow> u32" where
  "cap_fold_ptr value = value"

definition cap_ptr_to_obj32 :: "u32 \<Rightarrow> u32 option" where
  "cap_ptr_to_obj32 obj = (if obj = 0 then None else Some obj)"

definition cap_mix64 :: "u64 \<Rightarrow> u64" where
  "cap_mix64 x =
     (let x = x XOR drop_bit 33 x;
          x = x * 0xff51afd7ed558ccd;
          x = x XOR drop_bit 33 x;
          x = x * 0xc4ceb9fe1a85ec53;
          x = x XOR drop_bit 33 x
      in x)"

definition cap_make_tag :: "caps \<Rightarrow> u32 \<Rightarrow> u32 \<Rightarrow> u32 \<Rightarrow> u32 \<Rightarrow> u64" where
  "cap_make_tag s obj32 type rights epoch =
     (let x = ucast obj32;
          x = x OR push_bit 32 (ucast type);
          x = x XOR push_bit 16 (ucast rights);
          x = x XOR push_bit 48 (ucast epoch);
          x = x XOR (ucast (cap_s0 s) OR push_bit 32 (ucast (cap_s1 s)))
      in cap_mix64 x)"

definition cap_find_entry :: "u32 \<Rightarrow> u32 \<Rightarrow> caps \<Rightarrow> nat option" where
  "cap_find_entry obj type s =
     first_idx (\<lambda>i. ce_obj (g_cap_registry s ! i) = obj \<and> ce_type (g_cap_registry s ! i) = type)
       CAP_REGISTRY_MAX"

definition cap_init :: "u32 \<Rightarrow> u32 \<Rightarrow> u32 \<Rightarrow> u32 \<Rightarrow> caps \<Rightarrow> caps" where
  "cap_init tsc_lo tsc_hi registry_addr secret_addr s =
     \<lparr>g_cap_registry = replicate CAP_REGISTRY_MAX \<lparr>ce_obj = 0, ce_type = 0, ce_epoch = 0, ce_flags = 0\<rparr>,
      cap_s0 = tsc_lo XOR cap_fold_ptr registry_addr,
      cap_s1 = tsc_hi XOR cap_fold_ptr secret_addr XOR 0x9e3779b9\<rparr>"

definition cap_register_object :: "u32 \<Rightarrow> u32 \<Rightarrow> caps \<Rightarrow> bool \<times> caps" where
  "cap_register_object obj type s =
     (if obj = 0 \<or> type = CAP_OBJ_NONE then (False, s)
      else case cap_ptr_to_obj32 obj of None \<Rightarrow> (False, s)
      | Some _ \<Rightarrow>
        (case cap_find_entry obj type s of Some _ \<Rightarrow> (True, s)
         | None \<Rightarrow>
           (case first_idx (\<lambda>i. ce_obj (g_cap_registry s ! i) = 0) CAP_REGISTRY_MAX of
              None \<Rightarrow> (False, s)
            | Some i \<Rightarrow> (True, s\<lparr>g_cap_registry := (g_cap_registry s)
                  [i := \<lparr>ce_obj = obj, ce_type = type, ce_epoch = 1, ce_flags = 0\<rparr>]\<rparr>))))"

definition cap_revoke_object :: "u32 \<Rightarrow> u32 \<Rightarrow> caps \<Rightarrow> bool \<times> caps" where
  "cap_revoke_object obj type s =
     (if obj = 0 \<or> type = CAP_OBJ_NONE then (False, s)
      else case cap_find_entry obj type s of
        Some i \<Rightarrow> (True, s\<lparr>g_cap_registry := (g_cap_registry s)
             [i := (g_cap_registry s ! i)\<lparr>ce_epoch := ce_epoch (g_cap_registry s ! i) + 1\<rparr>]\<rparr>)
      | None \<Rightarrow> (False, s))"

definition cap_mint :: "u32 \<Rightarrow> u32 \<Rightarrow> u32 \<Rightarrow> caps \<Rightarrow> cap_t option \<times> caps" where
  "cap_mint obj type rights s =
     (if obj = 0 \<or> type = CAP_OBJ_NONE then (None, s)
      else case cap_ptr_to_obj32 obj of None \<Rightarrow> (None, s)
      | Some obj32 \<Rightarrow>
        (case cap_register_object obj type s of
           (False, s) \<Rightarrow> (None, s)
         | (True, s) \<Rightarrow>
           (case cap_find_entry obj type s of None \<Rightarrow> (None, s)
            | Some i \<Rightarrow>
              let epoch = ce_epoch (g_cap_registry s ! i);
                  tag = cap_make_tag s obj32 type rights epoch
              in (Some \<lparr>ct_obj = obj32, ct_type = type, ct_rights = rights, ct_epoch = epoch,
                        ct_tag_lo = ucast (tag AND 0xFFFFFFFF),
                        ct_tag_hi = ucast (drop_bit 32 tag AND 0xFFFFFFFF)\<rparr>, s))))"

definition cap_validate :: "cap_t \<Rightarrow> u32 \<Rightarrow> u32 \<Rightarrow> u32 \<Rightarrow> caps \<Rightarrow> bool" where
  "cap_validate cap obj type required_rights s =
     (if obj = 0 \<or> type = CAP_OBJ_NONE then False
      else case cap_ptr_to_obj32 obj of None \<Rightarrow> False
      | Some obj32 \<Rightarrow>
        if ct_obj cap \<noteq> obj32 then False
        else if ct_type cap \<noteq> type then False
        else if ct_rights cap AND required_rights \<noteq> required_rights then False
        else (case cap_find_entry obj type s of None \<Rightarrow> False
          | Some i \<Rightarrow>
            if ce_epoch (g_cap_registry s ! i) \<noteq> ct_epoch cap then False
            else let expected = cap_make_tag s obj32 type (ct_rights cap) (ct_epoch cap);
                     exp_lo = ucast (expected AND 0xFFFFFFFF);
                     exp_hi = ucast (drop_bit 32 expected AND 0xFFFFFFFF)
                 in \<not> (ct_tag_lo cap \<noteq> exp_lo \<or> ct_tag_hi cap \<noteq> exp_hi)))"

section \<open>The registry as a map from keys to epochs\<close>

definition caps_inv :: "caps \<Rightarrow> bool" where
  "caps_inv s \<longleftrightarrow> length (g_cap_registry s) = CAP_REGISTRY_MAX \<and>
     (\<forall>i < CAP_REGISTRY_MAX. \<forall>j < CAP_REGISTRY_MAX.
        ce_obj (g_cap_registry s ! i) \<noteq> 0 \<and> ce_obj (g_cap_registry s ! i) = ce_obj (g_cap_registry s ! j)
        \<and> ce_type (g_cap_registry s ! i) = ce_type (g_cap_registry s ! j) \<longrightarrow> i = j)"

definition epoch_of :: "caps \<Rightarrow> u32 \<times> u32 \<Rightarrow> u32 option" where
  "epoch_of s k =
     (if fst k = 0 \<or> snd k = 0 then None
      else map_option (\<lambda>i. ce_epoch (g_cap_registry s ! i)) (cap_find_entry (fst k) (snd k) s))"

lemma cap_find_SomeD:
  "cap_find_entry obj type s = Some i \<Longrightarrow>
   i < CAP_REGISTRY_MAX \<and> ce_obj (g_cap_registry s ! i) = obj \<and> ce_type (g_cap_registry s ! i) = type"
  by (auto simp: cap_find_entry_def first_idx_Some)

lemma cap_find_NoneD:
  "cap_find_entry obj type s = None \<Longrightarrow> i < CAP_REGISTRY_MAX \<Longrightarrow>
   \<not> (ce_obj (g_cap_registry s ! i) = obj \<and> ce_type (g_cap_registry s ! i) = type)"
  by (auto simp: cap_find_entry_def first_idx_None)

lemma cap_find_unique:
  assumes "caps_inv s" and "i < CAP_REGISTRY_MAX" and "obj \<noteq> 0"
    and "ce_obj (g_cap_registry s ! i) = obj" and "ce_type (g_cap_registry s ! i) = type"
  shows "cap_find_entry obj type s = Some i"
proof (cases "cap_find_entry obj type s")
  case None
  then show ?thesis using assms cap_find_NoneD by blast
next
  case (Some j)
  from cap_find_SomeD [OF Some] have "j = i"
    using assms unfolding caps_inv_def by metis
  with Some show ?thesis by simp
qed

lemma length_registry [simp]: "caps_inv s \<Longrightarrow> length (g_cap_registry s) = CAP_REGISTRY_MAX"
  by (simp add: caps_inv_def)

lemma caps_inv_init: "caps_inv (cap_init a b c d s)"
  by (simp add: caps_inv_def cap_init_def)

text \<open>Storing an entry: the invariant survives if no other slot has its key.\<close>

lemma caps_inv_store:
  assumes "caps_inv s" and "i < CAP_REGISTRY_MAX"
    and "\<And>j. j < CAP_REGISTRY_MAX \<Longrightarrow> j \<noteq> i \<Longrightarrow>
       \<not> (ce_obj (g_cap_registry s ! j) = ce_obj e \<and> ce_type (g_cap_registry s ! j) = ce_type e)"
  shows "caps_inv (s\<lparr>g_cap_registry := (g_cap_registry s)[i := e]\<rparr>)"
  using assms unfolding caps_inv_def by (auto simp: nth_list_update) metis+

lemma epoch_of_store:
  assumes inv: "caps_inv s" and i: "i < CAP_REGISTRY_MAX"
    and inv': "caps_inv (s\<lparr>g_cap_registry := (g_cap_registry s)[i := e]\<rparr>)"
    and old: "ce_obj (g_cap_registry s ! i) = 0 \<or>
       (ce_obj (g_cap_registry s ! i) = ce_obj e \<and> ce_type (g_cap_registry s ! i) = ce_type e)"
    and key: "ce_obj e \<noteq> 0" "ce_type e \<noteq> 0"
  shows "epoch_of (s\<lparr>g_cap_registry := (g_cap_registry s)[i := e]\<rparr>)
       = (epoch_of s)((ce_obj e, ce_type e) \<mapsto> ce_epoch e)" (is "epoch_of ?s' = _")
proof
  fix k
  show "epoch_of ?s' k = ((epoch_of s)((ce_obj e, ce_type e) \<mapsto> ce_epoch e)) k"
  proof (cases "k = (ce_obj e, ce_type e)")
    case True
    have "cap_find_entry (ce_obj e) (ce_type e) ?s' = Some i"
      using i key by (intro cap_find_unique [OF inv']) (simp_all add: inv)
    then show ?thesis using True key i inv by (simp add: epoch_of_def)
  next
    case False
    show ?thesis
    proof (cases "fst k = 0 \<or> snd k = 0")
      case True
      with False show ?thesis by (simp add: epoch_of_def)
    next
      case nz: False
      have agree: "ce_obj (g_cap_registry ?s' ! j) = fst k \<and> ce_type (g_cap_registry ?s' ! j) = snd k
          \<longleftrightarrow> ce_obj (g_cap_registry s ! j) = fst k \<and> ce_type (g_cap_registry s ! j) = snd k" for j
        using old False nz inv i by (cases "j = i") (auto simp: prod_eq_iff)
      have "cap_find_entry (fst k) (snd k) ?s' = cap_find_entry (fst k) (snd k) s"
        unfolding cap_find_entry_def by (rule first_idx_cong) (simp_all only: agree)
      moreover have "j \<noteq> i" if "cap_find_entry (fst k) (snd k) s = Some j" for j
        using cap_find_SomeD [OF that] old False nz by (auto simp: prod_eq_iff)
      ultimately show ?thesis using False nz
        by (cases "cap_find_entry (fst k) (snd k) s") (auto simp: epoch_of_def)
    qed
  qed
qed


lemma register_SomeD:
  assumes inv: "caps_inv s" and reg: "cap_register_object obj type s = (True, s')"
  shows "caps_inv s'" and "obj \<noteq> 0" and "type \<noteq> 0"
    and "epoch_of s' = (epoch_of s)((obj, type) \<mapsto>
          (case epoch_of s (obj, type) of None \<Rightarrow> 1 | Some e \<Rightarrow> e))"
    and "cap_s0 s' = cap_s0 s \<and> cap_s1 s' = cap_s1 s"
proof -
  from reg show nz: "obj \<noteq> 0" "type \<noteq> 0"
    by (auto simp: cap_register_object_def split: if_splits)
  have "caps_inv s' \<and> epoch_of s' = (epoch_of s)((obj, type) \<mapsto>
          (case epoch_of s (obj, type) of None \<Rightarrow> 1 | Some e \<Rightarrow> e))
        \<and> cap_s0 s' = cap_s0 s \<and> cap_s1 s' = cap_s1 s"
  proof (cases "cap_find_entry obj type s")
    case (Some i)
    with reg nz have "s' = s"
      by (auto simp: cap_register_object_def cap_ptr_to_obj32_def)
    then show ?thesis using inv Some nz by (auto simp: epoch_of_def fun_eq_iff)
  next
    case None
    with reg nz obtain i where i: "first_idx (\<lambda>i. ce_obj (g_cap_registry s ! i) = 0) CAP_REGISTRY_MAX = Some i"
      and s': "s' = s\<lparr>g_cap_registry := (g_cap_registry s)
                [i := \<lparr>ce_obj = obj, ce_type = type, ce_epoch = 1, ce_flags = 0\<rparr>]\<rparr>"
      by (auto simp: cap_register_object_def cap_ptr_to_obj32_def split: option.splits)
    from i have i': "i < CAP_REGISTRY_MAX" "ce_obj (g_cap_registry s ! i) = 0"
      by (auto simp: first_idx_Some)
    have inv': "caps_inv s'" unfolding s'
      by (rule caps_inv_store [OF inv i'(1)]) (use cap_find_NoneD [OF None] in auto)
    have "epoch_of s' = (epoch_of s)((obj, type) \<mapsto> 1)"
      using epoch_of_store [OF inv i'(1) inv' [unfolded s']] i'(2) nz by (simp add: s')
    moreover have "epoch_of s (obj, type) = None" using None by (simp add: epoch_of_def)
    ultimately show ?thesis using inv' by (simp add: s')
  qed
  then show "caps_inv s'" and "epoch_of s' = (epoch_of s)((obj, type) \<mapsto>
          (case epoch_of s (obj, type) of None \<Rightarrow> 1 | Some e \<Rightarrow> e))"
    and "cap_s0 s' = cap_s0 s \<and> cap_s1 s' = cap_s1 s" by auto
qed

lemma register_failD: "cap_register_object obj type s = (False, s') \<Longrightarrow> s' = s"
  by (auto simp: cap_register_object_def cap_ptr_to_obj32_def split: if_splits option.splits)

lemma revoke_knownD:
  assumes inv: "caps_inv s" and e: "epoch_of s (obj, type) = Some e"
  shows "fst (cap_revoke_object obj type s)"
    and "caps_inv (snd (cap_revoke_object obj type s))"
    and "epoch_of (snd (cap_revoke_object obj type s)) = (epoch_of s)((obj, type) \<mapsto> e + 1)"
    and "cap_s0 (snd (cap_revoke_object obj type s)) = cap_s0 s"
    and "cap_s1 (snd (cap_revoke_object obj type s)) = cap_s1 s"
proof -
  from e obtain i where i: "cap_find_entry obj type s = Some i" and nz: "obj \<noteq> 0" "type \<noteq> 0"
    and ep: "ce_epoch (g_cap_registry s ! i) = e"
    by (auto simp: epoch_of_def split: if_splits)
  let ?e = "(g_cap_registry s ! i)\<lparr>ce_epoch := ce_epoch (g_cap_registry s ! i) + 1\<rparr>"
  let ?s' = "s\<lparr>g_cap_registry := (g_cap_registry s)[i := ?e]\<rparr>"
  have r: "cap_revoke_object obj type s = (True, ?s')"
    using i nz by (simp add: cap_revoke_object_def)
  note i' = cap_find_SomeD [OF i]
  have inv': "caps_inv ?s'"
  proof (rule caps_inv_store [OF inv])
    fix j assume j: "j < CAP_REGISTRY_MAX" "j \<noteq> i"
    show "\<not> (ce_obj (g_cap_registry s ! j) = ce_obj ?e \<and> ce_type (g_cap_registry s ! j) = ce_type ?e)"
      using cap_find_unique [OF inv j(1) nz(1)] i' i j(2) by auto
  qed (use i' in simp)
  have "epoch_of ?s' = (epoch_of s)((obj, type) \<mapsto> e + 1)"
    using epoch_of_store [OF inv _ inv'] i' nz ep by simp
  with inv' show "fst (cap_revoke_object obj type s)"
    "caps_inv (snd (cap_revoke_object obj type s))"
    "epoch_of (snd (cap_revoke_object obj type s)) = (epoch_of s)((obj, type) \<mapsto> e + 1)"
    "cap_s0 (snd (cap_revoke_object obj type s)) = cap_s0 s"
    "cap_s1 (snd (cap_revoke_object obj type s)) = cap_s1 s"
    by (simp_all add: r)
qed

lemma revoke_unknown:
  "epoch_of s (obj, type) = None \<Longrightarrow> cap_revoke_object obj type s = (False, s)"
  by (auto simp: epoch_of_def cap_revoke_object_def split: if_splits option.splits)


section \<open>The contract of an epoch registry\<close>

text \<open>What the token code relies on: registering a key starts its epoch at 1 and never moves
  it again, revoking a key advances its epoch by one, nothing else changes an epoch.\<close>

datatype 'k reg_op = Register 'k | Revoke 'k

fun reg_step :: "('k \<Rightarrow> 's \<Rightarrow> bool \<times> 's) \<Rightarrow> ('k \<Rightarrow> 's \<Rightarrow> bool \<times> 's) \<Rightarrow> 'k reg_op \<Rightarrow> 's \<Rightarrow> 's" where
  "reg_step register revoke (Register k) s = snd (register k s)"
| "reg_step register revoke (Revoke k) s = snd (revoke k s)"

definition revocations :: "'k \<Rightarrow> 'k reg_op list \<Rightarrow> nat" where
  "revocations k ops = count_list ops (Revoke k)"

locale epoch_registry =
  fixes register :: "'k \<Rightarrow> 's \<Rightarrow> bool \<times> 's"
    and revoke :: "'k \<Rightarrow> 's \<Rightarrow> bool \<times> 's"
    and lookup :: "'s \<Rightarrow> 'k \<Rightarrow> u32 option"
    and inv :: "'s \<Rightarrow> bool"
  assumes register_ok: "inv s \<Longrightarrow> fst (register k s) \<Longrightarrow>
      inv (snd (register k s)) \<and> lookup (snd (register k s)) =
        (lookup s)(k \<mapsto> (case lookup s k of None \<Rightarrow> 1 | Some e \<Rightarrow> e))"
    and register_fail: "\<not> fst (register k s) \<Longrightarrow> snd (register k s) = s"
    and revoke_known: "inv s \<Longrightarrow> lookup s k = Some e \<Longrightarrow>
      fst (revoke k s) \<and> inv (snd (revoke k s)) \<and> lookup (snd (revoke k s)) = (lookup s)(k \<mapsto> e + 1)"
    and revoke_unknown: "lookup s k = None \<Longrightarrow> revoke k s = (False, s)"
begin

lemma step_inv: "inv s \<Longrightarrow> inv (reg_step register revoke op s)"
proof (cases op)
  case (Register k)
  then show "inv s \<Longrightarrow> ?thesis"
    using register_ok [of s k] register_fail [of k s] by (cases "fst (register k s)") auto
next
  case (Revoke k)
  then show "inv s \<Longrightarrow> ?thesis"
    using revoke_known [of s k] revoke_unknown [of s k] by (cases "lookup s k") auto
qed

lemma step_lookup:
  assumes "inv s" and "lookup s k = Some e"
  shows "lookup (reg_step register revoke op s) k = Some (e + (if op = Revoke k then 1 else 0))"
proof (cases op)
  case (Register k')
  then show ?thesis using assms register_ok [of s k'] register_fail [of k' s]
    by (cases "fst (register k' s)") auto
next
  case (Revoke k')
  then show ?thesis using assms revoke_known [of s k'] revoke_unknown [of s k']
    by (cases "lookup s k'") auto
qed

lemma run_lookup:
  assumes "inv s" and "lookup s k = Some e"
  shows "inv (fold (reg_step register revoke) ops s) \<and>
    lookup (fold (reg_step register revoke) ops s) k = Some (e + of_nat (revocations k ops))"
  using assms
proof (induction ops arbitrary: s e)
  case Nil
  then show ?case by (simp add: revocations_def)
next
  case (Cons op ops)
  from Cons.IH [OF step_inv [OF Cons.prems(1)] step_lookup [OF Cons.prems]]
  show ?case by (auto simp: revocations_def)
qed

text \<open>An epoch read earlier is current again exactly after a multiple of \<open>2^32\<close> revocations.\<close>

lemma run_epoch_current:
  assumes "inv s" and "lookup s k = Some e"
  shows "lookup (fold (reg_step register revoke) ops s) k = Some e \<longleftrightarrow> 2 ^ 32 dvd revocations k ops"
proof -
  have "e + of_nat n = e \<longleftrightarrow> 2 ^ 32 dvd n" for n
  proof -
    have "e + of_nat n = e \<longleftrightarrow> (of_nat n :: u32) = 0" by simp
    also have "\<dots> \<longleftrightarrow> 2 ^ 32 dvd n" by (simp add: word_of_nat_eq_0_iff)
    finally show ?thesis .
  qed
  then show ?thesis using run_lookup [OF assms] by auto
qed

end

interpretation cap_reg: epoch_registry
  "\<lambda>k. cap_register_object (fst k) (snd k)" "\<lambda>k. cap_revoke_object (fst k) (snd k)" epoch_of caps_inv
proof unfold_locales
  fix s :: caps and k :: "u32 \<times> u32"
  assume "caps_inv s" and "fst (cap_register_object (fst k) (snd k) s)"
  then have r: "cap_register_object (fst k) (snd k) s = (True, snd (cap_register_object (fst k) (snd k) s))"
    by (simp add: prod_eq_iff)
  from register_SomeD [OF \<open>caps_inv s\<close> r]
  show "caps_inv (snd (cap_register_object (fst k) (snd k) s)) \<and>
      epoch_of (snd (cap_register_object (fst k) (snd k) s)) =
        (epoch_of s)(k \<mapsto> (case epoch_of s k of None \<Rightarrow> 1 | Some e \<Rightarrow> e))" by simp
next
  fix s :: caps and k :: "u32 \<times> u32"
  assume "\<not> fst (cap_register_object (fst k) (snd k) s)"
  then show "snd (cap_register_object (fst k) (snd k) s) = s"
    using register_failD [of "fst k" "snd k" s] by (cases "cap_register_object (fst k) (snd k) s") auto
next
  fix s :: caps and k :: "u32 \<times> u32" and e :: u32
  assume "caps_inv s" and "epoch_of s k = Some e"
  then show "fst (cap_revoke_object (fst k) (snd k) s) \<and> caps_inv (snd (cap_revoke_object (fst k) (snd k) s))
      \<and> epoch_of (snd (cap_revoke_object (fst k) (snd k) s)) = (epoch_of s)(k \<mapsto> e + 1)"
    using revoke_knownD [of s "fst k" "snd k" e] by simp
next
  fix s :: caps and k :: "u32 \<times> u32"
  assume "epoch_of s k = None"
  then show "cap_revoke_object (fst k) (snd k) s = (False, s)"
    using revoke_unknown [of s "fst k" "snd k"] by simp
qed

section \<open>Tags\<close>

lemma xorshift33_inverse:
  "(x XOR drop_bit 33 x) XOR drop_bit 33 (x XOR drop_bit 33 x) = (x :: u64)"
  by (rule bit_word_eqI) (auto simp: bit_simps)

lemma xorshift33_inj: "x XOR drop_bit 33 x = y XOR drop_bit 33 y \<Longrightarrow> x = (y :: u64)"
  by (metis xorshift33_inverse)

lemma mult_unit_inj:
  assumes "c * d = (1 :: u64)" and "x * c = y * c"
  shows "x = y"
proof -
  have "x = x * c * d" using assms(1) by (simp only: mult.assoc mult_1_right)
  also have "\<dots> = y" using assms by (simp only: mult.assoc mult_1_right)
  finally show ?thesis .
qed

lemma mul_inj1: "x * 0xff51afd7ed558ccd = y * 0xff51afd7ed558ccd \<Longrightarrow> x = (y :: u64)"
  by (erule mult_unit_inj [where d = "0x4f74430c22a54005", rotated]) simp

lemma mul_inj2: "x * 0xc4ceb9fe1a85ec53 = y * 0xc4ceb9fe1a85ec53 \<Longrightarrow> x = (y :: u64)"
  by (erule mult_unit_inj [where d = "0x9cb4b2f8129337db", rotated]) simp

lemma cap_mix64_inj: "cap_mix64 x = cap_mix64 y \<Longrightarrow> x = y"
  unfolding cap_mix64_def Let_def
  by (drule xorshift33_inj, drule mul_inj2, drule xorshift33_inj, drule mul_inj1, erule xorshift33_inj)

text \<open>The two halves of a tag, as the token stores them.\<close>

definition tag_lo :: "u64 \<Rightarrow> u32" where "tag_lo t = ucast (t AND 0xFFFFFFFF)"
definition tag_hi :: "u64 \<Rightarrow> u32" where "tag_hi t = ucast (drop_bit 32 t AND 0xFFFFFFFF)"

lemma tag_halves_inj:
  assumes "tag_lo t = tag_lo u" and "tag_hi t = tag_hi u"
  shows "t = u"
proof (rule bit_word_eqI)
  have m: "(0xFFFFFFFF :: u64) = mask 32" by (simp add: mask_eq_exp_minus_1)
  fix n assume n: "n < LENGTH(64)"
  have lo: "bit t k = bit u k" if "k < 32" for k
    using arg_cong [OF assms(1), of "\<lambda>w. bit w k"] that
    by (simp add: tag_lo_def m bit_simps)
  have hi: "bit t (32 + k) = bit u (32 + k)" if "k < 32" for k
    using arg_cong [OF assms(2), of "\<lambda>w. bit w k"] that
    by (simp add: tag_hi_def m bit_simps)
  show "bit t n = bit u n"
  proof (cases "n < 32")
    case True
    then show ?thesis by (rule lo)
  next
    case False
    with n hi [of "n - 32"] show ?thesis by simp
  qed
qed

lemma cap_make_tag_rights_inj:
  assumes "cap_make_tag s obj type r epoch = cap_make_tag s obj type r' epoch"
  shows "r = r'"
proof -
  have "push_bit 16 (ucast r :: u64) = push_bit 16 (ucast r')"
    using cap_mix64_inj [OF assms [unfolded cap_make_tag_def Let_def]]
    by (simp only: xor_cancel_right xor_cancel_left)
  then have b: "bit (push_bit 16 (ucast r :: u64)) (16 + n) = bit (push_bit 16 (ucast r' :: u64)) (16 + n)" for n
    by (simp only:)
  show ?thesis
  proof (rule bit_word_eqI)
    fix n assume "n < LENGTH(32)"
    then show "bit r n = bit r' n" using b [of n] by (simp add: bit_simps)
  qed
qed

lemma cap_validate_iff:
  "cap_validate cap obj type req s \<longleftrightarrow>
     ct_obj cap = obj \<and> ct_type cap = type \<and> ct_rights cap AND req = req
     \<and> epoch_of s (obj, type) = Some (ct_epoch cap)
     \<and> ct_tag_lo cap = tag_lo (cap_make_tag s obj type (ct_rights cap) (ct_epoch cap))
     \<and> ct_tag_hi cap = tag_hi (cap_make_tag s obj type (ct_rights cap) (ct_epoch cap))"
  by (auto simp: cap_validate_def cap_ptr_to_obj32_def epoch_of_def tag_lo_def tag_hi_def Let_def
      split: option.splits)

lemma cap_mint_SomeD:
  assumes inv: "caps_inv s" and mint: "cap_mint obj type rights s = (Some tok, s')"
  shows "caps_inv s'" and "epoch_of s' (obj, type) = Some (ct_epoch tok)"
    and "ct_obj tok = obj" and "ct_type tok = type" and "ct_rights tok = rights"
    and "ct_tag_lo tok = tag_lo (cap_make_tag s' obj type rights (ct_epoch tok))"
    and "ct_tag_hi tok = tag_hi (cap_make_tag s' obj type rights (ct_epoch tok))"
    and "fst (cap_register_object obj type s)" and "s' = snd (cap_register_object obj type s)"
proof -
  from mint obtain i where reg: "cap_register_object obj type s = (True, s')"
    and i: "cap_find_entry obj type s' = Some i" and nz: "obj \<noteq> 0" "type \<noteq> 0"
    and tok: "tok = \<lparr>ct_obj = obj, ct_type = type, ct_rights = rights,
       ct_epoch = ce_epoch (g_cap_registry s' ! i),
       ct_tag_lo = tag_lo (cap_make_tag s' obj type rights (ce_epoch (g_cap_registry s' ! i))),
       ct_tag_hi = tag_hi (cap_make_tag s' obj type rights (ce_epoch (g_cap_registry s' ! i)))\<rparr>"
    by (auto simp: cap_mint_def cap_ptr_to_obj32_def Let_def tag_lo_def tag_hi_def
        split: if_splits prod.splits option.splits bool.splits)
  show "caps_inv s'" by (rule register_SomeD [OF inv reg])
  show "epoch_of s' (obj, type) = Some (ct_epoch tok)" using i nz by (simp add: epoch_of_def tok)
  show "ct_obj tok = obj" "ct_type tok = type" "ct_rights tok = rights"
    "ct_tag_lo tok = tag_lo (cap_make_tag s' obj type rights (ct_epoch tok))"
    "ct_tag_hi tok = tag_hi (cap_make_tag s' obj type rights (ct_epoch tok))"
    by (simp_all add: tok)
  show "fst (cap_register_object obj type s)" "s' = snd (cap_register_object obj type s)"
    by (simp_all add: reg)
qed

section \<open>Properties\<close>

definition caps_run :: "(u32 \<times> u32) reg_op list \<Rightarrow> caps \<Rightarrow> caps" where
  "caps_run ops s = fold (reg_step (\<lambda>k. cap_register_object (fst k) (snd k))
      (\<lambda>k. cap_revoke_object (fst k) (snd k))) ops s"

lemma secret_step:
  assumes "caps_inv s"
  shows "cap_s0 (snd (cap_register_object obj type s)) = cap_s0 s
       \<and> cap_s1 (snd (cap_register_object obj type s)) = cap_s1 s"
    and "cap_s0 (snd (cap_revoke_object obj type s)) = cap_s0 s
       \<and> cap_s1 (snd (cap_revoke_object obj type s)) = cap_s1 s"
  by (auto simp: cap_register_object_def cap_revoke_object_def cap_ptr_to_obj32_def split: option.splits)

lemma caps_run_secret:
  "caps_inv s \<Longrightarrow> caps_inv (caps_run ops s) \<and> cap_s0 (caps_run ops s) = cap_s0 s \<and> cap_s1 (caps_run ops s) = cap_s1 s"
proof (induction ops arbitrary: s)
  case Nil
  then show ?case by (simp add: caps_run_def)
next
  case (Cons op ops)
  let ?t = "reg_step (\<lambda>k. cap_register_object (fst k) (snd k)) (\<lambda>k. cap_revoke_object (fst k) (snd k)) op s"
  have "caps_inv ?t" using Cons.prems by (rule cap_reg.step_inv)
  moreover have "cap_s0 ?t = cap_s0 s \<and> cap_s1 ?t = cap_s1 s"
    using secret_step [OF Cons.prems] by (cases op) simp_all
  moreover have "caps_run (op # ops) s = caps_run ops ?t" by (simp add: caps_run_def)
  ultimately show ?case using Cons.IH [of ?t] by simp
qed

lemma cap_make_tag_cong:
  "cap_s0 s = cap_s0 t \<Longrightarrow> cap_s1 s = cap_s1 t \<Longrightarrow> cap_make_tag s = cap_make_tag t"
  by (simp add: cap_make_tag_def fun_eq_iff)

text \<open>C7. The life of a token: after it is minted, and after any sequence of registrations and
  revocations of any objects, \<open>cap_validate\<close> accepts it for its object and type exactly when
  the required rights are among the minted ones and the object has since been revoked a
  multiple of \<open>2^32\<close> times: fresh tokens work, one revocation kills every token minted
  before it, and only the wrap-around of the 32-bit epoch can bring one back.\<close>

theorem cap_token_life:
  assumes "caps_inv s" and "cap_mint obj type rights s = (Some tok, s')"
  shows "cap_validate tok obj type required (caps_run ops s') \<longleftrightarrow>
    rights AND required = required \<and> 2 ^ 32 dvd revocations (obj, type) ops"
proof -
  note m = cap_mint_SomeD [OF assms]
  have cur: "epoch_of (caps_run ops s') (obj, type) = Some (ct_epoch tok)
      \<longleftrightarrow> 2 ^ 32 dvd revocations (obj, type) ops"
    unfolding caps_run_def using m(1,2) by (rule cap_reg.run_epoch_current)
  have tag: "cap_make_tag (caps_run ops s') = cap_make_tag s'"
    using caps_run_secret [OF m(1)] by (intro cap_make_tag_cong) simp_all
  show ?thesis unfolding cap_validate_iff tag cur using m by auto
qed

definition caps_demo :: caps where
  "caps_demo = cap_init 1 2 0xC0100000 0xC0200000 \<lparr>g_cap_registry = [], cap_s0 = 0, cap_s1 = 0\<rparr>"

lemma caps_inv_demo: "caps_inv caps_demo"
  by (simp add: caps_demo_def caps_inv_init)

theorem cap_token_life_witness:
  "\<exists>tok s'. cap_mint 0xC0300000 1 3 caps_demo = (Some tok, s')
     \<and> cap_validate tok 0xC0300000 1 2 (caps_run [] s')
     \<and> \<not> cap_validate tok 0xC0300000 1 2 (caps_run [Revoke (0xC0300000, 1)] s')"
proof -
  have "fst (cap_mint 0xC0300000 1 3 caps_demo) \<noteq> None" by code_simp
  then obtain tok s' where m: "cap_mint 0xC0300000 1 3 caps_demo = (Some tok, s')"
    by (cases "cap_mint 0xC0300000 1 3 caps_demo") auto
  show ?thesis
    using cap_token_life [OF caps_inv_demo m, of 2 "[]"]
      cap_token_life [OF caps_inv_demo m, of 2 "[Revoke (0xC0300000, 1)]"] m
    by (auto simp: revocations_def)
qed

text \<open>C24. Rights cannot be edited into a token: if \<open>cap_validate\<close> accepts a token, it rejects
  every token that differs from it only in its rights field, whatever rights are required.\<close>

theorem cap_rights_tamper_rejected:
  assumes "cap_validate tok obj type required s" and "rights \<noteq> ct_rights tok"
  shows "\<not> cap_validate (tok\<lparr>ct_rights := rights\<rparr>) obj type required' s"
proof
  assume "cap_validate (tok\<lparr>ct_rights := rights\<rparr>) obj type required' s"
  with assms(1) have "cap_make_tag s obj type rights (ct_epoch tok) = cap_make_tag s obj type (ct_rights tok) (ct_epoch tok)"
    unfolding cap_validate_iff by (intro tag_halves_inj) simp_all
  then have "rights = ct_rights tok" by (rule cap_make_tag_rights_inj)
  with assms(2) show False ..
qed

theorem cap_rights_tamper_rejected_witness:
  "\<exists>tok s'. cap_validate tok 0xC0300000 1 1 s' \<and> \<not> cap_validate (tok\<lparr>ct_rights := 3\<rparr>) 0xC0300000 1 2 s'"
proof -
  have "fst (cap_mint 0xC0300000 1 1 caps_demo) \<noteq> None" by code_simp
  then obtain tok s' where m: "cap_mint 0xC0300000 1 1 caps_demo = (Some tok, s')"
    by (cases "cap_mint 0xC0300000 1 1 caps_demo") auto
  note d = cap_mint_SomeD [OF caps_inv_demo m]
  have v: "cap_validate tok 0xC0300000 1 1 s'" using d by (simp add: cap_validate_iff)
  have "3 \<noteq> ct_rights tok" using d(5) by simp
  from v cap_rights_tamper_rejected [OF v this] show ?thesis by blast
qed

text \<open>C25. The tag does not separate the object from the rights: they are mixed by exclusive or
  before the bit mixing, the rights shifted by 16 bits over the upper half of the object
  address. So the tag of a token for \<open>obj\<close> with rights \<open>r\<close> is also the tag of \<open>obj'\<close> with
  rights \<open>r'\<close> whenever the addresses differ by \<open>(r XOR r') << 16\<close>, and a token that was
  never minted for a registered \<open>obj'\<close> of the same type and epoch is accepted.\<close>

theorem cap_token_forgery:
  assumes "cap_validate tok obj type required s"
    and "obj' = obj XOR push_bit 16 (ct_rights tok XOR rights')"
    and "ct_rights tok < 2 ^ 16" and "rights' < 2 ^ 16"
    and "epoch_of s (obj', type) = Some (ct_epoch tok)"
  shows "cap_validate (tok\<lparr>ct_obj := obj', ct_rights := rights'\<rparr>) obj' type rights' s"
proof -
  have small: "\<not> bit w n" if "w < 2 ^ 16" "16 \<le> n" for w :: u32 and n
    using that by (metis less_mask_eq mask_eq_exp_minus_1 bit_and_iff bit_mask_iff not_le take_bit_eq_mask)
  have hi: "\<not> bit (ct_rights tok) n" "\<not> bit rights' n" if "16 \<le> n" for n
    using small that assms(3,4) by blast+
  have "((ucast obj OR push_bit 32 (ucast type)) XOR push_bit 16 (ucast (ct_rights tok)) :: u64)
      = (ucast obj' OR push_bit 32 (ucast type)) XOR push_bit 16 (ucast rights')"
    unfolding assms(2)
    by (rule bit_word_eqI) (use hi in \<open>auto simp: bit_simps\<close>)
  then have "cap_make_tag s obj type (ct_rights tok) (ct_epoch tok) = cap_make_tag s obj' type rights' (ct_epoch tok)"
    by (simp add: cap_make_tag_def Let_def)
  with assms(1,5) show ?thesis by (simp add: cap_validate_iff)
qed

text \<open>Two file handles 0xC0100000 and 0xC0130000 are registered; a read-only token for the
  first becomes a write token for the second.\<close>

theorem cap_token_forgery_witness:
  "\<exists>tok s'. cap_mint 0xC0100000 1 1 (caps_run [Register (0xC0130000, 1)] caps_demo) = (Some tok, s')
     \<and> cap_validate (tok\<lparr>ct_obj := 0xC0130000, ct_rights := 2\<rparr>) 0xC0130000 1 2 s'"
proof -
  let ?s0 = "caps_run [Register (0xC0130000, 1)] caps_demo"
  have inv0: "caps_inv ?s0" using caps_run_secret [OF caps_inv_demo] by blast
  have e: "epoch_of (snd (cap_mint 0xC0100000 1 1 ?s0)) (0xC0130000, 1) = Some 1"
    "map_option ct_epoch (fst (cap_mint 0xC0100000 1 1 ?s0)) = Some 1"
    unfolding caps_run_def by code_simp+
  then obtain tok s' where m: "cap_mint 0xC0100000 1 1 ?s0 = (Some tok, s')" and e1: "ct_epoch tok = 1"
    by (cases "cap_mint 0xC0100000 1 1 ?s0") auto
  note d = cap_mint_SomeD [OF inv0 m]
  have v: "cap_validate tok 0xC0100000 1 1 s'" using d by (simp add: cap_validate_iff)
  have "cap_validate (tok\<lparr>ct_obj := 0xC0130000, ct_rights := 2\<rparr>) 0xC0130000 1 2 s'"
    by (rule cap_token_forgery [OF v]) (use d e m e1 in simp_all)
  with m show ?thesis by blast
qed

definition taken_slots :: "caps \<Rightarrow> nat set" where
  "taken_slots s = {i. i < CAP_REGISTRY_MAX \<and> ce_obj (g_cap_registry s ! i) \<noteq> 0}"

lemma taken_slots_step:
  "caps_inv s \<Longrightarrow> taken_slots s \<subseteq>
     taken_slots (reg_step (\<lambda>k. cap_register_object (fst k) (snd k)) (\<lambda>k. cap_revoke_object (fst k) (snd k)) op s)"
  by (cases op) (auto simp: taken_slots_def cap_register_object_def cap_revoke_object_def
      cap_ptr_to_obj32_def nth_list_update first_idx_Some field_list_update [of ce_obj] split: option.splits)

text \<open>Registration fails closed and only when it must: for a proper object and type it is
  refused exactly when all 64 slots hold other objects, and then nothing changes. No
  operation ever frees a slot, so a slot once taken stays taken.\<close>

theorem cap_registry_full:
  assumes "caps_inv s" and "obj \<noteq> 0" and "type \<noteq> 0"
  shows "(\<not> fst (cap_register_object obj type s) \<longleftrightarrow>
           epoch_of s (obj, type) = None \<and> card (taken_slots s) = 64)
    \<and> (\<not> fst (cap_register_object obj type s) \<longrightarrow> snd (cap_register_object obj type s) = s)
    \<and> taken_slots s \<subseteq> taken_slots (caps_run ops s)"
proof (intro conjI)
  have all: "card (taken_slots s) = 64 \<longleftrightarrow> (\<forall>i < CAP_REGISTRY_MAX. ce_obj (g_cap_registry s ! i) \<noteq> 0)"
  proof
    assume "card (taken_slots s) = 64"
    moreover have "taken_slots s \<subseteq> {..<CAP_REGISTRY_MAX}" by (auto simp: taken_slots_def)
    ultimately have "taken_slots s = {..<CAP_REGISTRY_MAX}" by (intro card_subset_eq) simp_all
    then show "\<forall>i < CAP_REGISTRY_MAX. ce_obj (g_cap_registry s ! i) \<noteq> 0" by (auto simp: taken_slots_def)
  next
    assume "\<forall>i < CAP_REGISTRY_MAX. ce_obj (g_cap_registry s ! i) \<noteq> 0"
    then have "taken_slots s = {..<CAP_REGISTRY_MAX}" by (auto simp: taken_slots_def)
    then show "card (taken_slots s) = 64" by simp
  qed
  show "\<not> fst (cap_register_object obj type s) \<longleftrightarrow> epoch_of s (obj, type) = None \<and> card (taken_slots s) = 64"
    unfolding all using assms(2,3)
    by (auto simp: cap_register_object_def cap_ptr_to_obj32_def epoch_of_def first_idx_None first_idx_Some
        split: option.splits)
  show "\<not> fst (cap_register_object obj type s) \<longrightarrow> snd (cap_register_object obj type s) = s"
    using register_failD [of obj type s] by (cases "cap_register_object obj type s") auto
  show "taken_slots s \<subseteq> taken_slots (caps_run ops s)"
    using assms(1)
  proof (induction ops arbitrary: s)
    case Nil
    then show ?case by (simp add: caps_run_def)
  next
    case (Cons op ops)
    show ?case
      using taken_slots_step [OF Cons.prems, of op] Cons.IH [OF cap_reg.step_inv [OF Cons.prems, of op]]
      by (simp add: caps_run_def)
  qed
qed

theorem cap_registry_full_witness:
  "taken_slots caps_demo \<subseteq> taken_slots (caps_run [Register (0xC0300000, 1), Revoke (0xC0300000, 1)] caps_demo)
   \<and> fst (cap_register_object 0xC0300000 1 caps_demo)"
proof -
  have "epoch_of caps_demo (0xC0300000, 1) = None \<and> taken_slots caps_demo = {}"
    by (auto simp: caps_demo_def cap_init_def taken_slots_def epoch_of_def cap_find_entry_def first_idx_None)
  then show ?thesis
    using cap_registry_full [OF caps_inv_demo, where obj = "0xC0300000" and type = 1
        and ops = "[Register (0xC0300000, 1), Revoke (0xC0300000, 1)]"]
    by auto
qed

end
