(* ===== verification/Frames.thy ===== *)
theory Frames
  imports Prelude
begin

text \<open>
  The physical frame allocator of \<open>src/mm/vmm.c\<close>: one bit per 4 KiB frame, a free count
  and a search hint. Page replacement (\<open>clock_evict_page\<close>, which \<open>frame_alloc\<close> tries when
  no frame is free) walks page tables and swaps to disk; it is the argument \<open>evict\<close> here.
  Addresses and frame numbers are 32-bit words. The linear searches of the code are written
  with \<open>first_idx\<close>, the least index that satisfies the loop's exit test.
\<close>

section \<open>State and bit accessors\<close>

record frame_allocator =
  fa_bitmap :: "u32 list"
  total_frames :: u32
  free_frames :: u32
  search_hint :: u32

abbreviation (input) PAGE_SIZE :: u32 where "PAGE_SIZE \<equiv> 4096"
abbreviation (input) PAGE_MASK :: u32 where "PAGE_MASK \<equiv> 0xFFFFF000"
abbreviation (input) KERNEL_BASE :: u32 where "KERNEL_BASE \<equiv> 0xC0000000"
abbreviation (input) MAX_FRAMES :: u32 where "MAX_FRAMES \<equiv> 32768"
abbreviation (input) FRAME_BITMAP_WORDS :: nat where "FRAME_BITMAP_WORDS \<equiv> 1024"

definition frame_set :: "u32 \<Rightarrow> frame_allocator \<Rightarrow> frame_allocator" where
  "frame_set frame_num fa = fa\<lparr>fa_bitmap := (fa_bitmap fa)
     [unat (frame_num div 32) := fa_bitmap fa ! unat (frame_num div 32) OR push_bit (unat (frame_num mod 32)) 1]\<rparr>"

definition frame_clear :: "u32 \<Rightarrow> frame_allocator \<Rightarrow> frame_allocator" where
  "frame_clear frame_num fa = fa\<lparr>fa_bitmap := (fa_bitmap fa)
     [unat (frame_num div 32) := fa_bitmap fa ! unat (frame_num div 32) AND NOT (push_bit (unat (frame_num mod 32)) 1)]\<rparr>"

definition frame_test :: "u32 \<Rightarrow> frame_allocator \<Rightarrow> bool" where
  "frame_test frame_num fa \<longleftrightarrow>
     fa_bitmap fa ! unat (frame_num div 32) AND push_bit (unat (frame_num mod 32)) 1 \<noteq> 0"

section \<open>Operations\<close>

text \<open>The loop shared by the two reservation functions, \<open>for (; pa < end; pa += PAGE_SIZE)\<close>. Both
  bounds are page aligned, so it runs \<open>(end - pa) / PAGE_SIZE\<close> times at most; it stops at the
  first frame beyond the detected memory.\<close>

definition reserve_one :: "u32 \<Rightarrow> frame_allocator \<Rightarrow> frame_allocator" where
  "reserve_one frame_num fa =
     (if \<not> frame_test frame_num fa
      then let fa = frame_set frame_num fa in
        (if free_frames fa \<noteq> 0 then fa\<lparr>free_frames := free_frames fa - 1\<rparr> else fa)
      else fa)"

fun reserve_loop :: "nat \<Rightarrow> u32 \<Rightarrow> frame_allocator \<Rightarrow> frame_allocator" where
  "reserve_loop 0 pa fa = fa"
| "reserve_loop (Suc n) pa fa =
     (let frame_num = pa div PAGE_SIZE in
      if frame_num \<ge> total_frames fa then fa
      else reserve_loop n (pa + PAGE_SIZE) (reserve_one frame_num fa))"

definition page_up :: "u32 \<Rightarrow> u32" where
  "page_up a = (a + PAGE_SIZE - 1) AND PAGE_MASK"

definition frame_reserve_range_bytes :: "u32 \<Rightarrow> u32 \<Rightarrow> frame_allocator \<Rightarrow> frame_allocator" where
  "frame_reserve_range_bytes start end_exclusive fa =
     (if end_exclusive \<le> start then fa
      else reserve_loop ((unat (page_up end_exclusive) - unat (start AND PAGE_MASK)) div 4096)
             (start AND PAGE_MASK) fa)"

definition vmm_reserve_phys_range :: "u32 \<Rightarrow> u32 \<Rightarrow> frame_allocator \<Rightarrow> frame_allocator" where
  "vmm_reserve_phys_range phys_start phys_end fa =
     (if phys_end \<le> phys_start then fa
      else reserve_loop ((unat (page_up phys_end) - unat (phys_start AND PAGE_MASK)) div 4096)
             (phys_start AND PAGE_MASK) fa)"

text \<open>Marking a run of frames and counting each, without looking at its bit.\<close>

fun take_frames :: "nat \<Rightarrow> u32 \<Rightarrow> frame_allocator \<Rightarrow> frame_allocator" where
  "take_frames 0 i fa = fa"
| "take_frames (Suc n) i fa =
     take_frames n (i + 1) ((frame_set i fa)\<lparr>free_frames := free_frames fa - 1\<rparr>)"

text \<open>\<open>kernel_end\<close> is the address of the linker symbol \<open>__kernel_end\<close>.\<close>

definition frame_alloc_init :: "u32 \<Rightarrow> u32 \<Rightarrow> frame_allocator" where
  "frame_alloc_init kernel_end total_ram_bytes =
     (let detected_frames = total_ram_bytes div PAGE_SIZE;
          total = (if detected_frames > MAX_FRAMES then MAX_FRAMES else detected_frames);
          fa = \<lparr>fa_bitmap = replicate FRAME_BITMAP_WORDS 0, total_frames = total,
                free_frames = total, search_hint = 0\<rparr>;
          fa = take_frames 256 0 fa;
          kernel_end_frame = kernel_end div PAGE_SIZE + 1;
          fa = take_frames (min (unat kernel_end_frame + 1) (unat total) - 256) 256 fa
      in fa\<lparr>search_hint := kernel_end_frame div 32\<rparr>)"

text \<open>The two nested searches of \<open>frame_alloc\<close>: the first word at or after the hint (wrapping
  around the complete words of the bitmap) with a clear bit of an existing frame.\<close>

definition word_free_bit :: "frame_allocator \<Rightarrow> u32 \<Rightarrow> nat option" where
  "word_free_bit fa word_idx =
     (if fa_bitmap fa ! unat word_idx = 0xFFFFFFFF then None
      else first_idx (\<lambda>bt. fa_bitmap fa ! unat word_idx AND push_bit bt 1 = 0
                         \<and> word_idx * 32 + of_nat bt < total_frames fa) 32)"

definition frame_alloc :: "(frame_allocator \<Rightarrow> u32 \<times> frame_allocator) \<Rightarrow> frame_allocator \<Rightarrow> u32 \<times> frame_allocator" where
  "frame_alloc evict fa =
     (if free_frames fa = 0 then evict fa
      else
        let start_word = search_hint fa; total_words = total_frames fa div 32 in
        (case first_idx (\<lambda>i. word_free_bit fa ((start_word + of_nat i) mod total_words) \<noteq> None)
                (unat total_words) of
           None \<Rightarrow> (0, fa)
         | Some i \<Rightarrow>
             let word_idx = (start_word + of_nat i) mod total_words;
                 frame_num = word_idx * 32 + of_nat (the (word_free_bit fa word_idx))
             in (frame_num * PAGE_SIZE,
                 (frame_set frame_num fa)\<lparr>free_frames := free_frames fa - 1, search_hint := word_idx\<rparr>)))"

definition frame_free :: "u32 \<Rightarrow> frame_allocator \<Rightarrow> frame_allocator" where
  "frame_free phys_addr fa =
     (let frame_num = phys_addr div PAGE_SIZE in
      if frame_num < 256 \<or> frame_num \<ge> total_frames fa then fa
      else if frame_test frame_num fa then
        let fa = (frame_clear frame_num fa)\<lparr>free_frames := free_frames fa + 1\<rparr> in
        (if frame_num div 32 < search_hint fa then fa\<lparr>search_hint := frame_num div 32\<rparr> else fa)
      else fa)"

text \<open>The scan of \<open>frame_alloc_contiguous\<close> from frame \<open>i\<close>, with the current run; \<open>n\<close> frames are
  left before \<open>total_frames\<close>.\<close>

fun contiguous_scan :: "nat \<Rightarrow> u32 \<Rightarrow> u32 \<Rightarrow> u32 \<Rightarrow> u32 \<Rightarrow> frame_allocator \<Rightarrow> u32 \<times> frame_allocator" where
  "contiguous_scan 0 i run_start run_length count fa = (0, fa)"
| "contiguous_scan (Suc n) i run_start run_length count fa =
     (if \<not> frame_test i fa then
        let run_start = (if run_length = 0 then i else run_start);
            run_length = run_length + 1
        in if run_length = count
           then (run_start * PAGE_SIZE, take_frames (unat count) run_start fa)
           else contiguous_scan n (i + 1) run_start run_length count fa
      else contiguous_scan n (i + 1) run_start 0 count fa)"

definition frame_alloc_contiguous :: "u32 \<Rightarrow> frame_allocator \<Rightarrow> u32 \<times> frame_allocator" where
  "frame_alloc_contiguous count fa =
     (if count = 0 \<or> count > free_frames fa then (0, fa)
      else contiguous_scan (unat (total_frames fa) - 256) 256 0 0 count fa)"

definition vmm_get_free_frames :: "frame_allocator \<Rightarrow> u32" where
  "vmm_get_free_frames fa = free_frames fa"

definition vmm_get_total_frames :: "frame_allocator \<Rightarrow> u32" where
  "vmm_get_total_frames fa = total_frames fa"

definition vmm_kmalloc_page :: "(frame_allocator \<Rightarrow> u32 \<times> frame_allocator) \<Rightarrow> frame_allocator \<Rightarrow> u32 \<times> frame_allocator" where
  "vmm_kmalloc_page evict fa =
     (case frame_alloc evict fa of (frame, fa) \<Rightarrow>
        if frame = 0 then (0, fa) else (KERNEL_BASE + frame, fa))"

definition vmm_kfree_page :: "u32 \<Rightarrow> frame_allocator \<Rightarrow> frame_allocator" where
  "vmm_kfree_page ptr fa =
     (if ptr = 0 then fa
      else if ptr < KERNEL_BASE then fa
      else frame_free (ptr - KERNEL_BASE) fa)"

definition vmm_kmalloc_aligned :: "u32 \<Rightarrow> frame_allocator \<Rightarrow> u32 \<times> frame_allocator" where
  "vmm_kmalloc_aligned nbytes fa =
     (let pages = (nbytes + PAGE_SIZE - 1) div PAGE_SIZE in
      case frame_alloc_contiguous pages fa of (phys, fa) \<Rightarrow>
        if phys = 0 then (0, fa) else (KERNEL_BASE + phys, fa))"

section \<open>The bitmap as a set of frames\<close>

definition frame_used :: "frame_allocator \<Rightarrow> nat \<Rightarrow> bool" where
  "frame_used fa n \<longleftrightarrow> bit (fa_bitmap fa ! (n div 32)) (n mod 32)"

definition free_set :: "frame_allocator \<Rightarrow> nat set" where
  "free_set fa = {n. n < unat (total_frames fa) \<and> \<not> frame_used fa n}"

text \<open>The invariant: the table has its full size, the free count is the number of clear bits
  of existing frames (\<open>frames_ok\<close>), the first megabyte is never free, and the hint is a word
  index.\<close>

definition frames_ok :: "frame_allocator \<Rightarrow> bool" where
  "frames_ok fa \<longleftrightarrow> length (fa_bitmap fa) = FRAME_BITMAP_WORDS \<and> unat (total_frames fa) \<le> 32768
     \<and> unat (free_frames fa) = card (free_set fa)"

definition frames_inv :: "frame_allocator \<Rightarrow> bool" where
  "frames_inv fa \<longleftrightarrow> frames_ok fa \<and> (\<forall>n < 256. frame_used fa n) \<and> unat (search_hint fa) < 2 ^ 20"

lemma finite_free_set [simp]: "finite (free_set fa)"
  by (simp add: free_set_def)

lemma bit_single: "w AND push_bit n 1 \<noteq> 0 \<longleftrightarrow> bit (w :: u32) n"
  by (simp add: bit_iff_and_push_bit_not_eq_0)

lemma frame_test_used: "frame_test n fa = frame_used fa (unat n)"
  by (simp only: frame_test_def frame_used_def bit_single) (simp add: unat_div unat_mod)

lemma frame_set_used:
  assumes "unat n div 32 < length (fa_bitmap fa)"
  shows "frame_used (frame_set n fa) k \<longleftrightarrow> k = unat n \<or> frame_used fa k"
proof (cases "k div 32 = unat n div 32")
  case True
  have "k = unat n \<longleftrightarrow> k mod 32 = unat n mod 32" using True by (metis mult_div_mod_eq)
  then show ?thesis using True assms
    by (auto simp: frame_set_def frame_used_def unat_div unat_mod bit_simps)
next
  case False
  then show ?thesis using assms
    by (auto simp: frame_set_def frame_used_def unat_div)
qed

lemma frame_clear_used:
  assumes "unat n div 32 < length (fa_bitmap fa)"
  shows "frame_used (frame_clear n fa) k \<longleftrightarrow> k \<noteq> unat n \<and> frame_used fa k"
proof (cases "k div 32 = unat n div 32")
  case True
  have "k = unat n \<longleftrightarrow> k mod 32 = unat n mod 32" using True by (metis mult_div_mod_eq)
  then show ?thesis using True assms
    by (auto simp: frame_clear_def frame_used_def unat_div unat_mod bit_simps)
next
  case False
  then show ?thesis using assms
    by (auto simp: frame_clear_def frame_used_def unat_div)
qed

lemma frame_ops_fields [simp]:
  "total_frames (frame_set n fa) = total_frames fa" "free_frames (frame_set n fa) = free_frames fa"
  "search_hint (frame_set n fa) = search_hint fa" "length (fa_bitmap (frame_set n fa)) = length (fa_bitmap fa)"
  "total_frames (frame_clear n fa) = total_frames fa" "free_frames (frame_clear n fa) = free_frames fa"
  "search_hint (frame_clear n fa) = search_hint fa" "length (fa_bitmap (frame_clear n fa)) = length (fa_bitmap fa)"
  by (simp_all add: frame_set_def frame_clear_def)

lemma frame_used_upd [simp]:
  "frame_used (fa\<lparr>free_frames := x\<rparr>) = frame_used fa" "frame_used (fa\<lparr>search_hint := y\<rparr>) = frame_used fa"
  by (simp_all add: frame_used_def fun_eq_iff)

lemma free_set_upd [simp]:
  "free_set (fa\<lparr>free_frames := x\<rparr>) = free_set fa" "free_set (fa\<lparr>search_hint := y\<rparr>) = free_set fa"
  by (simp_all add: free_set_def)

lemma free_set_frame_set:
  "unat n div 32 < length (fa_bitmap fa) \<Longrightarrow> free_set (frame_set n fa) = free_set fa - {unat n}"
  by (auto simp: free_set_def frame_set_used)

lemma free_set_frame_clear:
  "unat n div 32 < length (fa_bitmap fa) \<Longrightarrow> n < total_frames fa \<Longrightarrow>
   free_set (frame_clear n fa) = insert (unat n) (free_set fa)"
  by (auto simp: free_set_def frame_clear_used word_less_nat_alt)

lemma frames_ok_index: "frames_ok fa \<Longrightarrow> n < total_frames fa \<Longrightarrow> unat n div 32 < length (fa_bitmap fa)"
  by (auto simp: frames_ok_def word_less_nat_alt)

text \<open>Taking one free frame: the set loses it, the count follows.\<close>

lemma frames_ok_take:
  assumes ok: "frames_ok fa" and n: "unat n \<in> free_set fa"
  shows "frames_ok ((frame_set n fa)\<lparr>free_frames := free_frames fa - 1\<rparr>)"
    and "free_set ((frame_set n fa)\<lparr>free_frames := free_frames fa - 1\<rparr>) = free_set fa - {unat n}"
    and "free_frames fa \<noteq> 0"
proof -
  have lt: "n < total_frames fa" using n by (simp add: free_set_def word_less_nat_alt)
  note idx = frames_ok_index [OF ok lt]
  have card: "unat (free_frames fa) = card (free_set fa)" using ok by (simp add: frames_ok_def)
  have "card (free_set fa) > 0" using n by (auto simp: card_gt_0_iff)
  with card show nz: "free_frames fa \<noteq> 0" by auto
  then have "unat (free_frames fa - 1) = card (free_set fa) - 1"
    using card by (simp add: unat_minus_one)
  with ok n idx show "frames_ok ((frame_set n fa)\<lparr>free_frames := free_frames fa - 1\<rparr>)"
    by (simp add: frames_ok_def free_set_frame_set)
  show "free_set ((frame_set n fa)\<lparr>free_frames := free_frames fa - 1\<rparr>) = free_set fa - {unat n}"
    by (simp add: free_set_frame_set [OF idx])
qed

lemma frames_inv_take:
  assumes inv: "frames_inv fa" and n: "unat n \<in> free_set fa"
  shows "frames_inv ((frame_set n fa)\<lparr>free_frames := free_frames fa - 1\<rparr>)"
    and "free_set ((frame_set n fa)\<lparr>free_frames := free_frames fa - 1\<rparr>) = free_set fa - {unat n}"
proof -
  have ok: "frames_ok fa" using inv by (simp add: frames_inv_def)
  have "n < total_frames fa" using n by (simp add: free_set_def word_less_nat_alt)
  with inv frames_ok_take(1) [OF ok n] show "frames_inv ((frame_set n fa)\<lparr>free_frames := free_frames fa - 1\<rparr>)"
    by (simp add: frames_inv_def frame_set_used frames_ok_index [OF ok])
qed (rule frames_ok_take [OF _ n], use inv in \<open>simp add: frames_inv_def\<close>)

section \<open>Allocation and release\<close>

lemma word_free_bit_Some:
  assumes "word_free_bit fa w = Some b"
  shows "b < 32" and "\<not> bit (fa_bitmap fa ! unat w) b" and "w * 32 + of_nat b < total_frames fa"
proof -
  have "first_idx (\<lambda>bt. fa_bitmap fa ! unat w AND push_bit bt 1 = 0
      \<and> w * 32 + of_nat bt < total_frames fa) 32 = Some b"
    using assms unfolding word_free_bit_def by (cases "fa_bitmap fa ! unat w = 0xFFFFFFFF") (simp_all only: if_True if_False option.distinct simp_thms)
  then show "b < 32" "\<not> bit (fa_bitmap fa ! unat w) b" "w * 32 + of_nat b < total_frames fa"
    unfolding first_idx_Some using bit_single by blast+
qed

lemma unat_frame_num:
  assumes "unat w < 1024" and "b < 32"
  shows "unat (w * 32 + of_nat b :: u32) = unat w * 32 + b"
proof -
  have "unat (w * 32 :: u32) = unat w * 32" using assms by (simp add: unat_word_ariths)
  moreover have "unat (of_nat b :: u32) = b" using assms by (simp add: unat_of_nat32)
  ultimately show ?thesis using assms by (subst unat_add_lem [THEN iffD1]) simp_all
qed

lemma word_free_bit_None:
  assumes "word_free_bit fa w = None" and "unat w < unat (total_frames fa) div 32"
    and "unat (total_frames fa) \<le> 32768" and "b < 32"
  shows "bit (fa_bitmap fa ! unat w) b"
proof (cases "fa_bitmap fa ! unat w = 0xFFFFFFFF")
  case True
  have "(0xFFFFFFFF :: u32) = mask 32" by (simp add: mask_eq_exp_minus_1)
  with True assms(4) show ?thesis by (simp only: bit_mask_iff) simp
next
  case False
  then have none: "first_idx (\<lambda>bt. fa_bitmap fa ! unat w AND push_bit bt 1 = 0
      \<and> w * 32 + of_nat bt < total_frames fa) 32 = None"
    using assms(1) by (simp only: word_free_bit_def if_False)
  have "unat w * 32 + b < unat (total_frames fa)" using assms(2,4) by linarith
  then have "w * 32 + of_nat b < total_frames fa"
    using unat_frame_num [of w b] assms by (simp add: word_less_nat_alt)
  then have "fa_bitmap fa ! unat w AND push_bit b 1 \<noteq> 0"
    using none assms(4) unfolding first_idx_None by blast
  then show ?thesis by (simp only: bit_single)
qed

text \<open>What a successful allocation is: the lowest-cost search found a free frame above the
  first megabyte and only that frame changes hands.\<close>

lemma frame_alloc_success:
  assumes inv: "frames_inv fa" and nz: "free_frames fa \<noteq> 0"
    and r: "frame_alloc evict fa = (p, fa')" and p: "p \<noteq> 0"
  shows "\<exists>n \<in> free_set fa. unat p = n * 4096 \<and> 256 \<le> n \<and> frames_inv fa'
     \<and> free_set fa' = free_set fa - {n} \<and> total_frames fa' = total_frames fa"
proof -
  let ?tw = "total_frames fa div 32"
  from r nz p obtain i b w where i: "i < unat ?tw" and w: "w = (search_hint fa + of_nat i) mod ?tw"
    and b: "word_free_bit fa w = Some b" and p': "p = (w * 32 + of_nat b) * 4096"
    and fa': "fa' = (frame_set (w * 32 + of_nat b) fa)\<lparr>free_frames := free_frames fa - 1, search_hint := w\<rparr>"
    by (auto simp: frame_alloc_def Let_def first_idx_Some split: option.splits)
  have le: "unat (total_frames fa) \<le> 32768" using inv by (simp add: frames_inv_def frames_ok_def)
  have tw: "unat ?tw = unat (total_frames fa) div 32" by (simp add: unat_div)
  with i have "?tw \<noteq> 0" by auto
  have wlt: "unat w < unat ?tw"
    using i by (simp add: w unat_mod)
  have w1024: "unat w < 1024" using wlt tw le by linarith
  note bs = word_free_bit_Some [OF b]
  let ?n = "w * 32 + of_nat b"
  have n: "unat ?n = unat w * 32 + b" by (rule unat_frame_num [OF w1024 bs(1)])
  have nfree: "unat ?n \<in> free_set fa"
    using bs n by (auto simp: free_set_def frame_used_def word_less_nat_alt)
  have lo: "256 \<le> unat ?n" using nfree inv by (auto simp: free_set_def frames_inv_def not_less [symmetric])
  have "unat ?n < 2 ^ 20" using nfree le by (auto simp: free_set_def)
  then have up: "unat p = unat ?n * 4096" unfolding p' by (subst unat_mult_lem [THEN iffD1]) simp_all
  have inv1: "frames_inv ((frame_set ?n fa)\<lparr>free_frames := free_frames fa - 1\<rparr>)"
    by (rule frames_inv_take [OF inv nfree])
  have "fa' = ((frame_set ?n fa)\<lparr>free_frames := free_frames fa - 1\<rparr>)\<lparr>search_hint := w\<rparr>"
    by (simp add: fa')
  moreover have "frames_inv (g\<lparr>search_hint := w\<rparr>)" if "frames_inv g" for g
    using that w1024 by (simp add: frames_inv_def frames_ok_def)
  ultimately have "frames_inv fa'" using inv1 by simp
  moreover have "free_set fa' = free_set fa - {unat ?n}"
    using frames_inv_take(2) [OF inv nfree] by (simp add: fa')
  ultimately show ?thesis using nfree lo up by (intro bexI [of _ "unat ?n"]) (simp_all add: fa')
qed

text \<open>Failure with a non-zero free count: nothing changes, and every complete bitmap word is
  full. Frames of an incomplete last word are never found.\<close>

lemma hint_reaches:
  assumes "unat (s :: u32) < 2 ^ 20" and "k < unat t" and "unat t \<le> 1024"
  shows "\<exists>i < unat t. unat ((s + of_nat i) mod t) = k"
proof -
  let ?t = "unat t"
  define j where "j = (k + (?t - unat s mod ?t)) mod ?t"
  have t: "0 < ?t" using assms by simp
  have j: "j < ?t" using t by (simp add: j_def)
  have jo: "unat (of_nat j :: u32) = j" using j assms(3) by (intro unat_of_nat32) simp
  have "unat (s + of_nat j) = unat s + j"
    using assms j jo by (subst unat_add32) simp_all
  then have "unat ((s + of_nat j) mod t) = (unat s + j) mod ?t" by (simp add: unat_mod)
  also have "\<dots> = (unat s mod ?t + (k + (?t - unat s mod ?t))) mod ?t"
    unfolding j_def by (simp only: mod_add_left_eq mod_add_right_eq)
  also have "unat s mod ?t + (k + (?t - unat s mod ?t)) = k + ?t"
    using mod_less_divisor [OF t, of "unat s"] by linarith
  also have "(k + ?t) mod ?t = k" using assms(2) by simp
  finally show ?thesis using j by blast
qed

lemma frame_alloc_failure:
  assumes inv: "frames_inv fa" and nz: "free_frames fa \<noteq> 0" and r: "frame_alloc evict fa = (0, fa')"
  shows "fa' = fa" and "\<forall>n \<in> free_set fa. unat (total_frames fa) div 32 \<le> n div 32"
proof -
  let ?tw = "total_frames fa div 32"
  have le: "unat (total_frames fa) \<le> 32768" using inv by (simp add: frames_inv_def frames_ok_def)
  have tw: "unat ?tw = unat (total_frames fa) div 32" by (simp add: unat_div)
  have none: "first_idx (\<lambda>i. word_free_bit fa ((search_hint fa + of_nat i) mod ?tw) \<noteq> None) (unat ?tw) = None"
  proof (rule ccontr)
    assume "\<not> ?thesis"
    then obtain i where i: "first_idx (\<lambda>i. word_free_bit fa ((search_hint fa + of_nat i) mod ?tw) \<noteq> None) (unat ?tw) = Some i"
      by auto
    let ?w = "(search_hint fa + of_nat i) mod ?tw"
    from i have i': "i < unat ?tw" and "word_free_bit fa ?w \<noteq> None" unfolding first_idx_Some by blast+
    then obtain b where b: "word_free_bit fa ?w = Some b" by blast
    have "unat ?w < unat ?tw" using i' by (simp add: unat_mod)
    then have w: "unat ?w < 1024" using tw le by linarith
    note bs = word_free_bit_Some [OF b]
    have n: "unat (?w * 32 + of_nat b) = unat ?w * 32 + b" by (rule unat_frame_num [OF w bs(1)])
    have "\<not> frame_used fa (unat ?w * 32 + b)" using bs by (simp add: frame_used_def)
    then have "256 \<le> unat ?w * 32 + b" using inv by (auto simp: frames_inv_def not_less [symmetric])
    moreover have "(?w * 32 + of_nat b) * 4096 = 0" using r nz i b by (simp add: frame_alloc_def Let_def)
    moreover have "unat ((?w * 32 + of_nat b) * 4096) = unat (?w * 32 + of_nat b) * 4096"
      using n w bs(1) by (subst unat_mult_lem [THEN iffD1]) simp_all
    ultimately show False using n by simp
  qed
  then show "fa' = fa" using r nz by (simp add: frame_alloc_def Let_def)
  show "\<forall>n \<in> free_set fa. unat (total_frames fa) div 32 \<le> n div 32"
  proof (rule ccontr)
    assume "\<not> ?thesis"
    then obtain n where n: "n \<in> free_set fa" "n div 32 < unat ?tw" by (auto simp: tw not_le)
    obtain i where i: "i < unat ?tw" "unat ((search_hint fa + of_nat i) mod ?tw) = n div 32"
    proof -
      have h: "unat (search_hint fa) < 2 ^ 20" using inv by (simp add: frames_inv_def)
      have t: "unat ?tw \<le> 1024" using tw le by linarith
      show ?thesis using hint_reaches [OF h n(2) t] that by blast
    qed
    then have "word_free_bit fa ((search_hint fa + of_nat i) mod ?tw) = None"
      using none unfolding first_idx_None by blast
    then have "bit (fa_bitmap fa ! (n div 32)) (n mod 32)"
      using word_free_bit_None [of fa _ "n mod 32"] i n(2) tw le by (metis mod_less_divisor zero_less_numeral)
    then show False using n(1) by (simp add: free_set_def frame_used_def)
  qed
qed

lemma frame_free_cases:
  assumes inv: "frames_inv fa"
  shows "frames_inv (frame_free p fa)"
    and "free_set (frame_free p fa) =
      (if 256 \<le> unat p div 4096 \<and> unat p div 4096 < unat (total_frames fa)
       then insert (unat p div 4096) (free_set fa) else free_set fa)"
    and "total_frames (frame_free p fa) = total_frames fa"
proof -
  let ?n = "p div 4096"
  have n: "unat ?n = unat p div 4096" by (simp add: unat_div)
  have ok: "frames_ok fa" using inv by (simp add: frames_inv_def)
  show "total_frames (frame_free p fa) = total_frames fa" by (simp add: frame_free_def Let_def)
  show "frames_inv (frame_free p fa)" and "free_set (frame_free p fa) =
      (if 256 \<le> unat p div 4096 \<and> unat p div 4096 < unat (total_frames fa)
       then insert (unat p div 4096) (free_set fa) else free_set fa)"
  proof (atomize (full), cases "256 \<le> unat ?n \<and> ?n < total_frames fa \<and> frame_used fa (unat ?n)")
    case True
    note idx = frames_ok_index [OF ok, of ?n]
    have fs: "free_set (frame_clear ?n fa) = insert (unat ?n) (free_set fa)"
      using True idx by (intro free_set_frame_clear) simp_all
    have "unat ?n \<notin> free_set fa" using True by (simp add: free_set_def)
    then have card: "card (insert (unat ?n) (free_set fa)) = Suc (unat (free_frames fa))"
      using ok by (simp add: frames_ok_def)
    have "insert (unat ?n) (free_set fa) \<subseteq> {..<32768}"
      using True ok by (auto simp: free_set_def frames_ok_def word_less_nat_alt)
    then have "card (insert (unat ?n) (free_set fa)) \<le> 32768"
      using card_mono [of "{..<32768::nat}"] by simp
    with card have cnt: "unat (free_frames fa + 1) = card (insert (unat ?n) (free_set fa))"
      by (subst unat_add32) simp_all
    have low: "\<forall>k<256. frame_used (frame_clear ?n fa) k"
      using inv True idx by (auto simp: frame_clear_used frames_inv_def)
    have "unat ?n \<le> 32768" using True ok by (simp add: frames_ok_def word_less_nat_alt)
    then have "unat ?n div 32 < 2 ^ 20" by (intro le_less_trans [OF div_le_dividend]) simp
    then have "unat (?n div 32) < 2 ^ 20" by (simp add: unat_div)
    then show "frames_inv (frame_free p fa) \<and> free_set (frame_free p fa) =
      (if 256 \<le> unat p div 4096 \<and> unat p div 4096 < unat (total_frames fa)
       then insert (unat p div 4096) (free_set fa) else free_set fa)"
      using True inv fs cnt low
      by (simp add: frame_free_def Let_def frames_inv_def frames_ok_def frame_test_used n
          word_less_nat_alt word_le_nat_alt unat_div)
  next
    case False
    then have same: "frame_free p fa = fa"
      by (auto simp: frame_free_def Let_def frame_test_used word_less_nat_alt word_le_nat_alt not_le)
    show "frames_inv (frame_free p fa) \<and> free_set (frame_free p fa) =
      (if 256 \<le> unat p div 4096 \<and> unat p div 4096 < unat (total_frames fa)
       then insert (unat p div 4096) (free_set fa) else free_set fa)"
      unfolding same using inv False
      by (auto simp: n word_less_nat_alt free_set_def)
  qed
qed

text \<open>Reserving: the reserved frames leave the free set, whatever their state was.\<close>

lemma reserve_one_ok:
  assumes ok: "frames_ok fa" and n: "n < total_frames fa"
  shows "frames_ok (reserve_one n fa)" and "free_set (reserve_one n fa) = free_set fa - {unat n}"
    and "total_frames (reserve_one n fa) = total_frames fa"
    and "search_hint (reserve_one n fa) = search_hint fa"
    and "frame_used fa k \<Longrightarrow> frame_used (reserve_one n fa) k"
proof -
  note idx = frames_ok_index [OF ok n]
  have *: "frames_ok (reserve_one n fa) \<and> free_set (reserve_one n fa) = free_set fa - {unat n}"
  proof (cases "frame_used fa (unat n)")
    case True
    then show ?thesis using ok by (auto simp: reserve_one_def frame_test_used free_set_def)
  next
    case False
    then have mem: "unat n \<in> free_set fa" using n by (simp add: free_set_def word_less_nat_alt)
    show ?thesis using frames_ok_take [OF ok mem] False
      by (simp add: reserve_one_def frame_test_used)
  qed
  then show "frames_ok (reserve_one n fa)" "free_set (reserve_one n fa) = free_set fa - {unat n}" by auto
  show "total_frames (reserve_one n fa) = total_frames fa" "search_hint (reserve_one n fa) = search_hint fa"
    by (simp_all add: reserve_one_def Let_def)
  show "frame_used fa k \<Longrightarrow> frame_used (reserve_one n fa) k"
    by (simp add: reserve_one_def Let_def frame_set_used [OF idx])
qed

lemma reserve_loop_ok:
  assumes "frames_ok fa" and "unat pa = f * 4096" and "f + n \<le> 2 ^ 20"
  shows "frames_ok (reserve_loop n pa fa) \<and> free_set (reserve_loop n pa fa) = free_set fa - {f..<f + n}
    \<and> total_frames (reserve_loop n pa fa) = total_frames fa
    \<and> search_hint (reserve_loop n pa fa) = search_hint fa
    \<and> (\<forall>k. frame_used fa k \<longrightarrow> frame_used (reserve_loop n pa fa) k)"
  using assms
proof (induction n arbitrary: pa fa f)
  case 0
  then show ?case by simp
next
  case (Suc n)
  have fn: "unat (pa div 4096) = f" using Suc.prems(2) by (simp add: unat_div)
  show ?case
  proof (cases "pa div 4096 \<ge> total_frames fa")
    case True
    then have "{f..<f + Suc n} \<inter> free_set fa = {}" using fn by (auto simp: free_set_def word_le_nat_alt)
    with True Suc.prems show ?thesis by auto
  next
    case False
    note one = reserve_one_ok [OF Suc.prems(1), of "pa div 4096"]
    show ?thesis
    proof (cases n)
      case 0
      then show ?thesis using one False fn by auto
    next
      case (Suc m)
      have "unat (pa + 4096) = (f + 1) * 4096"
        using Suc Suc.prems by (subst unat_add32) simp_all
      moreover have "free_set fa - {f} - {f + 1..<f + 1 + n} = free_set fa - {f..<f + Suc n}" by auto
      ultimately show ?thesis
        using Suc.IH [of "reserve_one (pa div 4096) fa" "pa + 4096" "f + 1"] one False fn Suc.prems
        by (simp add: not_le Let_def)
    qed
  qed
qed

section \<open>Reserved physical ranges\<close>

lemma unat_page_floor: "unat (a AND 0xFFFFF000 :: u32) = unat a div 4096 * 4096"
proof -
  have "(0xFFFFF000 :: u32) = NOT (mask 12)" by (simp add: mask_eq_exp_minus_1)
  moreover have "a AND NOT (mask 12) = push_bit 12 (drop_bit 12 a)"
    by (rule bit_word_eqI) (auto simp: bit_simps)
  ultimately have "a AND 0xFFFFF000 = push_bit 12 (drop_bit 12 a)" by simp
  moreover have "unat (push_bit 12 (drop_bit 12 a)) = unat a div 4096 * 4096"
  proof -
    have "unat (drop_bit 12 a) = unat a div 4096" by (simp add: drop_bit_eq_div unat_div)
    moreover have "unat a div 4096 * 4096 < 2 ^ 32"
      using le_less_trans [OF div_times_less_eq_dividend unat_less32, of a 4096] by simp
    ultimately show ?thesis by (simp add: push_bit_eq_mult unat_mul32)
  qed
  ultimately show ?thesis by simp
qed

lemma unat_page_up:
  "unat a \<le> 0xFFFFF000 \<Longrightarrow> unat (page_up a) = (unat a + 4095) div 4096 * 4096"
  unfolding page_up_def unat_page_floor
  by (subst add_diff_eq [symmetric], subst unat_add32) simp_all

lemma vmm_reserve_phys_range_ok:
  assumes ok: "frames_ok fa" and hi: "unat phys_end \<le> 0xFFFFF000"
  assumes fa'_def: "fa' = vmm_reserve_phys_range phys_start phys_end fa"
  shows "frames_ok fa' \<and> total_frames fa' = total_frames fa \<and> search_hint fa' = search_hint fa
    \<and> free_set fa' = (if phys_start < phys_end
         then free_set fa - {unat phys_start div 4096 ..< (unat phys_end + 4095) div 4096} else free_set fa)
    \<and> (\<forall>k. frame_used fa k \<longrightarrow> frame_used fa' k)"
proof (cases "phys_start < phys_end")
  case False
  then show ?thesis using ok by (simp add: fa'_def vmm_reserve_phys_range_def not_less)
next
  case True
  let ?f = "unat phys_start div 4096" and ?g = "(unat phys_end + 4095) div 4096"
  have fg: "?f \<le> ?g" using True by (intro div_le_mono) (simp add: word_less_nat_alt)
  have cnt: "(unat (page_up phys_end) - unat (phys_start AND 0xFFFFF000)) div 4096 = ?g - ?f"
    by (simp add: unat_page_up [OF hi] unat_page_floor flip: diff_mult_distrib)
  have "?g \<le> 2 ^ 20" using hi by simp
  then have "frames_ok fa' \<and> free_set fa' = free_set fa - {?f..<?f + (?g - ?f)}
      \<and> total_frames fa' = total_frames fa \<and> search_hint fa' = search_hint fa
      \<and> (\<forall>k. frame_used fa k \<longrightarrow> frame_used fa' k)"
    unfolding fa'_def vmm_reserve_phys_range_def using True fg
    by (simp only: cnt not_le [symmetric] if_False simp_thms)
      (intro reserve_loop_ok [OF ok], simp_all add: unat_page_floor)
  then show ?thesis using True fg by simp
qed

section \<open>Runs of frames\<close>

lemma take_frames_ok:
  assumes "frames_ok fa" and "unat i = f" and "{f..<f + n} \<subseteq> free_set fa"
  shows "frames_ok (take_frames n i fa) \<and> free_set (take_frames n i fa) = free_set fa - {f..<f + n}
    \<and> total_frames (take_frames n i fa) = total_frames fa
    \<and> search_hint (take_frames n i fa) = search_hint fa
    \<and> (\<forall>k. frame_used (take_frames n i fa) k \<longleftrightarrow> frame_used fa k \<or> k \<in> {f..<f + n})"
  using assms
proof (induction n arbitrary: i fa f)
  case 0
  then show ?case by simp
next
  case (Suc n)
  let ?fa = "(frame_set i fa)\<lparr>free_frames := free_frames fa - 1\<rparr>"
  have mem: "unat i \<in> free_set fa" using Suc.prems(2,3) by auto
  note one = frames_ok_take [OF Suc.prems(1) mem]
  have lt: "unat i < 32768" using mem Suc.prems(1) by (auto simp: free_set_def frames_ok_def)
  then have i1: "unat (i + 1) = f + 1" using Suc.prems(2) by (subst unat_add32) simp_all
  have "{f + 1..<f + 1 + n} \<subseteq> free_set ?fa" unfolding one(2) using Suc.prems(2,3) by auto
  note ih = Suc.IH [OF one(1) i1 this]
  have "free_set fa - {f} - {f + 1..<f + 1 + n} = free_set fa - {f..<f + Suc n}" by auto
  moreover have "unat i div 32 < length (fa_bitmap fa)"
    using mem Suc.prems(1) by (auto simp: free_set_def frames_ok_def)
  ultimately show ?case using ih one(2) Suc.prems(2) by (auto simp: frame_set_used)
qed

lemma take_frames_inv:
  assumes inv: "frames_inv fa" and run: "{unat i..<unat i + n} \<subseteq> free_set fa"
  shows "frames_inv (take_frames n i fa)" "total_frames (take_frames n i fa) = total_frames fa"
    "free_set (take_frames n i fa) = free_set fa - {unat i..<unat i + n}"
  using take_frames_ok [OF _ refl run] inv by (simp_all add: frames_inv_def)

text \<open>The scan keeps a run of free frames that ends right before its position.\<close>

lemma contiguous_scan_ok:
  assumes inv: "frames_inv fa" and "unat i + n = unat (total_frames fa)" and "256 \<le> unat i"
    and "rl < count" and "unat rl \<noteq> 0 \<Longrightarrow> unat rs + unat rl = unat i \<and> 256 \<le> unat rs"
    and "unat rl \<noteq> 0 \<Longrightarrow> {unat rs..<unat i} \<subseteq> free_set fa"
    and "contiguous_scan n i rs rl count fa = (p, fa')"
  shows "(p = 0 \<and> fa' = fa) \<or> (\<exists>f. unat p = f * 4096 \<and> 256 \<le> f \<and> {f..<f + unat count} \<subseteq> free_set fa
     \<and> frames_inv fa' \<and> free_set fa' = free_set fa - {f..<f + unat count} \<and> total_frames fa' = total_frames fa)"
  using assms(2-)
proof (induction n arbitrary: i rs rl)
  case 0
  then show ?case by simp
next
  case (Suc n)
  have le: "unat (total_frames fa) \<le> 32768" using inv by (simp add: frames_inv_def frames_ok_def)
  then have i1: "unat (i + 1) = unat i + 1" using Suc.prems(1) by (subst unat_add32) simp_all
  then have pos: "unat (i + 1) + n = unat (total_frames fa)" "256 \<le> unat (i + 1)"
    using Suc.prems(1,2) by simp_all
  show ?case
  proof (cases "frame_used fa (unat i)")
    case True
    have "(0 :: u32) < count" using Suc.prems(3) by (simp add: word_less_nat_alt)
    then show ?thesis using Suc.IH [OF pos, of 0 rs] Suc.prems(6) True by (simp add: frame_test_used)
  next
    case False
    define s where "s = (if rl = 0 then i else rs)"
    have rl1: "unat (rl + 1) = unat rl + 1"
    proof -
      have "unat rl < unat count" using Suc.prems(3) by (simp add: word_less_nat_alt)
      then have "unat rl + 1 < 4294967296" using unat_less32 [of count] by linarith
      then show ?thesis by (subst unat_add32) simp_all
    qed
    have run: "unat s + unat (rl + 1) = unat (i + 1)" "256 \<le> unat s"
      using Suc.prems(2,4) by (auto simp: s_def i1 rl1 unat_eq_0)
    have "unat i \<in> free_set fa" using False Suc.prems(1) by (simp add: free_set_def)
    then have sub: "{unat s..<unat (i + 1)} \<subseteq> free_set fa"
      using Suc.prems(4,5) by (auto simp: s_def i1 unat_eq_0 less_Suc_eq subset_eq)
    have step: "(if rl + 1 = count then (s * 4096, take_frames (unat count) s fa)
        else contiguous_scan n (i + 1) s (rl + 1) count fa) = (p, fa')"
      using Suc.prems(6) False by (simp add: frame_test_used s_def Let_def split: if_splits)
    show ?thesis
    proof (cases "rl + 1 = count")
      case True
      have sub': "{unat s..<unat s + unat count} \<subseteq> free_set fa" using sub run True by simp
      have "unat s < 32768" using run(1) rl1 pos(1) le by simp
      then have "unat (s * 4096) = unat s * 4096" by (subst unat_mul32) simp_all
      then show ?thesis using take_frames_inv [OF inv sub'] step True sub' run(2) by auto
    next
      case no: False
      have "unat (rl + 1) \<le> unat count" using Suc.prems(3) rl1 by (simp add: word_less_nat_alt)
      then have lt: "rl + 1 < count" using no by (simp add: less_le word_le_nat_alt)
      show ?thesis using Suc.IH [OF pos lt, of s] run sub step no by auto
    qed
  qed
qed

lemma frame_alloc_contiguous_ok:
  assumes inv: "frames_inv fa" and r: "frame_alloc_contiguous count fa = (p, fa')"
  shows "(p = 0 \<and> fa' = fa) \<or> (\<exists>f. unat p = f * 4096 \<and> 256 \<le> f \<and> {f..<f + unat count} \<subseteq> free_set fa
     \<and> frames_inv fa' \<and> free_set fa' = free_set fa - {f..<f + unat count} \<and> total_frames fa' = total_frames fa)"
proof (cases "count = 0 \<or> count > free_frames fa \<or> total_frames fa \<le> 256")
  case True
  then show ?thesis using r by (auto simp: frame_alloc_contiguous_def word_le_nat_alt split: if_splits)
next
  case False
  then show ?thesis using r contiguous_scan_ok [OF inv, of 256 "unat (total_frames fa) - 256" 0 count 0 p fa']
    by (auto simp: frame_alloc_contiguous_def word_le_nat_alt word_less_nat_alt unat_gt_0 not_le)
qed

section \<open>Initialisation\<close>

lemma frame_alloc_init_ok:
  assumes mem: "unat total_ram_bytes \<ge> 2 ^ 20"
  defines "tot \<equiv> min 32768 (unat total_ram_bytes div 4096)"
  shows "frames_inv (frame_alloc_init kernel_end total_ram_bytes)
    \<and> unat (total_frames (frame_alloc_init kernel_end total_ram_bytes)) = tot
    \<and> free_set (frame_alloc_init kernel_end total_ram_bytes) = {max 256 (unat kernel_end div 4096 + 2)..<tot}"
proof -
  define t where "t = (if total_ram_bytes div 4096 > 32768 then 32768 else total_ram_bytes div 4096)"
  have ut: "unat t = tot" by (auto simp: t_def tot_def word_less_nat_alt unat_div min_def)
  have tot: "256 \<le> tot" "tot \<le> 32768" using mem div_le_mono [OF mem, of 4096] by (auto simp: tot_def)
  define fa0 where "fa0 = \<lparr>fa_bitmap = replicate 1024 (0 :: u32), total_frames = t, free_frames = t, search_hint = 0\<rparr>"
  have unused: "\<not> frame_used fa0 k" if "k < 32768" for k
    using that by (simp add: fa0_def frame_used_def)
  then have fs0: "free_set fa0 = {..<tot}" using ut tot by (auto simp: free_set_def fa0_def)
  then have ok0: "frames_ok fa0" using ut tot by (simp add: frames_ok_def fs0) (simp add: fa0_def ut)
  have one: "{0..<0 + 256} \<subseteq> free_set fa0" using tot by (auto simp: fs0)
  define fa1 where "fa1 = take_frames 256 0 fa0"
  have f1: "frames_ok fa1" "free_set fa1 = {256..<tot}" "total_frames fa1 = t"
    "\<forall>k. frame_used fa1 k \<longleftrightarrow> frame_used fa0 k \<or> k < 256"
  proof -
    have "total_frames fa0 = t" by (simp add: fa0_def)
    then show "frames_ok fa1" "free_set fa1 = {256..<tot}" "total_frames fa1 = t"
      "\<forall>k. frame_used fa1 k \<longleftrightarrow> frame_used fa0 k \<or> k < 256"
      using take_frames_ok [OF ok0 unat_0 one] by (auto simp: fa1_def fs0)
  qed
  define ke where "ke = kernel_end div 4096 + 1"
  have "unat (kernel_end div 4096) < 2 ^ 20"
    using unat_less32 [of kernel_end] by (simp add: unat_div div_less_iff_less_mult del: unat_less32)
  then have ke: "unat ke = unat kernel_end div 4096 + 1" "unat ke \<le> 2 ^ 20"
    unfolding ke_def by (simp_all add: unat_add32 unat_div)
  define m where "m = min (unat ke + 1) (unat t) - 256"
  have "{256..<256 + m} \<subseteq> free_set fa1" using tot ut by (auto simp: f1 m_def)
  note tf = take_frames_ok [OF f1(1) _ this, of 256]
  have init: "frame_alloc_init kernel_end total_ram_bytes = (take_frames m 256 fa1)\<lparr>search_hint := ke div 32\<rparr>"
    unfolding frame_alloc_init_def Let_def t_def [symmetric] fa0_def [symmetric] fa1_def [symmetric]
      ke_def [symmetric] m_def [symmetric] by (rule refl)
  have "unat ke div 32 < 2 ^ 20" using ke(2) div_le_mono [OF ke(2), of 32] by simp
  moreover have "frames_ok (fa\<lparr>search_hint := x\<rparr>) = frames_ok fa" for fa x by (simp add: frames_ok_def)
  moreover have "{256..<tot} - {256..<256 + m} = {max 256 (unat kernel_end div 4096 + 2)..<tot}"
    using ut by (auto simp: m_def ke)
  ultimately show ?thesis unfolding init frames_inv_def using tf f1 by (simp add: unat_div ut)
qed

section \<open>Sources of pages\<close>

text \<open>What the page tables, the slab allocator and the heap rely on: a page that is handed out
  was available, is not available until it is given back, and 0 means that nothing changed. A
  client is a sequence of requests that gives back only pages it holds.\<close>

datatype page_request = Get_page | Put_page nat

fun run_pages :: "('s \<Rightarrow> u32 \<times> 's) \<Rightarrow> (u32 \<Rightarrow> 's \<Rightarrow> 's) \<Rightarrow> page_request list \<Rightarrow> u32 list \<times> 's \<Rightarrow> u32 list \<times> 's" where
  "run_pages get put [] c = c"
| "run_pages get put (Get_page # rs) (held, s) =
     (case get s of (p, s) \<Rightarrow> run_pages get put rs (if p = 0 then held else p # held, s))"
| "run_pages get put (Put_page i # rs) (held, s) =
     (if i < length held then run_pages get put rs (take i held @ drop (Suc i) held, put (held ! i) s)
      else run_pages get put rs (held, s))"

locale page_source =
  fixes get :: "'s \<Rightarrow> u32 \<times> 's" and put :: "u32 \<Rightarrow> 's \<Rightarrow> 's" and ok :: "'s \<Rightarrow> bool" and avail :: "'s \<Rightarrow> u32 set"
    and valid :: "'s \<Rightarrow> u32 set"
  assumes get_law: "ok s \<Longrightarrow> get s = (p, s') \<Longrightarrow>
      ok s' \<and> valid s' = valid s \<and> (if p = 0 then avail s' = avail s
        else p \<in> valid s \<and> p \<in> avail s \<and> avail s' = avail s - {p})"
    and put_law: "ok s \<Longrightarrow> p \<in> valid s \<Longrightarrow> p \<notin> avail s \<Longrightarrow> ok (put p s) \<and> valid (put p s) = valid s \<and> avail (put p s) = insert p (avail s)"
begin

definition fair :: "u32 set \<Rightarrow> u32 list \<times> 's \<Rightarrow> bool" where
  "fair tp c \<longleftrightarrow> ok (snd c) \<and> distinct (fst c) \<and> set (fst c) \<subseteq> valid (snd c)
     \<and> set (fst c) \<inter> avail (snd c) = {} \<and> set (fst c) \<union> avail (snd c) = tp"

lemma fair_get:
  assumes "fair tp (held, s)" and "get s = (p, s')"
  shows "fair tp (if p = 0 then held else p # held, s')"
  using get_law [of s p s'] assms by (auto simp: fair_def split: if_splits)

lemma split_nth: "i < length xs \<Longrightarrow> xs = take i xs @ xs ! i # drop (Suc i) xs"
  by (simp add: id_take_nth_drop)

lemma fair_put:
  assumes f: "fair tp (held, s)" and i: "i < length held"
  shows "fair tp (take i held @ drop (Suc i) held, put (held ! i) s)"
proof -
  define a x b where "a = take i held" and "x = held ! i" and "b = drop (Suc i) held"
  have "held = a @ x # b" using split_nth [OF i] by (simp add: a_def x_def b_def)
  with f put_law [of s x] have "fair tp (a @ b, put x s)" by (auto simp: fair_def)
  then show ?thesis by (simp add: a_def x_def b_def)
qed

lemma fair_run: "fair tp c \<Longrightarrow> fair tp (run_pages get put rs c)"
proof (induction rs arbitrary: c)
  case (Cons r rs)
  obtain held s where c: "c = (held, s)" by fastforce
  show ?case
  proof (cases r)
    case Get_page
    obtain p s' where g: "get s = (p, s')" by fastforce
    show ?thesis using Cons.IH [OF fair_get [OF Cons.prems [unfolded c] g]] by (simp add: Get_page c g)
  next
    case (Put_page i)
    then show ?thesis using Cons fair_put c by auto
  qed
qed simp

lemma run_distinct:
  assumes "ok s" and "run_pages get put rs ([], s) = (held, s')"
  shows "ok s' \<and> distinct held \<and> set held \<inter> avail s' = {} \<and> set held \<union> avail s' = avail s"
  using fair_run [of "avail s" "([], s)" rs] assms by (simp add: fair_def)

end

definition page_at :: "nat \<Rightarrow> u32" where
  "page_at n = KERNEL_BASE + of_nat (n * 4096)"

definition free_pages :: "frame_allocator \<Rightarrow> u32 set" where
  "free_pages fa = page_at ` free_set fa"

definition managed_pages :: "frame_allocator \<Rightarrow> u32 set" where
  "managed_pages fa = page_at ` {256..<unat (total_frames fa)}"

lemma unat_page_at: "n < 32768 \<Longrightarrow> unat (page_at n) = 0xC0000000 + n * 4096"
  unfolding page_at_def by (subst unat_add32) (simp_all add: unat_of_nat32 del: of_nat_mult)

lemma inj_page_at: "inj_on page_at {..<32768}"
  by (rule inj_onI) (metis add_left_cancel lessThan_iff mult_cancel2 unat_page_at zero_neq_numeral)

lemma vmm_kfree_page_at:
  assumes inv: "frames_inv fa" and n: "256 \<le> n" "n < unat (total_frames fa)"
  shows "frames_inv (vmm_kfree_page (page_at n) fa)"
    and "free_set (vmm_kfree_page (page_at n) fa) = insert n (free_set fa)"
    and "total_frames (vmm_kfree_page (page_at n) fa) = total_frames fa"
proof -
  have "n < 32768" using n inv by (simp add: frames_inv_def frames_ok_def)
  note u = unat_page_at [OF this]
  have ge: "\<not> page_at n < 0xC0000000" "page_at n \<noteq> 0" using u by (auto simp: word_less_nat_alt)
  have "unat (page_at n - 0xC0000000) = n * 4096" using u by (subst unat_sub32) simp_all
  then show "frames_inv (vmm_kfree_page (page_at n) fa)"
      "free_set (vmm_kfree_page (page_at n) fa) = insert n (free_set fa)"
      "total_frames (vmm_kfree_page (page_at n) fa) = total_frames fa"
    using ge n frame_free_cases [OF inv, of "page_at n - 0xC0000000"] by (simp_all add: vmm_kfree_page_def)
qed

lemma vmm_kmalloc_page_cases:
  assumes inv: "frames_inv fa" and r: "vmm_kmalloc_page (\<lambda>fa. (0, fa)) fa = (p, fa')"
  shows "(p = 0 \<and> fa' = fa) \<or> (\<exists>n \<in> free_set fa. p = page_at n \<and> 256 \<le> n \<and> frames_inv fa'
     \<and> free_set fa' = free_set fa - {n} \<and> total_frames fa' = total_frames fa)"
proof -
  obtain f g where fg: "frame_alloc (\<lambda>fa. (0, fa)) fa = (f, g)" by fastforce
  show ?thesis
  proof (cases "f = 0")
    case True
    then have "g = fa" using fg frame_alloc_failure(1) [OF inv] by (cases "free_frames fa = 0") (auto simp: frame_alloc_def)
    then show ?thesis using r fg True by (simp add: vmm_kmalloc_page_def)
  next
    case False
    then have "free_frames fa \<noteq> 0" using fg by (auto simp: frame_alloc_def)
    from frame_alloc_success [OF inv this fg False] obtain n where
      n: "n \<in> free_set fa" "unat f = n * 4096" "256 \<le> n" "frames_inv g" "free_set g = free_set fa - {n}"
      "total_frames g = total_frames fa" by blast
    then have "f = of_nat (n * 4096)" by (metis unat_of_nat32 word_nat_cases unat_less32 of_nat_unat ucast_id)
    with r fg False n show ?thesis by (auto simp: vmm_kmalloc_page_def page_at_def)
  qed
qed

interpretation vmm_pages: page_source "vmm_kmalloc_page (\<lambda>fa. (0, fa))" vmm_kfree_page frames_inv free_pages managed_pages
proof unfold_locales
  fix s p s'
  assume inv: "frames_inv s" and r: "vmm_kmalloc_page (\<lambda>fa. (0, fa)) s = (p, s')"
  have le: "free_set s \<subseteq> {..<32768}" using inv by (auto simp: free_set_def frames_inv_def frames_ok_def)
  consider "p = 0" "s' = s" | n where "n \<in> free_set s" "p = page_at n" "256 \<le> n" "frames_inv s'"
      "free_set s' = free_set s - {n}" "total_frames s' = total_frames s"
    using vmm_kmalloc_page_cases [OF inv r] by blast
  then show "frames_inv s' \<and> managed_pages s' = managed_pages s \<and> (if p = 0 then free_pages s' = free_pages s
      else p \<in> managed_pages s \<and> p \<in> free_pages s \<and> free_pages s' = free_pages s - {p})"
  proof cases
    case 2
    have "p \<noteq> 0" using unat_page_at [of n] le 2 by auto
    moreover have "page_at ` (free_set s - {n}) = page_at ` free_set s - {page_at n}"
      using inj_on_image_set_diff [OF inj_page_at, of "free_set s" "{n}"] le 2(1) by auto
    ultimately show ?thesis using 2 by (auto simp: managed_pages_def free_pages_def free_set_def)
  qed (use inv in simp)
next
  fix s p
  assume inv: "frames_inv s" and "p \<in> managed_pages s"
  then obtain n where n: "256 \<le> n" "n < unat (total_frames s)" "p = page_at n" by (auto simp: managed_pages_def)
  from vmm_kfree_page_at [OF inv n(1,2)]
  show "frames_inv (vmm_kfree_page p s) \<and> managed_pages (vmm_kfree_page p s) = managed_pages s
      \<and> free_pages (vmm_kfree_page p s) = insert p (free_pages s)"
    by (simp add: n(3) managed_pages_def free_pages_def)
qed

section \<open>Properties\<close>

lemma boot_frames: "frames_inv (frame_alloc_init 0x300000 0x2000000)"
  "free_set (frame_alloc_init 0x300000 0x2000000) = {770..<8192}"
  "unat (total_frames (frame_alloc_init 0x300000 0x2000000)) = 8192"
  using frame_alloc_init_ok [of "0x2000000" "0x300000"] by simp_all





text \<open>\<open>frame_alloc_contiguous\<close> returns 0 and changes nothing, or takes exactly a run of
  \<open>count\<close> frames that were all free, at or above frame 256, and returns its first address.\<close>

theorem frame_alloc_contiguous_spec:
  assumes "frames_inv fa" and "frame_alloc_contiguous count fa = (p, fa')"
  shows "(p = 0 \<and> fa' = fa) \<or> (\<exists>f. unat p = f * 4096 \<and> 256 \<le> f \<and> {f..<f + unat count} \<subseteq> free_set fa
     \<and> frames_inv fa' \<and> free_set fa' = free_set fa - {f..<f + unat count} \<and> total_frames fa' = total_frames fa)"
  by (rule frame_alloc_contiguous_ok [OF assms])

theorem frame_alloc_contiguous_spec_witness:
  "\<exists>p fa'. frame_alloc_contiguous 16 (frame_alloc_init 0x300000 0x2000000) = (p, fa')
     \<and> (p \<noteq> 0 \<longrightarrow> 770 * 4096 \<le> unat p)"
proof -
  obtain p fa' where r: "frame_alloc_contiguous 16 (frame_alloc_init 0x300000 0x2000000) = (p, fa')" by fastforce
  from frame_alloc_contiguous_spec [OF boot_frames(1) r] have "p \<noteq> 0 \<longrightarrow> 770 * 4096 \<le> unat p"
    by (auto simp: boot_frames subset_eq)
  with r show ?thesis by blast
qed

text \<open>Boot: after \<open>frame_alloc_init\<close> with at least 1 MiB of memory and a boot reservation of a
  physical range (the initial ram disk), the allocator's invariant holds and the free frames are
  exactly those above the kernel image and below the detected memory that the range does not
  touch, partially covered frames included.\<close>

theorem boot_reservation:
  assumes "unat total_ram_bytes \<ge> 2 ^ 20" and "unat phys_end \<le> 0xFFFFF000" and "phys_start < phys_end"
  shows "frames_inv (vmm_reserve_phys_range phys_start phys_end (frame_alloc_init kernel_end total_ram_bytes))
    \<and> free_set (vmm_reserve_phys_range phys_start phys_end (frame_alloc_init kernel_end total_ram_bytes))
      = {max 256 (unat kernel_end div 4096 + 2)..<min 32768 (unat total_ram_bytes div 4096)}
        - {unat phys_start div 4096..<(unat phys_end + 4095) div 4096}"
  using frame_alloc_init_ok [OF assms(1)] vmm_reserve_phys_range_ok [OF _ assms(2) refl] assms(3)
  by (simp add: frames_inv_def)

theorem boot_reservation_witness:
  "free_set (vmm_reserve_phys_range 0x400000 0x500001 (frame_alloc_init 0x300000 0x2000000))
     = {770..<8192} - {1024..<1281}"
  using boot_reservation [of "0x2000000" "0x500001" "0x400000" "0x300000"] by simp

end
