(* ===== verification/KMem.thy ===== *)
theory KMem
  imports Ctx Frames
begin

text \<open>
  Kernel memory as the C code sees it through its pointers: a byte for every 32-bit address,
  with the little-endian loads and stores that a field access of a \<open>uint32\<close> or \<open>uint16\<close>
  member amounts to, \<open>memset\<close> and \<open>memcpy\<close>. The record \<open>machine\<close> holds the memory together with the
  parts of the kernel that the allocators use: the command context, the frame allocator, and
  what the boot code left (the multiboot information, the end of its early allocations, the end
  of the kernel image). The slab and heap theories extend it with their own variables.
\<close>

type_synonym memory = "u32 \<Rightarrow> u8"

record multiboot_info =
  mbi_flags :: u32
  mem_lower :: u32
  mem_upper :: u32
  mmap_addr :: u32
  mmap_length :: u32

record machine =
  mem :: memory
  kc :: kctx
  fa :: frame_allocator
  g_mbi :: "multiboot_info option"
  early_heap_ptr :: u32
  kernel_end :: u32

definition load32 :: "memory \<Rightarrow> u32 \<Rightarrow> u32" where
  "load32 m a = ucast (m a) OR push_bit 8 (ucast (m (a + 1)))
     OR push_bit 16 (ucast (m (a + 2))) OR push_bit 24 (ucast (m (a + 3)))"

definition store32 :: "u32 \<Rightarrow> u32 \<Rightarrow> memory \<Rightarrow> memory" where
  "store32 a w m = m(a := ucast w, a + 1 := ucast (drop_bit 8 w),
     a + 2 := ucast (drop_bit 16 w), a + 3 := ucast (drop_bit 24 w))"

definition load16 :: "memory \<Rightarrow> u32 \<Rightarrow> u16" where
  "load16 m a = ucast (m a) OR push_bit 8 (ucast (m (a + 1)))"

definition store16 :: "u32 \<Rightarrow> u16 \<Rightarrow> memory \<Rightarrow> memory" where
  "store16 a w m = m(a := ucast w, a + 1 := ucast (drop_bit 8 w))"

definition load64 :: "memory \<Rightarrow> u32 \<Rightarrow> u64" where
  "load64 m a = ucast (load32 m a) OR push_bit 32 (ucast (load32 m (a + 4)))"

definition memset :: "u32 \<Rightarrow> u8 \<Rightarrow> u32 \<Rightarrow> memory \<Rightarrow> memory" where
  "memset a v n m = (\<lambda>x. if x - a < n then v else m x)"

definition memcpy :: "u32 \<Rightarrow> u32 \<Rightarrow> u32 \<Rightarrow> memory \<Rightarrow> memory" where
  "memcpy dst src n m = (\<lambda>x. if x - dst < n then m (src + (x - dst)) else m x)"

section \<open>Loads and stores\<close>

lemma load32_store32 [simp]: "load32 (store32 a w m) a = w"
  by (simp add: load32_def store32_def join32)

lemma join16:
  "(ucast (ucast w :: u8) :: u16) OR push_bit 8 (ucast (ucast (drop_bit 8 w) :: u8)) = (w :: u16)" (is "?l = w")
proof (rule bit_word_eqI)
  fix n assume n: "n < LENGTH(16)"
  have "bit ?l n \<longleftrightarrow> (n < 8 \<and> bit w n) \<or> (8 \<le> n \<and> n - 8 < 8 \<and> bit w (8 + (n - 8)))"
    using n by (auto simp: bit_simps)
  then show "bit ?l n = bit w n" using n by fastforce
qed

lemma load16_store16 [simp]: "load16 (store16 a w m) a = w"
  by (simp add: load16_def store16_def join16)

text \<open>Distances between addresses are word differences, so a byte \<open>x\<close> is outside the four
  bytes at \<open>a\<close> exactly if \<open>4 \<le> x - a\<close>.\<close>

lemma offset_ne: "(n :: u32) \<le> x - a \<Longrightarrow> k < n \<Longrightarrow> x \<noteq> a + k"
  by auto

lemma load32_upd: "4 \<le> x - a \<Longrightarrow> load32 (m(x := v)) a = load32 m a"
  using offset_ne [of 4 x a 0] offset_ne [of 4 x a 1] offset_ne [of 4 x a 2] offset_ne [of 4 x a 3]
  by (auto simp: load32_def)

lemma load32_cong: "(\<And>x. x - a < 4 \<Longrightarrow> m x = m' x) \<Longrightarrow> load32 m a = load32 m' a"
  by (simp add: load32_def)

lemma load16_cong: "(\<And>x. x - a < 2 \<Longrightarrow> m x = m' x) \<Longrightarrow> load16 m a = load16 m' a"
  by (simp add: load16_def)

lemma store32_other: "4 \<le> x - a \<Longrightarrow> store32 a w m x = m x"
  using offset_ne [of 4 x a 0] offset_ne [of 4 x a 1] offset_ne [of 4 x a 2] offset_ne [of 4 x a 3]
  by (auto simp: store32_def)

lemma store16_other: "2 \<le> x - a \<Longrightarrow> store16 a w m x = m x"
  using offset_ne [of 2 x a 0] offset_ne [of 2 x a 1]
  by (auto simp: store16_def)

definition aligned4 :: "u32 \<Rightarrow> bool" where
  "aligned4 a \<longleftrightarrow> unat a mod 4 = 0"

lemma div_mod_ext: "(i :: nat) div k = j div k \<Longrightarrow> i mod k = j mod k \<Longrightarrow> i = j"
  by (metis mult_div_mod_eq)

lemma div4_add: "(i :: nat) mod 4 = 0 \<Longrightarrow> k < 4 \<Longrightarrow> (i + k) div 4 = i div 4"
  by (auto simp: dvd_def simp flip: dvd_eq_mod_eq_0)

lemma aligned4_inside:
  assumes "aligned4 a" and "x - a < 4"
  shows "unat x div 4 = unat a div 4"
proof -
  obtain k where "unat a = 4 * k" using assms(1) unfolding aligned4_def by (metis dvd_def dvd_eq_mod_eq_0)
  moreover from this have "k < 1073741824" using unat_less32 [of a] by linarith
  ultimately have le: "unat a \<le> 4294967292" by linarith
  have lt: "unat (x - a) < 4" using assms(2) by (simp add: word_less_nat_alt)
  have "unat x = unat (a + (x - a))" by simp
  also have "\<dots> = unat a + unat (x - a)" using le lt by (subst unat_add32) simp_all
  finally show ?thesis using div4_add [OF assms(1) [unfolded aligned4_def] lt] by (simp only:)
qed

lemma aligned4_apart:
  assumes "aligned4 a" "aligned4 b" "a \<noteq> b" "x - a < 4"
  shows "4 \<le> x - b"
proof (rule ccontr)
  assume "\<not> 4 \<le> x - b"
  then have "x - b < 4" by (simp only: not_le)
  from aligned4_inside [OF assms(2) this] aligned4_inside [OF assms(1,4)]
  have "unat a div 4 = unat b div 4" by (rule trans [OF sym, rotated])
  moreover have "unat a mod 4 = unat b mod 4" using assms(1,2) by (simp only: aligned4_def)
  ultimately have "unat a = unat b" by (rule div_mod_ext)
  then have "a = b" by (rule unsigned_word_eqI)
  with assms(3) show False ..
qed

lemma load32_store32_other:
  assumes "aligned4 a" "aligned4 b" "a \<noteq> b"
  shows "load32 (store32 b w m) a = load32 m a"
  by (rule load32_cong) (simp add: store32_other aligned4_apart [OF assms])

lemma aligned4_add: "aligned4 a \<Longrightarrow> aligned4 b \<Longrightarrow> aligned4 (a + b)"
  unfolding aligned4_def unat_word_ariths by (simp add: dvd_mod flip: dvd_eq_mod_eq_0)

end
