(* ===== verification/Slab.thy ===== *)
theory Slab
  imports KMem
begin

text \<open>
  The slab allocator of \<open>src/mm/slab.c\<close> in its default configuration (freed memory is poisoned,
  no tracking counters). A slab is one 4 KiB kernel page: a header of 20 bytes
  (\<open>slab_header_t\<close>) and objects of one power-of-two size, the free ones linked through their
  first word. The header and the links live in \<open>mem\<close>; only the heads of the eight partial lists
  are variables. \<open>PANICF\<close> does not return: an operation that panics is \<open>None\<close>.
\<close>

record slab_machine = machine +
  g_slab_partial :: "u32 list"
  g_slab_inited :: bool

abbreviation (input) SLAB_MAGIC :: u32 where "SLAB_MAGIC \<equiv> 0x534C4142"
abbreviation (input) SLAB_MIN_SHIFT :: nat where "SLAB_MIN_SHIFT \<equiv> 4"
abbreviation (input) SLAB_MAX_SHIFT :: nat where "SLAB_MAX_SHIFT \<equiv> 11"
abbreviation (input) SLAB_CLASS_COUNT :: nat where "SLAB_CLASS_COUNT \<equiv> 8"
abbreviation (input) SLAB_FREE_POISON_BYTE :: u8 where "SLAB_FREE_POISON_BYTE \<equiv> 0xA5"

section \<open>The header in memory\<close>

definition h_magic :: "memory \<Rightarrow> u32 \<Rightarrow> u32" where "h_magic m h = load32 m h"
definition h_class_index :: "memory \<Rightarrow> u32 \<Rightarrow> u16" where "h_class_index m h = load16 m (h + 4)"
definition h_obj_size :: "memory \<Rightarrow> u32 \<Rightarrow> u16" where "h_obj_size m h = load16 m (h + 6)"
definition h_total_objs :: "memory \<Rightarrow> u32 \<Rightarrow> u16" where "h_total_objs m h = load16 m (h + 8)"
definition h_free_objs :: "memory \<Rightarrow> u32 \<Rightarrow> u16" where "h_free_objs m h = load16 m (h + 10)"
definition h_free_list :: "memory \<Rightarrow> u32 \<Rightarrow> u32" where "h_free_list m h = load32 m (h + 12)"
definition h_next :: "memory \<Rightarrow> u32 \<Rightarrow> u32" where "h_next m h = load32 m (h + 16)"

definition slab_align_up_u32 :: "u32 \<Rightarrow> u32 \<Rightarrow> u32" where
  "slab_align_up_u32 v align = (v + align - 1) AND NOT (align - 1)"

definition slab_header_bytes :: u32 where
  "slab_header_bytes = slab_align_up_u32 20 4"

lemma slab_header_bytes [simp]: "slab_header_bytes = 20"
  by (simp add: slab_header_bytes_def slab_align_up_u32_def)

definition slab_is_pow2_u32 :: "u32 \<Rightarrow> bool" where
  "slab_is_pow2_u32 v \<longleftrightarrow> v \<noteq> 0 \<and> v AND (v - 1) = 0"

definition slab_obj_ptr_is_valid :: "memory \<Rightarrow> u32 \<Rightarrow> u32 \<Rightarrow> bool" where
  "slab_obj_ptr_is_valid m h ptr =
     (if h = 0 \<or> ptr = 0 then False
      else if h_magic m h \<noteq> SLAB_MAGIC then False
      else if \<not> slab_is_pow2_u32 (ucast (h_obj_size m h)) then False
      else if h_obj_size m h < 16 \<or> h_obj_size m h > 2048 then False
      else
        let start = h + slab_header_bytes; limit = h + PAGE_SIZE in
        if ptr < start \<or> ptr \<ge> limit then False
        else if (ptr - start) mod ucast (h_obj_size m h) \<noteq> 0 then False
        else True)"

fun freelist_contains_from :: "nat \<Rightarrow> memory \<Rightarrow> u32 \<Rightarrow> u32 \<Rightarrow> u32 \<Rightarrow> bool" where
  "freelist_contains_from 0 m h it ptr = False"
| "freelist_contains_from (Suc n) m h it ptr =
     (if it = 0 then False
      else if it = ptr then True
      else if \<not> slab_obj_ptr_is_valid m h it then False
      else freelist_contains_from n m h (load32 m it) ptr)"

definition slab_freelist_contains :: "memory \<Rightarrow> u32 \<Rightarrow> u32 \<Rightarrow> bool" where
  "slab_freelist_contains m h ptr =
     (if h = 0 \<or> ptr = 0 then False
      else freelist_contains_from (unat (h_total_objs m h)) m h (h_free_list m h) ptr)"

section \<open>Size classes\<close>

text \<open>The index of the highest set bit, by the loop of the portable branch.\<close>

function slab_bsr32 :: "u32 \<Rightarrow> u32" where
  "slab_bsr32 v = (if v div 2 = 0 then 0 else slab_bsr32 (v div 2) + 1)"
  by auto
termination
proof (relation "measure unat")
  fix v :: u32
  assume "v div 2 \<noteq> 0"
  then have "unat (v div 2) \<noteq> 0" by (simp only: unat_eq_0 simp_thms)
  then have "unat v div 2 \<noteq> 0" by (simp add: unat_div)
  then show "(v div 2, v) \<in> measure unat" by (simp add: unat_div)
qed simp

declare slab_bsr32.simps [simp del]

definition slab_ceil_log2_u32 :: "u32 \<Rightarrow> u32" where
  "slab_ceil_log2_u32 nbytes = (if nbytes \<le> 1 then 0 else slab_bsr32 (nbytes - 1) + 1)"

definition slab_class_index_for_size :: "u32 \<Rightarrow> u32" where
  "slab_class_index_for_size nbytes =
     (let shift = slab_ceil_log2_u32 nbytes;
          shift = (if shift < 4 then 4 else shift)
      in if shift > 11 then 0xFFFFFFFF else shift - 4)"

section \<open>Operations\<close>

text \<open>The loop that builds the free list of a new page.\<close>

fun slab_build :: "u32 \<Rightarrow> u32 \<Rightarrow> nat \<Rightarrow> u32 \<Rightarrow> u32 \<Rightarrow> memory \<Rightarrow> u32 \<times> memory" where
  "slab_build base obj_size 0 i free_list m = (free_list, m)"
| "slab_build base obj_size (Suc n) i free_list m =
     (let obj = base + i * obj_size;
          m = memset obj SLAB_FREE_POISON_BYTE obj_size m;
          m = store32 obj free_list m
      in slab_build base obj_size n (i + 1) obj m)"

definition slab_new_page :: "(frame_allocator \<Rightarrow> u32 \<times> frame_allocator) \<Rightarrow> u32 \<Rightarrow> u32 \<Rightarrow> 'a slab_machine_scheme
    \<Rightarrow> u32 \<times> 'a slab_machine_scheme" where
  "slab_new_page evict class_index obj_size s =
     (case vmm_kmalloc_page evict (fa s) of (page, f) \<Rightarrow>
        let s = s\<lparr>fa := f\<rparr> in
        if page = 0 then (0, s)
        else
          let header_bytes = slab_header_bytes;
              usable = PAGE_SIZE - header_bytes;
              total = usable div obj_size
          in
          if total = 0 then (0, s\<lparr>fa := vmm_kfree_page page (fa s)\<rparr>)
          else
            let m = store32 page SLAB_MAGIC (mem s);
                m = store16 (page + 4) (ucast class_index) m;
                m = store16 (page + 6) (ucast obj_size) m;
                m = store16 (page + 8) (ucast total) m;
                m = store16 (page + 10) (ucast total) m;
                m = store32 (page + 16) 0 m;
                (free_list, m) = slab_build (page + header_bytes) obj_size (unat total) 0 0 m;
                m = store32 (page + 12) free_list m
            in (page, s\<lparr>mem := m\<rparr>))"

definition slab_init :: "'a slab_machine_scheme \<Rightarrow> 'a slab_machine_scheme" where
  "slab_init s = (if g_slab_inited s then s
     else s\<lparr>g_slab_partial := replicate SLAB_CLASS_COUNT 0, g_slab_inited := True\<rparr>)"

definition slab_owns :: "u32 \<Rightarrow> 'a slab_machine_scheme \<Rightarrow> bool" where
  "slab_owns ptr s =
     (if ptr = 0 then False
      else if ptr < KERNEL_BASE then False
      else
        let h = ptr AND PAGE_MASK in
        if h_magic (mem s) h \<noteq> SLAB_MAGIC then False
        else if h_class_index (mem s) h \<ge> 8 then False
        else if \<not> slab_is_pow2_u32 (ucast (h_obj_size (mem s) h)) then False
        else if h_obj_size (mem s) h < 16 \<or> h_obj_size (mem s) h > 2048 then False
        else True)"

text \<open>The fast path: pop an object of page \<open>h\<close> and unlink the page when that was the last one.\<close>

definition slab_pop :: "u32 \<Rightarrow> nat \<Rightarrow> 'a slab_machine_scheme \<Rightarrow> (u32 \<times> 'a slab_machine_scheme) option" where
  "slab_pop h c s =
     (let obj = h_free_list (mem s) h in
      if \<not> slab_obj_ptr_is_valid (mem s) h obj then None
      else
        let next = load32 (mem s) obj in
        if next \<noteq> 0 \<and> \<not> slab_obj_ptr_is_valid (mem s) h next then None
        else
          let m = store32 (h + 12) next (mem s);
              m = (if h_free_objs m h \<noteq> 0 then store16 (h + 10) (h_free_objs m h - 1) m else m)
          in if h_free_list m h = 0
             then Some (obj, s\<lparr>g_slab_partial := (g_slab_partial s)[c := h_next m h],
                               mem := store32 (h + 16) 0 m\<rparr>)
             else Some (obj, s\<lparr>mem := m\<rparr>))"

definition slab_alloc :: "(frame_allocator \<Rightarrow> u32 \<times> frame_allocator) \<Rightarrow> u32 \<Rightarrow> 'a slab_machine_scheme
    \<Rightarrow> (u32 \<times> 'a slab_machine_scheme) option" where
  "slab_alloc evict nbytes s =
     (let s = slab_init s in
      if vmm_get_total_frames (fa s) = 0 then Some (0, s)
      else if nbytes = 0 then Some (0, s)
      else
        let class_index = slab_class_index_for_size nbytes in
        if class_index = 0xFFFFFFFF then Some (0, s)
        else
          let c = unat class_index;
              obj_size = push_bit (SLAB_MIN_SHIFT + c) 1;
              h = g_slab_partial s ! c
          in
          if h = 0 \<or> h_free_list (mem s) h = 0 then
            (case slab_new_page evict class_index obj_size s of (h, s) \<Rightarrow>
               if h = 0 then Some (0, s)
               else slab_pop h c (s\<lparr>mem := store32 (h + 16) (g_slab_partial s ! c) (mem s),
                                    g_slab_partial := (g_slab_partial s)[c := h]\<rparr>))
          else slab_pop h c s)"

definition slab_free :: "u32 \<Rightarrow> 'a slab_machine_scheme \<Rightarrow> (bool \<times> 'a slab_machine_scheme) option" where
  "slab_free ptr s =
     (if ptr = 0 then Some (True, s)
      else if \<not> slab_owns ptr s then Some (False, s)
      else
        let h = ptr AND PAGE_MASK; class_index = h_class_index (mem s) h in
        if class_index \<ge> 8 then Some (False, s)
        else
          let c = unat class_index; obj_size = ucast (h_obj_size (mem s) h) in
          if \<not> slab_obj_ptr_is_valid (mem s) h ptr then None
          else if slab_freelist_contains (mem s) h ptr then None
          else
            let m = memset ptr SLAB_FREE_POISON_BYTE obj_size (mem s);
                m = store32 ptr (h_free_list m h) m;
                m = store32 (h + 12) ptr m;
                m = (if h_free_objs m h < h_total_objs m h
                     then store16 (h + 10) (h_free_objs m h + 1) m else m)
            in if h_free_objs m h = 1
               then Some (True, s\<lparr>mem := store32 (h + 16) (g_slab_partial s ! c) m,
                                  g_slab_partial := (g_slab_partial s)[c := h]\<rparr>)
               else Some (True, s\<lparr>mem := m\<rparr>))"

end
