(* ===== verification/Heap.thy ===== *)
theory Heap
  imports Slab "HOL-Library.Monad_Syntax"
begin

text \<open>
  The kernel heap of \<open>src/utilities/util.c\<close>: one region of memory, cut into blocks that start with
  a 16-byte header (\<open>block_header_t\<close>: size, used, next, magic) and are chained by offsets from
  \<open>heap_start\<close>. This theory holds the operations, sizing and initialisation included, as the C
  branch of the file has them (\<open>CONFIG_RUST_ALLOCATOR\<close> off), and \<open>malloc\<close>, \<open>free\<close>, \<open>realloc\<close>
  and \<open>calloc\<close>, which put the slab allocator in front. Messages printed on errors are left out.
  The loops over the chain of blocks need not end on a corrupted heap, so \<open>merge_free_blocks\<close>
  is a partial function and every operation that frees is an option; a panic of the slab
  allocator is \<open>None\<close> as well.
\<close>

record heap_machine = slab_machine +
  heap_phys_start :: u32
  heap_start :: u32
  heap_size :: u32
  first_block :: u32
  memory_initialized :: bool
  memory_errors :: u32
  allocation_count :: u32
  free_count :: u32

abbreviation (input) NO_BLOCK :: u32 where "NO_BLOCK \<equiv> 0xFFFFFFFF"
abbreviation (input) MAGIC_NUMBER :: u32 where "MAGIC_NUMBER \<equiv> 0xDEADBEEF"
abbreviation (input) BLOCK_HEADER_SIZE :: u32 where "BLOCK_HEADER_SIZE \<equiv> 16"
abbreviation (input) MIN_BLOCK_SIZE :: u32 where "MIN_BLOCK_SIZE \<equiv> 16"
abbreviation (input) HEAP_SIZE_MIN :: u32 where "HEAP_SIZE_MIN \<equiv> 0x40000"
abbreviation (input) HEAP_SIZE_MAX :: u32 where "HEAP_SIZE_MAX \<equiv> 0x1000000"
abbreviation (input) HEAP_PHYS_RESERVE_BYTES :: u32 where "HEAP_PHYS_RESERVE_BYTES \<equiv> 0x80000"

text \<open>The fields of the block header at offset \<open>b\<close>.\<close>

definition b_size :: "heap_machine \<Rightarrow> u32 \<Rightarrow> u32" where
  "b_size s b = load32 (mem s) (heap_start s + b)"
definition b_used :: "heap_machine \<Rightarrow> u32 \<Rightarrow> u32" where
  "b_used s b = load32 (mem s) (heap_start s + b + 4)"
definition b_next :: "heap_machine \<Rightarrow> u32 \<Rightarrow> u32" where
  "b_next s b = load32 (mem s) (heap_start s + b + 8)"
definition set_size :: "u32 \<Rightarrow> u32 \<Rightarrow> heap_machine \<Rightarrow> heap_machine" where
  "set_size b v s = s\<lparr>mem := store32 (heap_start s + b) v (mem s)\<rparr>"
definition set_used :: "u32 \<Rightarrow> u32 \<Rightarrow> heap_machine \<Rightarrow> heap_machine" where
  "set_used b v s = s\<lparr>mem := store32 (heap_start s + b + 4) v (mem s)\<rparr>"
definition set_next :: "u32 \<Rightarrow> u32 \<Rightarrow> heap_machine \<Rightarrow> heap_machine" where
  "set_next b v s = s\<lparr>mem := store32 (heap_start s + b + 8) v (mem s)\<rparr>"
definition set_magic :: "u32 \<Rightarrow> u32 \<Rightarrow> heap_machine \<Rightarrow> heap_machine" where
  "set_magic b v s = s\<lparr>mem := store32 (heap_start s + b + 12) v (mem s)\<rparr>"

section \<open>Guards and sizing\<close>

definition mem_ctx_allow :: "heap_machine \<Rightarrow> bool" where
  "mem_ctx_allow s \<longleftrightarrow> \<not> ctx_denies CAP_ALLOC_MEMORY (kc s)"

definition mem_ctx_account :: "heap_machine \<Rightarrow> heap_machine" where
  "mem_ctx_account s = s\<lparr>kc := ctx_account SCHED_COST_ALLOC (kc s)\<rparr>"

definition align_up_u32 :: "u32 \<Rightarrow> u32 \<Rightarrow> u32" where
  "align_up_u32 v align = (if align = 0 then v else (v + align - 1) AND NOT (align - 1))"

definition vmm_get_boot_alloc_end :: "heap_machine \<Rightarrow> u32" where
  "vmm_get_boot_alloc_end s =
     (if early_heap_ptr s = 0 then 0 else (early_heap_ptr s + PAGE_SIZE - 1) AND PAGE_MASK)"

text \<open>The walk over the multiboot memory map, 24-byte entries: size at 0, addr at 4, len at 12,
  type at 20. \<open>n\<close> counts down from the guard of 256 entries.\<close>

fun walk_mmap :: "nat \<Rightarrow> memory \<Rightarrow> u32 \<Rightarrow> u32 \<Rightarrow> u64 \<Rightarrow> u64" where
  "walk_mmap 0 m p limit max_usable_end = max_usable_end"
| "walk_mmap (Suc n) m p limit max_usable_end =
     (if \<not> p + 24 \<le> limit then max_usable_end
      else
        let entry_bytes = load32 m p + 4 in
        if entry_bytes < 24 \<or> p + entry_bytes > limit then max_usable_end
        else
          let addr = load64 m (p + 4); len = load64 m (p + 12);
              region_end = addr + len;
              region_end = (if region_end > 0x100000000 then 0x100000000 else region_end);
              max' = (if load32 m (p + 20) = 1 \<and> len \<noteq> 0 \<and> addr < 0x100000000
                        \<and> region_end > max_usable_end
                      then region_end else max_usable_end)
          in walk_mmap n m (p + entry_bytes) limit max')"

definition clamp32 :: "u64 \<Rightarrow> u32" where
  "clamp32 v = (if v > 0xFFFFFFFF then 0xFFFFFFFF else ucast v)"

definition detect_available_memory :: "heap_machine \<Rightarrow> u32" where
  "detect_available_memory s =
     (case g_mbi s of None \<Rightarrow> 32 * 1024 * 1024
      | Some mbi \<Rightarrow>
          let total_basic = (if mbi_flags mbi AND 1 \<noteq> 0
                then clamp32 ((ucast (mem_lower mbi) + ucast (mem_upper mbi)) * 1024) else 0);
              total_mmap = (if mbi_flags mbi AND 0x40 \<noteq> 0 \<and> mmap_addr mbi \<noteq> 0 \<and> mmap_length mbi \<noteq> 0
                then clamp32 (walk_mmap 256 (mem s) (mmap_addr mbi) (mmap_addr mbi + mmap_length mbi) 0) else 0);
              total = (if total_mmap > total_basic then total_mmap else total_basic)
          in if total < 1024 * 1024 then 32 * 1024 * 1024 else total)"

definition calculate_optimal_heap_size :: "heap_machine \<Rightarrow> heap_machine" where
  "calculate_optimal_heap_size s =
     (let available_ram = detect_available_memory s;
          sz = (if available_ram \<le> 4 * 1024 * 1024 then 0x100000
                else if available_ram \<le> 16 * 1024 * 1024 then 0x200000
                else if available_ram \<le> 64 * 1024 * 1024 then 0x400000
                else if available_ram \<le> 256 * 1024 * 1024 then 0x800000
                else 0x2000000);
          sz = (if available_ram \<le> 8 * 1024 * 1024
                then (if sz > available_ram div 2 then available_ram div 2 else sz)
                else (if sz > available_ram div 4 then available_ram div 4 else sz));
          sz = (if sz < HEAP_SIZE_MIN then HEAP_SIZE_MIN else sz)
      in s\<lparr>heap_size := sz\<rparr>)"

text \<open>The clamp of the heap size against the free frames, the middle part of \<open>init_memory_manager\<close>.\<close>

definition clamp_heap_size :: "u32 \<Rightarrow> u32 \<Rightarrow> u32" where
  "clamp_heap_size free_frames_before sz =
     (if free_frames_before = 0 then sz
      else
        let free_bytes_before = free_frames_before * PAGE_SIZE;
            heap_cap = (if free_bytes_before > HEAP_PHYS_RESERVE_BYTES
                        then free_bytes_before - HEAP_PHYS_RESERVE_BYTES else 0);
            sz = (if heap_cap \<ge> PAGE_SIZE then (if sz > heap_cap then heap_cap else sz) else PAGE_SIZE);
            sz = sz AND PAGE_MASK;
            sz = (if sz > HEAP_SIZE_MAX then HEAP_SIZE_MAX else sz)
        in if sz < HEAP_SIZE_MIN \<and> free_bytes_before > HEAP_PHYS_RESERVE_BYTES + HEAP_SIZE_MIN
           then HEAP_SIZE_MIN else sz)"

section \<open>Blocks\<close>

definition validate_block :: "u32 \<Rightarrow> heap_machine \<Rightarrow> bool \<times> heap_machine" where
  "validate_block offset s =
     (let block = heap_start s + offset;
          heap_begin = heap_start s;
          heap_end = heap_begin + heap_size s;
          err = (False, s\<lparr>memory_errors := memory_errors s + 1\<rparr>)
      in
      if block = 0 then err
      else if heap_begin = 0 \<or> heap_begin < 0x100000 \<or> heap_size s < HEAP_SIZE_MIN then err
      else if heap_end \<le> heap_begin then err
      else if block < heap_begin \<or> block + 16 > heap_end then err
      else if block \<noteq> heap_begin + offset then err
      else if offset \<ge> heap_size s \<or> offset + BLOCK_HEADER_SIZE > heap_size s
              \<or> offset + b_size s offset > heap_size s then err
      else if b_size s offset < BLOCK_HEADER_SIZE \<or> b_size s offset > heap_size s \<or> b_size s offset = 0 then err
      else (True, s))"

text \<open>\<open>n\<close> counts down from the limit of 100 blocks.\<close>

fun find_loop :: "nat \<Rightarrow> u32 \<Rightarrow> u32 \<Rightarrow> u32 \<Rightarrow> u32 \<Rightarrow> heap_machine \<Rightarrow> u32 \<times> heap_machine" where
  "find_loop 0 nbytes current best_fit best_size s = (best_fit, s)"
| "find_loop (Suc n) nbytes current best_fit best_size s =
     (if current = NO_BLOCK then (best_fit, s)
      else
        let blocks_checked = 100 - n;
            s = (if blocks_checked mod 8 = 0 then mem_ctx_account s else s)
        in case validate_block current s of (ok, s) \<Rightarrow>
             if \<not> ok then (NO_BLOCK, s)
             else if b_used s current = 0 \<and> b_size s current \<ge> nbytes \<and> b_size s current < best_size
             then find_loop n nbytes (b_next s current) current (b_size s current) s
             else find_loop n nbytes (b_next s current) best_fit best_size s)"

definition find_free_block :: "u32 \<Rightarrow> heap_machine \<Rightarrow> u32 \<times> heap_machine" where
  "find_free_block nbytes s = find_loop 100 nbytes (first_block s) NO_BLOCK 0xFFFFFFFF s"

definition split_block :: "u32 \<Rightarrow> u32 \<Rightarrow> heap_machine \<Rightarrow> heap_machine" where
  "split_block block_offset needed_size s =
     (if b_size s block_offset < needed_size + BLOCK_HEADER_SIZE + MIN_BLOCK_SIZE then s
      else
        let new_block_offset = block_offset + needed_size;
            new_block_size = b_size s block_offset - needed_size;
            s = set_size new_block_offset new_block_size s;
            s = set_used new_block_offset 0 s;
            s = set_next new_block_offset (b_next s block_offset) s;
            s = set_magic new_block_offset MAGIC_NUMBER s;
            s = set_size block_offset needed_size s
        in set_next block_offset new_block_offset s)"

text \<open>The inner loop of \<open>merge_free_blocks\<close>; its boolean is false if a block was invalid.\<close>

partial_function (option) merge_inner :: "u32 \<Rightarrow> heap_machine \<Rightarrow> (bool \<times> heap_machine) option" where
  "merge_inner current s =
     (if b_next s current = NO_BLOCK then Some (True, s)
      else
        let next_block = b_next s current in
        (case validate_block next_block s of (ok, s) \<Rightarrow>
           if \<not> ok then Some (False, s)
           else if b_used s current = 0 \<and> b_used s next_block = 0 then
             (let s = set_size current (b_size s current + b_size s next_block) s;
                  s = set_next current (b_next s next_block) s
              in merge_inner current s)
           else Some (True, s)))"

partial_function (option) merge_outer :: "u32 \<Rightarrow> nat \<Rightarrow> heap_machine \<Rightarrow> heap_machine option" where
  "merge_outer current blocks_checked s =
     (if current = NO_BLOCK then Some s
      else
        let blocks_checked = blocks_checked + 1;
            s = (if blocks_checked mod 8 = 0 then mem_ctx_account s else s)
        in (case validate_block current s of (ok, s) \<Rightarrow>
              if \<not> ok then Some s
              else Option.bind (merge_inner current s) (\<lambda>(go, s).
                     if \<not> go then Some s else merge_outer (b_next s current) blocks_checked s)))"

definition merge_free_blocks :: "heap_machine \<Rightarrow> heap_machine option" where
  "merge_free_blocks s = merge_outer (first_block s) 0 s"

section \<open>Allocation and release\<close>

text \<open>\<open>heap_malloc\<close> after its call of \<open>ensure_memory_initialized\<close>.\<close>

definition heap_malloc_body :: "u32 \<Rightarrow> heap_machine \<Rightarrow> u32 \<times> heap_machine" where
  "heap_malloc_body nbytes s =
     (if \<not> memory_initialized s then (0, s)
      else if nbytes = 0 then (0, s)
      else
        let max_allocation = heap_size s * 9 div 10 in
        if nbytes > max_allocation then (0, s)
        else
          let total_size = (nbytes + BLOCK_HEADER_SIZE + 3) AND NOT 3 in
          if heap_start s = 0 then (0, s)
          else (case find_free_block total_size s of (block_offset, s) \<Rightarrow>
            if block_offset = NO_BLOCK then (0, s)
            else
              let s = set_used block_offset 1 s;
                  s = set_magic block_offset MAGIC_NUMBER s;
                  s = split_block block_offset total_size s;
                  s = s\<lparr>allocation_count := allocation_count s + 1\<rparr>
              in (heap_start s + block_offset + BLOCK_HEADER_SIZE, s)))"

definition heap_free :: "u32 \<Rightarrow> heap_machine \<Rightarrow> heap_machine option" where
  "heap_free ptr s =
     (if ptr = 0 then Some s
      else if \<not> memory_initialized s then Some s
      else if heap_start s = 0 then Some (s\<lparr>memory_errors := memory_errors s + 1\<rparr>)
      else
        let block_offset = ptr - heap_start s - BLOCK_HEADER_SIZE in
        if block_offset \<ge> heap_size s then Some (s\<lparr>memory_errors := memory_errors s + 1\<rparr>)
        else (case validate_block block_offset s of (ok, s) \<Rightarrow>
          if \<not> ok then Some s
          else if b_used s block_offset = 0 then Some (s\<lparr>memory_errors := memory_errors s + 1\<rparr>)
          else do {
            s \<leftarrow> merge_free_blocks (set_used block_offset 0 s);
            Some (s\<lparr>free_count := free_count s + 1\<rparr>)
          }))"

text \<open>The first part of \<open>init_memory_manager\<close>: where the heap goes and how large it is.\<close>

definition place_heap :: "heap_machine \<Rightarrow> heap_machine" where
  "place_heap s =
     (let s = (if heap_phys_start s = 0 then
                 let boot_end = vmm_get_boot_alloc_end s in
                 (if boot_end \<noteq> 0 then s\<lparr>heap_phys_start := boot_end\<rparr>
                  else s\<lparr>heap_phys_start := align_up_u32 (kernel_end s + 0x10000) 0x1000\<rparr>)
               else s);
          s = (if heap_start s = 0 then s\<lparr>heap_start := KERNEL_BASE + heap_phys_start s\<rparr> else s);
          s = calculate_optimal_heap_size s
      in s\<lparr>heap_size := clamp_heap_size (vmm_get_free_frames (fa s)) (heap_size s)\<rparr>)"

definition init_memory_manager :: "heap_machine \<Rightarrow> heap_machine option" where
  "init_memory_manager s =
     (if memory_initialized s then Some s
      else
        let s = place_heap s in
        if heap_phys_start s < 0x100000 then Some s
        else
          let s = s\<lparr>fa := vmm_reserve_phys_range (heap_phys_start s) (heap_phys_start s + heap_size s) (fa s)\<rparr>;
              s = s\<lparr>mem := memset (heap_start s) 0 (heap_size s) (mem s)\<rparr>
          in
          if mem s (heap_start s) \<noteq> 0 then Some s
          else
            let s = set_size 0 (heap_size s) s;
                s = set_used 0 0 s;
                s = set_next 0 NO_BLOCK s;
                s = set_magic 0 MAGIC_NUMBER s;
                s = s\<lparr>first_block := 0, memory_initialized := True, memory_errors := 0,
                      allocation_count := 0, free_count := 0\<rparr>
            in (case heap_malloc_body 16 s of (test_alloc, s) \<Rightarrow>
                  if test_alloc \<noteq> 0 then heap_free test_alloc s
                  else Some (s\<lparr>memory_initialized := False\<rparr>)))"

definition ensure_memory_initialized :: "heap_machine \<Rightarrow> heap_machine option" where
  "ensure_memory_initialized s =
     (if memory_initialized s then Some s
      else if vmm_get_boot_alloc_end s = 0 then Some s
      else init_memory_manager s)"

definition heap_malloc :: "u32 \<Rightarrow> heap_machine \<Rightarrow> (u32 \<times> heap_machine) option" where
  "heap_malloc nbytes s = do {
     s \<leftarrow> ensure_memory_initialized s;
     Some (heap_malloc_body nbytes s)
   }"

section \<open>The allocator interface of the kernel\<close>

definition malloc :: "(frame_allocator \<Rightarrow> u32 \<times> frame_allocator) \<Rightarrow> u32 \<Rightarrow> heap_machine
    \<Rightarrow> (u32 \<times> heap_machine) option" where
  "malloc evict nbytes s =
     (if \<not> mem_ctx_allow s then Some (0, s)
      else
        let s = mem_ctx_account s in
        if \<not> memory_initialized s \<and> vmm_get_boot_alloc_end s = 0 then Some (0, s)
        else do {
          s \<leftarrow> ensure_memory_initialized s;
          if nbytes = 0 then Some (0, s)
          else do {
            (p, s) \<leftarrow> slab_alloc evict nbytes s;
            if p \<noteq> 0 then Some (p, s) else heap_malloc nbytes s
          }
        })"

definition free :: "u32 \<Rightarrow> heap_machine \<Rightarrow> heap_machine option" where
  "free ptr s =
     (if \<not> mem_ctx_allow s then Some s
      else
        let s = mem_ctx_account s in
        if ptr = 0 then Some s
        else do {
          (owned, s) \<leftarrow> slab_free ptr s;
          if owned then Some s else heap_free ptr s
        })"

definition realloc :: "(frame_allocator \<Rightarrow> u32 \<times> frame_allocator) \<Rightarrow> u32 \<Rightarrow> u32 \<Rightarrow> heap_machine
    \<Rightarrow> (u32 \<times> heap_machine) option" where
  "realloc evict ptr new_size s =
     (if \<not> mem_ctx_allow s then Some (0, s)
      else
        let s = mem_ctx_account s in
        if ptr = 0 then malloc evict new_size s
        else if new_size = 0 then do { s \<leftarrow> free ptr s; Some (0, s) }
        else do {
          s \<leftarrow> ensure_memory_initialized s;
          let block_offset = ptr - heap_start s - BLOCK_HEADER_SIZE;
          if block_offset \<ge> heap_size s then Some (0, s\<lparr>memory_errors := memory_errors s + 1\<rparr>)
          else (case validate_block block_offset s of (ok, s) \<Rightarrow>
            if \<not> ok then Some (0, s)
            else
              let current_size = b_size s block_offset - BLOCK_HEADER_SIZE;
                  copy_size = (if current_size < new_size then current_size else new_size)
              in
              if \<not> new_size > current_size then Some (ptr, s)
              else do {
                (new_ptr, s) \<leftarrow> malloc evict new_size s;
                if new_ptr = 0 then Some (0, s)
                else do {
                  s \<leftarrow> free ptr (s\<lparr>mem := memcpy new_ptr ptr copy_size (mem s)\<rparr>);
                  Some (new_ptr, s)
                }
              })
        })"

definition calloc :: "(frame_allocator \<Rightarrow> u32 \<times> frame_allocator) \<Rightarrow> u32 \<Rightarrow> u32 \<Rightarrow> heap_machine
    \<Rightarrow> (u32 \<times> heap_machine) option" where
  "calloc evict count nbytes s =
     (if \<not> mem_ctx_allow s then Some (0, s)
      else do {
        s \<leftarrow> ensure_memory_initialized (mem_ctx_account s);
        let total_size = count * nbytes;
        (ptr, s) \<leftarrow> malloc evict total_size s;
        Some (ptr, if ptr \<noteq> 0 then s\<lparr>mem := memset ptr 0 total_size (mem s)\<rparr> else s)
      })"

text \<open>\<open>n\<close> counts down from the guard of 20000 blocks.\<close>

fun used_loop :: "nat \<Rightarrow> u32 \<Rightarrow> u32 \<Rightarrow> heap_machine \<Rightarrow> u32 \<times> heap_machine" where
  "used_loop 0 current total_used s = (total_used, s)"
| "used_loop (Suc n) current total_used s =
     (if current = NO_BLOCK then (total_used, s)
      else
        let guard = 20000 - n;
            s = (if guard mod 256 = 0 then mem_ctx_account s else s)
        in case validate_block current s of (ok, s) \<Rightarrow>
             if \<not> ok then (total_used, s)
             else
               let total_used = (if b_used s current \<noteq> 0 then total_used + b_size s current else total_used) in
               if b_next s current = current \<or> b_next s current \<ge> heap_size s then (total_used, s)
               else used_loop n (b_next s current) total_used s)"

definition get_heap_used :: "heap_machine \<Rightarrow> u32 \<times> heap_machine" where
  "get_heap_used s = (if \<not> memory_initialized s then (0, s) else used_loop 20000 (first_block s) 0 s)"

definition get_heap_size :: "heap_machine \<Rightarrow> u32" where
  "get_heap_size s = heap_size s"

definition get_memory_error_count :: "heap_machine \<Rightarrow> u32" where
  "get_memory_error_count s = memory_errors s"

end
