(* ===== verification/HeapSpec.thy ===== *)
theory HeapSpec
  imports Heap
begin

text \<open>
  Correctness of the kernel heap. The abstract heap is the list of its blocks, each a size and a
  flag, in address order; \<open>heap_rep s bs\<close> says that the memory of \<open>s\<close> holds exactly that list.
  Allocation, splitting, coalescing and release are proved to act on the list as the
  abstract operations do, to leave the payload of every used block alone, and to end.
\<close>

type_synonym blocks = "(nat \<times> bool) list"

section \<open>The heap as an array of words\<close>

definition word_at :: "heap_machine \<Rightarrow> nat \<Rightarrow> u32" where
  "word_at s k = load32 (mem s) (heap_start s + of_nat k)"

definition put_word :: "nat \<Rightarrow> u32 \<Rightarrow> heap_machine \<Rightarrow> heap_machine" where
  "put_word k v s = s\<lparr>mem := store32 (heap_start s + of_nat k) v (mem s)\<rparr>"

definition byte_at :: "heap_machine \<Rightarrow> nat \<Rightarrow> u8" where
  "byte_at s k = mem s (heap_start s + of_nat k)"

definition heap_conf :: "heap_machine \<Rightarrow> bool" where
  "heap_conf s \<longleftrightarrow> heap_start s \<ge> 0x100000 \<and> aligned4 (heap_start s)
     \<and> unat (heap_start s) + unat (heap_size s) < 2 ^ 32 \<and> heap_size s \<ge> HEAP_SIZE_MIN
     \<and> memory_initialized s \<and> first_block s = 0"

lemma heap_conf_upd [simp]:
  "heap_conf (put_word k v s) = heap_conf s" "heap_conf (s\<lparr>kc := c\<rparr>) = heap_conf s"
  "heap_conf (s\<lparr>allocation_count := n\<rparr>) = heap_conf s" "heap_conf (s\<lparr>free_count := n\<rparr>) = heap_conf s"
  "heap_conf (s\<lparr>memory_errors := n\<rparr>) = heap_conf s"
  by (simp_all add: heap_conf_def put_word_def)

lemma word_at_upd [simp]:
  "word_at (s\<lparr>kc := c\<rparr>) = word_at s" "word_at (s\<lparr>allocation_count := n\<rparr>) = word_at s"
  "word_at (s\<lparr>free_count := n\<rparr>) = word_at s" "word_at (s\<lparr>memory_errors := n\<rparr>) = word_at s"
  "byte_at (s\<lparr>kc := c\<rparr>) = byte_at s" "byte_at (s\<lparr>allocation_count := n\<rparr>) = byte_at s"
  "byte_at (s\<lparr>free_count := n\<rparr>) = byte_at s" "byte_at (s\<lparr>memory_errors := n\<rparr>) = byte_at s"
  by (simp_all add: word_at_def byte_at_def fun_eq_iff)

lemma heap_fields_upd [simp]:
  "heap_start (put_word k v s) = heap_start s" "heap_size (put_word k v s) = heap_size s"
  "first_block (put_word k v s) = first_block s" "memory_initialized (put_word k v s) = memory_initialized s"
  "memory_errors (put_word k v s) = memory_errors s" "kc (put_word k v s) = kc s"
  "allocation_count (put_word k v s) = allocation_count s" "free_count (put_word k v s) = free_count s"
  by (simp_all add: put_word_def)

lemma put_word_kc [simp]: "put_word k v (s\<lparr>kc := c\<rparr>) = (put_word k v s)\<lparr>kc := c\<rparr>"
  by (simp add: put_word_def)

lemma of_nat_neq32: "i \<noteq> j \<Longrightarrow> i < 2 ^ 32 \<Longrightarrow> j < 2 ^ 32 \<Longrightarrow> (of_nat i :: u32) \<noteq> of_nat j"
  by (metis unat_of_nat32)

lemma aligned4_of_nat: "4 dvd k \<Longrightarrow> k < 2 ^ 32 \<Longrightarrow> aligned4 (of_nat k)"
  by (simp add: aligned4_def unat_of_nat32)

lemma word_at_put:
  assumes "aligned4 (heap_start s)" "4 dvd i" "4 dvd k" "i < 2 ^ 32" "k < 2 ^ 32"
  shows "word_at (put_word k v s) i = (if i = k then v else word_at s i)"
proof (cases "i = k")
  case False
  then have "heap_start s + of_nat i \<noteq> heap_start s + of_nat k" using of_nat_neq32 [OF False assms(4,5)] by simp
  with False assms show ?thesis
    by (simp add: word_at_def put_word_def load32_store32_other aligned4_add aligned4_of_nat)
qed (simp add: word_at_def put_word_def)

lemma byte_at_put:
  assumes "i < k \<or> k + 4 \<le> i" "i < 4294967292" "k < 4294967292"
  shows "byte_at (put_word k v s) i = byte_at s i"
proof -
  have "4 \<le> (of_nat i - of_nat k :: u32)"
  proof (cases "k \<le> i")
    case True
    then have "(of_nat i - of_nat k :: u32) = of_nat (i - k)" by (simp add: of_nat_diff)
    then show ?thesis using True assms by (simp add: word_le_nat_alt unat_of_nat32 del: of_nat_diff)
  next
    case False
    then have "(of_nat i - of_nat k :: u32) = of_nat (2 ^ 32 - (k - i))"
      using assms by (simp add: of_nat_diff)
    then show ?thesis using False assms by (simp add: word_le_nat_alt unat_of_nat32 del: of_nat_diff)
  qed
  then show ?thesis by (simp add: byte_at_def put_word_def store32_other)
qed

lemma block_fields:
  "b_size s (of_nat k) = word_at s k" "b_used s (of_nat k) = word_at s (k + 4)"
  "b_next s (of_nat k) = word_at s (k + 8)"
  "set_size (of_nat k) v s = put_word k v s" "set_used (of_nat k) v s = put_word (k + 4) v s"
  "set_next (of_nat k) v s = put_word (k + 8) v s" "set_magic (of_nat k) v s = put_word (k + 12) v s"
  by (simp_all add: b_size_def b_used_def b_next_def word_at_def set_size_def set_used_def set_next_def
      set_magic_def put_word_def add.assoc)

section \<open>The chain of blocks\<close>

definition tot :: "blocks \<Rightarrow> nat" where
  "tot bs = sum_list (map fst bs)"

lemma tot_simps [simp]: "tot [] = 0" "tot (b # bs) = fst b + tot bs" "tot (xs @ ys) = tot xs + tot ys"
  by (simp_all add: tot_def)

definition wf_blocks :: "blocks \<Rightarrow> bool" where
  "wf_blocks bs \<longleftrightarrow> (\<forall>b \<in> set bs. 16 \<le> fst b \<and> 4 dvd fst b)"

lemma wf_blocks_simps [simp]: "wf_blocks []" "wf_blocks (b # bs) \<longleftrightarrow> 16 \<le> fst b \<and> 4 dvd fst b \<and> wf_blocks bs"
  "wf_blocks (xs @ ys) \<longleftrightarrow> wf_blocks xs \<and> wf_blocks ys"
  by (auto simp: wf_blocks_def)

lemma wf_tot: "wf_blocks bs \<Longrightarrow> 4 dvd tot bs"
  by (induction bs) auto

fun layout :: "heap_machine \<Rightarrow> nat \<Rightarrow> u32 \<Rightarrow> blocks \<Rightarrow> bool" where
  "layout s off nx [] \<longleftrightarrow> True"
| "layout s off nx (b # bs) \<longleftrightarrow> word_at s off = of_nat (fst b) \<and> (word_at s (off + 4) \<noteq> 0) = snd b
     \<and> word_at s (off + 8) = (if bs = [] then nx else of_nat (off + fst b)) \<and> layout s (off + fst b) nx bs"

lemma layout_append:
  "layout s off nx (xs @ ys) \<longleftrightarrow>
     layout s off (if ys = [] then nx else of_nat (off + tot xs)) xs \<and> layout s (off + tot xs) nx ys"
  by (induction xs arbitrary: off) (auto simp: add.assoc)

lemma layout_cong:
  assumes "\<And>i. off \<le> i \<Longrightarrow> i < off + tot bs \<Longrightarrow> 4 dvd i \<Longrightarrow> word_at s' i = word_at s i" and "wf_blocks bs" and "4 dvd off"
  shows "layout s' off nx bs = layout s off nx bs"
  using assms
proof (induction bs arbitrary: off)
  case (Cons b bs)
  have "layout s' (off + fst b) nx bs = layout s (off + fst b) nx bs"
    using Cons.prems by (intro Cons.IH Cons.prems(1)) auto
  moreover have "word_at s' off = word_at s off" "word_at s' (off + 4) = word_at s (off + 4)"
    "word_at s' (off + 8) = word_at s (off + 8)"
    using Cons.prems by (auto intro!: Cons.prems(1))
  ultimately show ?case by simp
qed simp

lemma layout_upd [simp]:
  "layout (s\<lparr>kc := c\<rparr>) off nx bs = layout s off nx bs"
  "layout (s\<lparr>allocation_count := n\<rparr>) off nx bs = layout s off nx bs"
  "layout (s\<lparr>free_count := n\<rparr>) off nx bs = layout s off nx bs"
  "layout (s\<lparr>memory_errors := n\<rparr>) off nx bs = layout s off nx bs"
  by (induction bs arbitrary: off) simp_all

definition heap_rep :: "heap_machine \<Rightarrow> blocks \<Rightarrow> bool" where
  "heap_rep s bs \<longleftrightarrow> heap_conf s \<and> wf_blocks bs \<and> bs \<noteq> [] \<and> tot bs = unat (heap_size s) \<and> layout s 0 NO_BLOCK bs"

lemma heap_rep_upd [simp]:
  "heap_rep (s\<lparr>kc := c\<rparr>) bs = heap_rep s bs" "heap_rep (s\<lparr>allocation_count := n\<rparr>) bs = heap_rep s bs"
  "heap_rep (s\<lparr>free_count := n\<rparr>) bs = heap_rep s bs" "heap_rep (s\<lparr>memory_errors := n\<rparr>) bs = heap_rep s bs"
  by (simp_all add: heap_rep_def)

lemma heap_bound: "heap_conf s \<Longrightarrow> unat (heap_size s) < 4293918720"
  by (simp add: heap_conf_def word_le_nat_alt)

text \<open>What a block of the list is in memory.\<close>

lemma rep_block:
  assumes r: "heap_rep s bs" and bs: "bs = xs @ (z, u) # ys"
  shows "word_at s (tot xs) = of_nat z" and "(word_at s (tot xs + 4) \<noteq> 0) = u"
    and "word_at s (tot xs + 8) = (if ys = [] then NO_BLOCK else of_nat (tot xs + z))"
    and "16 \<le> z" and "4 dvd z" and "4 dvd tot xs" and "tot xs + z \<le> unat (heap_size s)"
  using r wf_tot [of xs] by (auto simp: bs heap_rep_def layout_append)

lemma validate_block_ok:
  assumes c: "heap_conf s" and z: "word_at s off = of_nat z" "16 \<le> z" "off + z \<le> unat (heap_size s)"
  shows "validate_block (of_nat off) s = (True, s)"
proof -
  have hs: "unat (heap_size s) < 4293918720" by (rule heap_bound [OF c])
  have o: "unat (of_nat off :: u32) = off" "unat (of_nat z :: u32) = z" using z hs by (simp_all add: unat_of_nat32)
  have c': "0x100000 \<le> unat (heap_start s)" "unat (heap_start s) + unat (heap_size s) < 2 ^ 32"
    "0x40000 \<le> unat (heap_size s)"
    using c by (simp_all add: heap_conf_def word_le_nat_alt)
  have a: "unat (heap_start s + of_nat off) = unat (heap_start s) + off" using c' z o by (subst unat_add32) simp_all
  have b: "unat (heap_start s + heap_size s) = unat (heap_start s) + unat (heap_size s)" using c' by (subst unat_add32) simp_all
  have d: "unat (heap_start s + of_nat off + 16) = unat (heap_start s) + off + 16" using a c' z by (subst unat_add32) simp_all
  have e: "unat (of_nat off + 16 :: u32) = off + 16" "unat (of_nat off + of_nat z :: u32) = off + z"
    using o z hs by (simp_all add: unat_add32)
  have nz: "heap_start s + of_nat off \<noteq> 0" "heap_start s \<noteq> 0" "heap_size s \<noteq> 0" "(of_nat z :: u32) \<noteq> 0"
    using a c' o z by auto
  show ?thesis
    unfolding validate_block_def Let_def block_fields z(1)
    using nz c' a b d e o z by (simp add: word_le_nat_alt word_less_nat_alt unat_eq_0 not_le not_less)
qed

lemma validate_rep: "heap_rep s (xs @ (z, u) # ys) \<Longrightarrow> validate_block (of_nat (tot xs)) s = (True, s)"
  by (rule validate_block_ok [OF _ rep_block(1) rep_block(4) rep_block(7)])
    (assumption | rule refl | simp add: heap_rep_def)+

section \<open>Best fit\<close>

definition fits :: "nat \<Rightarrow> nat \<times> bool \<Rightarrow> bool" where
  "fits t b \<longleftrightarrow> \<not> snd b \<and> t \<le> fst b"

text \<open>\<open>best t xs bf bsz\<close>: the variables \<open>best_fit\<close> and \<open>best_size\<close> after the blocks \<open>xs\<close>.\<close>

definition best :: "nat \<Rightarrow> blocks \<Rightarrow> u32 \<Rightarrow> u32 \<Rightarrow> bool" where
  "best t xs bf bsz \<longleftrightarrow>
     (bf = NO_BLOCK \<and> bsz = 0xFFFFFFFF \<and> (\<forall>b \<in> set xs. \<not> fits t b))
   \<or> (\<exists>us z vs. xs = us @ (z, False) # vs \<and> t \<le> z \<and> bf = of_nat (tot us) \<and> bsz = of_nat z
        \<and> (\<forall>b \<in> set xs. fits t b \<longrightarrow> z \<le> fst b))"

lemma best_take:
  assumes b: "best t xs bf bsz" and "\<not> u" "t \<le> z" "z < 0xFFFFFFFF" "(of_nat z :: u32) < bsz"
    and w: "\<forall>b \<in> set xs. fst b < 0xFFFFFFFF"
  shows "best t (xs @ [(z, u)]) (of_nat (tot xs)) (of_nat z)"
proof -
  have "z \<le> fst x" if "x \<in> set xs" "fits t x" for x
    using b unfolding best_def
  proof (elim disjE exE conjE)
    fix us z' vs assume h: "xs = us @ (z', False) # vs" "bsz = of_nat z'" "\<forall>b\<in>set xs. fits t b \<longrightarrow> z' \<le> fst b"
    have "z' < 0xFFFFFFFF" using w h(1) by auto
    then have "z < z'" using assms(4,5) h(2) by (simp add: word_less_nat_alt unat_of_nat32)
    then show ?thesis using h(3) that by fastforce
  qed (use that in simp)
  then show ?thesis using assms(2,3) unfolding best_def by (intro disjI2 exI [of _ xs]) auto
qed

lemma best_skip:
  assumes b: "best t xs bf bsz" and z: "z < 0xFFFFFFFF" "t < 2 ^ 32"
    and n: "\<not> (\<not> u \<and> t \<le> z \<and> (of_nat z :: u32) < bsz)" and w: "\<forall>b \<in> set xs. fst b < 0xFFFFFFFF"
  shows "best t (xs @ [(z, u)]) bf bsz"
  using b unfolding best_def
proof (elim disjE exE conjE)
  assume h: "bf = NO_BLOCK" "bsz = 0xFFFFFFFF" "\<forall>b\<in>set xs. \<not> fits t b"
  have "(of_nat z :: u32) < 0xFFFFFFFF" using z by (simp add: word_less_nat_alt unat_of_nat32)
  with h n show "(bf = NO_BLOCK \<and> bsz = 0xFFFFFFFF \<and> (\<forall>b \<in> set (xs @ [(z, u)]). \<not> fits t b))
   \<or> (\<exists>us z' vs. xs @ [(z, u)] = us @ (z', False) # vs \<and> t \<le> z' \<and> bf = of_nat (tot us) \<and> bsz = of_nat z'
        \<and> (\<forall>b \<in> set (xs @ [(z, u)]). fits t b \<longrightarrow> z' \<le> fst b))" by (auto simp: fits_def)
next
  fix us z' vs
  assume h: "xs = us @ (z', False) # vs" "t \<le> z'" "bf = of_nat (tot us)" "bsz = of_nat z'"
    "\<forall>b\<in>set xs. fits t b \<longrightarrow> z' \<le> fst b"
  have "z' < 0xFFFFFFFF" using w h(1) by auto
  then have "fits t (z, u) \<longrightarrow> z' \<le> z"
    using n h(4) z by (auto simp: fits_def word_less_nat_alt unat_of_nat32)
  with h show "(bf = NO_BLOCK \<and> bsz = 0xFFFFFFFF \<and> (\<forall>b \<in> set (xs @ [(z, u)]). \<not> fits t b))
   \<or> (\<exists>us z' vs. xs @ [(z, u)] = us @ (z', False) # vs \<and> t \<le> z' \<and> bf = of_nat (tot us) \<and> bsz = of_nat z'
        \<and> (\<forall>b \<in> set (xs @ [(z, u)]). fits t b \<longrightarrow> z' \<le> fst b))"
    by (intro disjI2 exI [of _ us] exI [of _ z'] exI [of _ "vs @ [(z, u)]"]) auto
qed

lemma find_loop_best:
  assumes "heap_rep s (xs @ ys)" and "best (unat t) xs bf bsz"
    and "cur = (if ys = [] then NO_BLOCK else of_nat (tot xs))" and "find_loop n t cur bf bsz s = (r, s')"
  shows "(\<exists>c. s' = s\<lparr>kc := c\<rparr>) \<and> (\<exists>bsz'. best (unat t) (xs @ take n ys) r bsz')"
  using assms
proof (induction n arbitrary: xs ys bf bsz cur s)
  case 0
  then show ?case by (auto intro: exI [of _ "kc s"])
next
  case (Suc n)
  show ?case
  proof (cases ys)
    case Nil
    then show ?thesis using Suc.prems by (auto intro: exI [of _ "kc s"])
  next
    case (Cons b ys')
    obtain z u where b: "b = (z, u)" by fastforce
    define s1 where "s1 = (if (100 - n) mod 8 = 0 then mem_ctx_account s else s)"
    have s1: "\<exists>c. s1 = s\<lparr>kc := c\<rparr>" by (auto simp: s1_def mem_ctx_account_def intro: exI [of _ "kc s"])
    then have r1: "heap_rep s1 (xs @ (z, u) # ys')" using Suc.prems(1) Cons b by auto
    note blk = rep_block [OF r1 refl]
    have sz: "\<forall>b \<in> set (xs @ (z, u) # ys'). fst b < 0xFFFFFFFF"
    proof
      fix c assume "c \<in> set (xs @ (z, u) # ys')"
      then obtain ps qs where "xs @ (z, u) # ys' = ps @ (fst c, snd c) # qs" by (metis prod.collapse split_list)
      from rep_block(7) [OF r1 this] heap_bound [of s1] r1 show "fst c < 0xFFFFFFFF" by (simp add: heap_rep_def)
    qed
    have cur: "cur = of_nat (tot xs)" "cur \<noteq> NO_BLOCK"
    proof -
      show c: "cur = of_nat (tot xs)" using Suc.prems(3) Cons by simp
      have "tot xs < 4293918720" using blk(4,7) heap_bound [of s1] r1 by (simp add: heap_rep_def)
      then have "unat cur < 4293918720" by (simp add: c unat_of_nat32)
      then show "cur \<noteq> NO_BLOCK" by auto
    qed
    define cur' where "cur' = (if ys' = [] then NO_BLOCK else of_nat (tot (xs @ [(z, u)])))"
    have uz: "unat (of_nat z :: u32) = z" using sz by (simp add: unat_of_nat32)
    have step: "find_loop n t cur' (if \<not> u \<and> unat t \<le> z \<and> (of_nat z :: u32) < bsz then of_nat (tot xs) else bf)
        (if \<not> u \<and> unat t \<le> z \<and> (of_nat z :: u32) < bsz then of_nat z else bsz) s1 = (r, s')"
      using Suc.prems(4) cur validate_rep [OF r1] blk(1-3) uz
      by (auto simp: Let_def s1_def [symmetric] block_fields cur'_def word_le_nat_alt split: if_splits)
    have w: "\<forall>b \<in> set xs. fst b < 0xFFFFFFFF" and z: "z < 0xFFFFFFFF" using sz by auto
    have bst: "best (unat t) (xs @ [(z, u)]) (if \<not> u \<and> unat t \<le> z \<and> (of_nat z :: u32) < bsz then of_nat (tot xs) else bf)
        (if \<not> u \<and> unat t \<le> z \<and> (of_nat z :: u32) < bsz then of_nat z else bsz)"
      using best_take [OF Suc.prems(2) _ _ z _ w, of u] best_skip [OF Suc.prems(2) z _ _ w, of u] by auto
    have "heap_rep s1 ((xs @ [(z, u)]) @ ys')" using r1 by simp
    from Suc.IH [OF this bst cur'_def step] s1 show ?thesis by (auto simp: Cons b)
  qed
qed

section \<open>Payloads\<close>

text \<open>The offsets that belong to the users of the heap: the bytes after the header of each used
  block.\<close>

fun payload :: "nat \<Rightarrow> blocks \<Rightarrow> nat set" where
  "payload off [] = {}"
| "payload off (b # bs) = (if snd b then {off + 16..<off + fst b} else {}) \<union> payload (off + fst b) bs"

lemma payload_append: "payload off (xs @ ys) = payload off xs \<union> payload (off + tot xs) ys"
  by (induction xs arbitrary: off) (auto simp: add.assoc)

lemma payload_bounds: "payload off bs \<subseteq> {off..<off + tot bs}"
proof (induction bs arbitrary: off)
  case (Cons b bs)
  from Cons.IH [of "off + fst b"] show ?case by (auto simp: subset_iff)
qed simp

lemma payload_header:
  assumes "wf_blocks bs" and "bs = xs @ (z, u) # ys"
  shows "{tot xs..<tot xs + 16} \<inter> payload 0 bs = {}"
proof -
  have "16 \<le> z" using assms by auto
  moreover have "i < tot xs" if "i \<in> payload 0 xs" for i using payload_bounds [of 0 xs] that by auto
  moreover have "tot xs + z \<le> i" if "i \<in> payload (tot xs + z) ys" for i using payload_bounds that by fastforce
  ultimately have "i \<notin> payload 0 bs" if "tot xs \<le> i" "i < tot xs + 16" for i
    using that unfolding assms(2) payload_append by (fastforce split: if_splits)
  then show ?thesis by auto
qed

text \<open>\<open>heap_keeps X s s'\<close>: the bytes at the offsets \<open>X\<close> have not changed, nor has anything outside
  the memory of the heap and its counters.\<close>

definition heap_keeps :: "nat set \<Rightarrow> heap_machine \<Rightarrow> heap_machine \<Rightarrow> bool" where
  "heap_keeps X s s' \<longleftrightarrow> (\<forall>i \<in> X. byte_at s' i = byte_at s i) \<and> heap_start s' = heap_start s \<and> heap_size s' = heap_size s
     \<and> memory_errors s' = memory_errors s \<and> fa s' = fa s \<and> g_slab_partial s' = g_slab_partial s"

lemma heap_keeps_refl: "heap_keeps X s s"
  by (simp add: heap_keeps_def)

lemma heap_keeps_trans: "heap_keeps X s s' \<Longrightarrow> heap_keeps X s' s'' \<Longrightarrow> heap_keeps X s s''"
  by (simp add: heap_keeps_def)

lemma heap_keeps_mono: "heap_keeps X s s' \<Longrightarrow> Y \<subseteq> X \<Longrightarrow> heap_keeps Y s s'"
  by (auto simp: heap_keeps_def)

lemma heap_keeps_put:
  assumes "\<forall>i \<in> X. (i < k \<or> k + 4 \<le> i) \<and> i < 4294967292" and "k < 4294967292"
  shows "heap_keeps X s (put_word k v s)"
  using assms by (auto simp: heap_keeps_def byte_at_put) (simp_all add: put_word_def)

lemma heap_keeps_upd [simp]:
  "heap_keeps X s (s\<lparr>kc := c\<rparr>)" "heap_keeps X s (s\<lparr>allocation_count := n\<rparr>)" "heap_keeps X s (s\<lparr>free_count := n\<rparr>)"
  by (simp_all add: heap_keeps_def)

section \<open>Allocation\<close>

text \<open>A free block of size \<open>z\<close> that serves a request of \<open>t\<close> bytes.\<close>

definition cut :: "nat \<Rightarrow> nat \<Rightarrow> blocks" where
  "cut t z = (if z < t + 32 then [(z, True)] else [(t, True), (z - t, False)])"

lemma rep_update:
  assumes r: "heap_rep s (xs @ ms @ ys)" and conf: "heap_conf s'" "heap_start s' = heap_start s" "heap_size s' = heap_size s"
    and low: "\<And>i. i < tot xs \<Longrightarrow> 4 dvd i \<Longrightarrow> word_at s' i = word_at s i"
    and high: "\<And>i. tot xs + tot ms \<le> i \<Longrightarrow> 4 dvd i \<Longrightarrow> i < unat (heap_size s) \<Longrightarrow> word_at s' i = word_at s i"
    and ms': "tot ms' = tot ms" "wf_blocks ms'" "ms \<noteq> []" "ms' \<noteq> []"
    and lay: "layout s' (tot xs) (if ys = [] then NO_BLOCK else of_nat (tot xs + tot ms)) ms'"
  shows "heap_rep s' (xs @ ms' @ ys)"
proof -
  have w: "wf_blocks xs" "wf_blocks ms" "wf_blocks ys" and t: "tot xs + tot ms + tot ys = unat (heap_size s)"
    using r by (auto simp: heap_rep_def)
  have d: "4 dvd tot xs" "4 dvd tot xs + tot ms" using w by (auto simp: wf_tot)
  have l: "layout s 0 (of_nat (tot xs)) xs" "layout s (tot xs + tot ms) NO_BLOCK ys"
    using r ms' by (auto simp: heap_rep_def layout_append)
  have "layout s' 0 (of_nat (tot xs)) xs"
    using layout_cong [of 0 xs s' s, OF _ w(1)] low l(1) by simp
  moreover have "layout s' (tot xs + tot ms) NO_BLOCK ys"
    using layout_cong [of "tot xs + tot ms" ys s' s, OF _ w(3) d(2)] high l(2) t by simp
  ultimately show ?thesis
    using conf ms' w t lay by (cases "ys = []") (simp_all add: heap_rep_def layout_append)
qed

lemma heap_alloc_rep:
  assumes r: "heap_rep s (xs @ (z, False) # ys)" and t: "16 \<le> t" "4 dvd t" "t \<le> z"
  defines "s' \<equiv> split_block (of_nat (tot xs)) (of_nat t)
      (set_magic (of_nat (tot xs)) MAGIC_NUMBER (set_used (of_nat (tot xs)) 1 s))"
  shows "heap_rep s' (xs @ cut t z @ ys)"
    and "heap_keeps (payload 0 (xs @ (z, False) # ys)) s s'"
proof -
  let ?o = "tot xs"
  note blk = rep_block [OF r refl]
  have conf: "heap_conf s" and al: "aligned4 (heap_start s)" using r by (auto simp: heap_rep_def heap_conf_def)
  have hs: "unat (heap_size s) < 4293918720" by (rule heap_bound [OF conf])
  note wp = word_at_put
  let ?s1 = "put_word (?o + 12) MAGIC_NUMBER (put_word (?o + 4) 1 s)"
  have sz: "word_at ?s1 ?o = of_nat z" "word_at ?s1 (?o + 8) = word_at s (?o + 8)"
    using blk hs al by (simp_all add: wp)
  have uz: "unat (of_nat z :: u32) = z" "unat (32 + of_nat t :: u32) = t + 32"
    using blk t hs by (simp_all add: unat_of_nat32 unat_add32)
  have tz: "(of_nat z - of_nat t :: u32) = of_nat (z - t)" using t by (simp add: of_nat_diff)
  have ot: "(of_nat ?o + of_nat t :: u32) = of_nat (?o + t)" by simp
  have s': "s' = (if z < t + 32 then ?s1 else
      put_word (?o + 8) (of_nat (?o + t)) (put_word ?o (of_nat t)
        (put_word (?o + t + 12) MAGIC_NUMBER (put_word (?o + t + 8) (word_at s (?o + 8))
          (put_word (?o + t + 4) 0 (put_word (?o + t) (of_nat (z - t)) ?s1))))))"
    unfolding s'_def split_block_def Let_def block_fields ot sz tz
    using t blk hs al by (simp add: word_less_nat_alt uz wp)
  have s'_conf: "heap_conf s'" "heap_start s' = heap_start s" "heap_size s' = heap_size s"
    using conf by (simp_all add: s')
  show "heap_rep s' (xs @ cut t z @ ys)"
  proof (rule rep_update [OF _ s'_conf, where ms = "[(z, False)]"])
    show "heap_rep s (xs @ [(z, False)] @ ys)" using r by simp
    show "word_at s' i = word_at s i" if "i < ?o" "4 dvd i" for i
      using that t blk hs al by (simp add: s' wp)
    show "word_at s' i = word_at s i" if "?o + tot [(z, False)] \<le> i" "4 dvd i" "i < unat (heap_size s)" for i
      using that t blk hs al by (simp add: s' wp)
    show "tot (cut t z) = tot [(z, False)]" "wf_blocks (cut t z)"
      using t blk by (auto simp: cut_def)
    show "layout s' ?o (if ys = [] then NO_BLOCK else of_nat (?o + tot [(z, False)])) (cut t z)"
      using t blk hs al by (simp add: s' wp cut_def)
  qed (simp_all add: cut_def)
  have pay: "i < ?o \<or> ?o + z \<le> i" "i < 4293918720" if "i \<in> payload 0 (xs @ (z, False) # ys)" for i
    using that payload_bounds [of 0 xs] payload_bounds [of "?o + z" ys] blk r hs
    by (auto simp: payload_append heap_rep_def)
  have k: "heap_keeps (payload 0 (xs @ (z, False) # ys)) g (put_word k v g)" if "?o \<le> k" "k + 4 \<le> ?o + z" for g k v
    using that pay blk hs by (intro heap_keeps_put) force+
  show "heap_keeps (payload 0 (xs @ (z, False) # ys)) s s'"
    unfolding s' using t blk(4) by (auto intro!: heap_keeps_trans [OF _ k])  (auto simp: heap_keeps_refl)
qed

definition rounded :: "u32 \<Rightarrow> nat" where
  "rounded nbytes = (unat nbytes + 19) div 4 * 4"

lemma block_address:
  assumes "heap_conf s" and "k \<le> unat (heap_size s)"
  shows "unat (heap_start s + of_nat k) = unat (heap_start s) + k" and "heap_start s + of_nat k \<noteq> 0"
proof -
  have c: "0x100000 \<le> unat (heap_start s)" "unat (heap_start s) + unat (heap_size s) < 2 ^ 32"
    using assms(1) by (simp_all add: heap_conf_def word_le_nat_alt)
  have "unat (of_nat k :: u32) = k" using assms(2) heap_bound [OF assms(1)] by (simp add: unat_of_nat32)
  then show u: "unat (heap_start s + of_nat k) = unat (heap_start s) + k"
    using c assms(2) by (subst unat_add32) simp_all
  show "heap_start s + of_nat k \<noteq> 0" using u c by auto
qed

theorem heap_malloc_body_cases:
  assumes r: "heap_rep s bs" and m: "heap_malloc_body nbytes s = (p, s')"
  shows "(p = 0 \<and> (\<exists>c. s' = s\<lparr>kc := c\<rparr>)
          \<and> (nbytes = 0 \<or> nbytes > heap_size s * 9 div 10 \<or> (\<forall>b \<in> set (take 100 bs). \<not> fits (rounded nbytes) b)))
    \<or> (\<exists>xs z ys. bs = xs @ (z, False) # ys \<and> nbytes \<noteq> 0 \<and> p \<noteq> 0 \<and> p = heap_start s + of_nat (tot xs + 16)
          \<and> rounded nbytes \<le> z \<and> (\<forall>b \<in> set (take 100 bs). fits (rounded nbytes) b \<longrightarrow> z \<le> fst b)
          \<and> heap_rep s' (xs @ cut (rounded nbytes) z @ ys) \<and> heap_keeps (payload 0 bs) s s')"
proof -
  have conf: "heap_conf s" using r by (simp add: heap_rep_def)
  then have init: "memory_initialized s" "heap_start s \<noteq> 0" "first_block s = 0"
    using block_address [OF conf, of 0] by (auto simp: heap_conf_def)
  show ?thesis
  proof (cases "nbytes = 0 \<or> nbytes > heap_size s * 9 div 10")
    case True
    then have "heap_malloc_body nbytes s = (0, s)" using init by (auto simp: heap_malloc_body_def Let_def)
    then have "p = 0" "s' = s\<lparr>kc := kc s\<rparr>" using m by simp_all
    then show ?thesis using True by blast
  next
    case False
    have "unat (heap_size s * 9 div 10) < 429496730"
      using unat_less32 [of "heap_size s * 9"] by (simp add: unat_div del: unat_less32)
    then have small: "unat nbytes < 429496730" using False by (simp add: word_less_nat_alt)
    then have up: "unat ((nbytes + 16 + 3) AND NOT 3) = rounded nbytes"
      using unat_and_not_mask [of "nbytes + 16 + 3" 2]
      by (simp add: rounded_def unat_add32 mask_eq_exp_minus_1)
    obtain b s1 where f: "find_free_block ((nbytes + 16 + 3) AND NOT 3) s = (b, s1)" by fastforce
    have fl: "find_loop 100 ((nbytes + 16 + 3) AND NOT 3) 0 NO_BLOCK 0xFFFFFFFF s = (b, s1)"
      using f init by (simp add: find_free_block_def)
    have b0: "best (unat ((nbytes + 16 + 3) AND NOT 3)) [] NO_BLOCK 0xFFFFFFFF" by (simp add: best_def)
    have r0: "heap_rep s ([] @ bs)" "(0 :: u32) = (if bs = [] then NO_BLOCK else of_nat (tot []))"
      using r by (simp_all add: heap_rep_def)
    obtain c bsz where s1: "s1 = s\<lparr>kc := c\<rparr>" and best: "best (rounded nbytes) (take 100 bs) b bsz"
      using find_loop_best [OF r0(1) b0 r0(2) fl, unfolded up] by auto
    have r1: "heap_rep s1 bs" using r s1 by simp
    from best consider "b = NO_BLOCK" "\<forall>b \<in> set (take 100 bs). \<not> fits (rounded nbytes) b"
      | us z vs where "take 100 bs = us @ (z, False) # vs" "rounded nbytes \<le> z" "b = of_nat (tot us)"
          "\<forall>b \<in> set (take 100 bs). fits (rounded nbytes) b \<longrightarrow> z \<le> fst b"
      unfolding best_def by blast
    then show ?thesis
    proof cases
      case 1
      have "heap_malloc_body nbytes s = (0, s1)"
        using False init f 1(1) by (simp add: heap_malloc_body_def Let_def)
      then have "p = 0" "s' = s1" using m by simp_all
      then show ?thesis using 1 s1 by blast
    next
      case 2
      define ys where "ys = vs @ drop 100 bs"
      have bs: "bs = us @ (z, False) # ys"
        using 2(1) append_take_drop_id [of 100 bs] by (simp add: ys_def)
      note r1' = r1 [unfolded bs]
      note blk = rep_block [OF r1' refl]
      have conf1: "heap_conf s1" using r1 by (simp add: heap_rep_def)
      have hs: "unat (heap_size s1) < 4293918720" by (rule heap_bound [OF conf1])
      have t: "16 \<le> rounded nbytes" "4 dvd rounded nbytes" by (simp_all add: rounded_def)
      have tw: "(nbytes + 16 + 3) AND NOT 3 = of_nat (rounded nbytes)"
        by (simp only: up [symmetric] of_nat_unat ucast_id)
      then have tw': "19 + nbytes AND - 4 = of_nat (rounded nbytes)" by simp
      note al = heap_alloc_rep [OF r1' t 2(2)]
      define s2 where "s2 = split_block (of_nat (tot us)) (of_nat (rounded nbytes))
          (set_magic (of_nat (tot us)) MAGIC_NUMBER (set_used (of_nat (tot us)) 1 s1))"
      have bn: "(of_nat (tot us) :: u32) \<noteq> NO_BLOCK"
      proof
        assume "(of_nat (tot us) :: u32) = NO_BLOCK"
        then have "unat (of_nat (tot us) :: u32) = 4294967295" by simp
        then show False using blk(4,7) hs by (simp add: unat_of_nat32)
      qed
      have res: "heap_malloc_body nbytes s = (heap_start s + of_nat (tot us) + 16, s2\<lparr>allocation_count := allocation_count s2 + 1\<rparr>)"
        using False init f bn al(2) s1 tw'
        by (simp add: heap_malloc_body_def Let_def 2(3) s2_def heap_keeps_def)
      have p: "p = heap_start s + of_nat (tot us + 16)" using res m by (simp add: add.assoc)
      have "unat nbytes \<noteq> 0" using False by (simp add: unat_eq_0)
      then have "16 < rounded nbytes" using div_le_mono [of 20 "unat nbytes + 19" 4] by (simp add: rounded_def)
      then have "p \<noteq> 0" unfolding p using blk(7) 2(2) s1 by (intro block_address(2) [OF conf]) simp
      have "heap_rep s' (us @ cut (rounded nbytes) z @ ys)" "heap_keeps (payload 0 bs) s s'"
        using res m al s1 by (auto simp: bs s2_def heap_keeps_def)
      then show ?thesis using bs p \<open>p \<noteq> 0\<close> 2(2,4) False by blast
    qed
  qed
qed

section \<open>Coalescing\<close>

fun coalesce :: "blocks \<Rightarrow> blocks" where
  "coalesce ((z, False) # (z2, False) # bs) = coalesce ((z + z2, False) # bs)"
| "coalesce (b # bs) = b # coalesce bs"
| "coalesce [] = []"

lemma coalesce_used [simp]: "coalesce ((z, True) # bs) = (z, True) # coalesce bs"
  by (cases bs) auto

lemma coalesce_before_used [simp]: "coalesce ((z, u) # (z2, True) # bs) = (z, u) # coalesce ((z2, True) # bs)"
  by (cases u) auto

lemma coalesce_single [simp]: "coalesce [b] = [b]"
  by (cases b) auto

lemma coalesce_nil [simp]: "coalesce bs = [] \<longleftrightarrow> bs = []"
  by (induction bs rule: coalesce.induct) auto

lemma tot_coalesce [simp]: "tot (coalesce bs) = tot bs"
  by (induction bs rule: coalesce.induct) auto

lemma payload_coalesce [simp]: "payload off (coalesce bs) = payload off bs"
  by (induction bs arbitrary: off rule: coalesce.induct) (simp_all flip: add.assoc)

lemma coalesce_join1: "coalesce ((c, u) # (a, False) # (b, False) # ys) = coalesce ((c, u) # (a + b, False) # ys)"
  by (cases u) (auto simp: add.assoc)

lemma coalesce_join: "coalesce (xs @ (a, False) # (b, False) # ys) = coalesce (xs @ (a + b, False) # ys)"
  by (induction xs rule: coalesce.induct) (auto simp: coalesce_join1)

text \<open>After coalescing no two neighbours are free.\<close>

fun no_free_pair :: "blocks \<Rightarrow> bool" where
  "no_free_pair (a # b # bs) \<longleftrightarrow> (snd a \<or> snd b) \<and> no_free_pair (b # bs)"
| "no_free_pair bs \<longleftrightarrow> True"

lemma no_free_pair_used: "no_free_pair ((z, True) # bs) = no_free_pair bs"
  by (cases bs) auto

lemma no_free_pair_coalesce: "no_free_pair (coalesce bs)"
  by (induction bs rule: coalesce.induct) (auto simp: no_free_pair_used)

lemma coalesce_id: "no_free_pair bs \<Longrightarrow> coalesce bs = bs"
  by (induction bs rule: coalesce.induct) (auto simp: no_free_pair_used)

lemma merge_inner_rep:
  assumes "heap_rep s (xs @ (z, u) # ys)"
  shows "\<exists>s' z' ys'. merge_inner (of_nat (tot xs)) s = Some (True, s') \<and> heap_rep s' (xs @ (z', u) # ys')
    \<and> heap_keeps (payload 0 (xs @ (z, u) # ys)) s s'
    \<and> payload 0 (xs @ (z', u) # ys') = payload 0 (xs @ (z, u) # ys)
    \<and> coalesce ((z, u) # ys) = (z', u) # coalesce ys' \<and> length ys' \<le> length ys"
  using assms
proof (induction ys arbitrary: z s)
  case Nil
  then have "b_next s (of_nat (tot xs)) = NO_BLOCK"
    using rep_block(3) [OF Nil refl] by (simp add: block_fields)
  then have "merge_inner (of_nat (tot xs)) s = Some (True, s)" by (subst merge_inner.simps) simp
  with Nil heap_keeps_refl show ?case by (intro exI [of _ s] exI [of _ z] exI [of _ "[]"]) auto
next
  case (Cons b ys)
  obtain z2 u2 where b: "b = (z2, u2)" by fastforce
  let ?o = "tot xs"
  note r = Cons.prems [unfolded b]
  have r2: "heap_rep s ((xs @ [(z, u)]) @ (z2, u2) # ys)" using r by simp
  note blk = rep_block [OF r refl]
  have blk2: "word_at s (?o + z) = of_nat z2" "(word_at s (?o + z + 4) \<noteq> 0) = u2"
    "word_at s (?o + z + 8) = (if ys = [] then NO_BLOCK else of_nat (?o + z + z2))"
    "16 \<le> z2" "4 dvd z2" "?o + z + z2 \<le> unat (heap_size s)"
    using rep_block [OF r2 refl] by simp_all
  have conf: "heap_conf s" and al: "aligned4 (heap_start s)" using r by (auto simp: heap_rep_def heap_conf_def)
  have hs: "unat (heap_size s) < 4293918720" by (rule heap_bound [OF conf])
  have next_: "b_next s (of_nat ?o) = of_nat (?o + z)" using blk(3) by (simp add: block_fields)
  have nb: "(of_nat (?o + z) :: u32) \<noteq> NO_BLOCK"
  proof
    assume "(of_nat (?o + z) :: u32) = NO_BLOCK"
    then have "unat (of_nat (?o + z) :: u32) = 4294967295" by simp
    then show False using blk2(4,6) hs by (simp add: unat_of_nat32 del: of_nat_add)
  qed
  have valid: "validate_block (of_nat (?o + z)) s = (True, s)" using validate_rep [OF r2] by simp
  show ?case
  proof (cases "u \<or> u2")
    case True
    have "merge_inner (of_nat ?o) s = Some (True, s)"
      unfolding merge_inner.simps [of "of_nat ?o" s] unfolding next_ Let_def valid prod.case
      unfolding block_fields using nb True blk(2) blk2(2) by (auto simp del: of_nat_add)
    moreover have "coalesce ((z, u) # b # ys) = (z, u) # coalesce (b # ys)" using True b by (cases u) auto
    ultimately show ?thesis using Cons.prems heap_keeps_refl
      by (intro exI [of _ s] exI [of _ z] exI [of _ "b # ys"]) auto
  next
    case False
    define s1 where "s1 = put_word (?o + 8) (word_at s (?o + z + 8)) (put_word ?o (of_nat (z + z2)) s)"
    have step: "merge_inner (of_nat ?o) s = merge_inner (of_nat ?o) s1"
      unfolding merge_inner.simps [of "of_nat ?o" s] unfolding next_ Let_def valid prod.case
      unfolding block_fields using nb False blk blk2 al hs by (simp add: s1_def word_at_put)
    have r1: "heap_rep s1 (xs @ [(z + z2, False)] @ ys)"
    proof (rule rep_update [where ms = "[(z, False), (z2, False)]" and s = s])
      show "heap_rep s (xs @ [(z, False), (z2, False)] @ ys)" using r False by simp
      show "word_at s1 i = word_at s i" if "i < ?o" "4 dvd i" for i
        using that blk al hs by (simp add: s1_def word_at_put)
      show "word_at s1 i = word_at s i" if "?o + tot [(z, False), (z2, False)] \<le> i" "4 dvd i" "i < unat (heap_size s)" for i
        using that blk al hs by (simp add: s1_def word_at_put)
      show "layout s1 ?o (if ys = [] then NO_BLOCK else of_nat (?o + tot [(z, False), (z2, False)])) [(z + z2, False)]"
        using blk blk2 al hs False by (simp add: s1_def word_at_put)
    qed (use conf blk blk2 in \<open>simp_all add: s1_def\<close>)
    have pay: "payload 0 (xs @ (z + z2, u) # ys) = payload 0 (xs @ (z, u) # b # ys)"
      using False b by (simp add: payload_append add.assoc)
    have out: "i < ?o \<or> ?o + 16 \<le> i" "i < 4293918720" if "i \<in> payload 0 (xs @ (z, u) # b # ys)" for i
    proof -
      have "{?o..<?o + 16} \<inter> payload 0 (xs @ (z, u) # b # ys) = {}"
        using Cons.prems by (intro payload_header [OF _ refl]) (simp add: heap_rep_def)
      then have "i \<notin> {?o..<?o + 16}" using that by blast
      then show "i < ?o \<or> ?o + 16 \<le> i" by auto
      show "i < 4293918720"
        using payload_bounds [of 0 "xs @ (z, u) # b # ys"] that Cons.prems hs by (auto simp: heap_rep_def)
    qed
    have k: "heap_keeps (payload 0 (xs @ (z, u) # b # ys)) s s1"
      unfolding s1_def using out blk hs by (intro heap_keeps_trans [OF heap_keeps_put heap_keeps_put]) force+
    have r1': "heap_rep s1 (xs @ (z + z2, u) # ys)" using r1 False by simp
    have co: "coalesce ((z, u) # b # ys) = coalesce ((z + z2, u) # ys)" using False b by simp
    from Cons.IH [OF r1'] obtain s' z' ys' where ih: "merge_inner (of_nat ?o) s1 = Some (True, s')"
      "heap_rep s' (xs @ (z', u) # ys')" "heap_keeps (payload 0 (xs @ (z + z2, u) # ys)) s1 s'"
      "payload 0 (xs @ (z', u) # ys') = payload 0 (xs @ (z + z2, u) # ys)"
      "coalesce ((z + z2, u) # ys) = (z', u) # coalesce ys'" "length ys' \<le> length ys" by blast
    show ?thesis
      using ih step heap_keeps_trans [OF k ih(3) [unfolded pay]] pay co
      by (intro exI [of _ s'] exI [of _ z'] exI [of _ ys']) simp
  qed
qed

lemma merge_outer_rep:
  assumes "heap_rep s (xs @ ys)" and "cur = (if ys = [] then NO_BLOCK else of_nat (tot xs))"
  shows "\<exists>s'. merge_outer cur n s = Some s' \<and> heap_rep s' (xs @ coalesce ys) \<and> heap_keeps (payload 0 (xs @ ys)) s s'"
  using assms
proof (induction "length ys" arbitrary: xs ys cur n s rule: less_induct)
  case less
  show ?case
  proof (cases ys)
    case Nil
    then show ?thesis using less.prems heap_keeps_refl by (subst merge_outer.simps) simp
  next
    case (Cons b ys1)
    obtain z u where b: "b = (z, u)" by fastforce
    define s1 where "s1 = (if (n + 1) mod 8 = 0 then mem_ctx_account s else s)"
    have s1: "\<exists>c. s1 = s\<lparr>kc := c\<rparr>" by (auto simp: s1_def mem_ctx_account_def intro: exI [of _ "kc s"])
    then have r1: "heap_rep s1 (xs @ (z, u) # ys1)" using less.prems(1) Cons b by auto
    have k1: "heap_keeps X s s1" for X using s1 by auto
    note blk = rep_block [OF r1 refl]
    have hs: "unat (heap_size s1) < 4293918720" using r1 by (intro heap_bound) (simp add: heap_rep_def)
    have cur: "cur = of_nat (tot xs)" using less.prems(2) Cons by simp
    have nb: "(of_nat (tot xs) :: u32) \<noteq> NO_BLOCK"
    proof
      assume "(of_nat (tot xs) :: u32) = NO_BLOCK"
      then have "unat (of_nat (tot xs) :: u32) = 4294967295" by simp
      then show False using blk(4,7) hs by (simp add: unat_of_nat32)
    qed
    from merge_inner_rep [OF r1] obtain s2 z2 ys2 where m: "merge_inner (of_nat (tot xs)) s1 = Some (True, s2)"
      and r2: "heap_rep s2 (xs @ (z2, u) # ys2)" and k2: "heap_keeps (payload 0 (xs @ (z, u) # ys1)) s1 s2"
      and p2: "payload 0 (xs @ (z2, u) # ys2) = payload 0 (xs @ (z, u) # ys1)"
      and c2: "coalesce ((z, u) # ys1) = (z2, u) # coalesce ys2" and l2: "length ys2 \<le> length ys1" by blast
    have next_: "b_next s2 (of_nat (tot xs)) = (if ys2 = [] then NO_BLOCK else of_nat (tot (xs @ [(z2, u)])))"
      using rep_block(3) [OF r2 refl] by (simp add: block_fields)
    have r2': "heap_rep s2 ((xs @ [(z2, u)]) @ ys2)" using r2 by simp
    have step: "merge_outer cur n s = merge_outer (b_next s2 (of_nat (tot xs))) (n + 1) s2"
      using nb by (subst merge_outer.simps)
        (simp add: cur s1_def [symmetric, simplified] Let_def validate_rep [OF r1] m)
    from less.hyps [OF _ r2' next_] l2 Cons obtain s' where
      ih: "merge_outer (b_next s2 (of_nat (tot xs))) (n + 1) s2 = Some s'"
        "heap_rep s' ((xs @ [(z2, u)]) @ coalesce ys2)" "heap_keeps (payload 0 ((xs @ [(z2, u)]) @ ys2)) s2 s'" by auto
    have "heap_keeps (payload 0 (xs @ ys)) s s'"
      using heap_keeps_trans [OF k1 heap_keeps_trans [OF k2]] ih(3) p2 Cons b by simp
    with ih step c2 Cons b show ?thesis by simp
  qed
qed

section \<open>Release\<close>

lemma heap_free_rep:
  assumes r: "heap_rep s (xs @ (z, True) # ys)" and p: "p = heap_start s + of_nat (tot xs + 16)"
  shows "\<exists>s'. heap_free p s = Some s' \<and> heap_rep s' (coalesce (xs @ (z, False) # ys))
    \<and> heap_keeps (payload 0 (xs @ (z, False) # ys)) s s'"
proof -
  let ?o = "tot xs"
  note blk = rep_block [OF r refl]
  have conf: "heap_conf s" and al: "aligned4 (heap_start s)" and init: "memory_initialized s" "first_block s = 0"
    using r by (auto simp: heap_rep_def heap_conf_def)
  have hs: "unat (heap_size s) < 4293918720" by (rule heap_bound [OF conf])
  have h0: "heap_start s \<noteq> 0" using block_address(2) [OF conf, of 0] blk by simp
  have p0: "p \<noteq> 0" unfolding p using blk(4,7) by (intro block_address(2) [OF conf]) simp
  have off: "p - heap_start s - 16 = of_nat ?o" by (simp add: p)
  have lt: "\<not> of_nat ?o \<ge> heap_size s" using blk(4,7) hs by (simp add: word_le_nat_alt unat_of_nat32)
  define s1 where "s1 = put_word (?o + 4) 0 s"
  have r1: "heap_rep s1 (xs @ [(z, False)] @ ys)"
  proof (rule rep_update [where ms = "[(z, True)]" and s = s])
    show "heap_rep s (xs @ [(z, True)] @ ys)" using r by simp
    show "word_at s1 i = word_at s i" if "i < ?o" "4 dvd i" for i
      using that blk al hs by (simp add: s1_def word_at_put)
    show "word_at s1 i = word_at s i" if "?o + tot [(z, True)] \<le> i" "4 dvd i" "i < unat (heap_size s)" for i
      using that blk al hs by (simp add: s1_def word_at_put)
    show "layout s1 ?o (if ys = [] then NO_BLOCK else of_nat (?o + tot [(z, True)])) [(z, False)]"
      using blk al hs by (simp add: s1_def word_at_put)
  qed (use conf blk in \<open>simp_all add: s1_def\<close>)
  have sub: "payload 0 (xs @ (z, False) # ys) \<subseteq> payload 0 (xs @ (z, True) # ys)" by (auto simp: payload_append)
  have k1: "heap_keeps (payload 0 (xs @ (z, False) # ys)) s s1"
    unfolding s1_def
  proof (intro heap_keeps_put ballI)
    fix i assume "i \<in> payload 0 (xs @ (z, False) # ys)"
    then have i: "i \<in> payload 0 (xs @ (z, True) # ys)" using sub by blast
    have "{?o..<?o + 16} \<inter> payload 0 (xs @ (z, True) # ys) = {}"
      using r by (intro payload_header [OF _ refl]) (simp add: heap_rep_def)
    with i have "i \<notin> {?o..<?o + 16}" by blast
    moreover have "i < 4293918720"
      using payload_bounds [of 0 "xs @ (z, True) # ys"] i r hs by (auto simp: heap_rep_def)
    ultimately show "(i < ?o + 4 \<or> ?o + 4 + 4 \<le> i) \<and> i < 4294967292" by auto
  qed (use blk hs in simp)
  have "heap_rep s1 ([] @ xs @ (z, False) # ys)" "(0 :: u32) = (if xs @ (z, False) # ys = [] then NO_BLOCK else of_nat (tot []))"
    using r1 by simp_all
  from merge_outer_rep [OF this] obtain s2 where m: "merge_outer 0 0 s1 = Some s2"
    and r2: "heap_rep s2 (coalesce (xs @ (z, False) # ys))" and k2: "heap_keeps (payload 0 (xs @ (z, False) # ys)) s1 s2"
    by auto
  have "heap_free p s = Some (s2\<lparr>free_count := free_count s2 + 1\<rparr>)"
    unfolding heap_free_def Let_def off validate_rep [OF r] prod.case block_fields s1_def [symmetric]
    using p0 init h0 lt blk(2) m by (simp add: merge_free_blocks_def s1_def [symmetric]) (simp add: s1_def)
  moreover have "heap_keeps (payload 0 (xs @ (z, False) # ys)) s (s2\<lparr>free_count := free_count s2 + 1\<rparr>)"
    by (rule heap_keeps_trans [OF k1 heap_keeps_trans [OF k2]]) simp
  ultimately show ?thesis using r2 by simp
qed

end
