(* ===== verification/Regions.thy ===== *)
theory Regions
  imports Prelude
begin

text \<open>
  What a client of an allocator may rely on, as a locale. The interface has the two calls of the
  allocator, and \<open>poke\<close> and \<open>peek\<close> for the client's own use of the memory it holds. The laws:
  a region that is handed out is large enough and apart from every live one, a live region can be
  given back, and neither call changes a byte of another live region. From these laws a
  client that only writes to regions it holds reads back what it wrote, whatever the
  sequence of its requests.
\<close>

datatype region_request = Get_region u32 | Put_region nat | Write_region nat nat u8

text \<open>The client holds regions: the pointer, the size it asked for, and the bytes it has written.\<close>

type_synonym held = "u32 \<times> u32 \<times> (nat \<Rightarrow> u8 option)"

fun run_regions :: "(u32 \<Rightarrow> 's \<Rightarrow> (u32 \<times> 's) option) \<Rightarrow> (u32 \<Rightarrow> 's \<Rightarrow> 's option) \<Rightarrow> (u32 \<Rightarrow> u8 \<Rightarrow> 's \<Rightarrow> 's)
    \<Rightarrow> region_request list \<Rightarrow> held list \<times> 's \<Rightarrow> (held list \<times> 's) option" where
  "run_regions get put poke [] c = Some c"
| "run_regions get put poke (Get_region n # rs) (hs, s) =
     (case get n s of None \<Rightarrow> None
      | Some (p, s) \<Rightarrow> run_regions get put poke rs (if p = 0 then hs else (p, n, Map.empty) # hs, s))"
| "run_regions get put poke (Put_region i # rs) (hs, s) =
     (if i < length hs then
        (case put (fst (hs ! i)) s of None \<Rightarrow> None
         | Some s \<Rightarrow> run_regions get put poke rs (take i hs @ drop (Suc i) hs, s))
      else run_regions get put poke rs (hs, s))"
| "run_regions get put poke (Write_region i j v # rs) (hs, s) =
     (if i < length hs \<and> j < unat (fst (snd (hs ! i))) then
        (case hs ! i of (p, n, c) \<Rightarrow>
           run_regions get put poke rs (hs[i := (p, n, c(j \<mapsto> v))], poke (p + of_nat j) v s))
      else run_regions get put poke rs (hs, s))"

definition extent :: "u32 \<Rightarrow> nat \<Rightarrow> nat set" where
  "extent p m = {unat p..<unat p + m}"

locale region_source =
  fixes get :: "u32 \<Rightarrow> 's \<Rightarrow> (u32 \<times> 's) option" and put :: "u32 \<Rightarrow> 's \<Rightarrow> 's option"
    and poke :: "u32 \<Rightarrow> u8 \<Rightarrow> 's \<Rightarrow> 's" and peek :: "'s \<Rightarrow> u32 \<Rightarrow> u8"
    and ok :: "'s \<Rightarrow> bool" and live :: "'s \<Rightarrow> (u32 \<times> nat) set"
  assumes get_law: "ok s \<Longrightarrow> \<exists>p s'. get n s = Some (p, s') \<and> ok s'
      \<and> (if p = 0 then live s' = live s
         else \<exists>m \<ge> unat n. live s' = insert (p, m) (live s) \<and> (\<forall>k. (p, k) \<notin> live s))
      \<and> (\<forall>(q, k) \<in> live s. \<forall>a. unat a \<in> extent q k \<longrightarrow> peek s' a = peek s a)"
    and put_law: "ok s \<Longrightarrow> (p, m) \<in> live s \<Longrightarrow> \<exists>s'. put p s = Some s' \<and> ok s' \<and> live s' = live s - {(p, m)}
      \<and> (\<forall>(q, k) \<in> live s'. \<forall>a. unat a \<in> extent q k \<longrightarrow> peek s' a = peek s a)"
    and poke_law: "ok s \<Longrightarrow> (p, m) \<in> live s \<Longrightarrow> unat a \<in> extent p m \<Longrightarrow> ok (poke a v s) \<and> live (poke a v s) = live s
      \<and> (\<forall>b. peek (poke a v s) b = (if b = a then v else peek s b))"
    and live_apart: "ok s \<Longrightarrow> (p, m) \<in> live s \<Longrightarrow> (q, k) \<in> live s \<Longrightarrow> (p, m) = (q, k) \<or> extent p m \<inter> extent q k = {}"
    and live_key: "ok s \<Longrightarrow> (p, m) \<in> live s \<Longrightarrow> (p, k) \<in> live s \<Longrightarrow> m = k"
    and live_fits: "ok s \<Longrightarrow> (p, m) \<in> live s \<Longrightarrow> unat p + m \<le> 2 ^ 32"
begin

definition holds :: "'s \<Rightarrow> held \<Rightarrow> bool" where
  "holds s h \<longleftrightarrow> (case h of (p, n, c) \<Rightarrow> (\<exists>m \<ge> unat n. (p, m) \<in> live s)
     \<and> (\<forall>j v. c j = Some v \<longrightarrow> j < unat n \<and> peek s (p + of_nat j) = v))"

definition fair :: "held list \<times> 's \<Rightarrow> bool" where
  "fair c \<longleftrightarrow> ok (snd c) \<and> distinct (map fst (fst c)) \<and> (\<forall>h \<in> set (fst c). holds (snd c) h)"

lemma inside:
  assumes "ok s" "(p, m) \<in> live s" "j < m"
  shows "unat (p + of_nat j) = unat p + j" "unat (p + of_nat j) \<in> extent p m"
proof -
  have l: "unat p + m \<le> 2 ^ 32" by (rule live_fits [OF assms(1,2)])
  then have "unat (of_nat j :: u32) = j" using assms(3) by (simp add: unat_of_nat32)
  then show "unat (p + of_nat j) = unat p + j" using l assms(3) by (subst unat_add32) simp_all
  then show "unat (p + of_nat j) \<in> extent p m" using assms(3) by (simp add: extent_def)
qed

text \<open>A step that keeps a live region and its bytes keeps what a client holds there.\<close>

lemma holds_keep:
  assumes "ok s" "holds s h" "fst h = p" "(p, m) \<in> live s" "\<exists>k. (p, k) \<in> live s' \<and> k = m"
    and "\<And>a. unat a \<in> extent p m \<Longrightarrow> peek s' a = peek s a"
  shows "holds s' h"
proof -
  obtain n c where h: "h = (p, n, c)" using assms(3) by (cases h) auto
  obtain k where "k \<ge> unat n" "(p, k) \<in> live s" using assms(2) by (auto simp: h holds_def)
  with live_key [OF assms(1,4)] have nm: "unat n \<le> m" by auto
  have "peek s' (p + of_nat j) = peek s (p + of_nat j)" if "j < unat n" for j
    using inside(2) [OF assms(1,4)] that nm assms(6) by simp
  then show ?thesis using assms(2,5) nm by (auto simp: h holds_def)
qed

lemma fair_get:
  assumes f: "fair (hs, s)"
  shows "\<exists>p s'. get n s = Some (p, s') \<and> fair (if p = 0 then hs else (p, n, Map.empty) # hs, s')"
proof -
  have ok: "ok s" using f by (simp add: fair_def)
  from get_law [OF ok, of n] obtain p s' where g: "get n s = Some (p, s')" "ok s'"
    and l: "if p = 0 then live s' = live s
         else \<exists>m \<ge> unat n. live s' = insert (p, m) (live s) \<and> (\<forall>k. (p, k) \<notin> live s)"
    and keep: "\<forall>(q, k) \<in> live s. \<forall>a. unat a \<in> extent q k \<longrightarrow> peek s' a = peek s a" by blast
  have sub: "live s \<subseteq> live s'" using l by (auto split: if_splits)
  have "holds s' h" if "h \<in> set hs" for h
  proof -
    have h: "holds s h" using f that by (simp add: fair_def)
    then obtain m where m: "(fst h, m) \<in> live s" by (auto simp: holds_def split: prod.splits)
    show ?thesis using m sub keep by (intro holds_keep [OF ok h refl m]) auto
  qed
  moreover have "fst h \<noteq> p" if "h \<in> set hs" "p \<noteq> 0" for h
  proof -
    have "holds s h" using f that by (simp add: fair_def)
    then obtain k where "(fst h, k) \<in> live s" by (auto simp: holds_def split: prod.splits)
    then show ?thesis using l that by auto
  qed
  ultimately show ?thesis using g l f by (fastforce simp: fair_def holds_def split: if_splits)
qed

lemma fair_put:
  assumes f: "fair (hs, s)" and i: "i < length hs"
  shows "\<exists>s'. put (fst (hs ! i)) s = Some s' \<and> fair (take i hs @ drop (Suc i) hs, s')"
proof -
  have ok: "ok s" using f by (simp add: fair_def)
  define xs h ys where "xs = take i hs" and "h = hs ! i" and "ys = drop (Suc i) hs"
  have hs: "hs = xs @ h # ys" using i by (simp add: xs_def h_def ys_def id_take_nth_drop)
  obtain m where m: "(fst h, m) \<in> live s" using f by (auto simp: hs fair_def holds_def split: prod.splits)
  from put_law [OF ok m] obtain s' where p: "put (fst h) s = Some s'" "ok s'" "live s' = live s - {(fst h, m)}"
    and keep: "\<forall>(q, k) \<in> live s'. \<forall>a. unat a \<in> extent q k \<longrightarrow> peek s' a = peek s a" by blast
  have "holds s' g" if "g \<in> set (xs @ ys)" for g
  proof -
    have g: "holds s g" using f that by (auto simp: hs fair_def)
    then obtain k where k: "(fst g, k) \<in> live s" by (auto simp: holds_def split: prod.splits)
    have "fst g \<in> fst ` set (xs @ ys)" using that by simp
    moreover have "fst h \<notin> fst ` set (xs @ ys)" using f by (simp add: hs fair_def image_Un)
    ultimately have "fst g \<noteq> fst h" by metis
    then have "(fst g, k) \<in> live s'" using k p(3) by auto
    then show ?thesis using keep by (intro holds_keep [OF ok g refl k]) auto
  qed
  moreover have "distinct (map fst (xs @ ys))" using f by (auto simp: hs fair_def)
  ultimately have "fair (xs @ ys, s')" using p(2) by (auto simp: fair_def)
  then show ?thesis using p(1) by (simp add: xs_def ys_def h_def)
qed

lemma fair_write:
  assumes f: "fair (hs, s)" and i: "i < length hs" and h: "hs ! i = (p, n, c)" and j: "j < unat n"
  shows "fair (hs[i := (p, n, c(j \<mapsto> v))], poke (p + of_nat j) v s)"
proof -
  have ok: "ok s" using f by (simp add: fair_def)
  have hi: "holds s (p, n, c)" using f i h nth_mem [OF i] by (auto simp: fair_def)
  then obtain m where m: "(p, m) \<in> live s" "unat n \<le> m" by (auto simp: holds_def)
  have jm: "j < m" using j m by simp
  note a = inside [OF ok m(1) jm]
  from poke_law [OF ok m(1) a(2)] have pk: "ok (poke (p + of_nat j) v s)" "live (poke (p + of_nat j) v s) = live s"
    "\<And>b. peek (poke (p + of_nat j) v s) b = (if b = p + of_nat j then v else peek s b)" by auto
  have "holds (poke (p + of_nat j) v s) (hs[i := (p, n, c(j \<mapsto> v))] ! k)" if k: "k < length hs" for k
  proof (cases "k = i")
    case True
    have "p + of_nat k' \<noteq> p + of_nat j" if "k' < unat n" "k' \<noteq> j" for k'
      using inside(1) [OF ok m(1), of k'] a(1) that m(2) by auto
    then show ?thesis using True i hi m j pk by (auto simp: holds_def)
  next
    case False
    have g: "holds s (hs ! k)" using f nth_mem [OF k] by (simp add: fair_def)
    then obtain l where l: "(fst (hs ! k), l) \<in> live s" by (auto simp: holds_def split: prod.splits)
    have "fst (hs ! k) \<noteq> p"
      using f False i k h nth_eq_iff_index_eq [of "map fst hs" k i] by (auto simp: fair_def)
    then have "extent (fst (hs ! k)) l \<inter> extent p m = {}" using live_apart [OF ok l m(1)] by auto
    then have "peek (poke (p + of_nat j) v s) b = peek s b" if "unat b \<in> extent (fst (hs ! k)) l" for b
      using that a(2) pk(3) by auto
    then show ?thesis using False l pk(2) by (simp add: holds_keep [OF ok g refl l])
  qed
  then have "\<forall>h \<in> set (hs[i := (p, n, c(j \<mapsto> v))]). holds (poke (p + of_nat j) v s) h"
    by (metis in_set_conv_nth length_list_update)
  moreover have "map fst (hs[i := (p, n, c(j \<mapsto> v))]) = map fst hs"
    using h i by (simp add: map_update list_update_same_conv)
  ultimately show ?thesis using f pk(1) by (simp add: fair_def)
qed

theorem fair_run: "fair c \<Longrightarrow> \<exists>c'. run_regions get put poke rs c = Some c' \<and> fair c'"
proof (induction rs arbitrary: c)
  case (Cons r rs)
  obtain hs s where c: "c = (hs, s)" by fastforce
  note f = Cons.prems [unfolded c]
  show ?case
  proof (cases r)
    case (Get_region n)
    from fair_get [OF f, of n] obtain p s' where "get n s = Some (p, s')"
      "fair (if p = 0 then hs else (p, n, Map.empty) # hs, s')" by blast
    then show ?thesis using Cons.IH by (simp add: Get_region c)
  next
    case (Put_region i)
    show ?thesis
    proof (cases "i < length hs")
      case True
      then show ?thesis using fair_put [OF f True] Cons.IH by (auto simp: Put_region c)
    next
      case False
      then show ?thesis using Cons.IH [OF f] by (simp add: Put_region c)
    qed
  next
    case (Write_region i j v)
    obtain p n d where h: "hs ! i = (p, n, d)" by (cases "hs ! i") auto
    show ?thesis
    proof (cases "i < length hs \<and> j < unat n")
      case True
      then show ?thesis using fair_write [OF f _ h] Cons.IH by (simp add: Write_region c h)
    next
      case False
      then show ?thesis using Cons.IH [OF f] by (auto simp: Write_region c h)
    qed
  qed
qed simp

text \<open>What the laws give to a client.\<close>

theorem client_sound:
  assumes ok: "ok s"
  shows "\<exists>hs s'. run_regions get put poke rs ([], s) = Some (hs, s') \<and> ok s'
    \<and> (\<forall>(p, n, c) \<in> set hs. \<forall>j v. c j = Some v \<longrightarrow> peek s' (p + of_nat j) = v)
    \<and> (\<forall>i < length hs. \<forall>j < i. extent (fst (hs ! i)) (unat (fst (snd (hs ! i))))
          \<inter> extent (fst (hs ! j)) (unat (fst (snd (hs ! j)))) = {})"
proof -
  have "fair ([], s)" using ok by (simp add: fair_def)
  from fair_run [OF this] obtain hs s' where r: "run_regions get put poke rs ([], s) = Some (hs, s')" "fair (hs, s')"
    by fastforce
  then have ok': "ok s'" by (simp add: fair_def)
  have sep: "extent (fst (hs ! i)) (unat (fst (snd (hs ! i)))) \<inter> extent (fst (hs ! j)) (unat (fst (snd (hs ! j)))) = {}"
    if ij: "i < length hs" "j < i" for i j
  proof -
    have "holds s' (hs ! i)" "holds s' (hs ! j)" using r(2) ij by (simp_all add: fair_def)
    then obtain m k where mk: "(fst (hs ! i), m) \<in> live s'" "unat (fst (snd (hs ! i))) \<le> m"
      "(fst (hs ! j), k) \<in> live s'" "unat (fst (snd (hs ! j))) \<le> k" by (auto simp: holds_def split: prod.splits)
    have "fst (hs ! i) \<noteq> fst (hs ! j)"
      using r(2) ij nth_eq_iff_index_eq [of "map fst hs" i j] by (auto simp: fair_def)
    then have "extent (fst (hs ! i)) m \<inter> extent (fst (hs ! j)) k = {}"
      using live_apart [OF ok' mk(1,3)] by auto
    moreover have "extent p a \<subseteq> extent p b" if "a \<le> b" for p a b using that by (auto simp: extent_def)
    ultimately show ?thesis using mk(2,4) by blast
  qed
  have "\<forall>h \<in> set hs. holds s' h" using r(2) by (simp add: fair_def)
  then show ?thesis using r(1) ok' sep by (fastforce simp: holds_def)
qed

end

end
