(* ===== verification/HeapClient.thy ===== *)
theory HeapClient
  imports HeapSpec Regions
begin

text \<open>
  The heap as a source of regions: \<open>heap_malloc\<close> and \<open>heap_free\<close> satisfy the laws of
  \<open>region_source\<close>, so every client of the heap reads back what it wrote. Then the
  properties of the heap, one theorem each.
\<close>

section \<open>Live regions\<close>

fun regs :: "nat \<Rightarrow> blocks \<Rightarrow> (nat \<times> nat) list" where
  "regs off [] = []"
| "regs off (b # bs) = (if snd b then [(off + 16, fst b - 16)] else []) @ regs (off + fst b) bs"

lemma regs_append [simp]: "regs off (xs @ ys) = regs off xs @ regs (off + tot xs) ys"
  by (induction xs arbitrary: off) (auto simp: add.assoc)

lemma regs_coalesce [simp]: "regs off (coalesce bs) = regs off bs"
  by (induction bs arbitrary: off rule: coalesce.induct) (simp_all flip: add.assoc)

lemma regs_bounds: "wf_blocks bs \<Longrightarrow> (k, m) \<in> set (regs off bs) \<Longrightarrow> off + 16 \<le> k \<and> k + m \<le> off + tot bs"
  by (induction bs arbitrary: off) (fastforce split: if_splits)+

lemma regs_split:
  "(k, m) \<in> set (regs off bs) \<Longrightarrow> \<exists>xs z ys. bs = xs @ (z, True) # ys \<and> k = off + tot xs + 16 \<and> m = z - 16"
proof (induction bs arbitrary: off)
  case (Cons b bs)
  show ?case
  proof (cases "(k, m) \<in> set (regs (off + fst b) bs)")
    case True
    from Cons.IH [OF this] obtain xs z ys where "bs = xs @ (z, True) # ys \<and> k = off + fst b + tot xs + 16 \<and> m = z - 16"
      by blast
    then show ?thesis by (intro exI [of _ "b # xs"]) auto
  next
    case False
    then have "snd b" "k = off + 16" "m = fst b - 16" using Cons.prems by (auto split: if_splits)
    then show ?thesis by (intro exI [of _ "[]"] exI [of _ "fst b"] exI [of _ bs]) (cases b, auto)
  qed
qed simp

lemma regs_apart:
  "wf_blocks bs \<Longrightarrow> (k, m) \<in> set (regs off bs) \<Longrightarrow> (k', m') \<in> set (regs off bs) \<Longrightarrow>
   (k, m) = (k', m') \<or> k + m \<le> k' \<and> k + 16 \<le> k' \<or> k' + m' \<le> k \<and> k' + 16 \<le> k"
proof (induction bs arbitrary: off)
  case (Cons b bs)
  then show ?case using regs_bounds [of bs _ _ "off + fst b"] by (fastforce split: if_splits)
qed simp

lemma regs_payload: "(k, m) \<in> set (regs off bs) \<Longrightarrow> {k..<k + m} \<subseteq> payload off bs"
  by (induction bs arbitrary: off) (fastforce split: if_splits)+

definition heap_live :: "heap_machine \<Rightarrow> (u32 \<times> nat) set" where
  "heap_live s = {(heap_start s + of_nat k, m) | k m. \<exists>bs. heap_rep s bs \<and> (k, m) \<in> set (regs 0 bs)}"

definition heap_ok :: "heap_machine \<Rightarrow> bool" where
  "heap_ok s \<longleftrightarrow> (\<exists>bs. heap_rep s bs)"

definition poke :: "u32 \<Rightarrow> u8 \<Rightarrow> heap_machine \<Rightarrow> heap_machine" where
  "poke a v s = s\<lparr>mem := (mem s)(a := v)\<rparr>"

text \<open>The memory determines the list of blocks.\<close>

lemma layout_unique:
  assumes "layout s off nx bs" "layout s off nx cs" "wf_blocks bs" "wf_blocks cs" "tot bs = tot cs" "tot bs < 2 ^ 32"
  shows "bs = cs"
  using assms
proof (induction bs arbitrary: off cs)
  case Nil
  then show ?case by (cases cs) auto
next
  case (Cons b bs)
  then obtain c cs' where cs: "cs = c # cs'" by (cases cs) auto
  have "(of_nat (fst b) :: u32) = of_nat (fst c)" using Cons.prems by (simp add: cs)
  moreover have "fst b < 2 ^ 32" "fst c < 2 ^ 32" using Cons.prems by (auto simp: cs)
  ultimately have f: "fst b = fst c" using of_nat_neq32 by blast
  moreover have "snd b = snd c" using Cons.prems by (auto simp: cs)
  moreover have "bs = cs'" using Cons.prems f by (intro Cons.IH [of "off + fst b"]) (auto simp: cs)
  ultimately show ?case by (simp add: cs prod_eq_iff)
qed

lemma heap_rep_unique: "heap_rep s bs \<Longrightarrow> heap_rep s cs \<Longrightarrow> bs = cs"
  using heap_bound [of s] by (intro layout_unique [of s 0 NO_BLOCK]) (auto simp: heap_rep_def)

lemma heap_live_rep: "heap_rep s bs \<Longrightarrow> heap_live s = (\<lambda>(k, m). (heap_start s + of_nat k, m)) ` set (regs 0 bs)"
proof -
  assume r: "heap_rep s bs"
  then have "(\<exists>cs. heap_rep s cs \<and> x \<in> set (regs 0 cs)) \<longleftrightarrow> x \<in> set (regs 0 bs)" for x
    using heap_rep_unique [OF r] by blast
  then show ?thesis by (auto simp: heap_live_def)
qed

lemma region_address:
  assumes r: "heap_rep s bs" and k: "(k, m) \<in> set (regs 0 bs)"
  shows "unat (heap_start s + of_nat k) = unat (heap_start s) + k" and "unat (heap_start s) + k + m \<le> 2 ^ 32"
    and "k + m \<le> unat (heap_size s)"
proof -
  have "k + m \<le> unat (heap_size s)" using r k regs_bounds [of bs k m 0] by (simp add: heap_rep_def)
  then show "unat (heap_start s + of_nat k) = unat (heap_start s) + k" "unat (heap_start s) + k + m \<le> 2 ^ 32"
    "k + m \<le> unat (heap_size s)"
    using r block_address(1) [of s k] by (auto simp: heap_rep_def heap_conf_def)
qed

lemma of_nat_inside:
  assumes c: "heap_conf s" and k: "k + m \<le> unat (heap_size s)" and a: "unat a \<in> extent (heap_start s + of_nat k) m"
  shows "\<exists>i. k \<le> i \<and> i < k + m \<and> a = heap_start s + of_nat i"
proof -
  have b: "unat (heap_start s + of_nat k) = unat (heap_start s) + k" using k by (intro block_address(1) [OF c]) simp
  define i where "i = unat a - unat (heap_start s)"
  have i: "k \<le> i" "i < k + m" "unat a = unat (heap_start s) + i" using a b by (auto simp: extent_def i_def)
  then have "unat (heap_start s + of_nat i) = unat a" using k block_address(1) [OF c, of i] by simp
  then show ?thesis using i by (metis unsigned_word_eqI)
qed

lemma peek_kept:
  assumes r: "heap_rep s bs" and k: "(k, m) \<in> set (regs 0 bs)" and kp: "heap_keeps X s s'" "{k..<k + m} \<subseteq> X"
    and a: "unat a \<in> extent (heap_start s + of_nat k) m"
  shows "mem s' a = mem s a"
proof -
  have "heap_conf s" using r by (simp add: heap_rep_def)
  from of_nat_inside [OF this region_address(3) [OF r k] a] obtain i where
    "k \<le> i" "i < k + m" "a = heap_start s + of_nat i" by blast
  then show ?thesis using kp by (auto simp: heap_keeps_def byte_at_def)
qed

text \<open>Writing to a payload byte leaves the chain alone.\<close>

fun headers :: "nat \<Rightarrow> blocks \<Rightarrow> nat set" where
  "headers off [] = {}"
| "headers off (b # bs) = {off..<off + 16} \<union> headers (off + fst b) bs"

lemma headers_bounds: "wf_blocks bs \<Longrightarrow> headers off bs \<subseteq> {off..<off + tot bs}"
proof (induction bs arbitrary: off)
  case (Cons b bs)
  from Cons.IH [of "off + fst b"] Cons.prems show ?case by (auto simp: subset_iff)
qed simp

lemma headers_payload: "wf_blocks bs \<Longrightarrow> headers off bs \<inter> payload off bs = {}"
proof (induction bs arbitrary: off)
  case (Cons b bs)
  have ih: "headers (off + fst b) bs \<inter> payload (off + fst b) bs = {}" using Cons by simp
  have h: "off + fst b \<le> i" if "i \<in> headers (off + fst b) bs" for i using headers_bounds that Cons.prems by fastforce
  have p: "off + fst b \<le> i" if "i \<in> payload (off + fst b) bs" for i using payload_bounds that by fastforce
  have "i \<notin> payload off (b # bs)" if "i \<in> headers off (b # bs)" for i
  proof (cases "off + fst b \<le> i")
    case True
    then show ?thesis using that ih Cons.prems by auto
  next
    case False
    then have "i \<in> {off..<off + 16}" "i \<notin> payload (off + fst b) bs" using that h p by auto
    then show ?thesis by auto
  qed
  then show ?case by blast
qed simp

lemma layout_bytes:
  assumes "\<And>i. i \<in> headers off bs \<Longrightarrow> byte_at s' i = byte_at s i" and "heap_start s' = heap_start s"
  shows "layout s' off nx bs = layout s off nx bs"
  using assms
proof (induction bs arbitrary: off)
  case (Cons b bs)
  have "layout s' (off + fst b) nx bs = layout s (off + fst b) nx bs"
    using Cons.prems by (intro Cons.IH) auto
  moreover have "word_at s' (off + k) = word_at s (off + k)" if "k + 4 \<le> 16" for k
  proof -
    have "byte_at s' (off + k + j) = byte_at s (off + k + j)" if "j < 4" for j
      using \<open>k + 4 \<le> 16\<close> that by (intro Cons.prems(1)) simp
    from this [of 0] this [of 1] this [of 2] this [of 3]
    have "byte_at s' (off + k) = byte_at s (off + k)" "byte_at s' (off + k + 1) = byte_at s (off + k + 1)"
      "byte_at s' (off + k + 2) = byte_at s (off + k + 2)" "byte_at s' (off + k + 3) = byte_at s (off + k + 3)"
      by simp_all
    moreover have "word_at t n = ucast (byte_at t n) OR push_bit 8 (ucast (byte_at t (n + 1)))
        OR push_bit 16 (ucast (byte_at t (n + 2))) OR push_bit 24 (ucast (byte_at t (n + 3)))" for t n
      by (simp add: word_at_def load32_def byte_at_def add_ac)
    ultimately show ?thesis by (simp only:)
  qed
  from this [of 0] this [of 4] this [of 8] have "word_at s' off = word_at s off"
    "word_at s' (off + 4) = word_at s (off + 4)" "word_at s' (off + 8) = word_at s (off + 8)" by simp_all
  ultimately show ?case by simp
qed simp

lemma heap_rep_poke:
  assumes r: "heap_rep s bs" and i: "i \<in> payload 0 bs"
  shows "heap_rep (poke (heap_start s + of_nat i) v s) bs"
proof -
  let ?s = "poke (heap_start s + of_nat i) v s"
  have w: "wf_blocks bs" "tot bs = unat (heap_size s)" and c: "heap_conf s" using r by (simp_all add: heap_rep_def)
  have b: "i < 2 ^ 32" using payload_bounds [of 0 bs] i w heap_bound [OF c] by fastforce
  have "byte_at ?s j = byte_at s j" if j: "j \<in> headers 0 bs" for j
  proof -
    have "j \<noteq> i" using headers_payload [OF w(1), of 0] i j by auto
    moreover have "j < 2 ^ 32" using headers_bounds [OF w(1), of 0] j w heap_bound [OF c] by fastforce
    ultimately show ?thesis using of_nat_neq32 [of j i] b by (simp add: byte_at_def poke_def)
  qed
  then have "layout ?s 0 NO_BLOCK bs = layout s 0 NO_BLOCK bs" by (intro layout_bytes) (simp_all add: poke_def)
  moreover have "heap_conf ?s" using c by (simp add: heap_conf_def poke_def)
  ultimately show ?thesis using r by (simp add: heap_rep_def poke_def)
qed

section \<open>The heap is a region source\<close>

lemma heap_malloc_ready: "heap_rep s bs \<Longrightarrow> heap_malloc n s = Some (heap_malloc_body n s)"
  by (simp add: heap_malloc_def ensure_memory_initialized_def heap_rep_def heap_conf_def)

lemma regs_cut:
  assumes "16 \<le> t" "t \<le> z"
  shows "\<exists>m. t - 16 \<le> m \<and> set (regs 0 (xs @ cut t z @ ys)) = insert (tot xs + 16, m) (set (regs 0 (xs @ (z, False) # ys)))"
  using assms by (intro exI [of _ "if z < t + 32 then z - 16 else t - 16"]) (auto simp: cut_def)

lemma regs_fresh:
  assumes "wf_blocks (xs @ (z, False) # ys)"
  shows "(tot xs + 16, m) \<notin> set (regs 0 (xs @ (z, False) # ys))"
  using regs_bounds [of xs "tot xs + 16" m 0] regs_bounds [of ys "tot xs + 16" m "tot xs + z"] assms by auto

lemma heap_get_law:
  assumes r: "heap_rep s bs" and m: "heap_malloc_body n s = (p, s')"
  shows "heap_ok s' \<and> (if p = 0 then heap_live s' = heap_live s
         else \<exists>m \<ge> unat n. heap_live s' = insert (p, m) (heap_live s) \<and> (\<forall>k. (p, k) \<notin> heap_live s))
      \<and> (\<forall>(q, k) \<in> heap_live s. \<forall>a. unat a \<in> extent q k \<longrightarrow> mem s' a = mem s a)"
proof -
  consider c where "p = 0" "s' = s\<lparr>kc := c\<rparr>"
    | xs z ys where "bs = xs @ (z, False) # ys" "p \<noteq> 0" "p = heap_start s + of_nat (tot xs + 16)" "rounded n \<le> z"
        "heap_rep s' (xs @ cut (rounded n) z @ ys)" "heap_keeps (payload 0 bs) s s'"
    using heap_malloc_body_cases [OF r m] by blast
  then show ?thesis
  proof cases
    case 1
    then have "heap_rep s' bs" using r by simp
    then show ?thesis using 1 r by (auto simp: heap_ok_def heap_live_rep)
  next
    case 2
    have t: "16 \<le> rounded n" "unat n \<le> rounded n - 16" by (simp_all add: rounded_def)
    have hs: "heap_start s' = heap_start s" using 2(6) by (simp add: heap_keeps_def)
    obtain m where m: "rounded n - 16 \<le> m"
      "set (regs 0 (xs @ cut (rounded n) z @ ys)) = insert (tot xs + 16, m) (set (regs 0 bs))"
      using regs_cut [OF t(1) 2(4), of xs ys] unfolding 2(1) by blast
    have live: "heap_live s' = insert (p, m) (heap_live s)"
      unfolding heap_live_rep [OF 2(5)] heap_live_rep [OF r] m(2) hs 2(3) by simp
    have fresh: "(p, k) \<notin> heap_live s" for k
    proof
      assume "(p, k) \<in> heap_live s"
      then obtain o' where o': "(o', k) \<in> set (regs 0 bs)" "p = heap_start s + of_nat o'" by (auto simp: heap_live_rep [OF r])
      have "tot xs + 16 < 2 ^ 32" "o' < 2 ^ 32"
        using region_address(3) [OF r o'(1)] rep_block(4,7) [OF r 2(1)] heap_bound [of s] r by (auto simp: heap_rep_def)
      then have "o' = tot xs + 16" using o'(2) 2(3) of_nat_neq32 by (metis add_left_cancel)
      then show False using o'(1) regs_fresh [of xs z ys k] r unfolding 2(1) by (simp add: heap_rep_def)
    qed
    have "mem s' a = mem s a" if qk: "(q, k) \<in> heap_live s" and a: "unat a \<in> extent q k" for q k a
    proof -
      obtain o' where o': "(o', k) \<in> set (regs 0 bs)" "q = heap_start s + of_nat o'" using qk by (auto simp: heap_live_rep [OF r])
      show ?thesis by (rule peek_kept [OF r o'(1) 2(6) regs_payload [OF o'(1)] a [unfolded o'(2)]])
    qed
    moreover have "unat n \<le> m" using t(2) m(1) by simp
    ultimately show ?thesis using 2(2,5) live fresh by (auto simp: heap_ok_def)
  qed
qed

lemma heap_put_law:
  assumes r: "heap_rep s bs" and pm: "(p, m) \<in> heap_live s"
  shows "\<exists>s'. heap_free p s = Some s' \<and> heap_ok s' \<and> heap_live s' = heap_live s - {(p, m)}
      \<and> (\<forall>(q, k) \<in> heap_live s'. \<forall>a. unat a \<in> extent q k \<longrightarrow> mem s' a = mem s a)"
proof -
  obtain k where k: "(k, m) \<in> set (regs 0 bs)" "p = heap_start s + of_nat k" using pm by (auto simp: heap_live_rep [OF r])
  obtain xs z ys where bs: "bs = xs @ (z, True) # ys" "k = tot xs + 16" "m = z - 16" using regs_split [OF k(1)] by auto
  from heap_free_rep [OF r [unfolded bs(1)] k(2) [unfolded bs(2)]] obtain s' where
    s': "heap_free p s = Some s'" "heap_rep s' (coalesce (xs @ (z, False) # ys))"
      "heap_keeps (payload 0 (xs @ (z, False) # ys)) s s'" by blast
  have hs: "heap_start s' = heap_start s" using s'(3) by (simp add: heap_keeps_def)
  have w: "wf_blocks (xs @ (z, False) # ys)" and hsz: "tot bs < 2 ^ 32" using r heap_bound [of s] by (auto simp: heap_rep_def bs)
  have fresh: "(tot xs + 16, j) \<notin> set (regs 0 (xs @ (z, False) # ys))" for j by (rule regs_fresh [OF w])
  have split: "set (regs 0 bs) = insert (k, m) (set (regs 0 (xs @ (z, False) # ys)))" by (auto simp: bs)
  have live': "heap_live s' = (\<lambda>(k, m). (heap_start s + of_nat k, m)) ` set (regs 0 (xs @ (z, False) # ys))"
    unfolding heap_live_rep [OF s'(2)] hs regs_coalesce ..
  have "(heap_start s + of_nat j, i) \<noteq> (p, m)" if "(j, i) \<in> set (regs 0 (xs @ (z, False) # ys))" for j i
  proof
    assume "(heap_start s + of_nat j, i) = (p, m)"
    then have "(of_nat j :: u32) = of_nat k" "i = m" using k by auto
    moreover have "(j, i) \<in> set (regs 0 bs)" using that split by simp
    then have "j < 2 ^ 32" "k < 2 ^ 32" using region_address(3) [OF r] k(1) heap_bound [of s] r by (fastforce simp: heap_rep_def)+
    ultimately have "j = k" using of_nat_neq32 by blast
    then show False using that fresh bs(2) by simp
  qed
  then have "(p, m) \<notin> heap_live s'" unfolding live' by auto
  moreover have "heap_live s = insert (p, m) (heap_live s')"
    unfolding live' heap_live_rep [OF r] split by (simp add: k(2))
  ultimately have "heap_live s' = heap_live s - {(p, m)}" by simp
  moreover have "mem s' a = mem s a" if h: "(q, i) \<in> heap_live s'" "unat a \<in> extent q i" for q i a
  proof -
    obtain j where j: "(j, i) \<in> set (regs 0 (xs @ (z, False) # ys))" "q = heap_start s + of_nat j" using h(1) unfolding live' by (auto simp del: regs_append)
    then have "(j, i) \<in> set (regs 0 bs)" using split by simp
    then show ?thesis
      by (rule peek_kept [OF r _ s'(3) regs_payload [OF j(1)] h(2) [unfolded j(2)]])
  qed
  ultimately show ?thesis using s'(1,2) by (auto simp: heap_ok_def)
qed

interpretation heap_source: region_source heap_malloc heap_free poke mem heap_ok heap_live
proof unfold_locales
  fix s :: heap_machine and n :: u32
  assume "heap_ok s"
  then obtain bs where r: "heap_rep s bs" by (auto simp: heap_ok_def)
  obtain p s' where m: "heap_malloc_body n s = (p, s')" by fastforce
  show "\<exists>p s'. heap_malloc n s = Some (p, s') \<and> heap_ok s'
      \<and> (if p = 0 then heap_live s' = heap_live s
         else \<exists>m \<ge> unat n. heap_live s' = insert (p, m) (heap_live s) \<and> (\<forall>k. (p, k) \<notin> heap_live s))
      \<and> (\<forall>(q, k) \<in> heap_live s. \<forall>a. unat a \<in> extent q k \<longrightarrow> mem s' a = mem s a)"
    using heap_get_law [OF r m] heap_malloc_ready [OF r, of n] m by (intro exI [of _ p] exI [of _ s']) simp
next
  fix s p m
  assume "heap_ok s" and pm: "(p, m) \<in> heap_live s"
  then show "\<exists>s'. heap_free p s = Some s' \<and> heap_ok s' \<and> heap_live s' = heap_live s - {(p, m)}
      \<and> (\<forall>(q, k) \<in> heap_live s'. \<forall>a. unat a \<in> extent q k \<longrightarrow> mem s' a = mem s a)"
    using heap_put_law by (auto simp: heap_ok_def)
next
  fix s p m and a :: u32 and v
  assume "heap_ok s" and pm: "(p, m) \<in> heap_live s" and a: "unat a \<in> extent p m"
  then obtain bs k where r: "heap_rep s bs" and k: "(k, m) \<in> set (regs 0 bs)" "p = heap_start s + of_nat k"
    by (auto simp: heap_ok_def heap_live_rep)
  have "heap_conf s" using r by (simp add: heap_rep_def)
  from of_nat_inside [OF this region_address(3) [OF r k(1)] a [unfolded k(2)]] obtain i where
    i: "k \<le> i" "i < k + m" "a = heap_start s + of_nat i" by blast
  then have "i \<in> payload 0 bs" using regs_payload [OF k(1)] by auto
  from heap_rep_poke [OF r this] have r': "heap_rep (poke a v s) bs" by (simp add: i(3))
  then have "heap_live (poke a v s) = heap_live s"
    by (simp add: heap_live_rep [OF r'] heap_live_rep [OF r]) (simp add: poke_def)
  with r' show "heap_ok (poke a v s) \<and> heap_live (poke a v s) = heap_live s
      \<and> (\<forall>b. mem (poke a v s) b = (if b = a then v else mem s b))"
    by (auto simp: heap_ok_def poke_def)
next
  fix s p m q k
  assume "heap_ok s" and pm: "(p, m) \<in> heap_live s" and qk: "(q, k) \<in> heap_live s"
  then obtain bs i j where r: "heap_rep s bs" and i: "(i, m) \<in> set (regs 0 bs)" "p = heap_start s + of_nat i"
    and j: "(j, k) \<in> set (regs 0 bs)" "q = heap_start s + of_nat j"
    by (auto simp: heap_ok_def heap_live_rep)
  have "wf_blocks bs" using r by (simp add: heap_rep_def)
  from regs_apart [OF this i(1) j(1)] show "(p, m) = (q, k) \<or> extent p m \<inter> extent q k = {}"
    unfolding extent_def i(2) j(2) region_address(1) [OF r i(1)] region_address(1) [OF r j(1)] by auto
next
  fix s p m k
  assume "heap_ok s" and pm: "(p, m) \<in> heap_live s" and qk: "(p, k) \<in> heap_live s"
  then obtain bs i j where r: "heap_rep s bs" and i: "(i, m) \<in> set (regs 0 bs)" "p = heap_start s + of_nat i"
    and j: "(j, k) \<in> set (regs 0 bs)" "p = heap_start s + of_nat j"
    by (auto simp: heap_ok_def heap_live_rep)
  have "i < 2 ^ 32" "j < 2 ^ 32" using region_address(3) [OF r i(1)] region_address(3) [OF r j(1)] heap_bound [of s] r
    by (auto simp: heap_rep_def)
  then have "i = j" using i(2) j(2) of_nat_neq32 by (metis add_left_cancel)
  moreover have "wf_blocks bs" using r by (simp add: heap_rep_def)
  ultimately show "m = k" using regs_apart [OF _ i(1) j(1)] by auto
next
  fix s p m
  assume "heap_ok s" and "(p, m) \<in> heap_live s"
  then show "unat p + m \<le> 2 ^ 32" using region_address(1,2) by (fastforce simp: heap_ok_def heap_live_rep)
qed

section \<open>Initialisation\<close>

lemma one_block_rep:
  assumes "heap_start s \<ge> 0x100000" "aligned4 (heap_start s)" "unat (heap_start s) + unat (heap_size s) < 2 ^ 32"
    and "heap_size s \<ge> HEAP_SIZE_MIN" "4 dvd unat (heap_size s)"
  defines "s' \<equiv> set_magic 0 MAGIC_NUMBER (set_next 0 NO_BLOCK (set_used 0 0 (set_size 0 (heap_size s) s)))
      \<lparr>first_block := 0, memory_initialized := True, memory_errors := 0, allocation_count := 0, free_count := 0\<rparr>"
  shows "heap_rep s' [(unat (heap_size s), False)]"
proof -
  define t where "t = put_word 12 MAGIC_NUMBER (put_word 8 NO_BLOCK (put_word 4 0 (put_word 0 (heap_size s) s)))"
  have s': "s' = t\<lparr>first_block := 0, memory_initialized := True, memory_errors := 0, allocation_count := 0, free_count := 0\<rparr>"
    using block_fields [where k = 0] by (simp add: s'_def t_def)
  have w: "word_at s' k = word_at t k" for k by (simp add: s' word_at_def)
  have "word_at t 0 = heap_size s" "word_at t 4 = 0" "word_at t 8 = NO_BLOCK"
    using assms(2) by (simp_all add: t_def word_at_put)
  moreover have "heap_conf s'" "heap_size s' = heap_size s"
    using assms(1-4) by (simp_all add: s' heap_conf_def t_def)
  moreover have "16 \<le> unat (heap_size s)" using assms(4) by (simp add: word_le_nat_alt)
  ultimately show ?thesis using assms(5) by (simp add: heap_rep_def w)
qed

lemma cut_coalesce:
  assumes "t \<le> z"
  shows "\<exists>a us. cut t z = (a, True) # us \<and> (\<forall>xs ys. coalesce (xs @ (a, False) # us @ ys) = coalesce (xs @ (z, False) # ys))"
  using assms by (auto simp: cut_def coalesce_join)

lemma malloc_free_roundtrip:
  assumes r: "heap_rep s bs" and m: "heap_malloc_body n s = (p, s')" and p: "p \<noteq> 0"
  shows "\<exists>s''. heap_free p s' = Some s'' \<and> heap_rep s'' (coalesce bs) \<and> heap_keeps (payload 0 bs) s s''"
proof -
  from heap_malloc_body_cases [OF r m] p obtain xs z ys where h: "bs = xs @ (z, False) # ys"
    "p = heap_start s + of_nat (tot xs + 16)" "rounded n \<le> z" "heap_rep s' (xs @ cut (rounded n) z @ ys)"
    "heap_keeps (payload 0 bs) s s'" by blast
  from cut_coalesce [OF h(3)] obtain a us where c: "cut (rounded n) z = (a, True) # us"
    "coalesce (xs @ (a, False) # us @ ys) = coalesce (xs @ (z, False) # ys)" by blast
  have r': "heap_rep s' (xs @ (a, True) # us @ ys)" using h(4) c(1) by simp
  have p': "p = heap_start s' + of_nat (tot xs + 16)" using h(2,5) by (simp add: heap_keeps_def)
  have pay: "payload 0 (xs @ (a, False) # us @ ys) = payload 0 bs"
    using arg_cong [OF c(2), of "payload 0"] by (simp only: payload_coalesce h(1))
  from heap_free_rep [OF r' p'] obtain s'' where f: "heap_free p s' = Some s''"
    "heap_rep s'' (coalesce (xs @ (a, False) # us @ ys))" "heap_keeps (payload 0 bs) s' s''"
    unfolding pay by blast
  with heap_keeps_trans [OF h(5) f(3)] show ?thesis by (simp only: c(2) h(1)) blast
qed

lemma heap_alloc_fits:
  assumes r: "heap_rep s [(z, False)]" and z: "z \<le> 0x2000000" and m: "heap_malloc_body 16 s = (p, s')"
  shows "p \<noteq> 0"
proof
  assume p: "p = 0"
  have conf: "heap_conf s" and zs: "z = unat (heap_size s)" using r by (simp_all add: heap_rep_def)
  then have z1: "0x40000 \<le> z" by (simp add: heap_conf_def word_le_nat_alt)
  have "unat (heap_size s * 9) = z * 9" using z zs by (subst unat_mul32) simp_all
  then have "\<not> 16 > heap_size s * 9 div 10" using z1 by (simp add: word_less_nat_alt unat_div)
  moreover have "fits (rounded 16) (z, False)" using z1 by (simp add: fits_def rounded_def)
  ultimately show False using heap_malloc_body_cases [OF r m] p by auto
qed

theorem heap_init_rep:
  assumes fresh: "\<not> memory_initialized s" and place: "heap_phys_start (place_heap s) \<ge> 0x100000"
    and base: "heap_start (place_heap s) \<ge> 0x100000" "aligned4 (heap_start (place_heap s))"
      "unat (heap_start (place_heap s)) + unat (heap_size (place_heap s)) < 2 ^ 32"
    and len: "heap_size (place_heap s) \<ge> HEAP_SIZE_MIN" "heap_size (place_heap s) \<le> 0x2000000"
      "4 dvd unat (heap_size (place_heap s))"
  shows "\<exists>s'. init_memory_manager s = Some s' \<and> heap_rep s' [(unat (heap_size (place_heap s)), False)]
    \<and> memory_errors s' = 0"
proof -
  define t where "t = (place_heap s)\<lparr>fa := vmm_reserve_phys_range (heap_phys_start (place_heap s))
      (heap_phys_start (place_heap s) + heap_size (place_heap s)) (fa (place_heap s)),
      mem := memset (heap_start (place_heap s)) 0 (heap_size (place_heap s)) (mem (place_heap s))\<rparr>"
  have tf: "heap_start t = heap_start (place_heap s)" "heap_size t = heap_size (place_heap s)"
    by (simp_all add: t_def)
  define u where "u = set_magic 0 MAGIC_NUMBER (set_next 0 NO_BLOCK (set_used 0 0 (set_size 0 (heap_size t) t)))
      \<lparr>first_block := 0, memory_initialized := True, memory_errors := 0, allocation_count := 0, free_count := 0\<rparr>"
  have u: "heap_rep u [(unat (heap_size t), False)]"
    unfolding u_def using base len by (intro one_block_rep) (simp_all add: tf)
  have "(0 :: u32) < heap_size (place_heap s)" using len(1) by (simp add: word_le_nat_alt word_less_nat_alt)
  then have z: "mem t (heap_start t) = 0" by (simp add: t_def memset_def)
  obtain p v where m: "heap_malloc_body 16 u = (p, v)" by fastforce
  have p: "p \<noteq> 0" using len(2) by (intro heap_alloc_fits [OF u _ m]) (simp add: tf word_le_nat_alt)
  from malloc_free_roundtrip [OF u m p] obtain w where w: "heap_free p v = Some w"
    "heap_rep w [(unat (heap_size t), False)]" "heap_keeps (payload 0 [(unat (heap_size t), False)]) u w" by auto
  have "init_memory_manager s = Some w"
    using fresh place z m p w(1)
    by (simp add: init_memory_manager_def Let_def u_def [symmetric] not_less tf)
      (simp add: t_def u_def)
  moreover have "memory_errors w = 0" using w(3) by (simp add: heap_keeps_def u_def)
  ultimately show ?thesis using w(2) tf by auto
qed

text \<open>A heap below \<open>HEAP_SIZE_MIN\<close>: every block is invalid, so nothing can be allocated.\<close>

lemma small_heap_malloc:
  assumes "heap_size s < HEAP_SIZE_MIN"
  shows "\<exists>s'. heap_malloc_body n s = (0, s')"
proof -
  have l: "fst (find_loop (Suc k) t c NO_BLOCK 0xFFFFFFFF s) = NO_BLOCK" for k t c
  proof -
    define s0 where "s0 = (if (100 - k) mod 8 = 0 then mem_ctx_account s else s)"
    have "fst (validate_block c s0) = False"
      using assms by (simp add: validate_block_def Let_def s0_def mem_ctx_account_def)
    then obtain s1 where "validate_block c s0 = (False, s1)" by (metis prod.collapse)
    then show ?thesis by (simp add: s0_def [symmetric] Let_def)
  qed
  have "fst (find_free_block t s) = NO_BLOCK" for t
    using l [of 99 t "first_block s"] unfolding find_free_block_def by (simp only: eval_nat_numeral) simp
  then have "\<exists>s1. find_free_block t s = (NO_BLOCK, s1)" for t by (metis prod.collapse)
  then obtain s1 where f: "find_free_block ((n + 16 + 3) AND NOT 3) s = (NO_BLOCK, s1)" by blast
  show ?thesis unfolding heap_malloc_body_def Let_def f by simp
qed

lemma clamp_small:
  assumes "ff \<noteq> 0" "ff < 192"
  shows "clamp_heap_size ff sz < HEAP_SIZE_MIN"
proof -
  have "unat ff < 192" using assms(2) by (simp add: word_less_nat_alt)
  then have b: "unat (ff * 4096) = unat ff * 4096" by (subst unat_mul32) simp_all
  define cap where "cap = (if ff * 4096 > HEAP_PHYS_RESERVE_BYTES then ff * 4096 - HEAP_PHYS_RESERVE_BYTES else 0)"
  have cap: "unat cap < 0x40000" using b \<open>unat ff < 192\<close>
    by (auto simp: cap_def word_less_nat_alt unat_sub32)
  define sz1 where "sz1 = (if cap \<ge> PAGE_SIZE then (if sz > cap then cap else sz) else PAGE_SIZE)"
  have "unat sz1 < 0x40000" using cap by (auto simp: sz1_def word_le_nat_alt word_less_nat_alt)
  moreover have "sz1 AND PAGE_MASK \<le> sz1" by (rule word_and_le2)
  ultimately have m: "sz1 AND PAGE_MASK < HEAP_SIZE_MIN" by (simp add: word_le_nat_alt word_less_nat_alt)
  then have "\<not> sz1 AND PAGE_MASK > HEAP_SIZE_MAX" by (simp add: word_less_nat_alt)
  moreover have "\<not> ff * 4096 > HEAP_PHYS_RESERVE_BYTES + HEAP_SIZE_MIN" using b \<open>unat ff < 192\<close>
    by (simp add: word_less_nat_alt)
  ultimately show ?thesis using m assms(1)
    unfolding clamp_heap_size_def Let_def cap_def [symmetric] sz1_def [symmetric] by simp
qed

section \<open>A running heap\<close>

text \<open>A machine at boot, before and after the heap is set up, for the witnesses.\<close>

definition machine_boot :: heap_machine where
  "machine_boot = \<lparr>mem = \<lambda>_. 0, kc = kctx_boot,
     fa = \<lparr>fa_bitmap = replicate 1024 0, total_frames = 8192, free_frames = 4096, search_hint = 0\<rparr>,
     g_mbi = None, early_heap_ptr = 0x500000, kernel_end = 0x300000, g_slab_partial = [], g_slab_inited = False,
     heap_phys_start = 0, heap_start = 0, heap_size = 0x100000, first_block = 0, memory_initialized = False,
     memory_errors = 0, allocation_count = 0, free_count = 0\<rparr>"

definition machine_ready :: heap_machine where
  "machine_ready = set_magic 0 MAGIC_NUMBER (set_next 0 NO_BLOCK (set_used 0 0 (set_size 0 0x40000
      (machine_boot\<lparr>heap_phys_start := 0x500000, heap_start := 0xC0500000, heap_size := 0x40000\<rparr>))))
      \<lparr>first_block := 0, memory_initialized := True, memory_errors := 0, allocation_count := 0, free_count := 0\<rparr>"

lemma machine_ready_rep: "heap_rep machine_ready [(0x40000, False)]"
  using one_block_rep [of "machine_boot\<lparr>heap_phys_start := 0x500000, heap_start := 0xC0500000, heap_size := 0x40000\<rparr>"]
  by (simp add: machine_ready_def aligned4_def)

lemma place_boot: "heap_start (place_heap machine_boot) = 0xC0500000" "heap_size (place_heap machine_boot) = 0x400000"
  "heap_phys_start (place_heap machine_boot) = 0x500000" "memory_initialized machine_boot = False"
  by (simp_all add: place_heap_def machine_boot_def vmm_get_boot_alloc_end_def calculate_optimal_heap_size_def
      detect_available_memory_def vmm_get_free_frames_def clamp_heap_size_def Let_def)

section \<open>Properties\<close>

text \<open>C2. Memory safety of the heap for its clients. For any sequence of \<open>heap_malloc\<close> and
  \<open>heap_free\<close> calls and of writes by a client that frees and writes only what it holds: every
  call returns, the heap stays well formed, the regions held at the end are pairwise
  disjoint and as long as requested, and every byte the client wrote to them still has its value.\<close>

theorem heap_client_sound:
  assumes "heap_ok s"
  shows "\<exists>hs s'. run_regions heap_malloc heap_free poke rs ([], s) = Some (hs, s') \<and> heap_ok s'
    \<and> (\<forall>(p, n, c) \<in> set hs. \<forall>j v. c j = Some v \<longrightarrow> mem s' (p + of_nat j) = v)
    \<and> (\<forall>i < length hs. \<forall>j < i. extent (fst (hs ! i)) (unat (fst (snd (hs ! i))))
          \<inter> extent (fst (hs ! j)) (unat (fst (snd (hs ! j)))) = {})"
  by (rule heap_source.client_sound [OF assms])

theorem heap_client_sound_witness:
  "\<exists>hs s'. run_regions heap_malloc heap_free poke
      [Get_region 100, Get_region 50, Write_region 0 3 7, Put_region 1, Get_region 8] ([], machine_ready) = Some (hs, s') \<and> heap_ok s'"
proof -
  have "heap_ok machine_ready" unfolding heap_ok_def using machine_ready_rep by blast
  from heap_client_sound [OF this] show ?thesis by blast
qed



text \<open>C18. \<open>heap_free\<close> of a pointer to a used block returns, the block list afterwards is the old one
  with the block marked free and all free neighbours joined, and the payload of every other
  used block is unchanged.\<close>

theorem heap_free_coalesces:
  assumes "heap_rep s (xs @ (z, True) # ys)" and "p = heap_start s + of_nat (tot xs + 16)"
  shows "\<exists>s'. heap_free p s = Some s' \<and> heap_rep s' (coalesce (xs @ (z, False) # ys))
    \<and> no_free_pair (coalesce (xs @ (z, False) # ys)) \<and> heap_keeps (payload 0 (xs @ (z, False) # ys)) s s'"
  using heap_free_rep [OF assms] no_free_pair_coalesce by blast

theorem heap_free_coalesces_witness:
  "\<exists>p s' s''. heap_malloc_body 100 machine_ready = (p, s') \<and> heap_free p s' = Some s'' \<and> heap_ok s''"
proof -
  obtain p s' where m: "heap_malloc_body 100 machine_ready = (p, s')" by fastforce
  have hs: "heap_size machine_ready = 0x40000" using machine_ready_rep by (simp add: machine_ready_def set_size_def set_used_def set_next_def set_magic_def)
  have "\<not> ((100 :: u32) = 0 \<or> 100 > heap_size machine_ready * 9 div 10
      \<or> (\<forall>b \<in> set (take 100 [(0x40000, False)]). \<not> fits (rounded 100) b))"
    by (simp add: hs fits_def rounded_def)
  with heap_malloc_body_cases [OF machine_ready_rep m] obtain xs z ys where
    h: "[(0x40000, False)] = xs @ (z, False) # ys" "p = heap_start machine_ready + of_nat (tot xs + 16)"
      "heap_rep s' (xs @ cut (rounded 100) z @ ys)" "heap_keeps (payload 0 [(0x40000, False)]) machine_ready s'"
    by blast
  have "xs = []" "z = 0x40000" "ys = []" using h(1) by (auto simp: Cons_eq_append_conv)
  then have r: "heap_rep s' ([] @ (116, True) # [(0x40000 - 116, False)])" and p: "p = heap_start s' + of_nat (tot [] + 16)"
    using h by (simp_all add: cut_def rounded_def heap_keeps_def)
  from heap_free_coalesces [OF r p] m show ?thesis by (auto simp: heap_ok_def)
qed



text \<open>\<open>init_memory_manager\<close> on a placement that is page aligned, inside the address space and
  between \<open>HEAP_SIZE_MIN\<close> and 32 MiB: it returns, its smoke test passes, and the heap is one free
  block of the whole size.\<close>

theorem heap_init_ok:
  assumes "\<not> memory_initialized s" and "heap_phys_start (place_heap s) \<ge> 0x100000"
    and "heap_start (place_heap s) \<ge> 0x100000" "aligned4 (heap_start (place_heap s))"
      "unat (heap_start (place_heap s)) + unat (heap_size (place_heap s)) < 2 ^ 32"
    and "heap_size (place_heap s) \<ge> HEAP_SIZE_MIN" "heap_size (place_heap s) \<le> 0x2000000"
      "4 dvd unat (heap_size (place_heap s))"
  shows "\<exists>s'. init_memory_manager s = Some s' \<and> heap_rep s' [(unat (heap_size (place_heap s)), False)]
    \<and> memory_errors s' = 0"
  by (rule heap_init_rep [OF assms])

theorem heap_init_ok_witness:
  "\<exists>s'. init_memory_manager machine_boot = Some s' \<and> heap_rep s' [(0x400000, False)]"
  using heap_init_ok [of machine_boot] by (auto simp: place_boot aligned4_def)

text \<open>With fewer than 192 free frames (768 KiB) the heap never comes up: \<open>place_heap\<close> chooses a size
  below \<open>HEAP_SIZE_MIN\<close>, as its comment prefers over starving the system, but
  \<open>validate_block\<close> rejects every block of such a heap, so the smoke test fails and
  \<open>memory_initialized\<close> stays 0.\<close>

theorem tiny_heap_never_initialises:
  assumes "\<not> memory_initialized s" and "free_frames (fa s) \<noteq> 0" and "free_frames (fa s) < 192"
  shows "\<exists>s'. init_memory_manager s = Some s' \<and> \<not> memory_initialized s'"
proof -
  have f: "fa (place_heap s) = fa s" "memory_initialized (place_heap s) = memory_initialized s"
    by (simp_all add: place_heap_def calculate_optimal_heap_size_def Let_def)
  have z: "heap_size (place_heap s) < HEAP_SIZE_MIN"
    using clamp_small [OF assms(2,3)] by (simp add: place_heap_def vmm_get_free_frames_def calculate_optimal_heap_size_def Let_def)
  have "a = 0" if "heap_malloc_body 16 u = (a, b)" "heap_size u < HEAP_SIZE_MIN" for a b u
    using small_heap_malloc [OF that(2), of 16] that(1) by auto
  note this [dest]
  show ?thesis
  proof (cases "init_memory_manager s")
    case None
    then show ?thesis using assms(1) f z
      by (auto simp: init_memory_manager_def Let_def set_size_def set_used_def set_next_def set_magic_def
          split: if_splits prod.splits)
  next
    case (Some s')
    then have "\<not> memory_initialized s'" using assms(1) f z
      by (auto simp: init_memory_manager_def Let_def set_size_def set_used_def set_next_def set_magic_def
          split: if_splits prod.splits)
    with Some show ?thesis by blast
  qed
qed

theorem tiny_heap_never_initialises_witness:
  "\<exists>s'. init_memory_manager (machine_boot\<lparr>fa := (fa machine_boot)\<lparr>free_frames := 100\<rparr>\<rparr>) = Some s' \<and> \<not> memory_initialized s'"
  by (rule tiny_heap_never_initialises) (simp_all add: place_boot)

end
