(* ===== verification/Disk.thy ===== *)
theory Disk
  imports Ctx
begin

text \<open>
  Sector access as the filesystems and the partition code see it: \<open>ata_read_sector\<close> and
  \<open>ata_write_sector\<close> of \<open>src/drivers/ata.c\<close> with their guards (the RAM disk
  pseudo drive, the table of detected drives, the \<open>CAP_DEV_DISK\<close> right), and the RAM disk of
  \<open>src/fs/vfs.c\<close>. The programmed I/O behind the guards is the device: \<open>media\<close> holds the
  sectors and \<open>rd_bad\<close>, \<open>wr_bad\<close> say which accesses the hardware fails after its retries. The
  record is extended by the components that use disks.
\<close>

record disk =
  dk_kc :: kctx
  drive_present :: "bool list"
  media :: "u8 \<Rightarrow> u32 \<Rightarrow> bytes"
  rd_bad :: "u8 \<Rightarrow> u32 \<Rightarrow> bool"
  wr_bad :: "u8 \<Rightarrow> u32 \<Rightarrow> bool"
  ramdisk :: "bytes list option"

abbreviation (input) VFS_DRIVE_RAM :: u8 where "VFS_DRIVE_RAM \<equiv> 0xFE"

section \<open>Guards\<close>

definition ata_ctx_allow :: "u32 \<Rightarrow> u32 \<Rightarrow> 'a disk_scheme \<Rightarrow> bool \<times> 'a disk_scheme" where
  "ata_ctx_allow caps cost s = (case ctx_allow caps cost (dk_kc s) of (ok, k) \<Rightarrow> (ok, s\<lparr>dk_kc := k\<rparr>))"

section \<open>The RAM disk\<close>

text \<open>\<open>None\<close> when no boot module holds a RAM disk (\<open>vfs_ramdisk_load\<close> fails).\<close>

definition vfs_ramdisk_read_sector :: "u32 \<Rightarrow> 'a disk_scheme \<Rightarrow> bytes option" where
  "vfs_ramdisk_read_sector lba s =
     (case ramdisk s of None \<Rightarrow> None
      | Some rd \<Rightarrow> if lba \<ge> of_nat (length rd) then None else Some (rd ! unat lba))"

definition vfs_ramdisk_write_sector :: "u32 \<Rightarrow> bytes \<Rightarrow> 'a disk_scheme \<Rightarrow> bool \<times> 'a disk_scheme" where
  "vfs_ramdisk_write_sector lba buf s =
     (case ramdisk s of None \<Rightarrow> (False, s)
      | Some rd \<Rightarrow> if lba \<ge> of_nat (length rd) then (False, s)
          else (True, s\<lparr>ramdisk := Some (rd[unat lba := buf])\<rparr>))"

section \<open>Sectors\<close>

definition ata_read_sector :: "u8 \<Rightarrow> u32 \<Rightarrow> 'a disk_scheme \<Rightarrow> bytes option \<times> 'a disk_scheme" where
  "ata_read_sector drive lba s =
     (if drive = VFS_DRIVE_RAM then (vfs_ramdisk_read_sector lba s, s)
      else if drive \<ge> 8 \<or> \<not> drive_present s ! unat drive then (None, s)
      else case ata_ctx_allow CAP_DEV_DISK SCHED_COST_FS s of (ok, s) \<Rightarrow>
        if \<not> ok then (None, s)
        else if rd_bad s drive lba then (None, s)
        else (Some (media s drive lba), s))"

definition ata_write_sector :: "u8 \<Rightarrow> u32 \<Rightarrow> bytes \<Rightarrow> 'a disk_scheme \<Rightarrow> unit option \<times> 'a disk_scheme" where
  "ata_write_sector drive lba buf s =
     (if drive = VFS_DRIVE_RAM then
        (case vfs_ramdisk_write_sector lba buf s of (ok, s) \<Rightarrow> (if ok then Some () else None, s))
      else if drive \<ge> 8 \<or> \<not> drive_present s ! unat drive then (None, s)
      else case ata_ctx_allow CAP_DEV_DISK SCHED_COST_FS s of (ok, s) \<Rightarrow>
        if \<not> ok then (None, s)
        else if wr_bad s drive lba then (None, s)
        else (Some (), s\<lparr>media := (media s)(drive := (media s drive)(lba := buf))\<rparr>))"

section \<open>What a healthy drive gives\<close>

text \<open>A sector's content, whichever kind of drive it is on.\<close>

definition sector :: "'a disk_scheme \<Rightarrow> u8 \<Rightarrow> u32 \<Rightarrow> bytes" where
  "sector s drive lba = (if drive = VFS_DRIVE_RAM then the (ramdisk s) ! unat lba else media s drive lba)"

text \<open>The running command may use the disk, the drive is there, and the device fails no access
  to it; a RAM disk has all of the sectors \<open>L\<close>.\<close>

definition healthy :: "u8 \<Rightarrow> u32 set \<Rightarrow> 'a disk_scheme \<Rightarrow> bool" where
  "healthy drive L s \<longleftrightarrow>
     (if drive = VFS_DRIVE_RAM then \<exists>rd. ramdisk s = Some rd \<and> (\<forall>lba \<in> L. lba < of_nat (length rd)) \<and> length rd < 2 ^ 32
      else drive < 8 \<and> drive_present s ! unat drive \<and> \<not> ctx_denies CAP_DEV_DISK (dk_kc s)
        \<and> (\<forall>lba \<in> L. \<not> rd_bad s drive lba \<and> \<not> wr_bad s drive lba))"

text \<open>Nothing of a disk has changed but the accounting.\<close>

definition same_disk :: "'a disk_scheme \<Rightarrow> 'b disk_scheme \<Rightarrow> bool" where
  "same_disk s s' \<longleftrightarrow> drive_present s' = drive_present s \<and> media s' = media s \<and> rd_bad s' = rd_bad s
     \<and> wr_bad s' = wr_bad s \<and> ramdisk s' = ramdisk s
     \<and> (\<forall>caps. ctx_denies caps (dk_kc s') = ctx_denies caps (dk_kc s))"

lemma same_disk_refl [simp]: "same_disk s s"
  by (simp add: same_disk_def)

lemma same_disk_trans: "same_disk s s' \<Longrightarrow> same_disk s' s'' \<Longrightarrow> same_disk s s''"
  by (simp add: same_disk_def)

lemma same_disk_kc [simp]: "same_disk s (s\<lparr>dk_kc := ctx_account c (dk_kc s)\<rparr>)"
  by (simp add: same_disk_def)

lemma same_disk_healthy: "same_disk s s' \<Longrightarrow> healthy drive L s' = healthy drive L s"
  by (auto simp: same_disk_def healthy_def)

lemma same_disk_sector: "same_disk s s' \<Longrightarrow> sector s' = sector s"
  by (simp add: same_disk_def sector_def fun_eq_iff)

lemma ata_ctx_allow_cases: "ata_ctx_allow caps cost s = (\<not> ctx_denies caps (dk_kc s), s\<lparr>dk_kc := snd (ctx_allow caps cost (dk_kc s))\<rparr>)"
  by (simp add: ata_ctx_allow_def split_beta)

lemma ata_read_same: "ata_read_sector drive lba s = (r, s') \<Longrightarrow> same_disk s s'"
  by (auto simp: ata_read_sector_def ata_ctx_allow_cases same_disk_def split: if_splits)

lemma ata_read_frame: "ata_read_sector drive lba s = (r, s') \<Longrightarrow> s' = s\<lparr>dk_kc := dk_kc s'\<rparr>"
  by (auto simp: ata_read_sector_def ata_ctx_allow_cases split: if_splits)

lemma ata_write_frame:
  "ata_write_sector drive lba d s = (r, s') \<Longrightarrow> s' = s\<lparr>dk_kc := dk_kc s', media := media s', ramdisk := ramdisk s'\<rparr>"
  by (auto simp: ata_write_sector_def ata_ctx_allow_cases vfs_ramdisk_write_sector_def split: if_splits option.splits)

lemma ata_read_healthy:
  assumes "healthy drive L s" and "lba \<in> L"
  shows "\<exists>s'. ata_read_sector drive lba s = (Some (sector s drive lba), s') \<and> same_disk s s'"
proof (cases "drive = VFS_DRIVE_RAM")
  case True
  then show ?thesis using assms
    by (auto simp: ata_read_sector_def vfs_ramdisk_read_sector_def healthy_def sector_def not_le)
next
  case False
  then show ?thesis using assms
    by (auto simp: ata_read_sector_def healthy_def sector_def ata_ctx_allow_cases same_disk_def)
qed

text \<open>A write to a healthy sector changes that sector and no other.\<close>

lemma ata_write_healthy:
  assumes h: "healthy drive L s" and "lba \<in> L"
  shows "\<exists>s'. ata_write_sector drive lba buf s = (Some (), s') \<and> healthy drive L s'
     \<and> (\<forall>d l. (d = drive \<longrightarrow> l \<in> L) \<longrightarrow> sector s' d l = (if d = drive \<and> l = lba then buf else sector s d l))
     \<and> drive_present s' = drive_present s \<and> rd_bad s' = rd_bad s \<and> wr_bad s' = wr_bad s
     \<and> (\<forall>caps. ctx_denies caps (dk_kc s') = ctx_denies caps (dk_kc s))"
proof (cases "drive = VFS_DRIVE_RAM")
  case True
  then obtain rd where rd: "ramdisk s = Some rd" "\<forall>l\<in>L. l < of_nat (length rd)" "length rd < 2 ^ 32"
    using h by (auto simp: healthy_def)
  have idx: "unat l < length rd" if "l \<in> L" for l
    using rd that by (auto simp: word_less_nat_alt unat_of_nat32)
  have "rd[unat lba := buf] ! unat l = (if l = lba then buf else rd ! unat l)" if "l \<in> L" for l
  proof -
    have "unat l = unat lba \<longleftrightarrow> l = lba" by (metis unsigned_word_eqI)
    then show ?thesis using idx [OF that] by (cases "l = lba") auto
  qed
  then show ?thesis using True rd assms
    by (auto simp: ata_write_sector_def vfs_ramdisk_write_sector_def healthy_def sector_def not_le [symmetric])
next
  case False
  then show ?thesis using assms
    by (auto simp: ata_write_sector_def healthy_def sector_def ata_ctx_allow_cases)
qed

end
