(* ===== verification/FsTxn.thy ===== *)
theory FsTxn
  imports Prelude
begin

text \<open>
  The transaction log of \<open>src/fs/fs_txn.c\<close>: for each of four drives a nesting depth, and the
  tags of the last writes while the depth is positive.
\<close>

record fs_txn_entry =
  tx_tag :: u32
  tx_len :: u32

record fs_txn_state =
  tx_depth :: u32
  tx_count :: u32
  tx_entries :: "fs_txn_entry list"

type_synonym fs_txns = "fs_txn_state list"

abbreviation (input) FS_TXN_DRIVE_MAX :: u8 where "FS_TXN_DRIVE_MAX \<equiv> 4"
abbreviation (input) FS_TXN_ENTRY_MAX :: u32 where "FS_TXN_ENTRY_MAX \<equiv> 64"
abbreviation (input) FS_TXN_TAG_SUPERBLOCK :: u32 where "FS_TXN_TAG_SUPERBLOCK \<equiv> 1"
abbreviation (input) FS_TXN_TAG_DIR :: u32 where "FS_TXN_TAG_DIR \<equiv> 2"
abbreviation (input) FS_TXN_TAG_FILE :: u32 where "FS_TXN_TAG_FILE \<equiv> 3"

definition no_entries :: "fs_txn_entry list" where
  "no_entries = replicate 64 \<lparr>tx_tag = 0, tx_len = 0\<rparr>"

definition fs_txn_begin :: "u8 \<Rightarrow> fs_txns \<Rightarrow> fs_txns" where
  "fs_txn_begin drive t =
     (if drive \<ge> FS_TXN_DRIVE_MAX then t
      else t[unat drive := (t ! unat drive)\<lparr>tx_depth := tx_depth (t ! unat drive) + 1\<rparr>])"

definition fs_txn_commit :: "u8 \<Rightarrow> fs_txns \<Rightarrow> fs_txns" where
  "fs_txn_commit drive t =
     (if drive \<ge> FS_TXN_DRIVE_MAX then t
      else let e = t ! unat drive in
        if tx_depth e = 0 then t
        else let e = e\<lparr>tx_depth := tx_depth e - 1\<rparr> in
          t[unat drive := (if tx_depth e = 0 then e\<lparr>tx_count := 0, tx_entries := no_entries\<rparr> else e)])"

definition fs_txn_abort :: "u8 \<Rightarrow> fs_txns \<Rightarrow> fs_txns" where
  "fs_txn_abort drive t =
     (if drive \<ge> FS_TXN_DRIVE_MAX then t
      else t[unat drive := \<lparr>tx_depth = 0, tx_count = 0, tx_entries = no_entries\<rparr>])"

definition fs_txn_touch :: "u8 \<Rightarrow> u32 \<Rightarrow> u32 \<Rightarrow> fs_txns \<Rightarrow> fs_txns" where
  "fs_txn_touch drive tag len t =
     (if drive \<ge> FS_TXN_DRIVE_MAX then t
      else let e = t ! unat drive in
        if tx_depth e = 0 then t
        else if tx_count e \<ge> FS_TXN_ENTRY_MAX then t
        else t[unat drive := e\<lparr>tx_entries := (tx_entries e)[unat (tx_count e) := \<lparr>tx_tag = tag, tx_len = len\<rparr>],
                               tx_count := tx_count e + 1\<rparr>])"

definition fs_txn_is_active :: "u8 \<Rightarrow> fs_txns \<Rightarrow> bool" where
  "fs_txn_is_active drive t = (if drive \<ge> FS_TXN_DRIVE_MAX then False else tx_depth (t ! unat drive) \<noteq> 0)"

definition fs_txn_get_count :: "u8 \<Rightarrow> fs_txns \<Rightarrow> u32" where
  "fs_txn_get_count drive t = (if drive \<ge> FS_TXN_DRIVE_MAX then 0 else tx_count (t ! unat drive))"

section \<open>The log\<close>

text \<open>The log of a drive is the prefix of its entries that the count covers.\<close>

definition txn_log :: "u8 \<Rightarrow> fs_txns \<Rightarrow> fs_txn_entry list" where
  "txn_log drive t = take (unat (tx_count (t ! unat drive))) (tx_entries (t ! unat drive))"

definition txn_inv :: "fs_txns \<Rightarrow> bool" where
  "txn_inv t \<longleftrightarrow> length t = 4 \<and> (\<forall>e \<in> set t. length (tx_entries e) = 64 \<and> tx_count e \<le> 64 \<and> (tx_depth e = 0 \<longrightarrow> tx_count e = 0))"

lemma txn_drive: "txn_inv t \<Longrightarrow> drive < FS_TXN_DRIVE_MAX \<Longrightarrow> unat drive < length t \<and> t ! unat drive \<in> set t"
  by (simp add: txn_inv_def word_less_nat_alt)

lemma txn_inv_update:
  assumes "txn_inv t" and "length (tx_entries e) = 64 \<and> tx_count e \<le> 64 \<and> (tx_depth e = 0 \<longrightarrow> tx_count e = 0)"
  shows "txn_inv (t[i := e])"
  using assms set_update_subset_insert [of t i e] by (auto simp: txn_inv_def)

lemma txn_entry: "txn_inv t \<Longrightarrow> drive < FS_TXN_DRIVE_MAX \<Longrightarrow>
    length (tx_entries (t ! unat drive)) = 64 \<and> unat (tx_count (t ! unat drive)) \<le> 64
    \<and> (tx_depth (t ! unat drive) = 0 \<longrightarrow> tx_count (t ! unat drive) = 0)"
  using txn_drive [of t drive] by (auto simp: txn_inv_def word_le_nat_alt)

lemma txn_inv_touch: "txn_inv t \<Longrightarrow> txn_inv (fs_txn_touch drive tag len t)"
proof (cases "drive \<ge> FS_TXN_DRIVE_MAX \<or> tx_depth (t ! unat drive) = 0 \<or> tx_count (t ! unat drive) \<ge> FS_TXN_ENTRY_MAX")
  case False
  assume inv: "txn_inv t"
  have "unat (tx_count (t ! unat drive)) < 64" using False by (simp add: word_le_nat_alt not_le)
  then have "unat (tx_count (t ! unat drive) + 1) \<le> 64" by (subst unat_add32) simp_all
  moreover have d: "drive < FS_TXN_DRIVE_MAX" using False by (simp add: not_le)
  ultimately show ?thesis using False txn_entry [OF inv d] inv
    by (auto simp: fs_txn_touch_def Let_def word_le_nat_alt intro!: txn_inv_update)
qed (auto simp: fs_txn_touch_def Let_def)

end
