(* ===== verification/BlockCache.thy ===== *)
theory BlockCache
  imports Disk FsTxn
begin

text \<open>
  The state of the EYNFS driver and its block cache (\<open>src/drivers/eynfs.c\<close>, the C branch of
  \<open>CONFIG_RUST_EYNFS\<close>). The cache entries hold their 512 bytes in \<open>ce_data\<close>; the pointers that the
  code checks for corruption are kept as addresses next to them. \<open>malloc_results\<close> gives the
  outcome of each call of \<open>malloc\<close>, 0 for a failure, in the order of the calls. Serial and
  screen output is left out.
\<close>

record cache_entry =
  ce_block_num :: u32
  ce_last_use :: u32
  ce_data_ptr :: u32
  ce_data :: bytes
  ce_dirty :: bool
  ce_valid :: bool

record dir_entry =
  de_name :: bytes
  de_type :: u8
  de_flags :: u8
  de_reserved :: u16
  de_size :: u32
  de_first_block :: u32
  de_extra0 :: u32
  de_extra1 :: u32

record dir_cache_entry =
  dc_dir_block :: u32
  dc_entries :: "dir_entry list option"
  dc_count :: nat

record eynfs = disk +
  g_fs_txn :: fs_txns
  phys_total_frames :: u32
  malloc_results :: "nat \<Rightarrow> u32"
  malloc_calls :: nat
  g_block_cache :: u32
  g_block_cache_data :: u32
  cache_entries :: "cache_entry list"
  g_block_cache_capacity :: u32
  g_block_cache_use_clock :: u32
  g_block_cache_perma_disabled :: bool
  cache_hits :: u32
  cache_misses :: u32
  free_block_cache :: "u32 list"
  free_block_cache_count :: u32
  free_block_cache_valid :: bool
  dir_cache :: "dir_cache_entry list"
  caches_initialized :: bool

abbreviation (input) EYNFS_SUPERBLOCK_LBA :: u32 where "EYNFS_SUPERBLOCK_LBA \<equiv> 2048"
abbreviation (input) EYNFS_BLOCK_SIZE :: nat where "EYNFS_BLOCK_SIZE \<equiv> 512"

section \<open>Guards, allocation\<close>

definition eynfs_ctx_check :: "u32 \<Rightarrow> u32 \<Rightarrow> 'a disk_scheme \<Rightarrow> unit option \<times> 'a disk_scheme" where
  "eynfs_ctx_check cap cost s =
     (if ctx_denies cap (dk_kc s) then (None, s) else (Some (), s\<lparr>dk_kc := ctx_account cost (dk_kc s)\<rparr>))"

text \<open>The block that the loops repeat: \<open>if (current_command_context) { ... det_seq++; }\<close>.\<close>

definition account :: "'a disk_scheme \<Rightarrow> 'a disk_scheme" where
  "account s = s\<lparr>dk_kc := ctx_account SCHED_COST_FS (dk_kc s)\<rparr>"

definition txn_touch :: "u8 \<Rightarrow> u32 \<Rightarrow> u32 \<Rightarrow> 'a eynfs_scheme \<Rightarrow> 'a eynfs_scheme" where
  "txn_touch drive tag len s =
     (if current_command_context (dk_kc s) \<noteq> None then s\<lparr>g_fs_txn := fs_txn_touch drive tag len (g_fs_txn s)\<rparr> else s)"

definition fs_malloc :: "'a eynfs_scheme \<Rightarrow> u32 \<times> 'a eynfs_scheme" where
  "fs_malloc s = (malloc_results s (malloc_calls s), s\<lparr>malloc_calls := Suc (malloc_calls s)\<rparr>)"

definition eynfs_block_to_lba :: "u32 \<Rightarrow> u32" where
  "eynfs_block_to_lba fs_block = EYNFS_SUPERBLOCK_LBA + fs_block"

section \<open>The table\<close>

definition eynfs_block_cache_compute_capacity :: "'a eynfs_scheme \<Rightarrow> u32" where
  "eynfs_block_cache_compute_capacity s =
     (let desired = phys_total_frames s div 128;
          desired = (if desired < 16 then 16 else desired)
      in if desired > 128 then 128 else desired)"

definition eynfs_block_cache_is_enabled :: "'a eynfs_scheme \<Rightarrow> bool" where
  "eynfs_block_cache_is_enabled s =
     (if g_block_cache_perma_disabled s then False
      else g_block_cache s \<noteq> 0 \<and> g_block_cache_data s \<noteq> 0 \<and> g_block_cache_capacity s \<noteq> 0)"

definition eynfs_block_cache_disable_permanently :: "'a eynfs_scheme \<Rightarrow> 'a eynfs_scheme" where
  "eynfs_block_cache_disable_permanently s =
     (if g_block_cache_perma_disabled s then s
      else s\<lparr>g_block_cache_perma_disabled := True, g_block_cache := 0, g_block_cache_data := 0,
             g_block_cache_capacity := 1\<rparr>)"

definition eynfs_block_cache_validate_or_disable :: "'a eynfs_scheme \<Rightarrow> bool \<times> 'a eynfs_scheme" where
  "eynfs_block_cache_validate_or_disable s =
     (if \<not> eynfs_block_cache_is_enabled s then (False, s)
      else
        let physmap_end = 0xC0000000 + phys_total_frames s * 4096 in
        if g_block_cache s < 0xC0000000 \<or> g_block_cache s \<ge> physmap_end
        then (False, eynfs_block_cache_disable_permanently s)
        else if g_block_cache_data s < 0xC0000000 \<or> g_block_cache_data s \<ge> physmap_end
        then (False, eynfs_block_cache_disable_permanently s)
        else if g_block_cache_capacity s < 1 \<or> g_block_cache_capacity s > 1024
        then (False, eynfs_block_cache_disable_permanently s)
        else if first_idx (\<lambda>i. ce_data_ptr (cache_entries s ! i) \<noteq> g_block_cache_data s + of_nat i * 512)
                  (unat (g_block_cache_capacity s)) \<noteq> None
        then (False, eynfs_block_cache_disable_permanently s)
        else (True, s))"

text \<open>The bytes of a fresh entry come from \<open>malloc\<close>; no one reads them before the entry is valid.\<close>

definition eynfs_block_cache_alloc_if_needed :: "'a eynfs_scheme \<Rightarrow> bool \<times> 'a eynfs_scheme" where
  "eynfs_block_cache_alloc_if_needed s =
     (if eynfs_block_cache_is_enabled s then (True, s)
      else if g_block_cache_perma_disabled s then (False, s)
      else if g_block_cache_capacity s \<noteq> 0 then (False, s)
      else
        let capacity = eynfs_block_cache_compute_capacity s;
            (table, s) = fs_malloc s;
            (data, s) = fs_malloc s
        in
        if table = 0 \<or> data = 0 then (False, s\<lparr>g_block_cache := 0, g_block_cache_data := 0, g_block_cache_capacity := 0\<rparr>)
        else (True, s\<lparr>g_block_cache := table, g_block_cache_data := data, g_block_cache_capacity := capacity,
                cache_entries := map (\<lambda>i. \<lparr>ce_block_num = 0, ce_last_use = 0, ce_data_ptr = data + of_nat i * 512,
                     ce_data = replicate EYNFS_BLOCK_SIZE 0, ce_dirty = False, ce_valid = False\<rparr>) [0..<unat capacity],
                g_block_cache_use_clock := 1\<rparr>))"

text \<open>The scan for a victim: the least recently used clean and dirty entries so far, as index and
  time of use, and \<open>None\<close> for a flag \<open>found_...\<close> that is 0. The result is the index and whether
  the entry has to be written back first.\<close>

fun victim_scan :: "nat \<Rightarrow> cache_entry list \<Rightarrow> (nat \<times> u32) option \<Rightarrow> (nat \<times> u32) option \<Rightarrow> (nat \<times> bool) option" where
  "victim_scan i [] clean dirty =
     (case clean of Some (k, _) \<Rightarrow> Some (k, False)
      | None \<Rightarrow> (case dirty of Some (k, _) \<Rightarrow> Some (k, True) | None \<Rightarrow> None))"
| "victim_scan i (e # es) clean dirty =
     (if \<not> ce_valid e then Some (i, False)
      else if ce_dirty e then
        victim_scan (Suc i) es clean
          (case dirty of None \<Rightarrow> Some (i, ce_last_use e)
           | Some (k, u) \<Rightarrow> if ce_last_use e < u then Some (i, ce_last_use e) else Some (k, u))
      else
        victim_scan (Suc i) es
          (case clean of None \<Rightarrow> Some (i, ce_last_use e)
           | Some (k, u) \<Rightarrow> if ce_last_use e < u then Some (i, ce_last_use e) else Some (k, u)) dirty)"

definition eynfs_block_cache_choose_victim_index :: "'a eynfs_scheme \<Rightarrow> (nat \<times> bool) option" where
  "eynfs_block_cache_choose_victim_index s =
     (if \<not> eynfs_block_cache_is_enabled s then None
      else victim_scan 0 (take (unat (g_block_cache_capacity s)) (cache_entries s)) None None)"

definition cache_lookup :: "u32 \<Rightarrow> 'a eynfs_scheme \<Rightarrow> nat option" where
  "cache_lookup block_num s =
     first_idx (\<lambda>i. ce_valid (cache_entries s ! i) \<and> ce_block_num (cache_entries s ! i) = block_num)
       (unat (g_block_cache_capacity s))"

text \<open>\<open>last_use = g_block_cache_use_clock++\<close> for entry \<open>i\<close>, after the change \<open>f\<close>.\<close>

definition touch_entry :: "nat \<Rightarrow> (cache_entry \<Rightarrow> cache_entry) \<Rightarrow> 'a eynfs_scheme \<Rightarrow> 'a eynfs_scheme" where
  "touch_entry i f s = s\<lparr>cache_entries := (cache_entries s)[i := (f (cache_entries s ! i))\<lparr>ce_last_use := g_block_cache_use_clock s\<rparr>],
     g_block_cache_use_clock := g_block_cache_use_clock s + 1\<rparr>"

definition install :: "u32 \<Rightarrow> bytes \<Rightarrow> cache_entry \<Rightarrow> cache_entry" where
  "install block_num data e = e\<lparr>ce_block_num := block_num, ce_data := data, ce_valid := True, ce_dirty := False\<rparr>"

section \<open>Operations\<close>

definition eynfs_cache_get_block :: "u8 \<Rightarrow> u32 \<Rightarrow> 'a eynfs_scheme \<Rightarrow> bytes option \<times> 'a eynfs_scheme" where
  "eynfs_cache_get_block drive block_num s =
     on_ok (eynfs_ctx_check CAP_READ_FS SCHED_COST_FS s) (\<lambda>_ s.
       case eynfs_block_cache_alloc_if_needed s of (ready, s) \<Rightarrow>
       if \<not> ready then
         on_ok (ata_read_sector drive (eynfs_block_to_lba block_num) s) (\<lambda>data s.
           (Some data, s\<lparr>cache_misses := cache_misses s + 1\<rparr>))
       else case eynfs_block_cache_validate_or_disable s of (good, s) \<Rightarrow>
       if \<not> good then
         on_ok (ata_read_sector drive (eynfs_block_to_lba block_num) s) (\<lambda>data s.
           (Some data, s\<lparr>cache_misses := cache_misses s + 1\<rparr>))
       else case cache_lookup block_num s of
         Some i \<Rightarrow> (Some (ce_data (cache_entries s ! i)),
                   (touch_entry i id s)\<lparr>cache_hits := cache_hits s + 1\<rparr>)
       | None \<Rightarrow>
           on_ok (ata_read_sector drive (eynfs_block_to_lba block_num) s) (\<lambda>data s.
             case eynfs_block_cache_choose_victim_index s of
               None \<Rightarrow> (Some data, s\<lparr>cache_misses := cache_misses s + 1\<rparr>)
             | Some (v, need_writeback) \<Rightarrow>
                 if need_writeback then
                   on_ok (eynfs_ctx_check CAP_WRITE_FS SCHED_COST_FS s) (\<lambda>_ s.
                     let s = snd (ata_write_sector drive (eynfs_block_to_lba (ce_block_num (cache_entries s ! v)))
                                    (ce_data (cache_entries s ! v)) s);
                         s = touch_entry v (install block_num data) s
                     in (Some data, s\<lparr>cache_misses := cache_misses s + 1\<rparr>))
                 else
                   let s = touch_entry v (install block_num data) s
                   in (Some data, s\<lparr>cache_misses := cache_misses s + 1\<rparr>)))"

definition eynfs_cache_write_block :: "u8 \<Rightarrow> u32 \<Rightarrow> bytes \<Rightarrow> 'a eynfs_scheme \<Rightarrow> unit option \<times> 'a eynfs_scheme" where
  "eynfs_cache_write_block drive block_num data s =
     on_ok (eynfs_ctx_check CAP_WRITE_FS SCHED_COST_FS s) (\<lambda>_ s.
       case eynfs_block_cache_alloc_if_needed s of (ready, s) \<Rightarrow>
       if \<not> ready then ata_write_sector drive (eynfs_block_to_lba block_num) data s
       else case eynfs_block_cache_validate_or_disable s of (good, s) \<Rightarrow>
       if \<not> good then ata_write_sector drive (eynfs_block_to_lba block_num) data s
       else case cache_lookup block_num s of
         Some i \<Rightarrow> (Some (), touch_entry i (\<lambda>e. e\<lparr>ce_data := data, ce_dirty := True\<rparr>) s)
       | None \<Rightarrow>
           on_ok (ata_write_sector drive (eynfs_block_to_lba block_num) data s) (\<lambda>_ s.
             case eynfs_block_cache_choose_victim_index s of
               None \<Rightarrow> (Some (), s)
             | Some (v, need_writeback) \<Rightarrow>
                 let s = (if need_writeback
                          then snd (ata_write_sector drive (eynfs_block_to_lba (ce_block_num (cache_entries s ! v)))
                                      (ce_data (cache_entries s ! v)) s)
                          else s)
                 in (Some (), touch_entry v (install block_num data) s)))"

fun flush_from :: "u8 \<Rightarrow> nat \<Rightarrow> nat \<Rightarrow> 'a eynfs_scheme \<Rightarrow> 'a eynfs_scheme" where
  "flush_from drive 0 i s = s"
| "flush_from drive (Suc n) i s =
     (let e = cache_entries s ! i in
      flush_from drive n (Suc i)
        (if ce_valid e \<and> ce_dirty e then
           let s = snd (ata_write_sector drive (eynfs_block_to_lba (ce_block_num e)) (ce_data e) s)
           in s\<lparr>cache_entries := (cache_entries s)[i := e\<lparr>ce_dirty := False\<rparr>]\<rparr>
         else s))"

definition eynfs_cache_flush :: "u8 \<Rightarrow> 'a eynfs_scheme \<Rightarrow> 'a eynfs_scheme" where
  "eynfs_cache_flush drive s =
     (case eynfs_ctx_check CAP_WRITE_FS SCHED_COST_FS s of (r, s) \<Rightarrow>
        if r = None then s
        else if \<not> eynfs_block_cache_is_enabled s then s
        else flush_from drive (unat (g_block_cache_capacity s)) 0 s)"

definition eynfs_cache_invalidate_block :: "u32 \<Rightarrow> 'a eynfs_scheme \<Rightarrow> 'a eynfs_scheme" where
  "eynfs_cache_invalidate_block block_num s =
     (if \<not> eynfs_block_cache_is_enabled s then s
      else s\<lparr>cache_entries := map (\<lambda>e. if ce_valid e \<and> ce_block_num e = block_num
                                       then e\<lparr>ce_valid := False, ce_dirty := False\<rparr> else e) (cache_entries s)\<rparr>)"

definition eynfs_dir_cache_invalidate :: "u32 \<Rightarrow> 'a eynfs_scheme \<Rightarrow> 'a eynfs_scheme" where
  "eynfs_dir_cache_invalidate dir_block s =
     s\<lparr>dir_cache := map (\<lambda>c. if dc_entries c \<noteq> None \<and> dc_dir_block c = dir_block
                            then c\<lparr>dc_entries := None, dc_count := 0\<rparr> else c) (dir_cache s)\<rparr>"

definition eynfs_dir_cache_find :: "u32 \<Rightarrow> 'a eynfs_scheme \<Rightarrow> dir_cache_entry option" where
  "eynfs_dir_cache_find dir_block s =
     List.find (\<lambda>c. dc_entries c \<noteq> None \<and> dc_dir_block c = dir_block) (dir_cache s)"

definition eynfs_init_caches :: "'a eynfs_scheme \<Rightarrow> 'a eynfs_scheme" where
  "eynfs_init_caches s =
     (let s = snd (eynfs_block_cache_alloc_if_needed s)
      in s\<lparr>dir_cache := map (\<lambda>c. c\<lparr>dc_entries := None, dc_count := 0\<rparr>) (dir_cache s),
           free_block_cache_valid := False, free_block_cache_count := 0\<rparr>)"

definition eynfs_get_cache_stats :: "'a eynfs_scheme \<Rightarrow> u32 \<times> u32" where
  "eynfs_get_cache_stats s = (cache_hits s, cache_misses s)"

definition eynfs_reset_cache_stats :: "'a eynfs_scheme \<Rightarrow> 'a eynfs_scheme" where
  "eynfs_reset_cache_stats s = s\<lparr>cache_hits := 0, cache_misses := 0\<rparr>"

definition eynfs_cache_clear :: "'a eynfs_scheme \<Rightarrow> 'a eynfs_scheme" where
  "eynfs_cache_clear s =
     (case eynfs_ctx_check CAP_WRITE_FS SCHED_COST_FS s of (r, s) \<Rightarrow>
        let can_write = (r \<noteq> None);
            s = (if can_write then eynfs_cache_flush 0 s else s);
            s = (if eynfs_block_cache_is_enabled s then
                   s\<lparr>cache_entries := map (\<lambda>e. if \<not> can_write \<and> ce_dirty e then e
                        else e\<lparr>ce_valid := False, ce_dirty := False, ce_last_use := 0\<rparr>) (cache_entries s)\<rparr>
                 else s)
        in s\<lparr>dir_cache := map (\<lambda>c. c\<lparr>dc_entries := None, dc_count := 0\<rparr>) (dir_cache s),
             free_block_cache_valid := False, free_block_cache_count := 0\<rparr>)"

end
