(* ===== verification/EynfsDisk.thy ===== *)
theory EynfsDisk
  imports BlockCache CStr
begin

text \<open>
  The on-disk structures of EYNFS (\<open>src/drivers/eynfs.c\<close>, \<open>src/include/drivers/eynfs.h\<close>):
  superblock, free-block bitmap with the 64-entry cache of free blocks, block allocation, and
  directory tables as chains of blocks. An \<open>int\<close> that is a block number or -1 is kept as a
  word, because two callers read it back as \<open>uint32_t\<close>.
\<close>

section \<open>Structures\<close>

record superblock =
  sb_magic :: u32
  sb_version :: u32
  sb_block_size :: u32
  sb_total_blocks :: u32
  sb_root_dir_block :: u32
  sb_free_block_map :: u32
  sb_name_table_block :: u32
  sb_reserved0 :: u32
  sb_reserved1 :: u32

abbreviation (input) EYNFS_MAGIC :: u32 where "EYNFS_MAGIC \<equiv> 0x45594E46"
abbreviation (input) EYNFS_VERSION :: u32 where "EYNFS_VERSION \<equiv> 11"
abbreviation (input) EYNFS_NAME_MAX :: nat where "EYNFS_NAME_MAX \<equiv> 32"
abbreviation (input) EYNFS_TYPE_FILE :: u8 where "EYNFS_TYPE_FILE \<equiv> 1"
abbreviation (input) EYNFS_TYPE_DIR :: u8 where "EYNFS_TYPE_DIR \<equiv> 2"
abbreviation (input) EYNFS_FREE_BLOCK_CACHE_SIZE :: u32 where "EYNFS_FREE_BLOCK_CACHE_SIZE \<equiv> 64"
abbreviation (input) NO_BLOCK :: u32 where "NO_BLOCK \<equiv> 0xFFFFFFFF"

definition superblock_bytes :: "superblock \<Rightarrow> bytes" where
  "superblock_bytes sb = bytes_of32 (sb_magic sb) @ bytes_of32 (sb_version sb) @ bytes_of32 (sb_block_size sb)
     @ bytes_of32 (sb_total_blocks sb) @ bytes_of32 (sb_root_dir_block sb) @ bytes_of32 (sb_free_block_map sb)
     @ bytes_of32 (sb_name_table_block sb) @ bytes_of32 (sb_reserved0 sb) @ bytes_of32 (sb_reserved1 sb)"

definition superblock_of :: "bytes \<Rightarrow> superblock" where
  "superblock_of buf = \<lparr>sb_magic = get32 buf 0, sb_version = get32 buf 4, sb_block_size = get32 buf 8,
     sb_total_blocks = get32 buf 12, sb_root_dir_block = get32 buf 16, sb_free_block_map = get32 buf 20,
     sb_name_table_block = get32 buf 24, sb_reserved0 = get32 buf 28, sb_reserved1 = get32 buf 32\<rparr>"

definition bytes_of16 :: "u16 \<Rightarrow> bytes" where
  "bytes_of16 w = [ucast w, ucast (drop_bit 8 w)]"

definition dir_entry_bytes :: "dir_entry \<Rightarrow> bytes" where
  "dir_entry_bytes e = de_name e @ [de_type e, de_flags e] @ bytes_of16 (de_reserved e) @ bytes_of32 (de_size e)
     @ bytes_of32 (de_first_block e) @ bytes_of32 (de_extra0 e) @ bytes_of32 (de_extra1 e)"

text \<open>The entry at byte \<open>k\<close> of a buffer, and entry \<open>i\<close> of a directory block.\<close>

definition dir_entry_at :: "bytes \<Rightarrow> nat \<Rightarrow> dir_entry" where
  "dir_entry_at b k = \<lparr>de_name = take 32 (drop k b), de_type = b ! (k + 32), de_flags = b ! (k + 33),
     de_reserved = get16 b (k + 34), de_size = get32 b (k + 36), de_first_block = get32 b (k + 40),
     de_extra0 = get32 b (k + 44), de_extra1 = get32 b (k + 48)\<rparr>"

definition block_entry :: "bytes \<Rightarrow> nat \<Rightarrow> dir_entry" where
  "block_entry buf i = dir_entry_at buf (4 + 52 * i)"

definition put_entry :: "bytes \<Rightarrow> nat \<Rightarrow> dir_entry \<Rightarrow> bytes" where
  "put_entry buf i e = blit buf (4 + 52 * i) (dir_entry_bytes e)"

definition zero_entry :: dir_entry where
  "zero_entry = \<lparr>de_name = replicate 32 0, de_type = 0, de_flags = 0, de_reserved = 0, de_size = 0,
     de_first_block = 0, de_extra0 = 0, de_extra1 = 0\<rparr>"

abbreviation (input) entries_per_block :: nat where "entries_per_block \<equiv> 9"

definition zero_block :: bytes where
  "zero_block = replicate EYNFS_BLOCK_SIZE 0"

definition eynfs_validate_superblock :: "superblock \<Rightarrow> bool" where
  "eynfs_validate_superblock sb =
     (if sb_magic sb \<noteq> EYNFS_MAGIC then False
      else if sb_version sb \<noteq> EYNFS_VERSION then False
      else if sb_block_size sb \<noteq> 512 then False
      else if sb_total_blocks sb = 0 then False
      else if sb_root_dir_block sb \<ge> sb_total_blocks sb then False
      else if sb_free_block_map sb \<ge> sb_total_blocks sb then False
      else True)"

definition eynfs_validate_dir_entry :: "dir_entry \<Rightarrow> bool" where
  "eynfs_validate_dir_entry e =
     (if de_name e ! 0 = 0 then False
      else if de_type e \<noteq> EYNFS_TYPE_FILE \<and> de_type e \<noteq> EYNFS_TYPE_DIR then False
      else True)"

text \<open>Binary search over a table of entries (\<open>None\<close> for -1); the table is read as sorted.\<close>

function binary_search :: "dir_entry list \<Rightarrow> bytes \<Rightarrow> int \<Rightarrow> int \<Rightarrow> nat option" where
  "binary_search entries name left right =
     (if left \<le> right \<and> 0 \<le> left then
        let mid = (left + right) div 2 in
        if de_name (entries ! nat mid) ! 0 = 0 then binary_search entries name left (mid - 1)
        else let cmp = strncmp (de_name (entries ! nat mid)) name EYNFS_NAME_MAX in
          if cmp = 0 then Some (nat mid)
          else if cmp < 0 then binary_search entries name (mid + 1) right
          else binary_search entries name left (mid - 1)
      else None)"
  by pat_completeness auto

termination
  by (relation "measure (\<lambda>(_, _, left, right). nat (right - left + 1))") auto

definition eynfs_binary_search_dir :: "dir_entry list \<Rightarrow> bytes \<Rightarrow> nat option" where
  "eynfs_binary_search_dir entries name = binary_search entries name 0 (int (length entries) - 1)"

section \<open>The bitmap\<close>

definition eynfs_bitmap_block_count :: "superblock \<Rightarrow> u32" where
  "eynfs_bitmap_block_count sb = (let bitmap_bytes = (sb_total_blocks sb + 7) div 8 in (bitmap_bytes + 512 - 1) div 512)"

definition eynfs_read_bitmap_block :: "u8 \<Rightarrow> superblock \<Rightarrow> u32 \<Rightarrow> 'a eynfs_scheme \<Rightarrow> bytes option \<times> 'a eynfs_scheme" where
  "eynfs_read_bitmap_block drive sb bitmap_block_idx s =
     on_ok (eynfs_ctx_check CAP_READ_FS SCHED_COST_FS s) (\<lambda>_ s.
       ata_read_sector drive (eynfs_block_to_lba (sb_free_block_map sb + bitmap_block_idx)) s)"

definition eynfs_write_bitmap_block :: "u8 \<Rightarrow> superblock \<Rightarrow> u32 \<Rightarrow> bytes \<Rightarrow> 'a eynfs_scheme \<Rightarrow> unit option \<times> 'a eynfs_scheme" where
  "eynfs_write_bitmap_block drive sb bitmap_block_idx bitmap s =
     on_ok (eynfs_ctx_check CAP_WRITE_FS SCHED_COST_FS s) (\<lambda>_ s.
       ata_write_sector drive (eynfs_block_to_lba (sb_free_block_map sb + bitmap_block_idx)) bitmap s)"

definition eynfs_bitmap_set_used :: "u8 \<Rightarrow> superblock \<Rightarrow> u32 \<Rightarrow> bool \<Rightarrow> 'a eynfs_scheme \<Rightarrow> unit option \<times> 'a eynfs_scheme" where
  "eynfs_bitmap_set_used drive sb fs_block_num used s =
     (if fs_block_num \<ge> sb_total_blocks sb then (None, s)
      else on_ok (eynfs_ctx_check CAP_WRITE_FS SCHED_COST_FS s) (\<lambda>_ s.
        let s = txn_touch drive FS_TXN_TAG_SUPERBLOCK 1 s;
            byte_index = fs_block_num div 8;
            bit_index = unat (fs_block_num mod 8);
            bitmap_block_idx = byte_index div 512;
            off = unat (byte_index mod 512)
        in if bitmap_block_idx \<ge> eynfs_bitmap_block_count sb then (None, s)
           else on_ok (eynfs_read_bitmap_block drive sb bitmap_block_idx s) (\<lambda>bitmap s.
             let bitmap = (if used then bitmap[off := bitmap ! off OR push_bit bit_index 1]
                           else bitmap[off := bitmap ! off AND NOT (push_bit bit_index 1)])
             in eynfs_write_bitmap_block drive sb bitmap_block_idx bitmap s)))"

section \<open>Block allocation\<close>

definition cache_free_block :: "u32 \<Rightarrow> 'a eynfs_scheme \<Rightarrow> 'a eynfs_scheme" where
  "cache_free_block block s =
     s\<lparr>free_block_cache := (free_block_cache s)[unat (free_block_cache_count s) := block],
       free_block_cache_count := free_block_cache_count s + 1\<rparr>"

fun refill_bits :: "superblock \<Rightarrow> u32 \<Rightarrow> u8 \<Rightarrow> nat \<Rightarrow> nat \<Rightarrow> 'a eynfs_scheme \<Rightarrow> 'a eynfs_scheme" where
  "refill_bits sb byte_no b 0 k s = s"
| "refill_bits sb byte_no b (Suc n) k s =
     (if \<not> free_block_cache_count s < EYNFS_FREE_BLOCK_CACHE_SIZE then s
      else if bit b k then refill_bits sb byte_no b n (Suc k) s
      else let fs_block_num = byte_no * 8 + of_nat k in
        if fs_block_num \<ge> sb_total_blocks sb then s
        else refill_bits sb byte_no b n (Suc k) (cache_free_block fs_block_num s))"

fun refill_bytes :: "superblock \<Rightarrow> u32 \<Rightarrow> bytes \<Rightarrow> nat \<Rightarrow> nat \<Rightarrow> 'a eynfs_scheme \<Rightarrow> 'a eynfs_scheme" where
  "refill_bytes sb blk bitmap 0 byte s = s"
| "refill_bytes sb blk bitmap (Suc n) byte s =
     (if \<not> free_block_cache_count s < EYNFS_FREE_BLOCK_CACHE_SIZE then s
      else if bitmap ! byte = 0xFF then refill_bytes sb blk bitmap n (Suc byte) s
      else refill_bytes sb blk bitmap n (Suc byte)
             (refill_bits sb (blk * 512 + of_nat byte) (bitmap ! byte) 8 0 s))"

fun refill_blocks :: "u8 \<Rightarrow> superblock \<Rightarrow> nat \<Rightarrow> u32 \<Rightarrow> 'a eynfs_scheme \<Rightarrow> unit option \<times> 'a eynfs_scheme" where
  "refill_blocks drive sb 0 blk s = (Some (), s)"
| "refill_blocks drive sb (Suc n) blk s =
     (if \<not> free_block_cache_count s < EYNFS_FREE_BLOCK_CACHE_SIZE then (Some (), s)
      else on_ok (eynfs_read_bitmap_block drive sb blk (if blk AND 0x3F = 0 then account s else s)) (\<lambda>bitmap s.
        refill_blocks drive sb n (blk + 1) (refill_bytes sb blk bitmap EYNFS_BLOCK_SIZE 0 s)))"

definition pop_free_block :: "'a eynfs_scheme \<Rightarrow> u32 \<times> 'a eynfs_scheme" where
  "pop_free_block s = (let c = free_block_cache_count s - 1 in
     (free_block_cache s ! unat c, s\<lparr>free_block_cache_count := c\<rparr>))"

definition eynfs_alloc_block_optimized :: "u8 \<Rightarrow> superblock \<Rightarrow> 'a eynfs_scheme \<Rightarrow> u32 \<times> 'a eynfs_scheme" where
  "eynfs_alloc_block_optimized drive sb s =
     (if free_block_cache_valid s \<and> free_block_cache_count s > 0 then pop_free_block s
      else case refill_blocks drive sb (unat (eynfs_bitmap_block_count sb)) 0 (s\<lparr>free_block_cache_count := 0\<rparr>) of
        (None, s) \<Rightarrow> (NO_BLOCK, s)
      | (Some _, s) \<Rightarrow>
          if free_block_cache_count s > 0 then pop_free_block (s\<lparr>free_block_cache_valid := True\<rparr>)
          else (NO_BLOCK, s))"

definition eynfs_alloc_block_fast :: "u8 \<Rightarrow> superblock \<Rightarrow> 'a eynfs_scheme \<Rightarrow> u32 \<times> 'a eynfs_scheme" where
  "eynfs_alloc_block_fast drive sb s = eynfs_alloc_block_optimized drive sb s"

definition drop_free_block_cache :: "'a eynfs_scheme \<Rightarrow> 'a eynfs_scheme" where
  "drop_free_block_cache s = s\<lparr>free_block_cache_valid := False, free_block_cache_count := 0\<rparr>"

definition eynfs_alloc_block :: "u8 \<Rightarrow> superblock \<Rightarrow> 'a eynfs_scheme \<Rightarrow> u32 \<times> 'a eynfs_scheme" where
  "eynfs_alloc_block drive sb s =
     (case eynfs_ctx_check (CAP_READ_FS OR CAP_WRITE_FS) SCHED_COST_FS s of
        (None, s) \<Rightarrow> (NO_BLOCK, s)
      | (Some _, s) \<Rightarrow>
         (case eynfs_alloc_block_optimized drive sb s of (block, s) \<Rightarrow>
            if sint block \<ge> 0 then
              (case eynfs_bitmap_set_used drive sb block True s of
                 (None, s) \<Rightarrow> (NO_BLOCK, drop_free_block_cache s)
               | (Some _, s) \<Rightarrow> (block, s))
            else (NO_BLOCK, s)))"

definition eynfs_free_block :: "u8 \<Rightarrow> superblock \<Rightarrow> u32 \<Rightarrow> 'a eynfs_scheme \<Rightarrow> unit option \<times> 'a eynfs_scheme" where
  "eynfs_free_block drive sb block s =
     on_ok (eynfs_ctx_check CAP_WRITE_FS SCHED_COST_FS s) (\<lambda>_ s.
       if block \<ge> sb_total_blocks sb then (None, s)
       else on_ok (eynfs_bitmap_set_used drive sb block False s) (\<lambda>_ s. (Some (), drop_free_block_cache s)))"

section \<open>The superblock\<close>

definition eynfs_read_superblock :: "u8 \<Rightarrow> u32 \<Rightarrow> 'a eynfs_scheme \<Rightarrow> superblock option \<times> 'a eynfs_scheme" where
  "eynfs_read_superblock drive lba s =
     on_ok (eynfs_ctx_check CAP_READ_FS SCHED_COST_FS s) (\<lambda>_ s.
       on_ok (ata_read_sector drive lba (txn_touch drive FS_TXN_TAG_SUPERBLOCK 36 s)) (\<lambda>buf s.
         (Some (superblock_of buf),
          if \<not> caches_initialized s then (eynfs_init_caches s)\<lparr>caches_initialized := True\<rparr> else s)))"

definition eynfs_write_superblock :: "u8 \<Rightarrow> u32 \<Rightarrow> superblock \<Rightarrow> 'a eynfs_scheme \<Rightarrow> unit option \<times> 'a eynfs_scheme" where
  "eynfs_write_superblock drive lba sb s =
     on_ok (eynfs_ctx_check CAP_WRITE_FS SCHED_COST_FS s) (\<lambda>_ s.
       ata_write_sector drive lba (blit zero_block 0 (superblock_bytes sb)) (txn_touch drive FS_TXN_TAG_SUPERBLOCK 36 s))"

section \<open>Directory tables\<close>

definition terminate_name :: "dir_entry \<Rightarrow> dir_entry" where
  "terminate_name e = e\<lparr>de_name := (de_name e)[EYNFS_NAME_MAX - 1 := 0]\<rparr>"

definition table_entries :: "nat \<Rightarrow> bytes \<Rightarrow> dir_entry list" where
  "table_entries k buf = map (\<lambda>i. terminate_name (block_entry buf i)) [0..<k]"

lemma length_table_entries [simp]: "length (table_entries k buf) = k"
  by (simp add: table_entries_def)

function read_table_loop :: "u8 \<Rightarrow> nat \<Rightarrow> u32 \<Rightarrow> dir_entry list \<Rightarrow> 'a eynfs_scheme \<Rightarrow> dir_entry list option \<times> 'a eynfs_scheme" where
  "read_table_loop drive max_entries block entries s =
     (if block \<noteq> 0 \<and> length entries < max_entries then
        on_ok (ata_read_sector drive (eynfs_block_to_lba block) (account s)) (\<lambda>buf s.
          let k = (if max_entries - length entries < entries_per_block then max_entries - length entries else entries_per_block);
              entries = entries @ table_entries k buf
          in if length entries \<ge> max_entries then (Some entries, s)
             else read_table_loop drive max_entries (get32 buf 0) entries s)
      else (Some entries, s))"
  by pat_completeness auto

termination
  by (relation "measure (\<lambda>(_, n, _, es, _). n - length es)") auto

declare read_table_loop.simps [simp del]

definition eynfs_read_dir_table :: "u8 \<Rightarrow> u32 \<Rightarrow> nat \<Rightarrow> 'a eynfs_scheme \<Rightarrow> dir_entry list option \<times> 'a eynfs_scheme" where
  "eynfs_read_dir_table drive lba max_entries s =
     on_ok (eynfs_ctx_check CAP_READ_FS SCHED_COST_FS s) (\<lambda>_ s. read_table_loop drive max_entries lba [] s)"

definition dir_block_bytes :: "dir_entry list \<Rightarrow> u32 \<Rightarrow> bytes" where
  "dir_block_bytes entries next_block =
     blit zero_block 0 (bytes_of32 next_block @ concat (map dir_entry_bytes (take entries_per_block entries)))"

definition eynfs_write_dir_block :: "u8 \<Rightarrow> u32 \<Rightarrow> dir_entry list \<Rightarrow> u32 \<Rightarrow> 'a eynfs_scheme \<Rightarrow> unit option \<times> 'a eynfs_scheme" where
  "eynfs_write_dir_block drive block_num entries next_block s =
     on_ok (eynfs_ctx_check CAP_WRITE_FS SCHED_COST_FS s) (\<lambda>_ s.
       ata_write_sector drive (eynfs_block_to_lba block_num) (dir_block_bytes entries next_block) s)"

fun count_loop :: "u8 \<Rightarrow> nat \<Rightarrow> u32 \<Rightarrow> nat \<Rightarrow> 'a eynfs_scheme \<Rightarrow> nat option \<times> 'a eynfs_scheme" where
  "count_loop drive 0 block n s = (Some n, s)"
| "count_loop drive (Suc max_blocks) block n s =
     (if block = 0 then (Some n, s)
      else on_ok (ata_read_sector drive (eynfs_block_to_lba block) (account s)) (\<lambda>buf s.
        count_loop drive max_blocks (get32 buf 0) (n + entries_per_block) s))"

definition eynfs_count_dir_entries :: "u8 \<Rightarrow> u32 \<Rightarrow> 'a eynfs_scheme \<Rightarrow> nat option \<times> 'a eynfs_scheme" where
  "eynfs_count_dir_entries drive lba s =
     on_ok (eynfs_ctx_check CAP_READ_FS SCHED_COST_FS s) (\<lambda>_ s. count_loop drive 32 lba 0 s)"

text \<open>Freeing a chain follows the links on the disk; on a cyclic chain it does not end, and the
  result is \<open>None\<close>. The loop of \<open>eynfs_write_file\<close> invalidates cached blocks
  (\<open>inval\<close>) and does no accounting.\<close>

partial_function (option) free_chain :: "u8 \<Rightarrow> superblock \<Rightarrow> bool \<Rightarrow> u32 \<Rightarrow> 'a eynfs_scheme \<Rightarrow> 'a eynfs_scheme option" where
  "free_chain drive sb inval block s =
     (if block = 0 then Some s
      else case ata_read_sector drive (eynfs_block_to_lba block) (if inval then s else account s) of
        (None, s) \<Rightarrow> Some s
      | (Some tmp, s) \<Rightarrow>
          free_chain drive sb inval (get32 tmp 0)
            (snd (eynfs_free_block drive sb block (if inval then eynfs_cache_invalidate_block block s else s))))"

definition eynfs_free_dir_chain :: "u8 \<Rightarrow> u32 \<Rightarrow> 'a eynfs_scheme \<Rightarrow> (unit option \<times> 'a eynfs_scheme) option" where
  "eynfs_free_dir_chain drive first_block s =
     (case eynfs_ctx_check (CAP_READ_FS OR CAP_WRITE_FS) SCHED_COST_FS s of
        (None, s) \<Rightarrow> Some (None, s)
      | (Some _, s) \<Rightarrow>
         (case eynfs_read_superblock drive EYNFS_SUPERBLOCK_LBA s of
            (None, s) \<Rightarrow> Some (None, s)
          | (Some sb, s) \<Rightarrow> map_option (\<lambda>s. (Some (), s)) (free_chain drive sb False first_block s)))"

fun chain_blocks :: "u8 \<Rightarrow> nat \<Rightarrow> u32 \<Rightarrow> 'a eynfs_scheme \<Rightarrow> u32 list \<times> 'a eynfs_scheme" where
  "chain_blocks drive 0 block s = ([], s)"
| "chain_blocks drive (Suc n) block s =
     (if block = 0 then ([], s)
      else case ata_read_sector drive (eynfs_block_to_lba block) (account s) of
        (None, s) \<Rightarrow> ([block], s)
      | (Some buf, s) \<Rightarrow> (case chain_blocks drive n (get32 buf 0) s of (bs, s) \<Rightarrow> (block # bs, s)))"

text \<open>The loop over the blocks of the existing chain; the result is what is still to be written
  and \<open>allocated_next_block\<close>. The tests \<open>next_block < 0\<close> on a \<open>uint32_t\<close> are always false.\<close>

fun write_blocks :: "u8 \<Rightarrow> superblock \<Rightarrow> u32 list \<Rightarrow> dir_entry list \<Rightarrow> 'a eynfs_scheme
    \<Rightarrow> (dir_entry list \<times> u32) option \<times> 'a eynfs_scheme" where
  "write_blocks drive sb [] entries s = (Some (entries, 0), s)"
| "write_blocks drive sb (block # blocks) entries s =
     (if entries = [] then (Some (entries, 0), s)
      else
        let s = account s;
            to_write = (if length entries > entries_per_block then entries_per_block else length entries);
            (next_block, allocated, s) =
              (if to_write < length entries then
                 (case blocks of
                    nb # _ \<Rightarrow> (nb, 0, s)
                  | [] \<Rightarrow> (case eynfs_alloc_block drive sb s of (nb, s) \<Rightarrow> (nb, nb, s)))
               else (0, 0, s))
        in on_ok (eynfs_write_dir_block drive block (take to_write entries) next_block s) (\<lambda>_ s.
          let entries = drop to_write entries in
          if entries \<noteq> [] \<and> blocks = [] then (Some (entries, allocated), s)
          else write_blocks drive sb blocks entries s))"

text \<open>The second loop starts every round from the same \<open>allocated_next_block\<close>.\<close>

function write_more :: "u8 \<Rightarrow> superblock \<Rightarrow> u32 \<Rightarrow> dir_entry list \<Rightarrow> 'a eynfs_scheme \<Rightarrow> unit option \<times> 'a eynfs_scheme" where
  "write_more drive sb allocated entries s =
     (if entries = [] then (Some (), s)
      else
        let s = account s;
            (new_block, s) = (if allocated = 0 then eynfs_alloc_block drive sb s else (allocated, s));
            to_write = (if length entries > entries_per_block then entries_per_block else length entries);
            (next_block, s) = (if to_write < length entries then eynfs_alloc_block drive sb s else (0, s))
        in on_ok (eynfs_write_dir_block drive new_block (take to_write entries) next_block s) (\<lambda>_ s.
          write_more drive sb allocated (drop to_write entries) s))"
  by pat_completeness auto

termination
  by (relation "measure (\<lambda>(_, _, _, es, _). length es)") (auto split: if_splits)

declare write_more.simps [simp del]

definition eynfs_write_dir_table :: "u8 \<Rightarrow> u32 \<Rightarrow> dir_entry list \<Rightarrow> 'a eynfs_scheme \<Rightarrow> nat option \<times> 'a eynfs_scheme" where
  "eynfs_write_dir_table drive lba entries s =
     (if entries = [] then (Some 0, s)
      else on_ok (eynfs_ctx_check (CAP_READ_FS OR CAP_WRITE_FS) SCHED_COST_FS s) (\<lambda>_ s.
        on_ok (eynfs_read_superblock drive EYNFS_SUPERBLOCK_LBA
                 (txn_touch drive FS_TXN_TAG_DIR (of_nat (length entries) * 52) s)) (\<lambda>sb s.
          case chain_blocks drive 32 lba s of (blocks, s) \<Rightarrow>
          on_ok (write_blocks drive sb blocks entries s) (\<lambda>(rest, allocated) s.
            on_ok (write_more drive sb allocated rest s) (\<lambda>_ s. (Some (length entries), s))))))"

end
