(* ===== verification/EynfsPath.thy ===== *)
theory EynfsPath
  imports EynfsDisk
begin

text \<open>
  Names and directories of EYNFS (\<open>src/drivers/eynfs.c\<close>): finding an entry in a directory, walking
  a path, creating and deleting entries. A status of -1 is \<open>None\<close>; the results are what the
  functions store through their out parameters. \<open>stack_entry\<close> is what the automatic variable
  \<open>entry\<close> of \<open>eynfs_traverse_path\<close> holds before it is assigned, which one path leaves so.
\<close>

record eynfs_fs = eynfs +
  stack_entry :: dir_entry

section \<open>Finding\<close>

definition name_matches :: "dir_entry \<Rightarrow> bytes \<Rightarrow> bool" where
  "name_matches e name \<longleftrightarrow> de_name e ! 0 \<noteq> 0 \<and> strncmp (de_name e) name EYNFS_NAME_MAX = 0"

text \<open>The first matching entry of a directory block.\<close>

definition scan_block :: "bytes \<Rightarrow> bytes \<Rightarrow> nat option" where
  "scan_block buf name = first_idx (\<lambda>i. name_matches (block_entry buf i) name) entries_per_block"

fun find_loop :: "u8 \<Rightarrow> bytes \<Rightarrow> nat \<Rightarrow> u32 \<Rightarrow> u32 \<Rightarrow> 'a eynfs_scheme \<Rightarrow> (dir_entry \<times> u32) option \<times> 'a eynfs_scheme" where
  "find_loop drive name 0 block base_index s = (None, s)"
| "find_loop drive name (Suc n) block base_index s =
     (if block = 0 then (None, s)
      else on_ok (eynfs_cache_get_block drive block (account s)) (\<lambda>buf s.
        case scan_block buf name of
          Some i \<Rightarrow> (Some (block_entry buf i, base_index + of_nat i), s)
        | None \<Rightarrow> find_loop drive name n (get32 buf 0) (base_index + of_nat entries_per_block) s))"

definition eynfs_find_in_dir :: "u8 \<Rightarrow> u32 \<Rightarrow> bytes \<Rightarrow> 'a eynfs_scheme \<Rightarrow> (dir_entry \<times> u32) option \<times> 'a eynfs_scheme" where
  "eynfs_find_in_dir drive dir_block name s =
     on_ok (eynfs_ctx_check CAP_READ_FS SCHED_COST_FS s) (\<lambda>_ s.
       if peek name = 0 then (None, s)
       else
         let s = txn_touch drive FS_TXN_TAG_DIR 52 s;
             cached = (case eynfs_dir_cache_find dir_block s of
                 None \<Rightarrow> None
               | Some c \<Rightarrow> (case dc_entries c of
                   None \<Rightarrow> None
                 | Some es \<Rightarrow> (case first_idx (\<lambda>i. name_matches (es ! i) name) (dc_count c) of
                     None \<Rightarrow> None
                   | Some i \<Rightarrow> Some (es ! i, of_nat i))))
         in case cached of
           Some r \<Rightarrow> (Some r, s)
         | None \<Rightarrow> find_loop drive name 4096 dir_block 0 s)"

section \<open>Paths\<close>

lemma skip_delims_length: "length (skip_delims d s) \<le> length s"
  by (rule suffix_length_le [OF skip_delims_suffix])

lemma token_end_length: "token_end d s = (t, r) \<Longrightarrow> length t + length r = length s"
  by (induction s arbitrary: t r) (auto split: if_splits prod.splits)

lemma skip_delims_hd: "skip_delims d s = c # r \<Longrightarrow> c \<noteq> 0 \<Longrightarrow> strchr d c = None"
  by (induction s) (auto split: if_splits)

lemma strtok_r_length:
  assumes "strtok_r d save = (Some t, r)"
  shows "length r < length save"
proof (cases "skip_delims d save")
  case Nil
  then show ?thesis using assms by (simp add: strtok_r_def)
next
  case (Cons c u)
  obtain t' r' where tr: "token_end d (c # u) = (t', r')" by fastforce
  have c: "c \<noteq> 0" "strchr d c = None" using assms Cons skip_delims_hd [OF Cons] by (auto simp: strtok_r_def Let_def split: if_splits)
  have "length r \<le> length r'" using assms Cons c tr by (auto simp: strtok_r_def Let_def)
  moreover have "length r' < length (c # u)" using tr c by (auto dest: token_end_length split: prod.splits)
  ultimately show ?thesis using skip_delims_length [of d save] Cons by simp
qed

text \<open>The loop over the tokens, with the token that is looked up in directory \<open>current_block\<close>; the
  result is the entry, the block of its directory and its index there.\<close>

function traverse_loop :: "u8 \<Rightarrow> bytes \<Rightarrow> bytes \<Rightarrow> u32 \<Rightarrow> 'a eynfs_scheme
    \<Rightarrow> (dir_entry \<times> u32 \<times> u32) option \<times> 'a eynfs_scheme" where
  "traverse_loop drive token save current_block s =
     on_ok (eynfs_find_in_dir drive current_block token s) (\<lambda>(entry, index) s.
       case strtok_r slash save of
         (None, _) \<Rightarrow> (Some (entry, current_block, index), s)
       | (Some token, save') \<Rightarrow>
           if de_type entry \<noteq> EYNFS_TYPE_DIR then (None, s)
           else traverse_loop drive token save' (de_first_block entry) s)"
  by pat_completeness auto

termination
  by (relation "measure (\<lambda>(_, _, save, _, _). length save)") (auto dest: strtok_r_length [OF sym])

declare traverse_loop.simps [simp del]

text \<open>A path of slashes only has no token; its status is success and the entry is whatever the
  variable held.\<close>

definition eynfs_traverse_path :: "u8 \<Rightarrow> superblock \<Rightarrow> bytes \<Rightarrow> 'a eynfs_fs_scheme
    \<Rightarrow> (dir_entry \<times> u32 \<times> u32) option \<times> 'a eynfs_fs_scheme" where
  "eynfs_traverse_path drive sb path s =
     (if peek path \<noteq> 0x2F then (None, s)
      else if strcmp path slash = 0 then
        (Some (zero_entry\<lparr>de_type := EYNFS_TYPE_DIR, de_first_block := sb_root_dir_block sb\<rparr>, 0, 0), s)
      else
        let temp_path = cstr ((strncpy (replicate 256 0) path 256)[256 - 1 := 0]) in
        case strtok_r slash temp_path of
          (None, _) \<Rightarrow> (Some (stack_entry s, 0, 0), s)
        | (Some token, save) \<Rightarrow> traverse_loop drive token save (sb_root_dir_block sb) s)"

section \<open>Creating\<close>

text \<open>The loop over the entries of a block: the first empty slot, unless the name exists.\<close>

fun slot_scan :: "bytes \<Rightarrow> bytes \<Rightarrow> nat \<Rightarrow> nat \<Rightarrow> nat option \<Rightarrow> nat option option" where
  "slot_scan buf name 0 i free_idx = Some free_idx"
| "slot_scan buf name (Suc n) i free_idx =
     (let e = block_entry buf i in
      if de_name e ! 0 = 0 then slot_scan buf name n (Suc i) (if free_idx = None then Some i else free_idx)
      else if strncmp (de_name e) name EYNFS_NAME_MAX = 0 then None
      else slot_scan buf name n (Suc i) free_idx)"

definition new_entry :: "bytes \<Rightarrow> u8 \<Rightarrow> u32 \<Rightarrow> dir_entry" where
  "new_entry name type new_block =
     zero_entry\<lparr>de_name := (strncpy (replicate 32 0) name (EYNFS_NAME_MAX - 1))[EYNFS_NAME_MAX - 1 := 0],
       de_type := type, de_first_block := new_block\<rparr>"

text \<open>Which of the two ways the scan ends: a block with an empty slot, or the last block of the chain.\<close>

datatype slot = Slot u32 bytes nat | Append u32

partial_function (option) create_scan :: "u8 \<Rightarrow> bytes \<Rightarrow> u32 \<Rightarrow> u32 \<Rightarrow> 'a eynfs_scheme
    \<Rightarrow> (slot option \<times> 'a eynfs_scheme) option" where
  "create_scan drive name cur last_block s =
     (if cur = 0 then Some (Some (Append last_block), s)
      else case eynfs_cache_get_block drive cur (account s) of
        (None, s) \<Rightarrow> Some (None, s)
      | (Some buf, s) \<Rightarrow>
         (case slot_scan buf name entries_per_block 0 None of
            None \<Rightarrow> Some (None, s)
          | Some (Some i) \<Rightarrow> Some (Some (Slot cur buf i), s)
          | Some None \<Rightarrow> create_scan drive name (get32 buf 0) cur s))"

text \<open>\<open>eynfs_free_block\<close> as a clean-up whose status is ignored before returning -1.\<close>

definition give_back :: "u8 \<Rightarrow> superblock \<Rightarrow> u32 list \<Rightarrow> 'a eynfs_scheme \<Rightarrow> unit option \<times> 'a eynfs_scheme" where
  "give_back drive sb blocks s = (None, fold (\<lambda>b s. snd (eynfs_free_block drive sb b s)) blocks s)"

text \<open>Run \<open>r\<close>; give the blocks back if it failed, otherwise go on.\<close>

definition or_give_back :: "u8 \<Rightarrow> superblock \<Rightarrow> u32 list \<Rightarrow> 'b option \<times> 'a eynfs_scheme
    \<Rightarrow> ('b \<Rightarrow> 'a eynfs_scheme \<Rightarrow> unit option \<times> 'a eynfs_scheme) \<Rightarrow> unit option \<times> 'a eynfs_scheme" where
  "or_give_back drive sb blocks r f = (case r of (None, s) \<Rightarrow> give_back drive sb blocks s | (Some x, s) \<Rightarrow> f x s)"

definition create_in_slot :: "u8 \<Rightarrow> superblock \<Rightarrow> u32 \<Rightarrow> bytes \<Rightarrow> u8 \<Rightarrow> u32 \<Rightarrow> bytes \<Rightarrow> nat
    \<Rightarrow> 'a eynfs_scheme \<Rightarrow> unit option \<times> 'a eynfs_scheme" where
  "create_in_slot drive sb parent_block name type cur buf free_idx s =
     (case eynfs_alloc_block drive sb s of (new_block, s) \<Rightarrow>
      if sint new_block < 0 then (None, s)
      else
        let buf = put_entry buf free_idx (new_entry name type new_block) in
        or_give_back drive sb [new_block]
          (if type = EYNFS_TYPE_DIR then ata_write_sector drive (eynfs_block_to_lba new_block) zero_block s else (Some (), s))
          (\<lambda>_ s. or_give_back drive sb [new_block] (eynfs_cache_write_block drive cur buf s)
             (\<lambda>_ s. (Some (), eynfs_cache_flush drive (eynfs_dir_cache_invalidate parent_block s)))))"

definition create_appended :: "u8 \<Rightarrow> superblock \<Rightarrow> u32 \<Rightarrow> bytes \<Rightarrow> u8 \<Rightarrow> u32 \<Rightarrow> 'a eynfs_scheme \<Rightarrow> unit option \<times> 'a eynfs_scheme" where
  "create_appended drive sb parent_block name type last_block s =
     (if last_block = 0 then (None, s)
      else case eynfs_alloc_block drive sb s of (new_dir_block, s) \<Rightarrow>
      if sint new_dir_block < 0 then (None, s)
      else case eynfs_alloc_block drive sb s of (new_entry_block, s) \<Rightarrow>
      if sint new_entry_block < 0 then give_back drive sb [new_dir_block] s
      else
        let undo = [new_entry_block, new_dir_block];
            new_buf = put_entry zero_block 0 (new_entry name type new_entry_block) in
        or_give_back drive sb undo (eynfs_cache_get_block drive last_block s) (\<lambda>last_buf s.
        or_give_back drive sb undo (eynfs_cache_write_block drive last_block (put32 last_buf 0 new_dir_block) s) (\<lambda>_ s.
        or_give_back drive sb undo
          (if type = EYNFS_TYPE_DIR then ata_write_sector drive (eynfs_block_to_lba new_entry_block) zero_block s else (Some (), s)) (\<lambda>_ s.
        or_give_back drive sb undo
          (eynfs_cache_write_block drive new_dir_block new_buf (eynfs_cache_invalidate_block new_dir_block s)) (\<lambda>_ s.
          (Some (), eynfs_cache_flush drive (eynfs_dir_cache_invalidate parent_block s)))))))"

definition eynfs_create_entry :: "u8 \<Rightarrow> superblock \<Rightarrow> u32 \<Rightarrow> bytes \<Rightarrow> u8 \<Rightarrow> 'a eynfs_scheme
    \<Rightarrow> (unit option \<times> 'a eynfs_scheme) option" where
  "eynfs_create_entry drive sb parent_block name type s =
     (if peek name = 0 then Some (None, s)
      else if type \<noteq> EYNFS_TYPE_FILE \<and> type \<noteq> EYNFS_TYPE_DIR then Some (None, s)
      else if parent_block = 0 then Some (None, s)
      else case eynfs_ctx_check (CAP_READ_FS OR CAP_WRITE_FS) SCHED_COST_FS s of
        (None, s) \<Rightarrow> Some (None, s)
      | (Some _, s) \<Rightarrow>
          let s = txn_touch drive FS_TXN_TAG_DIR 52 s;
              s = (if type = EYNFS_TYPE_FILE then txn_touch drive FS_TXN_TAG_FILE 0 s else s)
          in Option.bind (create_scan drive name parent_block 0 s) (\<lambda>r.
            case r of
              (None, s) \<Rightarrow> Some (None, s)
            | (Some (Slot cur buf i), s) \<Rightarrow> Some (create_in_slot drive sb parent_block name type cur buf i s)
            | (Some (Append last_block), s) \<Rightarrow> Some (create_appended drive sb parent_block name type last_block s)))"

section \<open>Deleting\<close>

text \<open>Walking to the block of an entry, shared with \<open>eynfs_stream_end\<close>: \<open>i\<close> counts the steps up to
  \<open>max_blocks\<close>.\<close>

fun step_blocks :: "u8 \<Rightarrow> nat \<Rightarrow> nat \<Rightarrow> u32 \<Rightarrow> 'a eynfs_scheme \<Rightarrow> u32 option \<times> 'a eynfs_scheme" where
  "step_blocks drive 0 i cur s = (Some cur, s)"
| "step_blocks drive (Suc n) i cur s =
     (if cur = 0 \<or> i \<ge> 4096 then (None, s)
      else on_ok (eynfs_cache_get_block drive cur s) (\<lambda>dirblk s. step_blocks drive n (Suc i) (get32 dirblk 0) s))"

definition replace_entry :: "u8 \<Rightarrow> u32 \<Rightarrow> u32 \<Rightarrow> dir_entry \<Rightarrow> 'a eynfs_scheme \<Rightarrow> unit option \<times> 'a eynfs_scheme" where
  "replace_entry drive parent_block entry_index e s =
     on_ok (step_blocks drive (unat (entry_index div of_nat entries_per_block)) 0 parent_block s) (\<lambda>cur s.
       if cur = 0 then (None, s)
       else on_ok (eynfs_cache_get_block drive cur s) (\<lambda>dirblk s.
         let dirblk = put_entry dirblk (unat (entry_index mod of_nat entries_per_block)) e in
         on_ok (eynfs_cache_write_block drive cur dirblk (eynfs_cache_invalidate_block cur s)) (\<lambda>_ s.
           (Some (), eynfs_dir_cache_invalidate parent_block s))))"

definition eynfs_delete_entry :: "u8 \<Rightarrow> superblock \<Rightarrow> u32 \<Rightarrow> bytes \<Rightarrow> 'a eynfs_scheme \<Rightarrow> (unit option \<times> 'a eynfs_scheme) option" where
  "eynfs_delete_entry drive sb parent_block name s =
     (if peek name = 0 then Some (None, s)
      else case eynfs_ctx_check (CAP_READ_FS OR CAP_WRITE_FS) SCHED_COST_FS s of
        (None, s) \<Rightarrow> Some (None, s)
      | (Some _, s) \<Rightarrow>
         (case eynfs_find_in_dir drive parent_block name (txn_touch drive FS_TXN_TAG_FILE 0 (txn_touch drive FS_TXN_TAG_DIR 52 s)) of
            (None, s) \<Rightarrow> Some (None, s)
          | (Some (victim, entry_index), s) \<Rightarrow>
              map_option (replace_entry drive parent_block entry_index zero_entry)
                (free_chain drive sb False (de_first_block victim) s)))"

end
