(* ===== verification/EynfsFile.thy ===== *)
theory EynfsFile
  imports EynfsPath
begin

text \<open>
  Files of EYNFS (\<open>src/drivers/eynfs.c\<close>): reading and writing the data chain of a file, the file
  descriptors and the streaming writer. Buffers that the code fills are results. Sizes and offsets of
  type \<open>size_t\<close> are natural numbers below \<open>2 ^ 32\<close>. The watchdog kicks are left out.
\<close>

section \<open>Reading\<close>

abbreviation (input) payload_size :: nat where "payload_size \<equiv> 508"

text \<open>The three loops of the two readers. Skipping returns the block reached and the bytes left
  to skip in it.\<close>

function read_skip :: "u8 \<Rightarrow> u32 \<Rightarrow> nat \<Rightarrow> 'a eynfs_scheme \<Rightarrow> (u32 \<times> nat) option \<times> 'a eynfs_scheme" where
  "read_skip drive block_num skip s =
     (if block_num \<noteq> 0 \<and> skip \<ge> payload_size then
        on_ok (eynfs_cache_get_block drive block_num (account s)) (\<lambda>block s.
          read_skip drive (get32 block 0) (skip - payload_size) s)
      else (Some (block_num, skip), s))"
  by pat_completeness auto

termination
  by (relation "measure (\<lambda>(_, _, skip, _). skip)") auto

declare read_skip.simps [simp del]

text \<open>The remaining blocks: the bytes read, and the cursor behind them.\<close>

function read_rest :: "u8 \<Rightarrow> u32 \<Rightarrow> nat \<Rightarrow> u32 \<Rightarrow> 'a eynfs_scheme \<Rightarrow> (bytes option \<times> u32 \<times> u32) \<times> 'a eynfs_scheme" where
  "read_rest drive block_num bytes_left cur_off s =
     (if block_num \<noteq> 0 \<and> bytes_left > 0 then
        (case eynfs_cache_get_block drive block_num (account s) of
           (None, s) \<Rightarrow> ((None, block_num, cur_off), s)
         | (Some block, s) \<Rightarrow>
            let next_block = get32 block 0;
                chunk = (if payload_size < bytes_left then payload_size else bytes_left)
            in case read_rest drive next_block (bytes_left - chunk) (cur_off + 508) s of
                 ((r, cur), s) \<Rightarrow> ((map_option (\<lambda>d. take chunk (drop 4 block) @ d) r, cur), s))
      else ((Some [], block_num, cur_off), s))"
  by pat_completeness auto

termination
  by (relation "measure (\<lambda>(_, _, n, _, _). n)") (auto split: if_splits)

declare read_rest.simps [simp del]

definition eynfs_read_file :: "u8 \<Rightarrow> dir_entry \<Rightarrow> nat \<Rightarrow> nat \<Rightarrow> 'a eynfs_scheme \<Rightarrow> bytes option \<times> 'a eynfs_scheme" where
  "eynfs_read_file drive entry bufsize offset s =
     on_ok (eynfs_ctx_check CAP_READ_FS SCHED_COST_FS s) (\<lambda>_ s.
       if de_type entry \<noteq> EYNFS_TYPE_FILE then (None, s)
       else if offset \<ge> unat (de_size entry) then (Some [], s)
       else
         let s = txn_touch drive FS_TXN_TAG_FILE (of_nat bufsize) s;
             bytes_left = (let n = unat (de_size entry) - offset in if bufsize < n then bufsize else n)
         in on_ok (read_skip drive (de_first_block entry) offset s) (\<lambda>(block_num, skip) s.
           if block_num \<noteq> 0 \<and> bytes_left > 0 then
             on_ok (eynfs_cache_get_block drive block_num (account s)) (\<lambda>block s.
               let chunk = (let n = payload_size - skip in if n > bytes_left then bytes_left else n) in
               case read_rest drive (get32 block 0) (bytes_left - chunk) 0 s of ((r, _), s) \<Rightarrow>
                 (map_option (\<lambda>d. take chunk (drop (4 + skip) block) @ d) r, s))
           else (Some [], s)))"

text \<open>The cursor is \<open>None\<close> for null pointers, otherwise block and offset; it is updated also by
  reads that fail.\<close>

definition eynfs_read_file_fast :: "u8 \<Rightarrow> u32 \<Rightarrow> u32 \<Rightarrow> nat \<Rightarrow> nat \<Rightarrow> (u32 \<times> u32) option \<Rightarrow> 'a eynfs_scheme
    \<Rightarrow> (bytes option \<times> (u32 \<times> u32) option) \<times> 'a eynfs_scheme" where
  "eynfs_read_file_fast drive first_block file_size bufsize offset cursor s =
     (case eynfs_ctx_check CAP_READ_FS SCHED_COST_FS s of
        (None, s) \<Rightarrow> ((None, cursor), s)
      | (Some _, s) \<Rightarrow>
        if offset \<ge> unat file_size then ((Some [], cursor), s)
        else
          let s = txn_touch drive FS_TXN_TAG_FILE (of_nat bufsize) s;
              bytes_left = (let n = unat file_size - offset in if bufsize < n then bufsize else n);
              (block_num, skip) = (case cursor of
                  Some (cur_block, cur_off) \<Rightarrow>
                    if cur_block \<noteq> 0 \<and> offset \<ge> unat cur_off then (cur_block, offset - unat cur_off) else (first_block, offset)
                | None \<Rightarrow> (first_block, offset))
          in case read_skip drive block_num skip s of
               (None, s) \<Rightarrow> ((None, cursor), s)
             | (Some (block_num, skip), s) \<Rightarrow>
                 let cur_off = of_nat (offset - skip);
                     cursor_at = (\<lambda>c. if cursor = None then None else Some c)
                 in if block_num \<noteq> 0 \<and> bytes_left > 0 then
                      (case eynfs_cache_get_block drive block_num s of
                         (None, s) \<Rightarrow> ((None, cursor_at (block_num, cur_off)), s)
                       | (Some block, s) \<Rightarrow>
                           let chunk = (let n = payload_size - skip in if n > bytes_left then bytes_left else n) in
                           case read_rest drive (get32 block 0) (bytes_left - chunk) (cur_off + 508) s of ((r, cur), s) \<Rightarrow>
                             ((map_option (\<lambda>d. take chunk (drop (4 + skip) block) @ d) r, cursor_at cur), s))
                    else ((Some [], cursor_at (block_num, cur_off)), s))"

section \<open>Writing\<close>

definition data_block :: "bytes \<Rightarrow> bytes" where
  "data_block chunk = blit zero_block 0 (bytes_of32 0 @ chunk)"

text \<open>The loop that allocates and writes the chain; the result is the first block.\<close>

function write_chain :: "u8 \<Rightarrow> superblock \<Rightarrow> bytes \<Rightarrow> u32 \<Rightarrow> u32 \<Rightarrow> 'a eynfs_scheme \<Rightarrow> u32 option \<times> 'a eynfs_scheme" where
  "write_chain drive sb data prev_block first_block s =
     (if data = [] then (Some first_block, s)
      else case eynfs_alloc_block drive sb s of (new_block, s) \<Rightarrow>
      if sint new_block < 0 then (None, s)
      else
        let s = eynfs_cache_invalidate_block new_block s;
            first_block = (if first_block = 0 then new_block else first_block);
            chunk = (if length data < payload_size then length data else payload_size)
        in on_ok (if prev_block \<noteq> 0 then
               on_ok (ata_read_sector drive (eynfs_block_to_lba prev_block) s) (\<lambda>tmp s.
                 eynfs_cache_write_block drive prev_block (put32 tmp 0 new_block) s)
             else (Some (), s)) (\<lambda>_ s.
           on_ok (eynfs_cache_write_block drive new_block (data_block (take chunk data)) s) (\<lambda>_ s.
             write_chain drive sb (drop chunk data) new_block first_block s)))"
  by pat_completeness auto

termination
  by (relation "measure (\<lambda>(_, _, data, _, _, _). length data)") (auto split: if_splits)

declare write_chain.simps [simp del]

text \<open>Writing the entry into its table. An empty table makes the index -1 and the assignment goes in front
  of the allocated buffer; the table itself stays as it is.\<close>

definition update_table :: "u8 \<Rightarrow> dir_entry \<Rightarrow> u32 \<Rightarrow> u32 \<Rightarrow> 'a eynfs_scheme \<Rightarrow> unit option \<times> 'a eynfs_scheme" where
  "update_table drive entry parent_block entry_index s =
     on_ok (eynfs_count_dir_entries drive parent_block s) (\<lambda>entry_count s.
       let entry_count = (if 52 * entry_count > 4096 then 4096 div 52 else entry_count) in
       case fs_malloc s of (table, s) \<Rightarrow>
       if table = 0 then (None, s)
       else on_ok (eynfs_read_dir_table drive parent_block entry_count s) (\<lambda>entries s.
         let index = (if entry_index \<ge> of_nat (length entries) then of_nat (length entries) - 1 else entry_index);
             entries = entries[unat index := entry]
         in on_ok (eynfs_write_dir_table drive parent_block entries s) (\<lambda>_ s.
           (Some (), eynfs_dir_cache_invalidate parent_block s))))"

text \<open>The entry is an in-out parameter: the result holds its value behind the status.\<close>

definition eynfs_write_file :: "u8 \<Rightarrow> superblock \<Rightarrow> dir_entry \<Rightarrow> bytes \<Rightarrow> u32 \<Rightarrow> u32 \<Rightarrow> 'a eynfs_scheme
    \<Rightarrow> ((unit option \<times> dir_entry) \<times> 'a eynfs_scheme) option" where
  "eynfs_write_file drive sb entry data parent_block entry_index s =
     (if de_type entry \<noteq> EYNFS_TYPE_FILE then Some ((None, entry), s)
      else case eynfs_ctx_check (CAP_READ_FS OR CAP_WRITE_FS) SCHED_COST_FS s of
        (None, s) \<Rightarrow> Some ((None, entry), s)
      | (Some _, s) \<Rightarrow>
          map_option (\<lambda>s. case write_chain drive sb data 0 0 s of
              (None, s) \<Rightarrow> ((None, entry), s)
            | (Some first_block, s) \<Rightarrow>
                let entry = entry\<lparr>de_first_block := first_block, de_size := of_nat (length data)\<rparr> in
                (case update_table drive entry parent_block entry_index s of (r, s) \<Rightarrow> ((r, entry), s)))
            (let s = txn_touch drive FS_TXN_TAG_FILE (of_nat (length data)) s in
             if de_first_block entry \<noteq> 0 then free_chain drive sb True (de_first_block entry) s else Some s))"

text \<open>The number of bytes written is the size on success.\<close>

definition eynfs_write_file_at :: "u8 \<Rightarrow> superblock \<Rightarrow> dir_entry \<Rightarrow> bytes \<Rightarrow> u32 \<Rightarrow> u32 \<Rightarrow> u32 \<Rightarrow> 'a eynfs_scheme
    \<Rightarrow> ((nat option \<times> dir_entry) \<times> 'a eynfs_scheme) option" where
  "eynfs_write_file_at drive sb entry data offset parent_block entry_index s =
     (let old_size = de_size entry;
          size = of_nat (length data) :: u32;
          past = offset + size;
          new_size = (if past > old_size then past else old_size);
          finish = map_option (\<lambda>((r, e), s). ((map_option (\<lambda>_. length data) r, e), s))
      in if de_type entry \<noteq> EYNFS_TYPE_FILE then Some ((None, entry), s)
      else if data = [] then Some ((Some 0, entry), s)
      else if past < offset then Some ((None, entry), s)
      else if offset = 0 \<and> new_size = size then finish (eynfs_write_file drive sb entry data parent_block entry_index s)
      else case fs_malloc s of (p, s) \<Rightarrow>
      if p = 0 then Some ((None, entry), s)
      else
        let (old, s) = (if old_size > 0 then eynfs_read_file drive entry (unat old_size) 0 s else (Some [], s)) in
        case old of
          None \<Rightarrow> Some ((None, entry), s)
        | Some d \<Rightarrow>
            if length d \<noteq> unat old_size then Some ((None, entry), s)
            else
              let merged = blit (d @ replicate (unat new_size - unat old_size) 0) (unat offset) data
              in finish (eynfs_write_file drive sb entry merged parent_block entry_index s))"

end
