(* ===== verification/BlockCacheSpec.thy ===== *)
theory BlockCacheSpec
  imports BlockCache
begin

text \<open>
  What the block cache promises: it is invisible. \<open>view drive s b\<close> is the content of block
  \<open>b\<close> that a reader gets, the cached bytes if the block is cached and the sector
  otherwise. Reading returns the view and changes no view, writing changes the view of one
  block, and eviction, write-back and flushing change none. This holds as long as the cache is used
  with one drive only, which is part of the invariant; the last section shows what happens otherwise.
\<close>

section \<open>The entries as a map\<close>

definition content :: "cache_entry list \<Rightarrow> u32 \<Rightarrow> bytes option" where
  "content es b = map_option (\<lambda>i. ce_data (es ! i))
     (first_idx (\<lambda>i. ce_valid (es ! i) \<and> ce_block_num (es ! i) = b) (length es))"

definition uniq :: "cache_entry list \<Rightarrow> bool" where
  "uniq es \<longleftrightarrow> (\<forall>i < length es. \<forall>j < length es. ce_valid (es ! i) \<and> ce_valid (es ! j)
     \<and> ce_block_num (es ! i) = ce_block_num (es ! j) \<longrightarrow> i = j)"

lemma content_None: "content es b = None \<longleftrightarrow> (\<forall>i < length es. \<not> (ce_valid (es ! i) \<and> ce_block_num (es ! i) = b))"
  by (simp add: content_def first_idx_None)

lemma content_at:
  assumes "uniq es" "i < length es" "ce_valid (es ! i)" "ce_block_num (es ! i) = b"
  shows "content es b = Some (ce_data (es ! i))"
proof -
  have "first_idx (\<lambda>i. ce_valid (es ! i) \<and> ce_block_num (es ! i) = b) (length es) = Some i"
    unfolding first_idx_Some using assms by (metis (no_types, lifting) less_irrefl less_trans uniq_def)
  then show ?thesis by (simp add: content_def)
qed

lemma content_SomeD:
  "content es b = Some d \<Longrightarrow> \<exists>i < length es. ce_valid (es ! i) \<and> ce_block_num (es ! i) = b \<and> ce_data (es ! i) = d"
  by (auto simp: content_def first_idx_Some)

text \<open>Replacing an entry: the new block is found, the old one is gone.\<close>

lemma uniq_update:
  assumes "uniq es" "\<forall>i < length es. i \<noteq> v \<longrightarrow> \<not> (ce_valid (es ! i) \<and> ce_block_num (es ! i) = ce_block_num e)"
  shows "uniq (es[v := e])"
proof -
  have "i = j" if h: "i < length es" "j < length es" "ce_valid (es[v := e] ! i)" "ce_valid (es[v := e] ! j)"
    "ce_block_num (es[v := e] ! i) = ce_block_num (es[v := e] ! j)" for i j
  proof (cases "i = v \<or> j = v")
    case True
    then show ?thesis using h assms(2) by (metis nth_list_update_eq nth_list_update_neq)
  next
    case False
    then show ?thesis using h assms(1) by (simp add: uniq_def)
  qed
  then show ?thesis by (simp add: uniq_def)
qed

lemma content_update:
  assumes u: "uniq es" and v: "v < length es" "ce_valid e" "ce_block_num e = b"
    and new: "\<forall>i < length es. i \<noteq> v \<longrightarrow> \<not> (ce_valid (es ! i) \<and> ce_block_num (es ! i) = b)"
  shows "content (es[v := e]) c = (if c = b then Some (ce_data e)
     else if ce_valid (es ! v) \<and> ce_block_num (es ! v) = c then None else content es c)"
proof -
  have u': "uniq (es[v := e])" using uniq_update [OF u] new v(3) by blast
  show ?thesis
  proof (cases "c = b")
    case True
    then show ?thesis using content_at [OF u', of v b] v by simp
  next
    case False
    show ?thesis
    proof (cases "\<exists>i < length es. i \<noteq> v \<and> ce_valid (es ! i) \<and> ce_block_num (es ! i) = c")
      case True
      then obtain i where i: "i < length es" "i \<noteq> v" "ce_valid (es ! i)" "ce_block_num (es ! i) = c" by blast
      have "\<not> (ce_valid (es ! v) \<and> ce_block_num (es ! v) = c)" using u i v(1) by (auto simp: uniq_def)
      then show ?thesis using content_at [OF u', of i c] content_at [OF u, of i c] i False v by simp
    next
      case no: False
      then have "content (es[v := e]) c = None" using False v by (auto simp: content_None nth_list_update)
      moreover have "content es c = None" if "\<not> (ce_valid (es ! v) \<and> ce_block_num (es ! v) = c)"
        using no that by (auto simp: content_None)
      ultimately show ?thesis using False by simp
    qed
  qed
qed

section \<open>Views\<close>

definition table :: "'a eynfs_scheme \<Rightarrow> cache_entry list" where
  "table s = (if eynfs_block_cache_is_enabled s then cache_entries s else [])"

definition view :: "u8 \<Rightarrow> 'a eynfs_scheme \<Rightarrow> u32 \<Rightarrow> bytes" where
  "view drive s b = (case content (table s) b of Some d \<Rightarrow> d | None \<Rightarrow> sector s drive (eynfs_block_to_lba b))"

text \<open>A clean entry agrees with its sector, no block is cached twice, and only blocks of \<open>B\<close> are.\<close>

definition table_ok :: "u8 \<Rightarrow> u32 set \<Rightarrow> 'a eynfs_scheme \<Rightarrow> bool" where
  "table_ok drive B s \<longleftrightarrow> uniq (table s)
     \<and> (eynfs_block_cache_is_enabled s \<longrightarrow> length (cache_entries s) = unat (g_block_cache_capacity s))
     \<and> (\<forall>i < length (table s). ce_valid (table s ! i) \<longrightarrow> ce_block_num (table s ! i) \<in> B
          \<and> fst (eynfs_block_cache_validate_or_disable s)
          \<and> (\<not> ce_dirty (table s ! i) \<longrightarrow> ce_data (table s ! i) = sector s drive (eynfs_block_to_lba (ce_block_num (table s ! i)))))"

definition fs_ready :: "u8 \<Rightarrow> u32 set \<Rightarrow> 'a eynfs_scheme \<Rightarrow> bool" where
  "fs_ready drive B s \<longleftrightarrow> healthy drive (eynfs_block_to_lba ` B) s \<and> table_ok drive B s
     \<and> \<not> ctx_denies CAP_READ_FS (dk_kc s) \<and> \<not> ctx_denies CAP_WRITE_FS (dk_kc s)"

text \<open>What the cache leaves alone: everything but its own variables, the sectors and the accounting.\<close>

definition fs_frame :: "'a eynfs_scheme \<Rightarrow> 'a eynfs_scheme \<Rightarrow> bool" where
  "fs_frame s s' \<longleftrightarrow> phys_total_frames s' = phys_total_frames s
     \<and> free_block_cache s' = free_block_cache s \<and> free_block_cache_count s' = free_block_cache_count s
     \<and> free_block_cache_valid s' = free_block_cache_valid s \<and> dir_cache s' = dir_cache s
     \<and> caches_initialized s' = caches_initialized s
     \<and> (\<forall>caps. ctx_denies caps (dk_kc s') = ctx_denies caps (dk_kc s))"

lemma fs_frame_refl [simp]: "fs_frame s s"
  by (simp add: fs_frame_def)

lemma fs_frame_trans: "fs_frame s s' \<Longrightarrow> fs_frame s' s'' \<Longrightarrow> fs_frame s s''"
  by (simp add: fs_frame_def)

lemma lba_inject [simp]: "eynfs_block_to_lba a = eynfs_block_to_lba b \<longleftrightarrow> a = b"
  by (simp add: eynfs_block_to_lba_def)

text \<open>The step relation of this theory: ready again, with the views \<open>f\<close> on \<open>B\<close>.\<close>

definition becomes :: "u8 \<Rightarrow> u32 set \<Rightarrow> (u32 \<Rightarrow> bytes) \<Rightarrow> 'a eynfs_scheme \<Rightarrow> 'a eynfs_scheme \<Rightarrow> bool" where
  "becomes drive B f s s' \<longleftrightarrow> fs_ready drive B s' \<and> (\<forall>c \<in> B. view drive s' c = f c) \<and> fs_frame s s'"

lemma becomes_refl: "fs_ready drive B s \<Longrightarrow> becomes drive B (view drive s) s s"
  by (simp add: becomes_def)

lemma becomes_trans:
  "becomes drive B (view drive s) s s1 \<Longrightarrow> becomes drive B (view drive s1) s1 s2 \<Longrightarrow> becomes drive B (view drive s) s s2"
  by (auto simp: becomes_def intro: fs_frame_trans)

lemma becomes_then:
  "becomes drive B (view drive s) s s1 \<Longrightarrow> becomes drive B ((view drive s1)(b := d)) s1 s2 \<Longrightarrow>
   becomes drive B ((view drive s)(b := d)) s s2"
  by (auto simp: becomes_def intro: fs_frame_trans)

lemma becomes_after:
  "becomes drive B f s s1 \<Longrightarrow> becomes drive B (view drive s1) s1 s2 \<Longrightarrow> becomes drive B f s s2"
  by (auto simp: becomes_def intro: fs_frame_trans)

lemma becomes_ready: "becomes drive B f s s' \<Longrightarrow> fs_ready drive B s'"
  by (simp add: becomes_def)

text \<open>Variables of the table that most steps keep.\<close>

definition same_table :: "'a eynfs_scheme \<Rightarrow> 'a eynfs_scheme \<Rightarrow> bool" where
  "same_table s s' \<longleftrightarrow> g_block_cache_perma_disabled s' = g_block_cache_perma_disabled s \<and> g_block_cache s' = g_block_cache s
     \<and> g_block_cache_data s' = g_block_cache_data s \<and> g_block_cache_capacity s' = g_block_cache_capacity s
     \<and> cache_entries s' = cache_entries s \<and> phys_total_frames s' = phys_total_frames s"

lemma same_table_enabled: "same_table s s' \<Longrightarrow> eynfs_block_cache_is_enabled s' = eynfs_block_cache_is_enabled s"
  by (simp add: same_table_def eynfs_block_cache_is_enabled_def)

lemma same_table_table: "same_table s s' \<Longrightarrow> table s' = table s"
  using same_table_enabled [of s s'] by (simp add: table_def same_table_def)

lemma same_table_validate:
  "same_table s s' \<Longrightarrow> fst (eynfs_block_cache_validate_or_disable s') = fst (eynfs_block_cache_validate_or_disable s)"
  using same_table_enabled [of s s'] by (simp add: eynfs_block_cache_validate_or_disable_def same_table_def Let_def)

lemma same_table_becomes:
  assumes "same_table s s'" "same_disk s s'" "fs_frame s s'" "fs_ready drive B s"
  shows "becomes drive B (view drive s) s s'"
proof -
  note t = same_table_table [OF assms(1)] same_table_enabled [OF assms(1)] same_table_validate [OF assms(1)]
  have d: "sector s' = sector s" by (rule same_disk_sector [OF assms(2)])
  have "table_ok drive B s'" using assms(1,4) by (simp add: fs_ready_def table_ok_def t d) (simp add: same_table_def)
  moreover have "healthy drive (eynfs_block_to_lba ` B) s'"
    using assms(4) same_disk_healthy [OF assms(2)] by (simp add: fs_ready_def)
  ultimately have "fs_ready drive B s'" using assms(3,4) by (simp add: fs_ready_def fs_frame_def)
  then show ?thesis using assms(3) by (simp add: becomes_def view_def t d cong: option.case_cong)
qed

lemma ctx_check_becomes:
  assumes "fs_ready drive B s" and "\<not> ctx_denies cap (dk_kc s)"
  shows "\<exists>s'. eynfs_ctx_check cap cost s = (Some (), s') \<and> becomes drive B (view drive s) s s' \<and> same_table s s'"
proof -
  let ?s = "s\<lparr>dk_kc := ctx_account cost (dk_kc s)\<rparr>"
  have "same_table s ?s" "same_disk s ?s" "fs_frame s ?s" by (simp_all add: same_table_def fs_frame_def)
  with same_table_becomes [OF this assms(1)] assms(2) show ?thesis by (simp add: eynfs_ctx_check_def)
qed

lemma read_becomes:
  assumes r: "fs_ready drive B s" and b: "b \<in> B"
  shows "\<exists>s'. ata_read_sector drive (eynfs_block_to_lba b) s = (Some (sector s drive (eynfs_block_to_lba b)), s')
     \<and> becomes drive B (view drive s) s s' \<and> same_table s s' \<and> sector s' = sector s"
proof -
  obtain s' where s': "ata_read_sector drive (eynfs_block_to_lba b) s = (Some (sector s drive (eynfs_block_to_lba b)), s')"
      "same_disk s s'"
    using ata_read_healthy [of drive "eynfs_block_to_lba ` B" s "eynfs_block_to_lba b"] r b by (auto simp: fs_ready_def)
  have "same_table s s' \<and> fs_frame s s'"
    by (subst ata_read_frame [OF s'(1)], subst (2) ata_read_frame [OF s'(1)]) (use s'(2) in \<open>simp add: same_table_def fs_frame_def same_disk_def\<close>)
  then show ?thesis using s' same_table_becomes [OF _ s'(2) _ r] same_disk_sector [OF s'(2)] by blast
qed

text \<open>Setting the table up, and giving it up when its pointers are out of range, keeps every view:
  a table with invalid pointers has no valid entry.\<close>

lemma disable_keeps: "same_disk s (eynfs_block_cache_disable_permanently s) \<and> fs_frame s (eynfs_block_cache_disable_permanently s)
    \<and> \<not> eynfs_block_cache_is_enabled (eynfs_block_cache_disable_permanently s)"
  by (simp add: eynfs_block_cache_disable_permanently_def same_disk_def fs_frame_def eynfs_block_cache_is_enabled_def)

lemma alloc_cases:
  assumes "eynfs_block_cache_alloc_if_needed s = (ready, s')"
  obtains "s' = s" "ready = eynfs_block_cache_is_enabled s"
  | "\<not> eynfs_block_cache_is_enabled s" "same_disk s s'" "fs_frame s s'" "\<not> ready" "\<not> eynfs_block_cache_is_enabled s'"
  | "\<not> eynfs_block_cache_is_enabled s" "same_disk s s'" "fs_frame s s'" "ready" "eynfs_block_cache_is_enabled s'"
    "length (cache_entries s') = unat (g_block_cache_capacity s')" "\<forall>e \<in> set (cache_entries s'). \<not> ce_valid e"
proof (cases "eynfs_block_cache_is_enabled s \<or> g_block_cache_perma_disabled s \<or> g_block_cache_capacity s \<noteq> 0")
  case True
  then show ?thesis using assms that(1)
    by (auto simp: eynfs_block_cache_alloc_if_needed_def eynfs_block_cache_is_enabled_def split: if_splits)
next
  case False
  let ?c = "eynfs_block_cache_compute_capacity s"
  have c: "?c \<noteq> 0" by (auto simp: eynfs_block_cache_compute_capacity_def Let_def not_less)
  obtain table s1 where s1: "fs_malloc s = (table, s1)" by fastforce
  obtain data s2 where s2: "fs_malloc s1 = (data, s2)" by fastforce
  have k: "same_disk s s2 \<and> fs_frame s s2 \<and> \<not> g_block_cache_perma_disabled s2"
    using s1 s2 False by (auto simp: fs_malloc_def same_disk_def fs_frame_def)
  show ?thesis
  proof (cases "table = 0 \<or> data = 0")
    case True
    then have "ready = False" "s' = s2\<lparr>g_block_cache := 0, g_block_cache_data := 0, g_block_cache_capacity := 0\<rparr>"
      using assms False by (simp_all add: eynfs_block_cache_alloc_if_needed_def s1 s2 Let_def)
    with k False that(2) show ?thesis
      by (simp add: same_disk_def fs_frame_def eynfs_block_cache_is_enabled_def)
  next
    case n: False
    then have "ready = True" and e: "s' = s2\<lparr>g_block_cache := table, g_block_cache_data := data, g_block_cache_capacity := ?c,
        cache_entries := map (\<lambda>i. \<lparr>ce_block_num = 0, ce_last_use = 0, ce_data_ptr = data + of_nat i * 512,
          ce_data = replicate 512 0, ce_dirty = False, ce_valid = False\<rparr>) [0..<unat ?c], g_block_cache_use_clock := 1\<rparr>"
      using assms False by (simp_all add: eynfs_block_cache_alloc_if_needed_def s1 s2 Let_def)
    moreover have "same_disk s s'" "fs_frame s s'" using k by (simp_all add: e same_disk_def fs_frame_def)
    moreover have "eynfs_block_cache_is_enabled s'" using k n c by (simp add: e eynfs_block_cache_is_enabled_def)
    ultimately show ?thesis using False that(3) by (simp add: e)
  qed
qed

text \<open>A change of the table that leaves no valid entry before or after.\<close>

lemma empty_becomes:
  assumes r: "fs_ready drive B s" and d: "same_disk s s'" and f: "fs_frame s s'"
    and e: "\<forall>i < length (table s). \<not> ce_valid (table s ! i)" "\<forall>i < length (table s'). \<not> ce_valid (table s' ! i)"
    and len: "eynfs_block_cache_is_enabled s' \<Longrightarrow> length (cache_entries s') = unat (g_block_cache_capacity s')"
  shows "becomes drive B (view drive s) s s'"
proof -
  have "table_ok drive B s'" using e(2) len by (simp add: table_ok_def uniq_def)
  moreover have "content (table s') c = None" "content (table s) c = None" for c
    using e by (simp_all add: content_None)
  ultimately show ?thesis using r d f
    by (simp add: becomes_def fs_ready_def same_disk_healthy view_def same_disk_sector [OF d])
      (simp add: fs_frame_def)
qed

lemma alloc_becomes:
  assumes r: "fs_ready drive B s" and a: "eynfs_block_cache_alloc_if_needed s = (ready, s')"
  shows "becomes drive B (view drive s) s s' \<and> ready = eynfs_block_cache_is_enabled s'"
  using a
proof (cases rule: alloc_cases)
  case 1
  then show ?thesis using becomes_refl [OF r] by simp
next
  case 2
  then show ?thesis using empty_becomes [OF r, of s'] by (simp add: table_def)
next
  case 3
  then show ?thesis using empty_becomes [OF r, of s'] by (simp add: table_def)
qed

lemma validate_becomes:
  assumes r: "fs_ready drive B s" and a: "eynfs_block_cache_validate_or_disable s = (good, s')"
  shows "becomes drive B (view drive s) s s' \<and> good = eynfs_block_cache_is_enabled s' \<and> (good \<longrightarrow> s' = s)"
proof (cases good)
  case True
  then have "s' = s \<and> eynfs_block_cache_is_enabled s"
    using a by (auto simp: eynfs_block_cache_validate_or_disable_def Let_def split: if_splits)
  then show ?thesis using True becomes_refl [OF r] by simp
next
  case False
  have s': "s' = s \<and> \<not> eynfs_block_cache_is_enabled s \<or> s' = eynfs_block_cache_disable_permanently s"
    using a False by (auto simp: eynfs_block_cache_validate_or_disable_def Let_def split: if_splits)
  have inv: "\<forall>i < length (table s). \<not> ce_valid (table s ! i)"
    using r a False by (auto simp: fs_ready_def table_ok_def)
  show ?thesis
  proof (cases "s' = s")
    case True
    then show ?thesis using s' False becomes_refl [OF r] disable_keeps [of s] by metis
  next
    case n: False
    then have "s' = eynfs_block_cache_disable_permanently s" using s' by blast
    then show ?thesis using empty_becomes [OF r _ _ inv, of s'] False disable_keeps [of s] by (simp add: table_def)
  qed
qed

section \<open>Steps on one block\<close>

lemma view_cached: "content (table s) b = Some d \<Longrightarrow> view drive s b = d"
  by (simp add: view_def)

lemma view_uncached: "content (table s) b = None \<Longrightarrow> view drive s b = sector s drive (eynfs_block_to_lba b)"
  by (simp add: view_def)

lemma view_cong: "(\<And>c. content (table s') c = content (table s) c) \<Longrightarrow> sector s' = sector s \<Longrightarrow> view drive s' c = view drive s c"
  by (simp add: view_def cong: option.case_cong)

lemma becomes_view: "becomes drive B f s s' \<Longrightarrow> c \<in> B \<Longrightarrow> view drive s' c = f c"
  by (simp add: becomes_def)

text \<open>A sector write of a block that is not cached, or that is cached with the bytes written.\<close>

lemma write_becomes:
  assumes r: "fs_ready drive B s" and b: "b \<in> B"
    and c: "content (table s) b = None \<or> content (table s) b = Some d"
  shows "\<exists>s'. ata_write_sector drive (eynfs_block_to_lba b) d s = (Some (), s')
     \<and> becomes drive B ((view drive s)(b := d)) s s' \<and> same_table s s'
     \<and> (\<forall>c \<in> B. sector s' drive (eynfs_block_to_lba c) = (if c = b then d else sector s drive (eynfs_block_to_lba c)))"
proof -
  have h: "healthy drive (eynfs_block_to_lba ` B) s" using r by (simp add: fs_ready_def)
  obtain s' where w: "ata_write_sector drive (eynfs_block_to_lba b) d s = (Some (), s')"
    and h': "healthy drive (eynfs_block_to_lba ` B) s'"
    and sec: "\<forall>c \<in> B. sector s' drive (eynfs_block_to_lba c) = (if c = b then d else sector s drive (eynfs_block_to_lba c))"
    and den: "\<forall>caps. ctx_denies caps (dk_kc s') = ctx_denies caps (dk_kc s)"
    using ata_write_healthy [OF h, of "eynfs_block_to_lba b" d] b by auto
  have f: "same_table s s'" "fs_frame s s'"
    by (subst ata_write_frame [OF w], simp add: same_table_def)
      (subst ata_write_frame [OF w], simp add: fs_frame_def den)
  note t = same_table_table [OF f(1)] same_table_enabled [OF f(1)] same_table_validate [OF f(1)]
  have ok: "table_ok drive B s" using r by (simp add: fs_ready_def)
  have u: "uniq (table s)" using ok by (simp add: table_ok_def)
  have clean: "ce_data (table s ! i) = sector s' drive (eynfs_block_to_lba (ce_block_num (table s ! i)))"
    if i: "i < length (table s)" "ce_valid (table s ! i)" "\<not> ce_dirty (table s ! i)" for i
  proof (cases "ce_block_num (table s ! i) = b")
    case True
    then have "content (table s) b = Some (ce_data (table s ! i))" using content_at [OF u i(1,2)] by simp
    then show ?thesis using c True sec b by simp
  next
    case False
    then show ?thesis using ok i sec by (simp add: table_ok_def)
  qed
  have "table_ok drive B s'" using ok clean f(1) by (simp add: table_ok_def t) (simp add: same_table_def)
  then have "fs_ready drive B s'" using r h' den by (simp add: fs_ready_def)
  moreover have "view drive s' c = ((view drive s)(b := d)) c" if "c \<in> B" for c
    using that sec assms(3) by (auto simp: view_def t split: option.split)
  ultimately show ?thesis using w f sec by (auto simp: becomes_def)
qed

lemma counters_become:
  assumes r: "fs_ready drive B s"
  shows "becomes drive B (view drive s) s (s\<lparr>cache_misses := m\<rparr>)" "becomes drive B (view drive s) s (s\<lparr>cache_hits := m\<rparr>)"
  by (rule same_table_becomes [OF _ _ _ r], simp_all add: same_table_def same_disk_def fs_frame_def)+

lemma validate_entries:
  assumes "map ce_data_ptr (cache_entries s') = map ce_data_ptr (cache_entries s)"
    and "\<And>i. i < unat (g_block_cache_capacity s) \<Longrightarrow> i < length (cache_entries s)"
    and "eynfs_block_cache_is_enabled s' = eynfs_block_cache_is_enabled s" "g_block_cache s' = g_block_cache s"
     "g_block_cache_data s' = g_block_cache_data s" "g_block_cache_capacity s' = g_block_cache_capacity s"
     "phys_total_frames s' = phys_total_frames s"
  shows "fst (eynfs_block_cache_validate_or_disable s') = fst (eynfs_block_cache_validate_or_disable s)"
proof -
  have "length (cache_entries s') = length (cache_entries s)" using arg_cong [OF assms(1), of length] by simp
  then have "ce_data_ptr (cache_entries s' ! i) = ce_data_ptr (cache_entries s ! i)"
    if "i < unat (g_block_cache_capacity s)" for i
    using arg_cong [OF assms(1), of "\<lambda>xs. xs ! i"] assms(2) [OF that] by simp
  then have "first_idx (\<lambda>i. ce_data_ptr (cache_entries s' ! i) \<noteq> g_block_cache_data s + of_nat i * 512) (unat (g_block_cache_capacity s))
     = first_idx (\<lambda>i. ce_data_ptr (cache_entries s ! i) \<noteq> g_block_cache_data s + of_nat i * 512) (unat (g_block_cache_capacity s))"
    by (intro first_idx_cong) simp_all
  then show ?thesis by (simp add: eynfs_block_cache_validate_or_disable_def Let_def assms)
qed

text \<open>Overwriting the entry \<open>v\<close>: what it held must be on the disk, unless it was the same block.\<close>

lemma touch_becomes:
  assumes r: "fs_ready drive B s" and g: "fst (eynfs_block_cache_validate_or_disable s)"
    and en: "eynfs_block_cache_is_enabled s" and v: "v < length (cache_entries s)" and b: "b \<in> B"
    and f: "ce_data_ptr (f (cache_entries s ! v)) = ce_data_ptr (cache_entries s ! v)"
      "ce_valid (f (cache_entries s ! v))" "ce_block_num (f (cache_entries s ! v)) = b"
      "ce_data (f (cache_entries s ! v)) = d"
    and new: "\<forall>i < length (cache_entries s). i \<noteq> v \<longrightarrow> \<not> (ce_valid (cache_entries s ! i) \<and> ce_block_num (cache_entries s ! i) = b)"
    and clean: "\<not> ce_dirty (f (cache_entries s ! v)) \<longrightarrow> d = sector s drive (eynfs_block_to_lba b)"
    and gone: "ce_valid (cache_entries s ! v) \<and> ce_block_num (cache_entries s ! v) \<noteq> b \<longrightarrow>
      ce_data (cache_entries s ! v) = sector s drive (eynfs_block_to_lba (ce_block_num (cache_entries s ! v)))"
  shows "becomes drive B ((view drive s)(b := d)) s (touch_entry v f s)"
proof -
  let ?s = "touch_entry v f s" and ?es = "cache_entries s"
  let ?e = "(f (?es ! v))\<lparr>ce_last_use := g_block_cache_use_clock s\<rparr>"
  have t: "table s = ?es" using en by (simp add: table_def)
  have en': "eynfs_block_cache_is_enabled ?s" using en by (simp add: eynfs_block_cache_is_enabled_def touch_entry_def split: if_splits)
  have es': "cache_entries ?s = ?es[v := ?e]" by (simp add: touch_entry_def)
  have t': "table ?s = ?es[v := ?e]" using en' by (simp add: table_def es')
  have ok: "table_ok drive B s" using r by (simp add: fs_ready_def)
  have u: "uniq ?es" using ok by (simp add: table_ok_def t)
  have len: "length ?es = unat (g_block_cache_capacity s)" using ok en by (simp add: table_ok_def)
  have sd: "same_disk s ?s" and fr: "fs_frame s ?s" by (simp_all add: touch_entry_def same_disk_def fs_frame_def)
  note sec = same_disk_sector [OF sd]
  have g': "fst (eynfs_block_cache_validate_or_disable ?s)"
    using g by (subst validate_entries [of _ s])
      (use en en' v f(1) len in \<open>simp_all add: es' map_update list_update_same_conv, simp_all add: touch_entry_def\<close>)
  have cu: "content (table ?s) c = (if c = b then Some d
      else if ce_valid (?es ! v) \<and> ce_block_num (?es ! v) = c then None else content ?es c)" for c
    using content_update [OF u v _ _ new, of ?e c] f by (simp add: t')
  have "table_ok drive B ?s" unfolding table_ok_def
  proof (intro conjI allI impI)
    show "uniq (table ?s)" using uniq_update [OF u, of v ?e] new f(3) by (simp add: t')
    show "length (cache_entries ?s) = unat (g_block_cache_capacity ?s)" using len by (simp add: touch_entry_def)
  next
    fix i assume i: "i < length (table ?s)" "ce_valid (table ?s ! i)"
    show "fst (eynfs_block_cache_validate_or_disable ?s)" by (rule g')
    show "ce_block_num (table ?s ! i) \<in> B"
      using ok i b f(3) by (cases "i = v") (auto simp: t' table_ok_def t)
    show "ce_data (table ?s ! i) = sector ?s drive (eynfs_block_to_lba (ce_block_num (table ?s ! i)))"
      if "\<not> ce_dirty (table ?s ! i)"
      using ok i b f clean that by (cases "i = v") (auto simp: t' table_ok_def t sec)
  qed
  then have "fs_ready drive B ?s" using r fr by (simp add: fs_ready_def same_disk_healthy [OF sd] fs_frame_def)
  moreover have "view drive ?s c = ((view drive s)(b := d)) c" for c
  proof (cases "c = b")
    case True
    then show ?thesis using cu by (simp add: view_def)
  next
    case False
    then show ?thesis using cu content_at [OF u v, of c] gone by (simp add: view_def t sec split: option.split)
  qed
  ultimately show ?thesis using fr by (simp add: becomes_def)
qed

section \<open>The victim\<close>

text \<open>\<open>best\<close> is the entry with the earliest use among those of \<open>xs\<close> before \<open>n\<close> that \<open>P\<close> selects.\<close>

definition best_of :: "(cache_entry \<Rightarrow> bool) \<Rightarrow> cache_entry list \<Rightarrow> nat \<Rightarrow> (nat \<times> u32) option \<Rightarrow> bool" where
  "best_of P xs n best \<longleftrightarrow>
     (case best of None \<Rightarrow> \<forall>j < n. \<not> P (xs ! j)
      | Some (k, u) \<Rightarrow> k < n \<and> P (xs ! k) \<and> u = ce_last_use (xs ! k) \<and> (\<forall>j < n. P (xs ! j) \<longrightarrow> u \<le> ce_last_use (xs ! j)))"

lemma best_of_0 [simp]: "best_of P xs 0 None"
  by (simp add: best_of_def)

lemma best_of_skip: "best_of P xs n best \<Longrightarrow> \<not> P (xs ! n) \<Longrightarrow> best_of P xs (Suc n) best"
  by (auto simp: best_of_def less_Suc_eq split: option.splits)

lemma best_of_take:
  "best_of P xs n best \<Longrightarrow> P (xs ! n) \<Longrightarrow>
   best_of P xs (Suc n) (case best of None \<Rightarrow> Some (n, ce_last_use (xs ! n))
     | Some (k, u) \<Rightarrow> if ce_last_use (xs ! n) < u then Some (n, ce_last_use (xs ! n)) else Some (k, u))"
  by (auto simp: best_of_def less_Suc_eq split: option.splits)

text \<open>An unused entry if there is one, otherwise the least recently used clean entry, otherwise the
  least recently used dirty one, which has to be written back.\<close>

definition victim_of :: "cache_entry list \<Rightarrow> nat \<Rightarrow> bool \<Rightarrow> bool" where
  "victim_of xs v wb \<longleftrightarrow> v < length xs \<and>
     (if \<forall>e \<in> set xs. ce_valid e then
        ce_dirty (xs ! v) = wb \<and> (wb \<longrightarrow> (\<forall>e \<in> set xs. ce_dirty e))
        \<and> (\<forall>e \<in> set xs. ce_dirty e = wb \<longrightarrow> ce_last_use (xs ! v) \<le> ce_last_use e)
      else \<not> ce_valid (xs ! v) \<and> \<not> wb \<and> (\<forall>j < v. ce_valid (xs ! j)))"

lemma victim_scan_end:
  assumes "victim_scan n [] clean dirty = Some (v, wb)" "n = length xs" "\<forall>j < n. ce_valid (xs ! j)"
    "best_of (\<lambda>e. \<not> ce_dirty e) xs n clean" "best_of ce_dirty xs n dirty"
  shows "victim_of xs v wb"
  using assms by (auto simp: victim_of_def best_of_def all_set_conv_all_nth split: option.splits)

lemma victim_scan:
  "victim_scan n es clean dirty = Some (v, wb) \<Longrightarrow> es = drop n xs \<Longrightarrow> n \<le> length xs \<Longrightarrow>
   \<forall>j < n. ce_valid (xs ! j) \<Longrightarrow> best_of (\<lambda>e. \<not> ce_dirty e) xs n clean \<Longrightarrow> best_of ce_dirty xs n dirty \<Longrightarrow> victim_of xs v wb"
proof (induction es arbitrary: n clean dirty)
  case Nil
  then have "n = length xs" by simp
  with Nil show ?case using victim_scan_end by blast
next
  case (Cons e es)
  have n: "n < length xs" "xs ! n = e" "es = drop (Suc n) xs"
    using Cons.prems(2,3) by (metis drop_eq_Nil le_neq_implies_less list.distinct(1),
      metis hd_drop_conv_nth drop_eq_Nil list.distinct(1) list.sel(1) not_le, metis drop_Suc list.sel(3) tl_drop)
  show ?case
  proof (cases "ce_valid e")
    case False
    then have "v = n" "\<not> wb" using Cons.prems(1) by auto
    then show ?thesis using False n Cons.prems(4) by (auto simp: victim_of_def)
  next
    case val: True
    then have pre: "\<forall>j < Suc n. ce_valid (xs ! j)" using Cons.prems(4) n by (simp add: less_Suc_eq)
    show ?thesis
    proof (cases "ce_dirty e")
      case True
      show ?thesis
        by (rule Cons.IH [OF _ n(3) _ pre best_of_skip [OF Cons.prems(5)] best_of_take [OF Cons.prems(6), unfolded n(2)]])
          (use True val n Cons.prems(1) in simp_all)
    next
      case False
      show ?thesis
        by (rule Cons.IH [OF _ n(3) _ pre best_of_take [OF Cons.prems(5), unfolded n(2)] best_of_skip [OF Cons.prems(6)]])
          (use False val n Cons.prems(1) in simp_all)
    qed
  qed
qed

lemma ready_table:
  assumes "fs_ready drive B s" "eynfs_block_cache_is_enabled s"
  shows "table s = cache_entries s" "length (cache_entries s) = unat (g_block_cache_capacity s)"
  using assms by (simp_all add: fs_ready_def table_ok_def table_def)

lemma choose_victim:
  assumes "fs_ready drive B s" and "eynfs_block_cache_choose_victim_index s = Some (v, wb)"
  shows "victim_of (cache_entries s) v wb"
proof -
  have en: "eynfs_block_cache_is_enabled s" using assms(2) by (simp add: eynfs_block_cache_choose_victim_index_def split: if_splits)
  then show ?thesis using assms(2) ready_table [OF assms(1) en]
    by (intro victim_scan [of 0 "cache_entries s" None None]) (simp_all add: eynfs_block_cache_choose_victim_index_def)
qed

lemma lookup_content:
  assumes "fs_ready drive B s" "eynfs_block_cache_is_enabled s"
  shows "content (table s) b = map_option (\<lambda>i. ce_data (cache_entries s ! i)) (cache_lookup b s)"
  using ready_table [OF assms] by (simp add: content_def cache_lookup_def)

lemma evict_install:
  assumes r: "fs_ready drive B s" and en: "eynfs_block_cache_is_enabled s" and g: "fst (eynfs_block_cache_validate_or_disable s)"
    and b: "b \<in> B" and no: "content (table s) b = None" and d: "d = sector s drive (eynfs_block_to_lba b)"
    and vic: "victim_of (cache_entries s) v wb"
    and s1: "s1 = (if wb then snd (ata_write_sector drive (eynfs_block_to_lba (ce_block_num (cache_entries s ! v))) (ce_data (cache_entries s ! v)) s) else s)"
  shows "becomes drive B (view drive s) s (touch_entry v (install b d) s1)"
proof -
  let ?e = "cache_entries s ! v"
  note t = ready_table [OF r en]
  have v: "v < length (cache_entries s)" using vic by (simp add: victim_of_def)
  have ok: "table_ok drive B s" using r by (simp add: fs_ready_def)
  have wbv: "wb \<longrightarrow> ce_valid ?e" using vic v by (auto simp: victim_of_def split: if_splits)
  have w: "becomes drive B (view drive s) s s1 \<and> same_table s s1 \<and>
      (ce_valid ?e \<longrightarrow> ce_data ?e = sector s1 drive (eynfs_block_to_lba (ce_block_num ?e)))"
  proof (cases wb)
    case False
    then have "ce_valid ?e \<longrightarrow> \<not> ce_dirty ?e" using vic by (auto simp: victim_of_def split: if_splits)
    then show ?thesis using False s1 ok t v becomes_refl [OF r] by (simp add: table_ok_def same_table_def)
  next
    case True
    then have val: "ce_valid ?e" using wbv by simp
    have c: "content (table s) (ce_block_num ?e) = Some (ce_data ?e)"
      using content_at [of "table s" v] ok v val t by (simp add: table_ok_def)
    have mem: "ce_block_num ?e \<in> B" using ok v val t by (simp add: table_ok_def)
    have "(view drive s)(ce_block_num ?e := ce_data ?e) = view drive s" using c by (auto simp: view_cached)
    then show ?thesis using write_becomes [OF r mem, of "ce_data ?e"] c mem True s1 by auto
  qed
  then have bec: "becomes drive B (view drive s) s s1" and st: "same_table s s1"
    and gone: "ce_valid ?e \<longrightarrow> ce_data ?e = sector s1 drive (eynfs_block_to_lba (ce_block_num ?e))" by blast+
  have es: "cache_entries s1 = cache_entries s" using st by (simp add: same_table_def)
  have no1: "content (table s1) b = None" using no same_table_table [OF st] by simp
  have d1: "d = sector s1 drive (eynfs_block_to_lba b)" using becomes_view [OF bec b] view_uncached [OF no] view_uncached [OF no1] d by simp
  have "becomes drive B ((view drive s1)(b := d)) s1 (touch_entry v (install b d) s1)"
    using no gone v d1
    by (intro touch_becomes [OF becomes_ready [OF bec] _ _ _ b])
      (simp_all add: es install_def same_table_enabled [OF st] same_table_validate [OF st] en g content_None t)
  moreover have "(view drive s1)(b := d) = view drive s1" using no1 d1 by (auto simp: view_def)
  ultimately show ?thesis using becomes_trans [OF bec] by simp
qed

section \<open>Reading and writing a block\<close>

text \<open>The two operations begin with the same steps: the check, the table's allocation, its validation.\<close>

lemma prepare_becomes:
  assumes r: "fs_ready drive B s" and cap: "\<not> ctx_denies cap (dk_kc s)"
  shows "\<exists>s1 ready s2 good s3. eynfs_ctx_check cap cost s = (Some (), s1)
     \<and> eynfs_block_cache_alloc_if_needed s1 = (ready, s2) \<and> becomes drive B (view drive s) s s2
     \<and> eynfs_block_cache_validate_or_disable s2 = (good, s3) \<and> becomes drive B (view drive s) s s3
     \<and> (good \<longrightarrow> eynfs_block_cache_is_enabled s3 \<and> fst (eynfs_block_cache_validate_or_disable s3))
     \<and> (\<not> good \<longrightarrow> \<not> eynfs_block_cache_is_enabled s3) \<and> (\<not> ready \<longrightarrow> \<not> eynfs_block_cache_is_enabled s2)"
proof -
  obtain s1 where s1: "eynfs_ctx_check cap cost s = (Some (), s1)" "becomes drive B (view drive s) s s1"
    using ctx_check_becomes [OF r cap] by blast
  obtain ready s2 where s2: "eynfs_block_cache_alloc_if_needed s1 = (ready, s2)" by fastforce
  have b2: "becomes drive B (view drive s) s s2" "ready = eynfs_block_cache_is_enabled s2"
    using alloc_becomes [OF becomes_ready [OF s1(2)] s2] becomes_trans [OF s1(2)] by blast+
  obtain good s3 where s3: "eynfs_block_cache_validate_or_disable s2 = (good, s3)" by fastforce
  have b3: "becomes drive B (view drive s) s s3" "good = eynfs_block_cache_is_enabled s3" "good \<longrightarrow> s3 = s2"
    using validate_becomes [OF becomes_ready [OF b2(1)] s3] becomes_trans [OF b2(1)] by blast+
  show ?thesis using s1(1) s2 b2 s3 b3 by force
qed

lemma uncached_read:
  assumes bec: "becomes drive B (view drive s) s s1" and b: "b \<in> B" and no: "content (table s1) b = None"
  shows "\<exists>s2. ata_read_sector drive (eynfs_block_to_lba b) s1 = (Some (view drive s b), s2)
    \<and> becomes drive B (view drive s) s s2 \<and> same_table s1 s2 \<and> sector s2 drive (eynfs_block_to_lba b) = view drive s b"
proof -
  have "view drive s b = sector s1 drive (eynfs_block_to_lba b)" using becomes_view [OF bec b] view_uncached [OF no] by simp
  then show ?thesis using read_becomes [OF becomes_ready [OF bec] b] becomes_trans [OF bec] by force
qed

lemma disabled_content: "\<not> eynfs_block_cache_is_enabled s \<Longrightarrow> content (table s) b = None"
  by (simp add: table_def content_None)

lemma get_block:
  assumes r: "fs_ready drive B s" and b: "b \<in> B"
  shows "\<exists>s'. eynfs_cache_get_block drive b s = (Some (view drive s b), s') \<and> becomes drive B (view drive s) s s'"
proof -
  have cap: "\<not> ctx_denies CAP_READ_FS (dk_kc s)" "\<not> ctx_denies CAP_WRITE_FS (dk_kc s)" using r by (simp_all add: fs_ready_def)
  obtain s1 ready s2 good s3 where p1: "eynfs_ctx_check CAP_READ_FS SCHED_COST_FS s = (Some (), s1)"
    and p2: "eynfs_block_cache_alloc_if_needed s1 = (ready, s2)" and b2: "becomes drive B (view drive s) s s2"
    and p3: "eynfs_block_cache_validate_or_disable s2 = (good, s3)" and b3: "becomes drive B (view drive s) s s3"
    and g: "good \<longrightarrow> eynfs_block_cache_is_enabled s3 \<and> fst (eynfs_block_cache_validate_or_disable s3)"
      "\<not> good \<longrightarrow> \<not> eynfs_block_cache_is_enabled s3" "\<not> ready \<longrightarrow> \<not> eynfs_block_cache_is_enabled s2"
    using prepare_becomes [OF r cap(1), of SCHED_COST_FS] by (elim exE conjE) (rule that)
  note p = p1 p2 p3
  note counters = becomes_trans [OF _ counters_become(1)] becomes_trans [OF _ counters_become(2)]
  show ?thesis
  proof (cases "ready \<and> good")
    case False
    let ?s = "if ready then s3 else s2"
    have off: "\<not> eynfs_block_cache_is_enabled ?s" and bs: "becomes drive B (view drive s) s ?s" using False g b2 b3 by auto
    obtain s4 where rd: "ata_read_sector drive (eynfs_block_to_lba b) ?s = (Some (view drive s b), s4)"
        and b4: "becomes drive B (view drive s) s s4"
      using uncached_read [OF bs b disabled_content [OF off]] by blast
    show ?thesis using False rd counters(1) [OF b4 becomes_ready [OF b4]]
      by (cases ready) (simp_all add: eynfs_cache_get_block_def p)
  next
    case True
    then have en: "eynfs_block_cache_is_enabled s3" and val: "fst (eynfs_block_cache_validate_or_disable s3)" using g by auto
    have r3: "fs_ready drive B s3" using becomes_ready [OF b3] .
    note t3 = ready_table [OF r3 en]
    show ?thesis
    proof (cases "cache_lookup b s3")
      case (Some i)
      then have i: "i < length (cache_entries s3)" "ce_valid (cache_entries s3 ! i)" "ce_block_num (cache_entries s3 ! i) = b"
        using t3 by (auto simp: cache_lookup_def first_idx_Some)
      have c: "content (table s3) b = Some (ce_data (cache_entries s3 ! i))" using lookup_content [OF r3 en] Some by simp
      then have d: "ce_data (cache_entries s3 ! i) = view drive s b" using view_cached becomes_view [OF b3 b] by metis
      have "becomes drive B ((view drive s3)(b := view drive s b)) s3 (touch_entry i id s3)"
        using r3 i t3 d by (intro touch_becomes [OF r3 val en i(1) b]) (auto simp: fs_ready_def table_ok_def uniq_def)
      moreover have "(view drive s3)(b := view drive s b) = view drive s3" using c d by (auto simp: view_cached)
      ultimately have bt: "becomes drive B (view drive s) s (touch_entry i id s3)" using becomes_trans [OF b3] by simp
      show ?thesis using Some True d bt counters(2) [OF bt becomes_ready [OF bt]] by (simp add: eynfs_cache_get_block_def p)
    next
      case None
      have no: "content (table s3) b = None" using lookup_content [OF r3 en] None by simp
      obtain s4 where rd: "ata_read_sector drive (eynfs_block_to_lba b) s3 = (Some (view drive s b), s4)"
        and b4: "becomes drive B (view drive s) s s4" and st: "same_table s3 s4"
        and sec: "sector s4 drive (eynfs_block_to_lba b) = view drive s b"
        using uncached_read [OF b3 b no] by blast
      note r4 = becomes_ready [OF b4]
      have en4: "eynfs_block_cache_is_enabled s4" and val4: "fst (eynfs_block_cache_validate_or_disable s4)"
        and no4: "content (table s4) b = None"
        using en val no same_table_enabled [OF st] same_table_validate [OF st] same_table_table [OF st] by simp_all
      have cap4: "\<not> ctx_denies CAP_WRITE_FS (dk_kc s4)" using r4 by (simp add: fs_ready_def)
      show ?thesis
      proof (cases "eynfs_block_cache_choose_victim_index s4")
        case vn: None
        then show ?thesis using None True rd counters(1) [OF b4 r4] by (simp add: eynfs_cache_get_block_def p)
      next
        case (Some vw)
        then obtain v wb where vw: "eynfs_block_cache_choose_victim_index s4 = Some (v, wb)" by (cases vw) simp
        obtain s5 where ck: "eynfs_ctx_check CAP_WRITE_FS SCHED_COST_FS s4 = (Some (), s5)"
          and b5: "becomes drive B (view drive s4) s4 s5" and st5: "same_table s4 s5"
          using ctx_check_becomes [OF r4 cap4] by blast
        have vic: "victim_of (cache_entries s4) v wb" using choose_victim [OF r4 vw] .
        have ces: "cache_entries s5 = cache_entries s4" using st5 by (simp add: same_table_def)
        let ?w = "\<lambda>s. snd (ata_write_sector drive (eynfs_block_to_lba (ce_block_num (cache_entries s ! v))) (ce_data (cache_entries s ! v)) s)"
        have "becomes drive B (view drive s) s (touch_entry v (install b (view drive s b)) (if wb then ?w s5 else s4))"
        proof (cases wb)
          case False
          then show ?thesis using becomes_trans [OF b4 evict_install [OF r4 en4 val4 b no4 sec [symmetric] vic refl]] by simp
        next
          case wb: True
          have bs5: "becomes drive B (view drive s) s s5" by (rule becomes_trans [OF b4 b5])
          have no5: "content (table s5) b = None" using no4 same_table_table [OF st5] by simp
          have sec5: "view drive s b = sector s5 drive (eynfs_block_to_lba b)"
            using becomes_view [OF bs5 b] view_uncached [OF no5] by simp
          show ?thesis
            using becomes_trans [OF bs5 evict_install [OF becomes_ready [OF bs5] _ _ b no5 sec5, of v wb, OF _ _ _ refl]]
              en4 val4 same_table_enabled [OF st5] same_table_validate [OF st5] vic ces wb by simp
        qed
        note bt = this
        show ?thesis using None True rd vw ck counters(1) [OF bt becomes_ready [OF bt]]
          by (cases wb) (simp_all add: eynfs_cache_get_block_def p Let_def)
      qed
    qed
  qed
qed

lemma write_block:
  assumes r: "fs_ready drive B s" and b: "b \<in> B"
  shows "\<exists>s'. eynfs_cache_write_block drive b d s = (Some (), s') \<and> becomes drive B ((view drive s)(b := d)) s s'"
proof -
  have cap: "\<not> ctx_denies CAP_WRITE_FS (dk_kc s)" using r by (simp add: fs_ready_def)
  obtain s1 ready s2 good s3 where p1: "eynfs_ctx_check CAP_WRITE_FS SCHED_COST_FS s = (Some (), s1)"
    and p2: "eynfs_block_cache_alloc_if_needed s1 = (ready, s2)" and b2: "becomes drive B (view drive s) s s2"
    and p3: "eynfs_block_cache_validate_or_disable s2 = (good, s3)" and b3: "becomes drive B (view drive s) s s3"
    and g: "good \<longrightarrow> eynfs_block_cache_is_enabled s3 \<and> fst (eynfs_block_cache_validate_or_disable s3)"
      "\<not> good \<longrightarrow> \<not> eynfs_block_cache_is_enabled s3" "\<not> ready \<longrightarrow> \<not> eynfs_block_cache_is_enabled s2"
    using prepare_becomes [OF r cap, of SCHED_COST_FS] by (elim exE conjE) (rule that)
  note p = p1 p2 p3
  show ?thesis
  proof (cases "ready \<and> good")
    case False
    let ?s = "if ready then s3 else s2"
    have off: "\<not> eynfs_block_cache_is_enabled ?s" and bs: "becomes drive B (view drive s) s ?s" using False g b2 b3 by auto
    show ?thesis using False write_becomes [OF becomes_ready [OF bs] b, of d] disabled_content [OF off] becomes_then [OF bs]
      by (cases ready) (auto simp: eynfs_cache_write_block_def p)
  next
    case True
    then have en: "eynfs_block_cache_is_enabled s3" and val: "fst (eynfs_block_cache_validate_or_disable s3)" using g by auto
    note r3 = becomes_ready [OF b3]
    note t3 = ready_table [OF r3 en]
    show ?thesis
    proof (cases "cache_lookup b s3")
      case (Some i)
      then have i: "i < length (cache_entries s3)" "ce_valid (cache_entries s3 ! i)" "ce_block_num (cache_entries s3 ! i) = b"
        using t3 by (auto simp: cache_lookup_def first_idx_Some)
      have "becomes drive B ((view drive s3)(b := d)) s3 (touch_entry i (\<lambda>e. e\<lparr>ce_data := d, ce_dirty := True\<rparr>) s3)"
        using r3 i t3 by (intro touch_becomes [OF r3 val en i(1) b]) (auto simp: fs_ready_def table_ok_def uniq_def)
      then show ?thesis using Some True becomes_then [OF b3] by (simp add: eynfs_cache_write_block_def p)
    next
      case None
      have no: "content (table s3) b = None" using lookup_content [OF r3 en] None by simp
      obtain s4 where wr: "ata_write_sector drive (eynfs_block_to_lba b) d s3 = (Some (), s4)"
        and b4: "becomes drive B ((view drive s3)(b := d)) s3 s4" and st: "same_table s3 s4"
        and sec: "\<forall>c \<in> B. sector s4 drive (eynfs_block_to_lba c) = (if c = b then d else sector s3 drive (eynfs_block_to_lba c))"
        using write_becomes [OF r3 b, of d] no by auto
      note r4 = becomes_ready [OF b4] and bs4 = becomes_then [OF b3 b4]
      have en4: "eynfs_block_cache_is_enabled s4" and val4: "fst (eynfs_block_cache_validate_or_disable s4)"
        and no4: "content (table s4) b = None"
        using en val no same_table_enabled [OF st] same_table_validate [OF st] same_table_table [OF st] by simp_all
      have d4: "d = sector s4 drive (eynfs_block_to_lba b)" using sec b by simp
      show ?thesis
      proof (cases "eynfs_block_cache_choose_victim_index s4")
        case vn: None
        then show ?thesis using None True wr bs4 by (simp add: eynfs_cache_write_block_def p)
      next
        case (Some vw)
        then obtain v wb where vw: "eynfs_block_cache_choose_victim_index s4 = Some (v, wb)" by (cases vw) simp
        then show ?thesis using None True wr
            becomes_after [OF bs4 evict_install [OF r4 en4 val4 b no4 d4 choose_victim [OF r4 vw] refl]]
          by (simp add: eynfs_cache_write_block_def p)
      qed
    qed
  qed
qed

section \<open>Flushing\<close>

text \<open>Marking an entry clean whose bytes are on the disk.\<close>

lemma clean_becomes:
  assumes r: "fs_ready drive B s" and en: "eynfs_block_cache_is_enabled s" and i: "i < length (cache_entries s)"
    and d: "ce_data (cache_entries s ! i) = sector s drive (eynfs_block_to_lba (ce_block_num (cache_entries s ! i)))"
  shows "becomes drive B (view drive s) s (s\<lparr>cache_entries := (cache_entries s)[i := (cache_entries s ! i)\<lparr>ce_dirty := False\<rparr>]\<rparr>)"
    (is "becomes _ _ _ _ ?s")
proof -
  let ?es = "cache_entries s" and ?e = "(cache_entries s ! i)\<lparr>ce_dirty := False\<rparr>"
  have en': "eynfs_block_cache_is_enabled ?s" using en by (simp add: eynfs_block_cache_is_enabled_def split: if_splits)
  have t: "table s = ?es" "table ?s = ?es[i := ?e]" using en en' by (simp_all add: table_def)
  have nth: "ce_valid (?es[i := ?e] ! j) = ce_valid (?es ! j)" "ce_block_num (?es[i := ?e] ! j) = ce_block_num (?es ! j)"
    "ce_data (?es[i := ?e] ! j) = ce_data (?es ! j)" for j
    by (cases "j = i"; use i in simp)+
  have ok: "table_ok drive B s" using r by (simp add: fs_ready_def)
  have sd: "same_disk s ?s" and fr: "fs_frame s ?s" by (simp_all add: same_disk_def fs_frame_def)
  have len: "length ?es = unat (g_block_cache_capacity s)" using ok en by (simp add: table_ok_def)
  have v: "fst (eynfs_block_cache_validate_or_disable ?s) = fst (eynfs_block_cache_validate_or_disable s)"
    by (rule validate_entries) (use i en en' len in \<open>simp_all add: map_update list_update_same_conv\<close>)
  have dirty: "ce_dirty (?es[i := ?e] ! j) = (j \<noteq> i \<and> ce_dirty (?es ! j))" for j
    by (cases "j = i") (use i in simp_all)
  have "table_ok drive B ?s"
    using ok en en' v d by (auto simp: table_ok_def t uniq_def nth dirty same_disk_sector [OF sd])
  then have "fs_ready drive B ?s" using r by (simp add: fs_ready_def same_disk_healthy [OF sd])
  moreover have "content (table ?s) c = content (table s) c" for c
    by (simp add: content_def t nth)
  ultimately show ?thesis using fr view_cong [of ?s s] by (simp add: becomes_def same_disk_sector [OF sd])
qed

text \<open>After the loop has passed the entries below \<open>i\<close>, none of these is dirty.\<close>

lemma flush_from:
  "fs_ready drive B s \<Longrightarrow> eynfs_block_cache_is_enabled s \<Longrightarrow> i + n = length (cache_entries s) \<Longrightarrow>
   \<forall>j < i. ce_valid (cache_entries s ! j) \<longrightarrow> \<not> ce_dirty (cache_entries s ! j) \<Longrightarrow>
   becomes drive B (view drive s) s (flush_from drive n i s) \<and> eynfs_block_cache_is_enabled (flush_from drive n i s)
   \<and> (\<forall>e \<in> set (cache_entries (flush_from drive n i s)). ce_valid e \<longrightarrow> \<not> ce_dirty e)"
proof (induction n arbitrary: i s)
  case 0
  then show ?case using becomes_refl by (auto simp: all_set_conv_all_nth)
next
  case (Suc n)
  let ?e = "cache_entries s ! i"
  note t = ready_table [OF Suc.prems(1,2)]
  have i: "i < length (cache_entries s)" using Suc.prems(3) by simp
  show ?case
  proof (cases "ce_valid ?e \<and> ce_dirty ?e")
    case False
    then have "\<forall>j < Suc i. ce_valid (cache_entries s ! j) \<longrightarrow> \<not> ce_dirty (cache_entries s ! j)"
      using Suc.prems(4) by (simp add: less_Suc_eq)
    moreover have "flush_from drive (Suc n) i s = flush_from drive n (Suc i) s" using False by (auto simp: Let_def)
    ultimately show ?thesis using Suc.IH [OF Suc.prems(1,2), of "Suc i"] Suc.prems(3) by simp
  next
    case True
    have ok: "table_ok drive B s" using Suc.prems(1) by (simp add: fs_ready_def)
    have c: "content (table s) (ce_block_num ?e) = Some (ce_data ?e)" and b: "ce_block_num ?e \<in> B"
      using content_at [of "table s" i] ok True t i by (simp_all add: table_ok_def)
    have up: "(view drive s)(ce_block_num ?e := ce_data ?e) = view drive s" using c by (auto simp: view_cached)
    let ?s1 = "snd (ata_write_sector drive (eynfs_block_to_lba (ce_block_num ?e)) (ce_data ?e) s)"
    have w: "becomes drive B (view drive s) s ?s1" "same_table s ?s1"
      "sector ?s1 drive (eynfs_block_to_lba (ce_block_num ?e)) = ce_data ?e"
      using write_becomes [OF Suc.prems(1) b, of "ce_data ?e"] c b up by auto
    have es: "cache_entries ?s1 = cache_entries s" using w(2) by (simp add: same_table_def)
    let ?s2 = "?s1\<lparr>cache_entries := (cache_entries s)[i := ?e\<lparr>ce_dirty := False\<rparr>]\<rparr>"
    have en1: "eynfs_block_cache_is_enabled ?s1" using same_table_enabled [OF w(2)] Suc.prems(2) by simp
    have b2: "becomes drive B (view drive s) s ?s2"
      using becomes_trans [OF w(1) clean_becomes [OF becomes_ready [OF w(1)] en1, of i]] w(3) i es by simp
    have "eynfs_block_cache_is_enabled ?s2" using en1 by (simp add: eynfs_block_cache_is_enabled_def split: if_splits)
    moreover have "\<forall>j < Suc i. ce_valid (cache_entries ?s2 ! j) \<longrightarrow> \<not> ce_dirty (cache_entries ?s2 ! j)"
      using Suc.prems(4) i by (auto simp: less_Suc_eq nth_list_update)
    ultimately have "becomes drive B (view drive ?s2) ?s2 (flush_from drive n (Suc i) ?s2)
        \<and> eynfs_block_cache_is_enabled (flush_from drive n (Suc i) ?s2)
        \<and> (\<forall>e \<in> set (cache_entries (flush_from drive n (Suc i) ?s2)). ce_valid e \<longrightarrow> \<not> ce_dirty e)"
      using Suc.IH [OF becomes_ready [OF b2], of "Suc i"] Suc.prems(3) by simp
    moreover have "flush_from drive (Suc n) i s = flush_from drive n (Suc i) ?s2" using True es by (simp add: Let_def)
    ultimately show ?thesis using becomes_trans [OF b2] by metis
  qed
qed

lemma flush:
  assumes r: "fs_ready drive B s"
  shows "becomes drive B (view drive s) s (eynfs_cache_flush drive s)"
    "b \<in> B \<Longrightarrow> sector (eynfs_cache_flush drive s) drive (eynfs_block_to_lba b) = view drive s b"
proof -
  obtain s1 where s1: "eynfs_ctx_check CAP_WRITE_FS SCHED_COST_FS s = (Some (), s1)"
    and b1: "becomes drive B (view drive s) s s1" and st: "same_table s s1"
    using ctx_check_becomes [OF r, of CAP_WRITE_FS SCHED_COST_FS] r by (auto simp: fs_ready_def)
  let ?s = "eynfs_cache_flush drive s"
  have *: "becomes drive B (view drive s1) s1 ?s
      \<and> (\<forall>i < length (table ?s). ce_valid (table ?s ! i) \<longrightarrow> \<not> ce_dirty (table ?s ! i))"
  proof (cases "eynfs_block_cache_is_enabled s1")
    case False
    then show ?thesis using becomes_refl [OF becomes_ready [OF b1]] by (simp add: eynfs_cache_flush_def s1 table_def)
  next
    case True
    then show ?thesis
      using flush_from [OF becomes_ready [OF b1] True, of 0 "unat (g_block_cache_capacity s1)"] ready_table [OF becomes_ready [OF b1] True]
      by (simp add: eynfs_cache_flush_def s1 table_def)
  qed
  then show bec: "becomes drive B (view drive s) s ?s" using becomes_trans [OF b1] by blast
  show "sector ?s drive (eynfs_block_to_lba b) = view drive s b" if b: "b \<in> B"
  proof (cases "content (table ?s) b")
    case None
    then show ?thesis using becomes_view [OF bec b] view_uncached [of ?s b drive] by simp
  next
    case (Some d)
    then obtain i where "i < length (table ?s)" "ce_valid (table ?s ! i)" "ce_block_num (table ?s ! i) = b" "ce_data (table ?s ! i) = d"
      using content_SomeD by blast
    then have "d = sector ?s drive (eynfs_block_to_lba b)"
      using becomes_ready [OF bec] * by (auto simp: fs_ready_def table_ok_def)
    then show ?thesis using view_cached [OF Some, of drive] becomes_view [OF bec b] by simp
  qed
qed

section \<open>A state for the witnesses\<close>

text \<open>Eight empty drives, no command running, the cache not yet allocated.\<close>

definition eynfs_demo :: eynfs where
  "eynfs_demo = \<lparr>dk_kc = kctx_boot, drive_present = replicate 8 True, media = (\<lambda>_ _. replicate 512 0),
     rd_bad = (\<lambda>_ _. False), wr_bad = (\<lambda>_ _. False), ramdisk = None,
     g_fs_txn = replicate 4 \<lparr>tx_depth = 0, tx_count = 0, tx_entries = no_entries\<rparr>, phys_total_frames = 16384,
     malloc_results = (\<lambda>n. 0xC0100000 + of_nat n * 0x10000), malloc_calls = 0, g_block_cache = 0, g_block_cache_data = 0,
     cache_entries = [], g_block_cache_capacity = 0, g_block_cache_use_clock = 0, g_block_cache_perma_disabled = False,
     cache_hits = 0, cache_misses = 0, free_block_cache = replicate 64 0, free_block_cache_count = 0,
     free_block_cache_valid = False, dir_cache = replicate 8 \<lparr>dc_dir_block = 0, dc_entries = None, dc_count = 0\<rparr>,
     caches_initialized = False\<rparr>"

lemma nth_replicate8: "d < (8 :: u8) \<Longrightarrow> replicate 8 True ! unat d"
  by (simp add: word_less_nat_alt)

lemma eynfs_demo_ready: "d < 8 \<Longrightarrow> fs_ready d B eynfs_demo"
  by (auto simp: eynfs_demo_def fs_ready_def healthy_def table_ok_def table_def uniq_def eynfs_block_cache_is_enabled_def
      ctx_denies_def kctx_boot_def nth_replicate8)

section \<open>Which entry is replaced\<close>

text \<open>The victim of a full lookup is an unused entry when there is one; otherwise it is the least
  recently used clean entry; only when every entry is dirty it is the least recently used of all, and
  only then the caller is told to write it back.\<close>

theorem block_cache_victim:
  assumes "fs_ready drive B s" and "eynfs_block_cache_choose_victim_index s = Some (v, writeback)"
  defines "es \<equiv> cache_entries s"
  shows "v < length es \<and>
     (if \<forall>e \<in> set es. ce_valid e then
        ce_dirty (es ! v) = writeback \<and> (writeback \<longrightarrow> (\<forall>e \<in> set es. ce_dirty e))
        \<and> (\<forall>e \<in> set es. ce_dirty e = writeback \<longrightarrow> ce_last_use (es ! v) \<le> ce_last_use e)
      else \<not> ce_valid (es ! v) \<and> \<not> writeback \<and> (\<forall>j < v. ce_valid (es ! j)))"
  using choose_victim [OF assms(1,2)] by (simp add: victim_of_def es_def)

text \<open>A cached block is served to every drive: once block b is in the cache, reading block b of any
  other drive, or after the sector was rewritten behind the cache, returns the cached bytes. The key of the
  cache does not contain the drive.\<close>

theorem block_cache_ignores_drive:
  assumes "fs_ready drive B s" and "b \<in> B" and "content (table s) b = Some d"
  shows "fst (eynfs_cache_get_block drive' b (s\<lparr>media := m\<rparr>)) = Some d"
proof -
  let ?s = "s\<lparr>media := m\<rparr>"
  have en: "eynfs_block_cache_is_enabled s" using assms(3) disabled_content [of s b] by (cases "eynfs_block_cache_is_enabled s") auto
  obtain i where i: "i < length (table s)" "ce_valid (table s ! i)" using content_SomeD [OF assms(3)] by blast
  have val: "fst (eynfs_block_cache_validate_or_disable s)" using assms(1) i by (auto simp: fs_ready_def table_ok_def)
  obtain s1 where s1: "eynfs_ctx_check CAP_READ_FS SCHED_COST_FS ?s = (Some (), s1)" "same_table s s1"
    using assms(1) by (auto simp: eynfs_ctx_check_def fs_ready_def same_table_def)
  note t = same_table_enabled [OF s1(2)] same_table_validate [OF s1(2)]
  have a: "eynfs_block_cache_alloc_if_needed s1 = (True, s1)"
    using en t by (simp add: eynfs_block_cache_alloc_if_needed_def)
  have v: "eynfs_block_cache_validate_or_disable s1 = (True, s1)"
    using val t by (auto simp: eynfs_block_cache_validate_or_disable_def Let_def split: if_splits)
  have "map_option (\<lambda>i. ce_data (cache_entries s ! i)) (cache_lookup b s) = Some d"
    using lookup_content [OF assms(1) en] assms(3) by simp
  then obtain i where "cache_lookup b s1 = Some i" "ce_data (cache_entries s1 ! i) = d"
    using s1(2) by (auto simp: same_table_def cache_lookup_def)
  then show ?thesis by (simp add: eynfs_cache_get_block_def s1 a v)
qed

text \<open>A cache of one entry, dirty.\<close>

definition eynfs_full :: eynfs where
  "eynfs_full = eynfs_demo\<lparr>g_block_cache := 0xC0100000, g_block_cache_data := 0xC0200000, g_block_cache_capacity := 1,
     cache_entries := [\<lparr>ce_block_num = 5, ce_last_use = 1, ce_data_ptr = 0xC0200000, ce_data = replicate 512 7,
       ce_dirty = True, ce_valid = True\<rparr>], g_block_cache_use_clock := 2\<rparr>"

lemma eynfs_full_enabled: "eynfs_block_cache_is_enabled eynfs_full"
  by (simp add: eynfs_full_def eynfs_demo_def eynfs_block_cache_is_enabled_def)

lemma eynfs_full_valid: "fst (eynfs_block_cache_validate_or_disable eynfs_full)"
  unfolding eynfs_block_cache_validate_or_disable_def
  by (simp add: eynfs_full_enabled) (simp add: eynfs_full_def eynfs_demo_def first_idx_None)

lemma eynfs_full_table: "table eynfs_full = cache_entries eynfs_full" "length (cache_entries eynfs_full) = 1"
  "g_block_cache_capacity eynfs_full = 1"
  by (simp add: table_def eynfs_full_enabled) (simp_all add: eynfs_full_def)

lemma eynfs_full_ready: "fs_ready 0 UNIV eynfs_full"
proof -
  have "table_ok 0 UNIV eynfs_full"
    by (simp add: table_ok_def eynfs_full_table eynfs_full_valid uniq_def) (simp add: eynfs_full_def)
  moreover have "healthy 0 (eynfs_block_to_lba ` UNIV) eynfs_full"
    using eynfs_demo_ready [of 0 UNIV] same_disk_healthy [of eynfs_demo eynfs_full]
    by (simp add: fs_ready_def same_disk_def eynfs_full_def)
  ultimately show ?thesis by (simp add: fs_ready_def) (simp add: eynfs_full_def eynfs_demo_def ctx_denies_def kctx_boot_def)
qed

lemma eynfs_full_content: "content (table eynfs_full) 5 = Some (replicate 512 7)"
proof -
  have "content (table eynfs_full) 5 = Some (ce_data (table eynfs_full ! 0))"
    by (rule content_at) (use eynfs_full_ready in \<open>simp_all add: fs_ready_def table_ok_def eynfs_full_table\<close>, simp_all add: eynfs_full_def)
  then show ?thesis by (simp add: eynfs_full_table(1)) (simp add: eynfs_full_def)
qed

theorem block_cache_victim_witness:
  "eynfs_block_cache_choose_victim_index eynfs_full = Some (0, True) \<and> ce_dirty (cache_entries eynfs_full ! 0)"
proof -
  have c: "eynfs_block_cache_choose_victim_index eynfs_full = Some (0, True)"
    by (simp add: eynfs_block_cache_choose_victim_index_def eynfs_full_enabled eynfs_full_table(3)) (simp add: eynfs_full_def)
  have "\<forall>e \<in> set (cache_entries eynfs_full). ce_valid e" by (simp add: eynfs_full_def)
  with block_cache_victim [OF eynfs_full_ready c] c show ?thesis by simp
qed

theorem block_cache_ignores_drive_witness:
  "fst (eynfs_cache_get_block 3 5 (eynfs_full\<lparr>media := \<lambda>_ _. replicate 512 0\<rparr>)) = Some (replicate 512 7)"
  by (rule block_cache_ignores_drive [OF eynfs_full_ready UNIV_I eynfs_full_content])

end
