(* ===== verification/BlockStore.thy ===== *)
theory BlockStore
  imports BlockCacheSpec
begin

text \<open>
  The contract of block storage, as a locale: reading gives the view of a block, writing changes
  the view of one block, synchronising changes none. A client's run against any provider of the
  contract is a run against a map from blocks to bytes. Two providers: the block cache of EYNFS, and
  the sectors of a healthy drive without a cache.
\<close>

datatype block_op = Get u32 | Put u32 bytes | Sync

fun op_blocks :: "block_op \<Rightarrow> u32 set" where
  "op_blocks (Get b) = {b}"
| "op_blocks (Put b d) = {b}"
| "op_blocks Sync = {}"

text \<open>A run gives the outcome of each operation, \<open>None\<close> for a failure.\<close>

fun run_ops :: "(u32 \<Rightarrow> 's \<Rightarrow> bytes option \<times> 's) \<Rightarrow> (u32 \<Rightarrow> bytes \<Rightarrow> 's \<Rightarrow> unit option \<times> 's) \<Rightarrow> ('s \<Rightarrow> 's)
    \<Rightarrow> block_op list \<Rightarrow> 's \<Rightarrow> bytes option list \<times> 's" where
  "run_ops get put sync [] s = ([], s)"
| "run_ops get put sync (Get b # ops) s =
     (case get b s of (r, s) \<Rightarrow> case run_ops get put sync ops s of (rs, s) \<Rightarrow> (r # rs, s))"
| "run_ops get put sync (Put b d # ops) s =
     (case put b d s of (r, s) \<Rightarrow> case run_ops get put sync ops s of (rs, s) \<Rightarrow> (map_option (\<lambda>_. []) r # rs, s))"
| "run_ops get put sync (Sync # ops) s =
     (case run_ops get put sync ops (sync s) of (rs, s) \<Rightarrow> (Some [] # rs, s))"

text \<open>The specification: the same run on a map.\<close>

fun run_map :: "block_op list \<Rightarrow> (u32 \<Rightarrow> bytes) \<Rightarrow> bytes option list \<times> (u32 \<Rightarrow> bytes)" where
  "run_map [] f = ([], f)"
| "run_map (Get b # ops) f = (case run_map ops f of (rs, f') \<Rightarrow> (Some (f b) # rs, f'))"
| "run_map (Put b d # ops) f = (case run_map ops (f(b := d)) of (rs, f') \<Rightarrow> (Some [] # rs, f'))"
| "run_map (Sync # ops) f = (case run_map ops f of (rs, f') \<Rightarrow> (Some [] # rs, f'))"

lemma run_map_cong:
  "\<forall>c \<in> B. f c = g c \<Longrightarrow> \<forall>p \<in> set ops. op_blocks p \<subseteq> B \<Longrightarrow>
   fst (run_map ops f) = fst (run_map ops g) \<and> (\<forall>c \<in> B. snd (run_map ops f) c = snd (run_map ops g) c)"
proof (induction ops f arbitrary: g rule: run_map.induct)
  case (3 b d ops f)
  have "\<forall>c \<in> B. (f(b := d)) c = (g(b := d)) c" using "3.prems"(1) by simp
  then show ?case using "3.IH" [of "g(b := d)"] "3.prems"(2) by (simp add: split_beta del: fun_upd_apply)
qed (auto simp: split_beta)

locale block_store =
  fixes get :: "u32 \<Rightarrow> 's \<Rightarrow> bytes option \<times> 's"
    and put :: "u32 \<Rightarrow> bytes \<Rightarrow> 's \<Rightarrow> unit option \<times> 's"
    and sync :: "'s \<Rightarrow> 's"
    and ready :: "'s \<Rightarrow> bool"
    and view_of :: "'s \<Rightarrow> u32 \<Rightarrow> bytes"
    and B :: "u32 set"
  assumes get_law: "ready s \<Longrightarrow> b \<in> B \<Longrightarrow>
      \<exists>s'. get b s = (Some (view_of s b), s') \<and> ready s' \<and> (\<forall>c \<in> B. view_of s' c = view_of s c)"
    and put_law: "ready s \<Longrightarrow> b \<in> B \<Longrightarrow>
      \<exists>s'. put b d s = (Some (), s') \<and> ready s' \<and> (\<forall>c \<in> B. view_of s' c = ((view_of s)(b := d)) c)"
    and sync_law: "ready s \<Longrightarrow> ready (sync s) \<and> (\<forall>c \<in> B. view_of (sync s) c = view_of s c)"
begin

lemma run_refines:
  "ready s \<Longrightarrow> \<forall>p \<in> set ops. op_blocks p \<subseteq> B \<Longrightarrow>
   \<exists>s'. run_ops get put sync ops s = (fst (run_map ops (view_of s)), s') \<and> ready s'
      \<and> (\<forall>c \<in> B. view_of s' c = snd (run_map ops (view_of s)) c)"
proof (induction ops arbitrary: s)
  case (Cons p ops)
  have ops: "\<forall>p \<in> set ops. op_blocks p \<subseteq> B" using Cons.prems(2) by simp
  show ?case
  proof (cases p)
    case (Get b)
    obtain s1 where s1: "get b s = (Some (view_of s b), s1)" "ready s1" "\<forall>c \<in> B. view_of s1 c = view_of s c"
      using get_law [OF Cons.prems(1), of b] Cons.prems(2) Get by auto
    then show ?thesis using Cons.IH [OF s1(2) ops] run_map_cong [OF s1(3) ops] Get by (auto simp: split_beta)
  next
    case (Put b d)
    obtain s1 where s1: "put b d s = (Some (), s1)" "ready s1" "\<forall>c \<in> B. view_of s1 c = ((view_of s)(b := d)) c"
      using put_law [OF Cons.prems(1), of b d] Cons.prems(2) Put by auto
    then show ?thesis using Cons.IH [OF s1(2) ops] run_map_cong [of B "view_of s1" "(view_of s)(b := d)", OF s1(3) ops] Put
      by (auto simp: split_beta simp del: fun_upd_apply)
  next
    case Sync
    have s1: "ready (sync s)" "\<forall>c \<in> B. view_of (sync s) c = view_of s c" using sync_law [OF Cons.prems(1)] by auto
    then show ?thesis using Cons.IH [OF s1(1) ops] run_map_cong [OF s1(2) ops] Sync by (auto simp: split_beta)
  qed
qed simp

end

section \<open>The providers\<close>

interpretation cached: block_store "eynfs_cache_get_block drive" "eynfs_cache_write_block drive" "eynfs_cache_flush drive"
    "fs_ready drive B" "view drive" B for drive B
proof
  fix s :: "'a eynfs_scheme" and b d
  assume r: "fs_ready drive B s"
  show "\<exists>s'. eynfs_cache_get_block drive b s = (Some (view drive s b), s') \<and> fs_ready drive B s' \<and> (\<forall>c \<in> B. view drive s' c = view drive s c)"
    if "b \<in> B" using get_block [OF r that] by (auto simp: becomes_def)
  show "\<exists>s'. eynfs_cache_write_block drive b d s = (Some (), s') \<and> fs_ready drive B s' \<and> (\<forall>c \<in> B. view drive s' c = ((view drive s)(b := d)) c)"
    if "b \<in> B" using write_block [OF r that, of d] by (auto simp: becomes_def)
  show "fs_ready drive B (eynfs_cache_flush drive s) \<and> (\<forall>c \<in> B. view drive (eynfs_cache_flush drive s) c = view drive s c)"
    using flush(1) [OF r] by (simp add: becomes_def)
qed

interpretation raw: block_store "ata_read_sector drive" "ata_write_sector drive" "\<lambda>s. s"
    "healthy drive L" "\<lambda>s. sector s drive" L for drive L
proof
  fix s :: "'a disk_scheme" and b d
  assume h: "healthy drive L s"
  show "\<exists>s'. ata_read_sector drive b s = (Some (sector s drive b), s') \<and> healthy drive L s' \<and> (\<forall>c \<in> L. sector s' drive c = sector s drive c)"
    if "b \<in> L" using ata_read_healthy [OF h that] h same_disk_healthy same_disk_sector by metis
  show "\<exists>s'. ata_write_sector drive b d s = (Some (), s') \<and> healthy drive L s' \<and> (\<forall>c \<in> L. sector s' drive c = ((\<lambda>c. sector s drive c)(b := d)) c)"
    if "b \<in> L" using ata_write_healthy [OF h that, of d] by auto
  show "healthy drive L s \<and> (\<forall>c \<in> L. sector s drive c = sector s drive c)" using h by simp
qed

section \<open>The cache is invisible\<close>

text \<open>C1. The EYNFS block cache is invisible to its clients: any sequence of eynfs_cache_get_block,
  eynfs_cache_write_block and eynfs_cache_flush on one healthy drive, with whatever hits, misses,
  evictions and write-backs it causes, returns what the same sequence returns on a plain map from
  blocks to contents, and a final flush leaves exactly this map on the disk.\<close>

theorem block_cache_refines_map:
  assumes "fs_ready drive B s" and "\<forall>p \<in> set ops. op_blocks p \<subseteq> B"
  defines "run \<equiv> run_ops (eynfs_cache_get_block drive) (eynfs_cache_write_block drive) (eynfs_cache_flush drive) ops s"
  shows "fst run = fst (run_map ops (view drive s))
     \<and> (\<forall>b \<in> B. sector (eynfs_cache_flush drive (snd run)) drive (eynfs_block_to_lba b) = snd (run_map ops (view drive s)) b)"
  using cached.run_refines [OF assms(1,2)] flush(2) by (fastforce simp: run_def)

theorem block_cache_refines_map_witness:
  "fst (run_ops (eynfs_cache_get_block 0) (eynfs_cache_write_block 0) (eynfs_cache_flush 0)
      [Get 5, Put 5 [1, 2], Put 9 [3], Sync, Get 5] eynfs_full) = [Some (replicate 512 7), Some [], Some [], Some [], Some [1, 2]]"
proof -
  let ?ops = "[Get 5, Put 5 [1, 2], Put 9 [3], Sync, Get 5]"
  have "view 0 eynfs_full 5 = replicate 512 7" by (rule view_cached [OF eynfs_full_content])
  then show ?thesis using block_cache_refines_map [OF eynfs_full_ready, of ?ops] by simp
qed

end
