(* ===== verification/EynfsRead.thy ===== *)
theory EynfsRead
  imports EynfsFile BlockStore
begin

text \<open>
  What the two readers of a file compute: the bytes of the file's chain of blocks, from the offset,
  limited by the buffer and the size of the entry. The reader with a cursor gives the same bytes and
  keeps its cursor correct.
\<close>

section \<open>Chains\<close>

text \<open>The blocks \<open>xs\<close> are linked from \<open>b\<close> through their first words to the null block.\<close>

fun chain :: "(u32 \<Rightarrow> bytes) \<Rightarrow> u32 \<Rightarrow> u32 list \<Rightarrow> bool" where
  "chain v b [] \<longleftrightarrow> b = 0"
| "chain v b (x # xs) \<longleftrightarrow> b = x \<and> x \<noteq> 0 \<and> chain v (get32 (v x) 0) xs"

definition data_of :: "bytes \<Rightarrow> bytes" where
  "data_of block = take payload_size (drop 4 block)"

definition payload :: "(u32 \<Rightarrow> bytes) \<Rightarrow> u32 list \<Rightarrow> bytes" where
  "payload v xs = concat (map (\<lambda>x. data_of (v x)) xs)"

definition full_blocks :: "(u32 \<Rightarrow> bytes) \<Rightarrow> u32 list \<Rightarrow> bool" where
  "full_blocks v xs \<longleftrightarrow> (\<forall>x \<in> set xs. length (v x) = EYNFS_BLOCK_SIZE)"

lemma payload_simps [simp]: "payload v [] = []" "payload v (x # xs) = data_of (v x) @ payload v xs"
  by (simp_all add: payload_def)

lemma full_blocks_simps [simp]: "full_blocks v []" "full_blocks v (x # xs) \<longleftrightarrow> length (v x) = EYNFS_BLOCK_SIZE \<and> full_blocks v xs"
  by (simp_all add: full_blocks_def)

lemma length_data_of [simp]: "length block = EYNFS_BLOCK_SIZE \<Longrightarrow> length (data_of block) = payload_size"
  by (simp add: data_of_def)

lemma length_payload: "full_blocks v xs \<Longrightarrow> length (payload v xs) = payload_size * length xs"
  by (induction xs) simp_all

lemma chain_0: "chain v 0 xs \<longleftrightarrow> xs = []"
  by (cases xs) auto

lemma chain_Nil_iff: "chain v b xs \<Longrightarrow> xs = [] \<longleftrightarrow> b = 0"
  by (cases xs) auto

lemma chain_cong: "(\<And>x. x \<in> set xs \<Longrightarrow> v x = w x) \<Longrightarrow> chain v b xs = chain w b xs"
  by (induction xs arbitrary: b) auto

lemma payload_cong: "(\<And>x. x \<in> set xs \<Longrightarrow> v x = w x) \<Longrightarrow> payload v xs = payload w xs"
  by (induction xs) auto

lemma full_blocks_cong: "(\<And>x. x \<in> set xs \<Longrightarrow> v x = w x) \<Longrightarrow> full_blocks v xs = full_blocks w xs"
  by (simp add: full_blocks_def)

lemma becomes_chain:
  assumes "becomes drive B (view drive s) s s'" and "set xs \<subseteq> B"
  shows "chain (view drive s') b xs = chain (view drive s) b xs" "payload (view drive s') xs = payload (view drive s) xs"
    "full_blocks (view drive s') xs = full_blocks (view drive s) xs"
  using assms by (auto simp: becomes_def intro!: chain_cong payload_cong full_blocks_cong)

section \<open>Reading one block\<close>

lemma account_becomes: "fs_ready drive B s \<Longrightarrow> becomes drive B (view drive s) s (account s)"
  by (rule same_table_becomes) (simp_all add: account_def same_table_def fs_frame_def)

lemma txn_touch_becomes: "fs_ready drive B s \<Longrightarrow> becomes drive B (view drive s) s (txn_touch d t l s)"
  by (rule same_table_becomes) (simp_all add: txn_touch_def same_table_def fs_frame_def same_disk_def)

lemma get_becomes:
  assumes bec: "becomes drive B (view drive s) s s1" and b: "b \<in> B"
  shows "\<exists>s2. eynfs_cache_get_block drive b s1 = (Some (view drive s b), s2) \<and> becomes drive B (view drive s) s s2"
  using get_block [OF becomes_ready [OF bec] b] becomes_view [OF bec b] becomes_trans [OF bec] by auto

lemma get_account_becomes:
  assumes bec: "becomes drive B (view drive s) s s1" and b: "b \<in> B"
  shows "\<exists>s2. eynfs_cache_get_block drive b (account s1) = (Some (view drive s b), s2) \<and> becomes drive B (view drive s) s s2"
  by (rule get_becomes [OF becomes_trans [OF bec account_becomes [OF becomes_ready [OF bec]]] b])

section \<open>The loops\<close>

lemma loops_end [simp]:
  "read_skip drive 0 skip s = (Some (0, skip), s)"
  "skip < payload_size \<Longrightarrow> read_skip drive b skip s = (Some (b, skip), s)"
  "read_rest drive 0 n off s = ((Some [], 0, off), s)" "read_rest drive b 0 off s = ((Some [], b, off), s)"
  by (subst read_skip.simps, simp)+ (subst read_rest.simps, simp)+

lemma read_skip:
  assumes "becomes drive B (view drive s) s s1" "chain (view drive s) b xs" "set xs \<subseteq> B"
    and "k = min (skip div payload_size) (length xs)"
  shows "\<exists>b' s2. read_skip drive b skip s1 = (Some (b', skip - payload_size * k), s2)
     \<and> chain (view drive s) b' (drop k xs) \<and> becomes drive B (view drive s) s s2"
  using assms
proof (induction xs arbitrary: b skip s1 k)
  case Nil
  then show ?case by (auto simp: read_skip.simps [of drive b])
next
  case (Cons x xs)
  then have b: "b = x" "x \<noteq> 0" "x \<in> B" "chain (view drive s) (get32 (view drive s x) 0) xs" by auto
  show ?case
  proof (cases "skip < payload_size")
    case True
    then show ?thesis using Cons.prems by (auto simp: read_skip.simps [of drive b])
  next
    case False
    obtain s2 where s2: "eynfs_cache_get_block drive x (account s1) = (Some (view drive s x), s2)"
      "becomes drive B (view drive s) s s2" using get_account_becomes [OF Cons.prems(1) b(3)] by blast
    have step: "read_skip drive b skip s1 = read_skip drive (get32 (view drive s x) 0) (skip - payload_size) s2"
      using False b s2 by (subst read_skip.simps) simp
    have "skip div payload_size = Suc ((skip - payload_size) div payload_size)" using False by (simp add: le_div_geq)
    then have k: "k = Suc (min ((skip - payload_size) div payload_size) (length xs))" using Cons.prems(4) by simp
    show ?thesis using Cons.IH [OF s2(2) b(4) _ refl, of "skip - payload_size"] Cons.prems(3) step k by simp
  qed
qed

text \<open>The bytes left are a prefix of the payload; the cursor ends behind the blocks read, of which
  there are \<open>j\<close>.\<close>

lemma take_payload_Cons:
  "length (v x) = EYNFS_BLOCK_SIZE \<Longrightarrow> take n (payload v (x # xs))
     = take (min payload_size n) (drop 4 (v x)) @ take (n - min payload_size n) (payload v xs)"
  by (cases "n \<le> payload_size") (simp_all add: data_of_def min_def)

lemma read_rest:
  assumes "becomes drive B (view drive s) s s1" "chain (view drive s) b xs" "set xs \<subseteq> B" "full_blocks (view drive s) xs"
  shows "\<exists>j b' s2. read_rest drive b n cur_off s1 = ((Some (take n (payload (view drive s) xs)), b', cur_off + 508 * of_nat j), s2)
     \<and> j \<le> length xs \<and> chain (view drive s) b' (drop j xs) \<and> becomes drive B (view drive s) s s2"
  using assms
proof (induction xs arbitrary: b n cur_off s1)
  case Nil
  then show ?case by (auto simp: read_rest.simps [of drive b])
next
  case (Cons x xs)
  then have b: "b = x" "x \<noteq> 0" "x \<in> B" "chain (view drive s) (get32 (view drive s x) 0) xs" by auto
  show ?case
  proof (cases "n = 0")
    case True
    then show ?thesis using Cons.prems by (intro exI [of _ "0 :: nat"]) auto
  next
    case False
    obtain s2 where s2: "eynfs_cache_get_block drive x (account s1) = (Some (view drive s x), s2)"
      "becomes drive B (view drive s) s s2" using get_account_becomes [OF Cons.prems(1) b(3)] by blast
    let ?c = "min payload_size n"
    have c: "(if payload_size < n then payload_size else n) = ?c" by simp
    obtain j b' s3 where ih: "read_rest drive (get32 (view drive s x) 0) (n - ?c) (cur_off + 508) s2
        = ((Some (take (n - ?c) (payload (view drive s) xs)), b', cur_off + 508 + 508 * of_nat j), s3)"
      "j \<le> length xs" "chain (view drive s) b' (drop j xs)" "becomes drive B (view drive s) s s3"
      using Cons.IH [OF s2(2) b(4), of "n - ?c" "cur_off + 508"] Cons.prems(3,4) by auto
    have "read_rest drive b n cur_off s1 = ((Some (take n (payload (view drive s) (x # xs))), b', cur_off + 508 * of_nat (Suc j)), s3)"
      using False b s2 ih(1) Cons.prems(4)
      by (subst read_rest.simps) (simp add: c take_payload_Cons Let_def algebra_simps del: payload_simps)
    then show ?thesis using ih by (intro exI [of _ "Suc j"]) auto
  qed
qed

section \<open>The readers\<close>

text \<open>The part the two readers share: the block with the offset, then the remaining ones. It reads
  from the blocks \<open>xs\<close>, the first of which holds the offset at \<open>skip\<close>.\<close>

lemma first_then_rest:
  "length (v x) = EYNFS_BLOCK_SIZE \<Longrightarrow> skip < payload_size \<Longrightarrow>
   take n (drop skip (payload v (x # xs)))
     = take (min (payload_size - skip) n) (drop (4 + skip) (v x)) @ take (n - min (payload_size - skip) n) (payload v xs)"
  by (cases "n \<le> payload_size - skip") (simp_all add: data_of_def min_def drop_take add.commute)

lemma drop_payload:
  assumes "full_blocks v xs" "k \<le> length xs"
  shows "drop (payload_size * k) (payload v xs) = payload v (drop k xs)"
  using assms
proof (induction xs arbitrary: k)
  case (Cons x xs)
  then show ?case by (cases k) simp_all
qed simp

lemma skip_payload:
  assumes "full_blocks v xs" and k: "k = min (offset div payload_size) (length xs)"
  shows "drop offset (payload v xs) = drop (offset - payload_size * k) (payload v (drop k xs))"
    and "drop k xs \<noteq> [] \<Longrightarrow> offset - payload_size * k < payload_size"
proof -
  have le: "payload_size * k \<le> offset" using k by (simp add: min_def) (metis div_times_less_eq_dividend le_trans mult.commute mult_le_mono2 nat_le_linear)
  have "drop offset (payload v xs) = drop (offset - payload_size * k) (drop (payload_size * k) (payload v xs))"
    using le by simp
  also have "drop (payload_size * k) (payload v xs) = payload v (drop k xs)"
    using drop_payload [OF assms(1), of k] k by simp
  finally show "drop offset (payload v xs) = drop (offset - payload_size * k) (payload v (drop k xs))" .
  show "offset - payload_size * k < payload_size" if "drop k xs \<noteq> []"
  proof -
    have "k = offset div payload_size" using that k by (auto simp: min_def split: if_splits)
    then show ?thesis by (simp add: modulo_nat_def [symmetric] mult.commute)
  qed
qed

definition readable :: "u8 \<Rightarrow> u32 set \<Rightarrow> u32 \<Rightarrow> u32 list \<Rightarrow> 'a eynfs_scheme \<Rightarrow> bool" where
  "readable drive B b xs s \<longleftrightarrow> fs_ready drive B s \<and> chain (view drive s) b xs \<and> set xs \<subseteq> B \<and> full_blocks (view drive s) xs"

text \<open>Skipping, for both readers: the block reached, what is left to skip, and the suffix of the payload.\<close>

lemma read_skip_payload:
  assumes bec: "becomes drive B (view drive s) s s1" and ch: "chain (view drive s) b xs" and B: "set xs \<subseteq> B"
    and full: "full_blocks (view drive s) xs"
  shows "\<exists>b' skip j s2. read_skip drive b offset s1 = (Some (b', skip), s2) \<and> chain (view drive s) b' (drop j xs)
     \<and> j \<le> length xs \<and> skip + payload_size * j = offset \<and> becomes drive B (view drive s) s s2 \<and> (b' \<noteq> 0 \<longrightarrow> skip < payload_size)
     \<and> drop offset (payload (view drive s) xs) = drop skip (payload (view drive s) (drop j xs))"
proof -
  let ?k = "min (offset div payload_size) (length xs)"
  obtain b' s2 where s2: "read_skip drive b offset s1 = (Some (b', offset - payload_size * ?k), s2)"
    "chain (view drive s) b' (drop ?k xs)" "becomes drive B (view drive s) s s2"
    using read_skip [OF bec ch B refl, of offset] by blast
  have "payload_size * ?k \<le> payload_size * (offset div payload_size)" by (rule mult_le_mono2) simp
  then have le: "payload_size * ?k \<le> offset" by (rule le_trans) simp
  have "b' \<noteq> 0 \<longrightarrow> offset - payload_size * ?k < payload_size"
    using chain_Nil_iff [OF s2(2)] skip_payload(2) [OF full refl, of offset] by blast
  moreover have "offset - payload_size * ?k + payload_size * ?k = offset" using le by simp
  ultimately show ?thesis using s2 skip_payload(1) [OF full refl, of offset] min.cobounded2 by blast
qed

text \<open>The block with the offset and the remaining ones.\<close>

lemma read_first_rest:
  assumes bec: "becomes drive B (view drive s) s s3" and ch: "chain (view drive s) x (x # ys)" and B: "set ys \<subseteq> B"
    and full: "full_blocks (view drive s) (x # ys)" and skip: "skip < payload_size" and c: "c = min (payload_size - skip) n"
  shows "\<exists>d j b' s4. read_rest drive (get32 (view drive s x) 0) (n - c) off s3 = ((Some d, b', off + 508 * of_nat j), s4)
     \<and> take c (drop (4 + skip) (view drive s x)) @ d = take n (drop skip (payload (view drive s) (x # ys)))
     \<and> j \<le> length ys \<and> chain (view drive s) b' (drop j ys) \<and> becomes drive B (view drive s) s s4"
proof -
  have ch': "chain (view drive s) (get32 (view drive s x) 0) ys" using ch by simp
  have full': "full_blocks (view drive s) ys" "length (view drive s x) = EYNFS_BLOCK_SIZE" using full by simp_all
  obtain j b' s4 where s4: "read_rest drive (get32 (view drive s x) 0) (n - c) off s3
      = ((Some (take (n - c) (payload (view drive s) ys)), b', off + 508 * of_nat j), s4)"
      "j \<le> length ys" "chain (view drive s) b' (drop j ys)" "becomes drive B (view drive s) s s4"
    using read_rest [OF bec ch' B full'(1), of "n - c" off] by blast
  show ?thesis
    using s4 first_then_rest [of "view drive s" x skip n ys, OF full'(2) skip] unfolding c by metis
qed

lemma read_file_payload:
  assumes "readable drive B (de_first_block e) xs s" and "de_type e = EYNFS_TYPE_FILE"
  shows "\<exists>s'. eynfs_read_file drive e bufsize offset s
      = (Some (take (min bufsize (unat (de_size e) - offset)) (drop offset (payload (view drive s) xs))), s')
    \<and> (\<forall>b \<in> B. view drive s' b = view drive s b) \<and> fs_ready drive B s'"
proof -
  have r: "fs_ready drive B s" and ch: "chain (view drive s) (de_first_block e) xs" and B: "set xs \<subseteq> B"
    and full: "full_blocks (view drive s) xs" using assms(1) by (simp_all add: readable_def)
  have cap: "\<not> ctx_denies CAP_READ_FS (dk_kc s)" using r by (simp add: fs_ready_def)
  obtain s1 where s1: "eynfs_ctx_check CAP_READ_FS SCHED_COST_FS s = (Some (), s1)" "becomes drive B (view drive s) s s1"
    using ctx_check_becomes [OF r cap] by blast
  define n where "n = min bufsize (unat (de_size e) - offset)"
  have n: "(let m = unat (de_size e) - offset in if bufsize < m then bufsize else m) = n" by (simp add: Let_def min_def n_def)
  show ?thesis
  proof (cases "offset \<ge> unat (de_size e)")
    case True
    then show ?thesis using s1 assms(2) by (auto simp: eynfs_read_file_def becomes_def)
  next
    case False
    let ?s1 = "txn_touch drive FS_TXN_TAG_FILE (of_nat bufsize) s1"
    have b1: "becomes drive B (view drive s) s ?s1"
      by (rule becomes_trans [OF s1(2) txn_touch_becomes [OF becomes_ready [OF s1(2)]]])
    obtain b' skip j s2 where s2: "read_skip drive (de_first_block e) offset ?s1 = (Some (b', skip), s2)"
        "chain (view drive s) b' (drop j xs)" "becomes drive B (view drive s) s s2"
      and skip: "b' \<noteq> 0 \<longrightarrow> skip < payload_size"
      and pay: "drop offset (payload (view drive s) xs) = drop skip (payload (view drive s) (drop j xs))"
      using read_skip_payload [OF b1 ch B full, of offset] by blast
    show ?thesis
    proof (cases "b' = 0 \<or> n = 0")
      case True
      then have "take n (drop offset (payload (view drive s) xs)) = []"
        using chain_Nil_iff [OF s2(2)] pay by auto
      then show ?thesis using True False s1 s2 assms(2) by (auto simp: eynfs_read_file_def n becomes_def n_def [symmetric])
    next
      case go: False
      then obtain x ys where xs: "drop j xs = x # ys" and x: "b' = x" using s2(2) by (cases "drop j xs") auto
      have "set (x # ys) \<subseteq> set xs" by (metis xs set_drop_subset)
      then have sub: "x \<in> B" "set ys \<subseteq> B" "full_blocks (view drive s) (x # ys)" using B full by (auto simp: full_blocks_def)
      have chx: "chain (view drive s) x (x # ys)" using s2(2) xs x by simp
      obtain s3 where s3: "eynfs_cache_get_block drive x (account s2) = (Some (view drive s x), s3)" "becomes drive B (view drive s) s s3"
        using get_account_becomes [OF s2(3) sub(1)] by blast
      define c where "c = min (payload_size - skip) n"
      have c: "(let m = payload_size - skip in if m > n then n else m) = c" by (simp add: Let_def min_def c_def)
      have sk: "skip < payload_size" using skip go by simp
      obtain d i b'' s4 where s4: "read_rest drive (get32 (view drive s x) 0) (n - c) 0 s3 = ((Some d, b'', 0 + 508 * of_nat i), s4)"
        "take c (drop (4 + skip) (view drive s x)) @ d = take n (drop skip (payload (view drive s) (x # ys)))"
        "becomes drive B (view drive s) s s4"
        using read_first_rest [OF s3(2) chx sub(2,3) sk c_def, of 0] by blast
      have "eynfs_read_file drive e bufsize offset s = (Some (take c (drop (4 + skip) (view drive s x)) @ d), s4)"
        using False go s1(1) s2(1) x s3(1) s4(1) assms(2) unfolding eynfs_read_file_def n by (simp add: c)
      then show ?thesis using s4(2,3) pay xs by (auto simp: becomes_def n_def [symmetric])
    qed
  qed
qed

text \<open>C15. Reading a file returns the bytes of its chain of blocks from the offset on, as many as the
  buffer, the size in the entry and the chain allow, and changes no block: whatever the cache does
  meanwhile, every block reads the same afterwards.\<close>

theorem read_file_spec:
  assumes "readable drive B (de_first_block e) xs s" and "de_type e = EYNFS_TYPE_FILE"
  shows "\<exists>s'. eynfs_read_file drive e bufsize offset s
      = (Some (take (min bufsize (unat (de_size e) - offset)) (drop offset (payload (view drive s) xs))), s')
    \<and> (\<forall>b \<in> B. view drive s' b = view drive s b) \<and> fs_ready drive B s'"
  by (rule read_file_payload [OF assms])

section \<open>The reader with a cursor\<close>

text \<open>A cursor is empty or at the start of a suffix of the chain, with the offset of its payload.\<close>

definition cursor_ok :: "(u32 \<Rightarrow> bytes) \<Rightarrow> u32 list \<Rightarrow> (u32 \<times> u32) option \<Rightarrow> bool" where
  "cursor_ok v xs cursor \<longleftrightarrow>
     (case cursor of None \<Rightarrow> True
      | Some (b, off) \<Rightarrow> b = 0 \<or> (\<exists>j. j \<le> length xs \<and> unat off = payload_size * j \<and> chain v b (drop j xs)))"

lemma cursor_at:
  assumes "chain v b (drop j xs)" "j \<le> length xs" "payload_size * length xs < 2 ^ 32" "off = of_nat (payload_size * j)"
  shows "cursor_ok v xs (if c = None then None else Some (b, off))"
proof -
  have "payload_size * j \<le> payload_size * length xs" using assms(2) by (rule mult_le_mono2)
  then have "unat off = payload_size * j" using assms(3) unfolding assms(4) by (intro unat_of_nat32) linarith
  then show ?thesis using assms(1,2) by (auto simp: cursor_ok_def)
qed

text \<open>Where the skipping starts: at the suffix \<open>drop j xs\<close>, with the bytes to its offset gone.\<close>

lemma cursor_start:
  assumes ok: "cursor_ok v xs cursor" and ch: "chain v first xs" and full: "full_blocks v xs"
    and st: "(case cursor of Some (cur_block, cur_off) \<Rightarrow>
        if cur_block \<noteq> 0 \<and> offset \<ge> unat cur_off then (cur_block, offset - unat cur_off) else (first, offset)
      | None \<Rightarrow> (first, offset)) = (b, skip)"
  shows "\<exists>j. j \<le> length xs \<and> chain v b (drop j xs) \<and> skip + payload_size * j = offset
    \<and> drop offset (payload v xs) = drop skip (payload v (drop j xs))"
proof (cases "b = first \<and> skip = offset")
  case True
  then show ?thesis using ch by (intro exI [of _ 0]) simp
next
  case False
  then obtain off where c: "cursor = Some (b, off)" "b \<noteq> 0" "offset \<ge> unat off" "skip = offset - unat off"
    using st by (cases cursor) (auto split: if_splits)
  then obtain j where j: "j \<le> length xs" "unat off = payload_size * j" "chain v b (drop j xs)"
    using ok by (auto simp: cursor_ok_def)
  have "drop offset (payload v xs) = drop (offset - payload_size * j) (drop (payload_size * j) (payload v xs))"
    using c(3) j(2) by simp
  then show ?thesis using j c drop_payload [OF full j(1)] by (intro exI [of _ j]) simp
qed

text \<open>The last part of the fast reader, from the block that skipping has reached.\<close>

definition fast_tail :: "u8 \<Rightarrow> u32 \<Rightarrow> nat \<Rightarrow> nat \<Rightarrow> u32 \<Rightarrow> (u32 \<times> u32) option \<Rightarrow> 'a eynfs_scheme
    \<Rightarrow> (bytes option \<times> (u32 \<times> u32) option) \<times> 'a eynfs_scheme" where
  "fast_tail drive b skip n cur_off cursor s =
     (let cursor_at = (\<lambda>c. if cursor = None then None else Some c) in
      if b \<noteq> 0 \<and> n > 0 then
        (case eynfs_cache_get_block drive b s of
           (None, s) \<Rightarrow> ((None, cursor_at (b, cur_off)), s)
         | (Some block, s) \<Rightarrow>
             let chunk = (let m = payload_size - skip in if m > n then n else m) in
             case read_rest drive (get32 block 0) (n - chunk) (cur_off + 508) s of ((r, cur), s) \<Rightarrow>
               ((map_option (\<lambda>d. take chunk (drop (4 + skip) block) @ d) r, cursor_at cur), s))
      else ((Some [], cursor_at (b, cur_off)), s))"

lemma fast_tail:
  assumes bec: "becomes drive B (view drive s) s s2" and ch: "chain (view drive s) b (drop j xs)" and j: "j \<le> length xs"
    and B: "set xs \<subseteq> B" and full: "full_blocks (view drive s) xs" and len: "payload_size * length xs < 2 ^ 32"
    and skip: "b \<noteq> 0 \<longrightarrow> skip < payload_size"
  shows "\<exists>cursor' s'. fast_tail drive b skip n (of_nat (payload_size * j)) cursor s2
       = ((Some (take n (drop skip (payload (view drive s) (drop j xs)))), cursor'), s')
     \<and> cursor_ok (view drive s) xs cursor' \<and> becomes drive B (view drive s) s s'"
proof (cases "b = 0 \<or> n = 0")
  case True
  then have "take n (drop skip (payload (view drive s) (drop j xs))) = []"
    using chain_Nil_iff [OF ch] by auto
  then show ?thesis using True cursor_at [OF ch j len refl, of cursor] bec by (auto simp: fast_tail_def Let_def)
next
  case go: False
  then obtain x ys where xs: "drop j xs = x # ys" and x: "b = x" using ch by (cases "drop j xs") auto
  have "set (x # ys) \<subseteq> set xs" by (metis xs set_drop_subset)
  then have sub: "x \<in> B" "set ys \<subseteq> B" "full_blocks (view drive s) (x # ys)" using B full by (auto simp: full_blocks_def)
  have chx: "chain (view drive s) x (x # ys)" using ch xs x by simp
  obtain s3 where s3: "eynfs_cache_get_block drive x s2 = (Some (view drive s x), s3)" "becomes drive B (view drive s) s s3"
    using get_becomes [OF bec sub(1)] by blast
  define c where "c = min (payload_size - skip) n"
  have c: "(if n < payload_size - skip then n else payload_size - skip) = c" by (simp add: c_def)
  have sk: "skip < payload_size" using skip go by simp
  define off where "off = of_nat (payload_size * j) + (508 :: u32)"
  obtain d i b'' s4 where s4: "read_rest drive (get32 (view drive s x) 0) (n - c) off s3 = ((Some d, b'', off + 508 * of_nat i), s4)"
    "take c (drop (4 + skip) (view drive s x)) @ d = take n (drop skip (payload (view drive s) (x # ys)))"
    "i \<le> length ys" "chain (view drive s) b'' (drop i ys)" "becomes drive B (view drive s) s s4"
    using read_first_rest [OF s3(2) chx sub(2,3) sk c_def, of off] by blast
  have lt: "j < length xs" using xs by (metis drop_eq_Nil list.distinct(1) not_le)
  have "drop (Suc j) xs = ys" using xs by (metis drop_Suc list.sel(3) tl_drop)
  then have "drop i ys = drop (Suc j + i) xs" "length ys = length xs - Suc j" by (auto simp: add.commute)
  then have at: "chain (view drive s) b'' (drop (Suc j + i) xs)" "Suc j + i \<le> length xs" using s4(3,4) lt by simp_all
  have o: "off + 508 * of_nat i = of_nat (payload_size * (Suc j + i))" by (simp add: off_def algebra_simps)
  have "fast_tail drive b skip n (of_nat (payload_size * j)) cursor s2
      = ((Some (take c (drop (4 + skip) (view drive s x)) @ d), if cursor = None then None else Some (b'', off + 508 * of_nat i)), s4)"
    using go x s3(1) s4(1) by (simp add: fast_tail_def c off_def Let_def)
  then show ?thesis using s4(2,5) xs cursor_at [OF at len o, of cursor] by auto
qed

lemma read_fast_unfold:
  assumes "eynfs_ctx_check CAP_READ_FS SCHED_COST_FS s = (Some (), s1)" and "offset < unat file_size"
    and st: "(case cursor of Some (cur_block, cur_off) \<Rightarrow>
        if cur_block \<noteq> 0 \<and> offset \<ge> unat cur_off then (cur_block, offset - unat cur_off) else (first, offset)
      | None \<Rightarrow> (first, offset)) = (b0, skip0)"
    and sk: "read_skip drive b0 skip0 (txn_touch drive FS_TXN_TAG_FILE (of_nat bufsize) s1) = (Some (b, skip), s2)"
  shows "eynfs_read_file_fast drive first file_size bufsize offset cursor s
    = fast_tail drive b skip (min bufsize (unat file_size - offset)) (of_nat (offset - skip)) cursor s2"
proof -
  have n: "(if bufsize < unat file_size - offset then bufsize else unat file_size - offset) = min bufsize (unat file_size - offset)"
    by (simp add: min_def)
  show ?thesis using assms(1,2) sk unfolding eynfs_read_file_fast_def fast_tail_def Let_def n st by simp
qed

text \<open>C16. The fast reader is equivalent to the plain one: with any correct cursor it returns the same
  bytes, leaves a correct cursor for the next call, also when the next call reads backwards or past the
  end, and changes no block. The chain has to end below 4 GiB, where the offset of the cursor wraps.\<close>

theorem read_file_fast_equiv:
  assumes rd: "readable drive B (de_first_block e) xs s" and ty: "de_type e = EYNFS_TYPE_FILE"
    and ok: "cursor_ok (view drive s) xs cursor" and len: "payload_size * length xs < 2 ^ 32"
  shows "\<exists>r cursor' s'. eynfs_read_file_fast drive (de_first_block e) (de_size e) bufsize offset cursor s = ((r, cursor'), s')
    \<and> r = fst (eynfs_read_file drive e bufsize offset s) \<and> cursor_ok (view drive s) xs cursor'
    \<and> (\<forall>b \<in> B. view drive s' b = view drive s b) \<and> fs_ready drive B s'"
proof -
  have r: "fs_ready drive B s" and ch: "chain (view drive s) (de_first_block e) xs" and B: "set xs \<subseteq> B"
    and full: "full_blocks (view drive s) xs" using rd by (simp_all add: readable_def)
  obtain s1 where s1: "eynfs_ctx_check CAP_READ_FS SCHED_COST_FS s = (Some (), s1)" "becomes drive B (view drive s) s s1"
    using ctx_check_becomes [OF r, of CAP_READ_FS SCHED_COST_FS] r by (auto simp: fs_ready_def)
  define n where "n = min bufsize (unat (de_size e) - offset)"
  have slow: "fst (eynfs_read_file drive e bufsize offset s) = Some (take n (drop offset (payload (view drive s) xs)))"
    using read_file_payload [OF rd ty, of bufsize offset] by (auto simp: n_def)
  show ?thesis
  proof (cases "offset < unat (de_size e)")
    case False
    then show ?thesis using s1 slow ok by (auto simp: eynfs_read_file_fast_def becomes_def n_def)
  next
    case True
    obtain b0 skip0 where st: "(case cursor of Some (cur_block, cur_off) \<Rightarrow>
        if cur_block \<noteq> 0 \<and> offset \<ge> unat cur_off then (cur_block, offset - unat cur_off) else (de_first_block e, offset)
      | None \<Rightarrow> (de_first_block e, offset)) = (b0, skip0)" by fastforce
    obtain j0 where j0: "j0 \<le> length xs" "chain (view drive s) b0 (drop j0 xs)" "skip0 + payload_size * j0 = offset"
      "drop offset (payload (view drive s) xs) = drop skip0 (payload (view drive s) (drop j0 xs))"
      using cursor_start [OF ok ch full st] by blast
    have B0: "set (drop j0 xs) \<subseteq> B" and full0: "full_blocks (view drive s) (drop j0 xs)"
      using B full set_drop_subset [of j0 xs] by (auto simp: full_blocks_def)
    obtain b' skip j1 s2 where sk: "read_skip drive b0 skip0 (txn_touch drive FS_TXN_TAG_FILE (of_nat bufsize) s1) = (Some (b', skip), s2)"
      and s2: "chain (view drive s) b' (drop j1 (drop j0 xs))" "becomes drive B (view drive s) s s2"
      and j1: "j1 \<le> length (drop j0 xs)" "skip + payload_size * j1 = skip0" and skip: "b' \<noteq> 0 \<longrightarrow> skip < payload_size"
      and pay1: "drop skip0 (payload (view drive s) (drop j0 xs)) = drop skip (payload (view drive s) (drop j1 (drop j0 xs)))"
      using read_skip_payload [OF becomes_trans [OF s1(2) txn_touch_becomes [OF becomes_ready [OF s1(2)]]] j0(2) B0 full0, of skip0] by blast
    have j: "j0 + j1 \<le> length xs" "offset - skip = payload_size * (j0 + j1)" "drop j1 (drop j0 xs) = drop (j0 + j1) xs"
      using j0(1,3) j1 by (auto simp: algebra_simps)
    show ?thesis using fast_tail [OF s2(2) s2(1) [unfolded j(3)] j(1) B full len skip, of n cursor] slow pay1 j0(4)
        read_fast_unfold [OF s1(1) True st sk] by (auto simp: j(2,3) n_def becomes_def add.commute)
  qed
qed

section \<open>Witnesses\<close>

text \<open>A file of two blocks, the first of them dirty in the cache.\<close>

definition demo_file :: dir_entry where
  "demo_file = zero_entry\<lparr>de_type := EYNFS_TYPE_FILE, de_first_block := 5, de_size := 1000\<rparr>"

lemma demo_views: "view 0 eynfs_full 5 = replicate 512 7" "b \<noteq> 5 \<Longrightarrow> view 0 eynfs_full b = replicate 512 0"
proof -
  show "view 0 eynfs_full 5 = replicate 512 7" by (rule view_cached [OF eynfs_full_content])
  assume "b \<noteq> 5"
  then have "content (table eynfs_full) b = None"
    by (simp add: content_None eynfs_full_table) (simp add: eynfs_full_def)
  then show "view 0 eynfs_full b = replicate 512 0"
    by (simp add: view_uncached) (simp add: eynfs_full_def eynfs_demo_def sector_def)
qed

lemma get32_replicate: "get32 (replicate 512 c) 0 = ucast c OR push_bit 8 (ucast c) OR push_bit 16 (ucast c) OR push_bit 24 (ucast c)"
  by (simp add: get32_def)

lemma demo_readable: "readable 0 UNIV (de_first_block demo_file) [5, 0x07070707] eynfs_full"
  by (simp add: readable_def eynfs_full_ready demo_views demo_file_def get32_replicate)

lemma demo_payload: "take 4 (drop 506 (payload (view 0 eynfs_full) [5, 0x07070707])) = [7, 7, 0, 0]"
proof -
  have "payload (view 0 eynfs_full) [5, 0x07070707] = replicate 508 7 @ replicate 508 0"
    by (simp add: demo_views data_of_def)
  then show ?thesis by (simp add: numeral_2_eq_2)
qed

theorem read_file_spec_witness: "fst (eynfs_read_file 0 demo_file 4 506 eynfs_full) = Some [7, 7, 0, 0]"
  using read_file_spec [OF demo_readable, of 4 506] demo_payload by (auto simp: demo_file_def)

theorem read_file_fast_equiv_witness:
  "fst (fst (eynfs_read_file_fast 0 5 1000 4 510 (Some (0x07070707, 508)) eynfs_full)) = fst (eynfs_read_file 0 demo_file 4 510 eynfs_full)"
proof -
  have "cursor_ok (view 0 eynfs_full) [5, 0x07070707] (Some (0x07070707, 508))"
    unfolding cursor_ok_def by (auto intro!: exI [of _ 1] simp: demo_views get32_replicate)
  then show ?thesis using read_file_fast_equiv [OF demo_readable, of "Some (0x07070707, 508)" 4 510] by (auto simp: demo_file_def)
qed

end
