(* ===== verification/EynfsDir.thy ===== *)
theory EynfsDir
  imports EynfsRead EynfsPath
begin

text \<open>
  Superblock and directories: the encodings round trip, looking up a name is a search for the first
  matching entry of the directory's chain of blocks, walking a path is looking up its components one
  after the other, and a directory table that is written reads back.
\<close>

section \<open>Encodings\<close>

lemma superblock_roundtrip: "superblock_of (blit zero_block 0 (superblock_bytes sb)) = sb"
  by (simp add: superblock_of_def superblock_bytes_def blit_def get32_def bytes_of32_def join32)

lemma join16_bytes: "(ucast (ucast w :: u8) :: u16) OR push_bit 8 (ucast (ucast (drop_bit 8 w) :: u8)) = (w :: u16)"
  by (rule bit_word_eqI) (auto simp: bit_simps)

lemma length_dir_entry_bytes [simp]: "length (de_name e) = 32 \<Longrightarrow> length (dir_entry_bytes e) = 52"
  by (simp add: dir_entry_bytes_def bytes_of16_def)

lemma get16_append_right: "length xs \<le> i \<Longrightarrow> get16 (xs @ ys) i = get16 ys (i - length xs)"
  by (auto simp: get16_def nth_append Suc_diff_le)

lemma dir_entry_roundtrip:
  assumes "length (de_name e) = 32"
  shows "dir_entry_at (xs @ dir_entry_bytes e @ ys) (length xs) = e"
proof -
  have n: "take 32 (dir_entry_bytes e @ ys) = de_name e"
    by (simp only: dir_entry_bytes_def append_assoc) (simp add: assms)
  have t: "(dir_entry_bytes e @ ys) ! 32 = de_type e" "(dir_entry_bytes e @ ys) ! 33 = de_flags e"
    "get16 (dir_entry_bytes e @ ys) 34 = de_reserved e" "get32 (dir_entry_bytes e @ ys) 36 = de_size e"
    "get32 (dir_entry_bytes e @ ys) 40 = de_first_block e" "get32 (dir_entry_bytes e @ ys) 44 = de_extra0 e"
    "get32 (dir_entry_bytes e @ ys) 48 = de_extra1 e"
    using assms by (simp_all add: dir_entry_bytes_def bytes_of16_def nth_append get16_def join16_bytes get32_def bytes_of32_def join32)
  have nth: "(xs @ zs) ! (length xs + k) = zs ! k" for zs :: bytes and k by simp
  show ?thesis
    by (rule dir_entry.equality) (simp_all add: dir_entry_at_def n t get16_append_right get32_append_right del: take_append)
qed

lemma length_put_entry [simp, len_simps]:
  "length (de_name e) = 32 \<Longrightarrow> i < 9 \<Longrightarrow> length buf = 512 \<Longrightarrow> length (put_entry buf i e) = 512"
  by (simp add: put_entry_def)

lemma block_entry_put_same:
  assumes "length (de_name e) = 32" "i < 9" "length buf = 512"
  shows "block_entry (put_entry buf i e) i = e"
  using dir_entry_roundtrip [OF assms(1), of "take (4 + 52 * i) buf"] assms
  by (simp add: block_entry_def put_entry_def blit_def min_def)

text \<open>An entry depends on its 52 bytes only.\<close>

lemma dir_entry_at_cong:
  assumes "take 52 (drop k b) = take 52 (drop k b')" "k + 52 \<le> length b" "k + 52 \<le> length b'"
  shows "dir_entry_at b k = dir_entry_at b' k"
proof -
  have nth: "b ! (k + j) = b' ! (k + j)" if "j < 52" for j
    using arg_cong [OF assms(1), of "\<lambda>l. l ! j"] assms(2,3) that by simp
  have nth': "b ! (j + k) = b' ! (j + k)" if "j < 52" for j using nth [OF that] by (simp add: add.commute)
  have "take 32 (drop k b) = take 32 (drop k b')"
    using arg_cong [OF assms(1), of "take 32"] by simp
  then show ?thesis
    using assms(2) by (simp add: dir_entry_at_def get16_def get32_def nth nth')
qed

lemma block_entry_put_other:
  assumes "length (de_name e) = 32" "i < 9" "j < 9" "i \<noteq> j" "length buf = 512"
  shows "block_entry (put_entry buf i e) j = block_entry buf j"
  unfolding block_entry_def
proof (rule dir_entry_at_cong)
  show "take 52 (drop (4 + 52 * j) (put_entry buf i e)) = take 52 (drop (4 + 52 * j) buf)"
  proof (rule nth_equalityI)
    fix k assume "k < length (take 52 (drop (4 + 52 * j) (put_entry buf i e)))"
    then have k: "k < 52" by simp
    have "4 + 52 * j + k < 4 + 52 * i \<or> 4 + 52 * i + 52 \<le> 4 + 52 * j + k" using assms(4) k by linarith
    then have "put_entry buf i e ! (4 + 52 * j + k) = buf ! (4 + 52 * j + k)"
      using assms k unfolding put_entry_def by (intro blit_nth_out) auto
    then show "take 52 (drop (4 + 52 * j) (put_entry buf i e)) ! k = take 52 (drop (4 + 52 * j) buf) ! k"
      using assms k by simp
  qed (use assms in simp)
qed (use assms in simp_all)

lemma get32_put_entry:
  assumes "length (de_name e) = 32" "i < 9" "length buf = 512"
  shows "get32 (put_entry buf i e) 0 = get32 buf 0"
proof -
  have "put_entry buf i e ! k = buf ! k" if "k < 4" for k
    using assms that unfolding put_entry_def by (intro blit_nth_out) auto
  then show ?thesis by (simp add: get32_def)
qed

section \<open>Looking up a name\<close>

text \<open>The entries of a directory, and the lookup as a function of the views.\<close>

definition dir_entries :: "(u32 \<Rightarrow> bytes) \<Rightarrow> u32 list \<Rightarrow> dir_entry list" where
  "dir_entries v xs = concat (map (\<lambda>x. map (block_entry (v x)) [0..<entries_per_block]) xs)"

fun find_from :: "(u32 \<Rightarrow> bytes) \<Rightarrow> bytes \<Rightarrow> nat \<Rightarrow> u32 \<Rightarrow> u32 \<Rightarrow> (dir_entry \<times> u32) option" where
  "find_from v name 0 b base = None"
| "find_from v name (Suc n) b base =
     (if b = 0 then None
      else case scan_block (v b) name of
        Some i \<Rightarrow> Some (block_entry (v b) i, base + of_nat i)
      | None \<Rightarrow> find_from v name n (get32 (v b) 0) (base + 9))"

definition find_name :: "(u32 \<Rightarrow> bytes) \<Rightarrow> u32 \<Rightarrow> bytes \<Rightarrow> (dir_entry \<times> u32) option" where
  "find_name v b name = (if peek name = 0 then None else find_from v name 4096 b 0)"

text \<open>The links of the blocks of \<open>B\<close> stay in \<open>B\<close>; the directory cache, which nothing fills, is empty.\<close>

definition links_in :: "(u32 \<Rightarrow> bytes) \<Rightarrow> u32 set \<Rightarrow> bool" where
  "links_in v B \<longleftrightarrow> (\<forall>x \<in> B. get32 (v x) 0 \<in> insert 0 B)"

definition no_dir_cache :: "'a eynfs_scheme \<Rightarrow> bool" where
  "no_dir_cache s \<longleftrightarrow> (\<forall>c \<in> set (dir_cache s). dc_entries c = None)"

lemma find_loop_pure:
  "becomes drive B (view drive s) s s1 \<Longrightarrow> links_in (view drive s) C \<Longrightarrow> C \<subseteq> B \<Longrightarrow> b \<in> insert 0 C \<Longrightarrow>
   \<exists>s2. find_loop drive name n b base s1 = (find_from (view drive s) name n b base, s2) \<and> becomes drive B (view drive s) s s2"
proof (induction n arbitrary: b base s1)
  case (Suc n)
  show ?case
  proof (cases "b = 0")
    case False
    then have b: "b \<in> C" "b \<in> B" using Suc.prems(3,4) by auto
    obtain s2 where s2: "eynfs_cache_get_block drive b (account s1) = (Some (view drive s b), s2)" "becomes drive B (view drive s) s s2"
      using get_account_becomes [OF Suc.prems(1) b(2)] by blast
    have next_b: "get32 (view drive s b) 0 \<in> insert 0 C" using Suc.prems(2) b by (simp add: links_in_def)
    show ?thesis using Suc.IH [OF s2(2) Suc.prems(2,3) next_b, of "base + 9"] False s2
      by (cases "scan_block (view drive s b) name") auto
  qed (use Suc.prems(1) in auto)
qed auto

lemma find_in_dir_pure:
  assumes bec: "becomes drive B (view drive s) s s1" and "links_in (view drive s) C" "C \<subseteq> B" "b \<in> insert 0 C" "no_dir_cache s"
  shows "\<exists>s2. eynfs_find_in_dir drive b name s1 = (find_name (view drive s) b name, s2) \<and> becomes drive B (view drive s) s s2"
proof -
  have r: "fs_ready drive B s1" by (rule becomes_ready [OF bec])
  obtain s2 where s2: "eynfs_ctx_check CAP_READ_FS SCHED_COST_FS s1 = (Some (), s2)" "becomes drive B (view drive s1) s1 s2"
    using ctx_check_becomes [OF r, of CAP_READ_FS SCHED_COST_FS] r by (auto simp: fs_ready_def)
  note b2 = becomes_trans [OF bec s2(2)]
  show ?thesis
  proof (cases "peek name = 0")
    case True
    then show ?thesis using s2 b2 by (auto simp: eynfs_find_in_dir_def find_name_def)
  next
    case False
    let ?s = "txn_touch drive FS_TXN_TAG_DIR 52 s2"
    have b3: "becomes drive B (view drive s) s ?s" by (rule becomes_trans [OF b2 txn_touch_becomes [OF becomes_ready [OF b2]]])
    have "dir_cache ?s = dir_cache s" using b3 by (simp add: becomes_def fs_frame_def)
    then have none: "eynfs_dir_cache_find b ?s = None"
      using assms(5) by (simp add: eynfs_dir_cache_find_def find_None_iff no_dir_cache_def)
    show ?thesis using find_loop_pure [OF b3 assms(2-4), of name 4096 0] False s2(1) none
      by (simp add: eynfs_find_in_dir_def find_name_def Let_def)
  qed
qed

lemma find_from_chain:
  "chain v b xs \<Longrightarrow> length xs \<le> n \<Longrightarrow>
   find_from v name n b base = map_option (\<lambda>i. (dir_entries v xs ! i, base + of_nat i))
     (first_idx (\<lambda>i. name_matches (dir_entries v xs ! i) name) (length (dir_entries v xs)))"
proof (induction xs arbitrary: b n base)
  case Nil
  then show ?case by (cases n) (simp_all add: dir_entries_def first_idx_None)
next
  case (Cons x xs)
  then obtain m where n: "n = Suc m" "length xs \<le> m" by (cases n) auto
  let ?es = "map (block_entry (v x)) [0..<9]"
  have es: "dir_entries v (x # xs) = ?es @ dir_entries v xs" by (simp add: dir_entries_def)
  have first: "scan_block (v x) name = first_idx (\<lambda>i. name_matches ((?es @ dir_entries v xs) ! i) name) 9"
    unfolding scan_block_def by (rule first_idx_cong) (simp_all add: nth_append)
  let ?R = "dir_entries v xs"
  have "first_idx (\<lambda>i. name_matches ((?es @ ?R) ! i) name) (9 + length ?R) =
      (case scan_block (v x) name of Some i \<Rightarrow> Some i
       | None \<Rightarrow> map_option ((+) 9) (first_idx (\<lambda>i. name_matches (?R ! i) name) (length ?R)))"
    unfolding first_idx_add first [symmetric] by (simp add: nth_append cong: option.case_cong)
  moreover have "length (?es @ ?R) = 9 + length ?R" by simp
  ultimately have F: "first_idx (\<lambda>i. name_matches (dir_entries v (x # xs) ! i) name) (length (dir_entries v (x # xs))) =
      (case scan_block (v x) name of Some i \<Rightarrow> Some i
       | None \<Rightarrow> map_option ((+) 9) (first_idx (\<lambda>i. name_matches (?R ! i) name) (length ?R)))"
    unfolding es by simp
  have x: "x \<noteq> 0" "b = x" "chain v (get32 (v x) 0) xs" using Cons.prems(1) by auto
  show ?case
  proof (cases "scan_block (v x) name")
    case None
    then show ?thesis using Cons.IH [OF x(3) n(2), of "base + 9"] x n F
      by (simp add: option.map_comp o_def es nth_append algebra_simps)
  next
    case (Some i)
    then have "i < 9" by (simp add: scan_block_def first_idx_Some)
    then show ?thesis using Some x n F by (simp add: es nth_append)
  qed
qed

section \<open>Walking a path\<close>

text \<open>The specification of a walk: look up one component after the other, each but the last being a
  directory; the result is the last entry, its directory and its index there.\<close>

fun walk :: "(u32 \<Rightarrow> bytes \<Rightarrow> (dir_entry \<times> u32) option) \<Rightarrow> u32 \<Rightarrow> bytes list \<Rightarrow> (dir_entry \<times> u32 \<times> u32) option" where
  "walk look dir [] = None"
| "walk look dir [t] = map_option (\<lambda>(e, i). (e, dir, i)) (look dir t)"
| "walk look dir (t # u # ts) =
     (case look dir t of None \<Rightarrow> None
      | Some (e, i) \<Rightarrow> if de_type e \<noteq> EYNFS_TYPE_DIR then None else walk look (de_first_block e) (u # ts))"

text \<open>The first blocks of the directories in \<open>B\<close> are in \<open>B\<close>.\<close>

definition dirs_in :: "(u32 \<Rightarrow> bytes) \<Rightarrow> u32 set \<Rightarrow> bool" where
  "dirs_in v B \<longleftrightarrow> (\<forall>b name e i. b \<in> insert 0 B \<and> find_name v b name = Some (e, i) \<and> de_type e = EYNFS_TYPE_DIR
     \<longrightarrow> de_first_block e \<in> insert 0 B)"

lemma traverse_loop_walk:
  assumes "links_in (view drive s) B" "dirs_in (view drive s) B" "no_dir_cache s"
  shows "becomes drive B (view drive s) s s1 \<Longrightarrow> cur \<in> insert 0 B \<Longrightarrow> 0 \<notin> set save \<Longrightarrow>
   \<exists>s2. traverse_loop drive token save cur s1 = (walk (find_name (view drive s)) cur (token # components save), s2)
     \<and> becomes drive B (view drive s) s s2"
proof (induction save arbitrary: token cur s1 rule: measure_induct_rule [of length])
  case (less save)
  let ?look = "find_name (view drive s)"
  obtain s2 where s2: "eynfs_find_in_dir drive cur token s1 = (?look cur token, s2)" "becomes drive B (view drive s) s s2"
    using find_in_dir_pure [OF less.prems(1) assms(1) order.refl less.prems(2) assms(3), of token] by blast
  show ?case
  proof (cases "?look cur token")
    case None
    then have "walk ?look cur (token # components save) = None" by (cases "components save") simp_all
    then show ?thesis using None s2 by (subst traverse_loop.simps) simp
  next
    case (Some ei)
    then obtain e i where ei: "?look cur token = Some (e, i)" by (cases ei) simp
    show ?thesis
    proof (cases "components save")
      case Nil
      then obtain r where "strtok_r slash save = (None, r)" using strtok_components [OF less.prems(3)] by (cases "strtok_r slash save") auto
      then show ?thesis using ei s2 Nil by (subst traverse_loop.simps) simp
    next
      case (Cons t ts)
      then obtain r where r: "strtok_r slash save = (Some t, r)" "components r = ts" "0 \<notin> set r" "length r < length save"
        using strtok_components [OF less.prems(3)] by auto
      have step: "traverse_loop drive token save cur s1 =
          (if de_type e \<noteq> EYNFS_TYPE_DIR then (None, s2) else traverse_loop drive t r (de_first_block e) s2)"
        using ei s2 r(1) by (subst traverse_loop.simps) simp
      show ?thesis
      proof (cases "de_type e = EYNFS_TYPE_DIR")
        case True
        then have "de_first_block e \<in> insert 0 B" using assms(2) less.prems(2) ei unfolding dirs_in_def by blast
        then show ?thesis using less.IH [OF r(4) s2(2) _ r(3), of "de_first_block e" t] step True ei Cons r(2) by simp
      qed (use step s2 ei Cons in auto)
    qed
  qed
qed

text \<open>What \<open>eynfs_traverse_path\<close> walks is the first 255 bytes of the path.\<close>

lemma traverse_path_walk:
  assumes r: "fs_ready drive B s" and l: "links_in (view drive s) B" and d: "dirs_in (view drive s) B" and n: "no_dir_cache s"
    and root: "sb_root_dir_block sb \<in> insert 0 B" and p: "peek path = 0x2F" "cstr path \<noteq> slash"
  defines "ts \<equiv> components (take 255 (cstr path))"
  shows "\<exists>s'. eynfs_traverse_path drive sb path s
      = (if ts = [] then Some (stack_entry s, 0, 0) else walk (find_name (view drive s)) (sb_root_dir_block sb) ts, s')
    \<and> becomes drive B (view drive s) s s'"
proof -
  let ?tp = "(strncpy (replicate 256 0) path 256)[256 - 1 := 0]"
  have c: "cstr ?tp = take 255 (cstr path)" using cstr_strncpy [of 256 "replicate 256 0" path] by simp
  have z: "0 \<notin> set (take 255 (cstr path))" by (meson in_set_takeD zero_notin_cstr)
  have nz: "strcmp path slash \<noteq> 0" using p(2) by (simp add: strcmp_0)
  have start: "eynfs_traverse_path drive sb path s =
      (case strtok_r slash (take 255 (cstr path)) of
         (None, _) \<Rightarrow> (Some (stack_entry s, 0, 0), s)
       | (Some token, save) \<Rightarrow> traverse_loop drive token save (sb_root_dir_block sb) s)"
    using p(1) nz c by (simp add: eynfs_traverse_path_def)
  show ?thesis
  proof (cases ts)
    case Nil
    then obtain r where "strtok_r slash (take 255 (cstr path)) = (None, r)"
      using strtok_components [OF z] by (cases "strtok_r slash (take 255 (cstr path))") (auto simp: ts_def)
    then show ?thesis using start Nil becomes_refl [OF r] by simp
  next
    case (Cons t us)
    then obtain save where "strtok_r slash (take 255 (cstr path)) = (Some t, save)" "components save = us" "0 \<notin> set save"
      using strtok_components [OF z] by (auto simp: ts_def)
    then show ?thesis using start Cons traverse_loop_walk [OF l d n becomes_refl [OF r] root, of save t] by simp
  qed
qed

lemma chain_links: "chain v b xs \<Longrightarrow> b \<in> insert 0 (set xs) \<and> links_in v (set xs)"
proof (induction xs arbitrary: b)
  case (Cons x xs)
  then have "get32 (v x) 0 \<in> insert 0 (set xs) \<and> links_in v (set xs)" by auto
  then show ?case using Cons.prems by (auto simp: links_in_def)
qed (simp add: links_in_def)

text \<open>Looking up a name in a directory of at most 4096 blocks finds the first entry, in the order of
  the chain and of the slots, that is in use and agrees with the name in its first 32 bytes, and its index in
  this order; it fails exactly when there is none. No block changes.\<close>

theorem find_in_dir_first:
  assumes "fs_ready drive B s" and "no_dir_cache s" and "chain (view drive s) dir xs" and "set xs \<subseteq> B"
    and "length xs \<le> 4096" and "peek name \<noteq> 0"
  defines "es \<equiv> dir_entries (view drive s) xs"
  shows "\<exists>s'. eynfs_find_in_dir drive dir name s
      = (map_option (\<lambda>i. (es ! i, of_nat i)) (first_idx (\<lambda>i. name_matches (es ! i) name) (length es)), s')
    \<and> (\<forall>b \<in> B. view drive s' b = view drive s b) \<and> fs_ready drive B s'"
proof -
  have l: "dir \<in> insert 0 (set xs)" "links_in (view drive s) (set xs)" using chain_links [OF assms(3)] by simp_all
  obtain s' where s': "eynfs_find_in_dir drive dir name s = (find_name (view drive s) dir name, s')"
    "becomes drive B (view drive s) s s'"
    using find_in_dir_pure [OF becomes_refl [OF assms(1)] l(2) assms(4) l(1) assms(2), of name] by blast
  have "find_name (view drive s) dir name
      = map_option (\<lambda>i. (es ! i, of_nat i)) (first_idx (\<lambda>i. name_matches (es ! i) name) (length es))"
    using find_from_chain [OF assms(3,5), of name 0] assms(6) by (simp add: find_name_def es_def)
  then show ?thesis using s' by (auto simp: becomes_def)
qed

text \<open>C14. eynfs_traverse_path is a walk over the components of the path: the maximal pieces between
  slashes of its first 255 bytes are looked up one after the other from the root directory, every piece but
  the last has to be a directory, and the result is the last entry with its directory and index. No block
  changes.\<close>

theorem traverse_path_components:
  assumes "fs_ready drive B s" and "links_in (view drive s) B" and "dirs_in (view drive s) B" and "no_dir_cache s"
    and "sb_root_dir_block sb \<in> insert 0 B" and "peek path = 0x2F"
    and "components (take 255 (cstr path)) \<noteq> []"
  shows "\<exists>s'. eynfs_traverse_path drive sb path s
      = (walk (find_name (view drive s)) (sb_root_dir_block sb) (components (take 255 (cstr path))), s')
    \<and> (\<forall>b \<in> B. view drive s' b = view drive s b) \<and> fs_ready drive B s'"
proof -
  have "cstr path \<noteq> slash" using assms(7) by (auto simp: components_def)
  then show ?thesis using traverse_path_walk [OF assms(1-6)] assms(7) by (auto simp: becomes_def)
qed

text \<open>A path of two or more slashes has no component, and eynfs_traverse_path reports success for it
  with an entry that was never assigned: the result is the content of an uninitialised variable.\<close>

theorem traverse_slashes_uninitialised:
  assumes "set (take 255 (cstr path)) = {0x2F}" and "cstr path \<noteq> [0x2F]"
  shows "eynfs_traverse_path drive sb path s = (Some (stack_entry s, 0, 0), s)"
proof -
  let ?p = "take 255 (cstr path)"
  have skip: "set q \<subseteq> {0x2F} \<Longrightarrow> skip_delims slash q = []" for q
    by (induction q) (auto simp: strchr_slash)
  have "strtok_r slash ?p = (None, [])" using skip [of ?p] assms(1) by (simp add: strtok_r_def)
  moreover have "peek path = 0x2F"
  proof -
    have ne: "?p \<noteq> []" using assms(1) by auto
    then have "hd ?p = 0x2F" using assms(1) hd_in_set [OF ne] by (metis singletonD)
    then have "hd (cstr path) = 0x2F" "cstr path \<noteq> []" using ne by (simp_all add: hd_take)
    then have "peek (cstr path) = 0x2F" by (cases "cstr path") simp_all
    then show ?thesis unfolding peek_cstr [of path] .
  qed
  moreover have "cstr ((strncpy (replicate 256 0) path 256)[256 - 1 := 0]) = ?p"
    using cstr_strncpy [of 256 "replicate 256 0" path] by simp
  moreover have "strcmp path slash \<noteq> 0" using assms(2) by (simp add: strcmp_0)
  ultimately show ?thesis by (simp add: eynfs_traverse_path_def)
qed

end
