(* ===== verification/EynfsTable.thy ===== *)
theory EynfsTable
  imports EynfsDir
begin

text \<open>
  Superblocks and directory tables on the disk: what is written reads back. These operations go to
  the sectors directly, without the block cache.
\<close>

section \<open>Sectors as blocks\<close>

definition raw :: "u8 \<Rightarrow> 'a disk_scheme \<Rightarrow> u32 \<Rightarrow> bytes" where
  "raw drive s b = sector s drive (eynfs_block_to_lba b)"

definition raw_ready :: "u8 \<Rightarrow> u32 set \<Rightarrow> 'a disk_scheme \<Rightarrow> bool" where
  "raw_ready drive B s \<longleftrightarrow> healthy drive (eynfs_block_to_lba ` B) s
     \<and> \<not> ctx_denies CAP_READ_FS (dk_kc s) \<and> \<not> ctx_denies CAP_WRITE_FS (dk_kc s)"

text \<open>Ready again, with the sectors \<open>f\<close> on \<open>B\<close>.\<close>

definition raw_becomes :: "u8 \<Rightarrow> u32 set \<Rightarrow> (u32 \<Rightarrow> bytes) \<Rightarrow> 'a disk_scheme \<Rightarrow> bool" where
  "raw_becomes drive B f s' \<longleftrightarrow> raw_ready drive B s' \<and> (\<forall>c \<in> B. raw drive s' c = f c)"

lemma same_disk_raw: "same_disk s s' \<Longrightarrow> raw drive s' = raw drive s" "same_disk s s' \<Longrightarrow> raw_ready drive B s' = raw_ready drive B s"
  by (simp_all add: raw_def fun_eq_iff same_disk_sector raw_ready_def same_disk_healthy) (simp add: same_disk_def)

lemma raw_becomes_same: "raw_ready drive B s \<Longrightarrow> same_disk s s' \<Longrightarrow> raw_becomes drive B (raw drive s) s'"
  by (simp add: raw_becomes_def same_disk_raw)

lemma raw_check:
  assumes "raw_ready drive B s" "cap = CAP_READ_FS \<or> cap = CAP_WRITE_FS \<or> cap = CAP_READ_FS OR CAP_WRITE_FS"
  shows "\<exists>s'. eynfs_ctx_check cap cost s = (Some (), s') \<and> same_disk s s'"
proof -
  have "\<not> ctx_denies cap (dk_kc s)" using assms ctx_denies_or [of CAP_READ_FS CAP_WRITE_FS "dk_kc s"] by (auto simp: raw_ready_def)
  then show ?thesis by (simp add: eynfs_ctx_check_def)
qed

lemma raw_read:
  assumes "raw_ready drive B s" "b \<in> B"
  shows "\<exists>s'. ata_read_sector drive (eynfs_block_to_lba b) s = (Some (raw drive s b), s') \<and> same_disk s s'"
  using ata_read_healthy [of drive "eynfs_block_to_lba ` B" s "eynfs_block_to_lba b"] assms by (simp add: raw_ready_def raw_def)

lemma raw_read_later:
  assumes "raw_ready drive B s" "b \<in> B" "same_disk s s1"
  shows "\<exists>s'. ata_read_sector drive (eynfs_block_to_lba b) s1 = (Some (raw drive s b), s') \<and> same_disk s s'"
  using raw_read [of drive B s1 b] assms same_disk_raw [OF assms(3)] same_disk_trans [OF assms(3)] by auto

lemma raw_write:
  assumes "raw_ready drive B s" "b \<in> B"
  shows "\<exists>s'. ata_write_sector drive (eynfs_block_to_lba b) d s = (Some (), s') \<and> raw_becomes drive B ((raw drive s)(b := d)) s'"
proof -
  have h: "healthy drive (eynfs_block_to_lba ` B) s" using assms(1) by (simp add: raw_ready_def)
  obtain s' where w: "ata_write_sector drive (eynfs_block_to_lba b) d s = (Some (), s')"
    "healthy drive (eynfs_block_to_lba ` B) s'"
    "\<forall>c \<in> B. sector s' drive (eynfs_block_to_lba c) = (if c = b then d else sector s drive (eynfs_block_to_lba c))"
    "\<forall>caps. ctx_denies caps (dk_kc s') = ctx_denies caps (dk_kc s)"
    using ata_write_healthy [OF h, of "eynfs_block_to_lba b" d] assms(2) by auto
  then show ?thesis using assms(1) by (auto simp: raw_becomes_def raw_ready_def raw_def)
qed

lemma same_disk_account [simp]: "same_disk s (account s)"
  by (simp add: account_def)

lemma same_disk_touch [simp]: "same_disk s (txn_touch d t l s)"
  by (simp add: txn_touch_def same_disk_def)

section \<open>The superblock\<close>

lemma same_disk_init: "same_disk s (eynfs_init_caches s)"
proof -
  obtain r s' where a: "eynfs_block_cache_alloc_if_needed s = (r, s')" by fastforce
  then have "same_disk s s'" by (cases rule: alloc_cases) simp_all
  then show ?thesis by (simp add: eynfs_init_caches_def a same_disk_def)
qed

lemma raw_read_superblock:
  assumes "raw_ready drive B s" "0 \<in> B"
  shows "\<exists>s'. eynfs_read_superblock drive EYNFS_SUPERBLOCK_LBA s = (Some (superblock_of (raw drive s 0)), s') \<and> same_disk s s'"
proof -
  obtain s1 where s1: "eynfs_ctx_check CAP_READ_FS SCHED_COST_FS s = (Some (), s1)" "same_disk s s1"
    using raw_check [OF assms(1)] by blast
  let ?s = "txn_touch drive FS_TXN_TAG_SUPERBLOCK 36 s1"
  have sd: "same_disk s ?s" by (rule same_disk_trans [OF s1(2) same_disk_touch])
  have lba: "eynfs_block_to_lba 0 = EYNFS_SUPERBLOCK_LBA" by (simp add: eynfs_block_to_lba_def)
  obtain s2 where s2: "ata_read_sector drive EYNFS_SUPERBLOCK_LBA ?s = (Some (raw drive s 0), s2)" "same_disk ?s s2"
    using raw_read [of drive B ?s 0] assms same_disk_raw [OF sd] unfolding lba by auto
  have "same_disk s s2" by (rule same_disk_trans [OF sd s2(2)])
  moreover have "same_disk s2 ((eynfs_init_caches s2)\<lparr>caches_initialized := True\<rparr>)"
    using same_disk_init [of s2] by (simp add: same_disk_def)
  ultimately show ?thesis using s1(1) s2(1) same_disk_trans by (auto simp: eynfs_read_superblock_def)
qed

text \<open>A superblock that is written reads back unchanged, whatever its fields are, and no other
  block of the disk is touched.\<close>

theorem superblock_write_read:
  assumes "raw_ready drive B s" and "0 \<in> B"
  shows "\<exists>s1 s2. eynfs_write_superblock drive EYNFS_SUPERBLOCK_LBA sb s = (Some (), s1)
     \<and> eynfs_read_superblock drive EYNFS_SUPERBLOCK_LBA s1 = (Some sb, s2)
     \<and> (\<forall>b \<in> B. b \<noteq> 0 \<longrightarrow> raw drive s2 b = raw drive s b)"
proof -
  obtain s0 where s0: "eynfs_ctx_check CAP_WRITE_FS SCHED_COST_FS s = (Some (), s0)" "same_disk s s0"
    using raw_check [OF assms(1)] by blast
  let ?s = "txn_touch drive FS_TXN_TAG_SUPERBLOCK 36 s0"
  have sd: "same_disk s ?s" by (rule same_disk_trans [OF s0(2) same_disk_touch])
  have lba: "eynfs_block_to_lba 0 = EYNFS_SUPERBLOCK_LBA" by (simp add: eynfs_block_to_lba_def)
  obtain s1 where s1: "ata_write_sector drive EYNFS_SUPERBLOCK_LBA (blit zero_block 0 (superblock_bytes sb)) ?s = (Some (), s1)"
    "raw_becomes drive B ((raw drive s)(0 := blit zero_block 0 (superblock_bytes sb))) s1"
    using raw_write [of drive B ?s 0 "blit zero_block 0 (superblock_bytes sb)"] assms same_disk_raw [OF sd] unfolding lba by auto
  have r1: "raw_ready drive B s1" "raw drive s1 0 = blit zero_block 0 (superblock_bytes sb)"
    using s1(2) assms(2) by (auto simp: raw_becomes_def)
  obtain s2 where s2: "eynfs_read_superblock drive EYNFS_SUPERBLOCK_LBA s1 = (Some sb, s2)" "same_disk s1 s2"
    using raw_read_superblock [OF r1(1) assms(2)] r1(2) by (auto simp: superblock_roundtrip)
  then show ?thesis using s0 s1 same_disk_raw [OF s2(2)]
    by (auto simp: eynfs_write_superblock_def raw_becomes_def intro!: exI [of _ s1])
qed

section \<open>A directory block\<close>

definition named :: "dir_entry list \<Rightarrow> bool" where
  "named es \<longleftrightarrow> (\<forall>e \<in> set es. length (de_name e) = 32)"

lemma length_entries: "named es \<Longrightarrow> length (concat (map dir_entry_bytes es)) = 52 * length es"
  by (induction es) (simp_all add: named_def)

lemma dir_block_bytes:
  assumes "named es" "length es \<le> 9"
  shows "dir_block_bytes es nx = bytes_of32 nx @ concat (map dir_entry_bytes es) @ replicate (508 - 52 * length es) 0"
  using assms length_entries [OF assms(1)]
  by (simp add: dir_block_bytes_def blit_def zero_block_def del: length_concat)

lemma zero_entry_at: "k + 52 \<le> 512 \<Longrightarrow> dir_entry_at zero_block k = zero_entry"
  by (simp add: dir_entry_at_def zero_block_def zero_entry_def get16_def get32_def min_def)

lemma dir_block_bytes_entries:
  assumes "named es" "length es \<le> 9"
  shows "map (block_entry (dir_block_bytes es nx)) [0..<9] = es @ replicate (9 - length es) zero_entry"
    and "get32 (dir_block_bytes es nx) 0 = nx" and "length (dir_block_bytes es nx) = 512"
proof -
  let ?b = "dir_block_bytes es nx" and ?c = "\<lambda>es. concat (map dir_entry_bytes es)"
  note b = dir_block_bytes [OF assms, of nx]
  show len: "length ?b = 512" using assms(2) by (simp add: b length_entries [OF assms(1)] del: length_concat)
  show "get32 ?b 0 = nx" using get32_append [of "[]" 0 nx] by (simp add: b)
  show "map (block_entry ?b) [0..<9] = es @ replicate (9 - length es) zero_entry"
  proof (rule nth_equalityI)
    show "length (map (block_entry ?b) [0..<9]) = length (es @ replicate (9 - length es) zero_entry)" using assms(2) by simp
  next
    fix i assume "i < length (map (block_entry ?b) [0..<9])"
    then have i: "i < 9" by simp
    have "block_entry ?b i = (es @ replicate (9 - length es) zero_entry) ! i"
    proof (cases "i < length es")
      case True
      then have es: "es = take i es @ es ! i # drop (Suc i) es" by (metis id_take_nth_drop)
      have nm: "named (take i es)" using assms(1) by (auto simp: named_def dest: in_set_takeD)
      have pre: "length (bytes_of32 nx @ ?c (take i es)) = 4 + 52 * i"
        using length_entries [OF nm] True by simp
      have "?b = (bytes_of32 nx @ ?c (take i es)) @ dir_entry_bytes (es ! i) @ ?c (drop (Suc i) es) @ replicate (508 - 52 * length es) 0"
        unfolding b by (subst es) simp
      moreover have "length (de_name (es ! i)) = 32" using assms(1) True by (simp add: named_def)
      ultimately have "dir_entry_at ?b (4 + 52 * i) = es ! i" using dir_entry_roundtrip pre by metis
      then show ?thesis using True by (simp add: block_entry_def nth_append)
    next
      case False
      have k: "4 + 52 * i + 52 \<le> 512" using i by simp
      have "length (bytes_of32 nx @ ?c es) \<le> 4 + 52 * i" using False length_entries [OF assms(1)] by simp
      then have "take 52 (drop (4 + 52 * i) ?b) = take 52 (drop (4 + 52 * i) zero_block)"
        using k False unfolding b zero_block_def by (simp add: length_entries [OF assms(1)] min_def del: length_concat)
      then have "dir_entry_at ?b (4 + 52 * i) = zero_entry"
        using dir_entry_at_cong [of "4 + 52 * i" ?b zero_block] zero_entry_at [OF k] k len by (simp add: zero_block_def)
      then show ?thesis using False i by (simp add: block_entry_def nth_append)
    qed
    then show "map (block_entry ?b) [0..<9] ! i = (es @ replicate (9 - length es) zero_entry) ! i" using i by simp
  qed
qed

section \<open>Reading a table\<close>

lemma table_entries_9: "table_entries 9 buf = map terminate_name (map (block_entry buf) [0..<9])"
  by (simp add: table_entries_def)

lemma table_entries_take: "k \<le> 9 \<Longrightarrow> table_entries k buf = take k (table_entries 9 buf)"
  unfolding table_entries_def take_map by (simp del: upt_rec_numeral)

lemma read_table_loop:
  assumes "raw_ready drive B s" "chain (raw drive s) b xs" "set xs \<subseteq> B" "length acc \<le> n" "same_disk s s1"
  shows "\<exists>s2. read_table_loop drive n b acc s1
       = (Some (acc @ take (n - length acc) (map terminate_name (dir_entries (raw drive s) xs))), s2) \<and> same_disk s s2"
  using assms(2-5)
proof (induction xs arbitrary: b acc s1)
  case Nil
  then show ?case by (subst read_table_loop.simps) (simp add: dir_entries_def)
next
  case (Cons x xs)
  then have b: "b = x" "x \<noteq> 0" "x \<in> B" "chain (raw drive s) (get32 (raw drive s x) 0) xs" by auto
  show ?case
  proof (cases "length acc < n")
    case False
    then show ?thesis using Cons.prems by (subst read_table_loop.simps) simp
  next
    case True
    have sa: "same_disk s (account s1)" by (rule same_disk_trans [OF Cons.prems(4) same_disk_account])
    obtain s2 where s2: "ata_read_sector drive (eynfs_block_to_lba x) (account s1) = (Some (raw drive s x), s2)" "same_disk s s2"
      using raw_read_later [OF assms(1) b(3) sa] by blast
    define m where "m = n - length acc"
    define k where "k = (if m < 9 then m else 9)"
    define es where "es = map terminate_name (map (block_entry (raw drive s x)) [0..<9])"
    have es9: "length es = 9" by (simp add: es_def)
    have k: "k \<le> 9" "table_entries k (raw drive s x) = take k es"
      using table_entries_take [of k] by (auto simp: k_def table_entries_9 es_def)
    let ?acc = "acc @ take k es"
    have all: "map terminate_name (dir_entries (raw drive s) (x # xs)) = es @ map terminate_name (dir_entries (raw drive s) xs)"
      by (simp add: dir_entries_def es_def)
    have step: "read_table_loop drive n b acc s1 =
        (if length ?acc \<ge> n then (Some ?acc, s2) else read_table_loop drive n (get32 (raw drive s x) 0) ?acc s2)"
    proof -
      have "(if n - length acc < 9 then n - length acc else 9) = k" by (simp add: k_def m_def)
      then show ?thesis using True b s2 k(2) by (subst read_table_loop.simps) (simp only: Let_def on_ok_simps if_True simp_thms)
    qed
    show ?thesis
    proof (cases "length ?acc \<ge> n")
      case fin: True
      then have "k = m" using k(1) True es9 by (auto simp: m_def k_def split: if_splits)
      then have "take m (es @ map terminate_name (dir_entries (raw drive s) xs)) = take k es" using k(1) es9 by simp
      then show ?thesis using step fin s2 by (simp add: all m_def)
    next
      case False
      then have "k = 9" "length ?acc \<le> n" using k(1) es9 by (auto simp: m_def k_def split: if_splits)
      then show ?thesis using Cons.IH [OF b(4) _ _ s2(2), of ?acc] Cons.prems(2) step False es9 True
        by (simp add: all m_def)
    qed
  qed
qed

lemma read_dir_table:
  assumes "raw_ready drive B s" "chain (raw drive s) b xs" "set xs \<subseteq> B"
  shows "\<exists>s'. eynfs_read_dir_table drive b n s = (Some (take n (map terminate_name (dir_entries (raw drive s) xs))), s') \<and> same_disk s s'"
proof -
  obtain s1 where s1: "eynfs_ctx_check CAP_READ_FS SCHED_COST_FS s = (Some (), s1)" "same_disk s s1"
    using raw_check [OF assms(1)] by blast
  then show ?thesis using read_table_loop [OF assms, of "[]" n s1] by (simp add: eynfs_read_dir_table_def)
qed

section \<open>Writing a table\<close>

lemma raw_becomes_trans:
  "raw_becomes drive B f s1 \<Longrightarrow> raw_becomes drive B (raw drive s1) s2 \<Longrightarrow> raw_becomes drive B f s2"
  by (simp add: raw_becomes_def)

lemma chain_blocks:
  "raw_ready drive B s \<Longrightarrow> chain (raw drive s) b xs \<Longrightarrow> set xs \<subseteq> B \<Longrightarrow> length xs \<le> n \<Longrightarrow> same_disk s s1 \<Longrightarrow>
   \<exists>s2. chain_blocks drive n b s1 = (xs, s2) \<and> same_disk s s2"
proof (induction xs arbitrary: b n s1)
  case Nil
  then show ?case by (cases n) auto
next
  case (Cons x xs)
  then obtain m where n: "n = Suc m" "length xs \<le> m" by (cases n) auto
  have x: "x \<in> B" "b = x" "x \<noteq> 0" "chain (raw drive s) (get32 (raw drive s x) 0) xs" using Cons.prems by auto
  obtain s2 where "ata_read_sector drive (eynfs_block_to_lba x) (account s1) = (Some (raw drive s x), s2)" "same_disk s s2"
    using raw_read_later [OF Cons.prems(1) x(1) same_disk_trans [OF Cons.prems(5) same_disk_account]] by blast
  then show ?case using Cons.IH [OF Cons.prems(1) x(4) _ n(2)] Cons.prems(3) x n by fastforce
qed

lemma raw_write_dir_block:
  assumes "raw_ready drive B s" "b \<in> B"
  shows "\<exists>s'. eynfs_write_dir_block drive b es nx s = (Some (), s') \<and> raw_becomes drive B ((raw drive s)(b := dir_block_bytes es nx)) s'"
proof -
  obtain s1 where s1: "eynfs_ctx_check CAP_WRITE_FS SCHED_COST_FS s = (Some (), s1)" "same_disk s s1"
    using raw_check [OF assms(1)] by blast
  then show ?thesis using raw_write [of drive B s1 b] assms same_disk_raw [OF s1(2)] by (simp add: eynfs_write_dir_block_def)
qed

text \<open>The blocks that \<open>n\<close> entries fill, and the table with its last block filled up.\<close>

definition blocks_for :: "nat \<Rightarrow> nat" where
  "blocks_for n = (n + 8) div 9"

definition padded :: "dir_entry list \<Rightarrow> dir_entry list" where
  "padded es = es @ replicate (9 * blocks_for (length es) - length es) zero_entry"

lemma blocks_for_0 [simp]: "blocks_for 0 = 0"
  by (simp add: blocks_for_def)

lemma blocks_for_small: "0 < n \<Longrightarrow> n \<le> 9 \<Longrightarrow> blocks_for n = 1"
  unfolding blocks_for_def by linarith

lemma blocks_for_large: "9 < n \<Longrightarrow> blocks_for n = Suc (blocks_for (n - 9))"
  unfolding blocks_for_def by linarith

lemma write_blocks:
  "raw_ready drive B s \<Longrightarrow> distinct xs \<Longrightarrow> 0 \<notin> set xs \<Longrightarrow> set xs \<subseteq> B \<Longrightarrow> es \<noteq> [] \<Longrightarrow> named es \<Longrightarrow> length es \<le> 9 * length xs \<Longrightarrow>
   \<exists>s'. write_blocks drive sb xs es s = (Some ([], 0), s') \<and> raw_ready drive B s'
      \<and> chain (raw drive s') (hd xs) (take (blocks_for (length es)) xs)
      \<and> dir_entries (raw drive s') (take (blocks_for (length es)) xs) = padded es
      \<and> (\<forall>c \<in> B. c \<notin> set xs \<longrightarrow> raw drive s' c = raw drive s c)"
proof (induction xs arbitrary: es s)
  case (Cons x xs)
  let ?n = "length es"
  have x: "x \<in> B" "x \<noteq> 0" "x \<notin> set xs" using Cons.prems by auto
  have ra: "raw_ready drive B (account s)" "raw drive (account s) = raw drive s"
    using Cons.prems(1) by (simp_all add: same_disk_raw [OF same_disk_account])
  show ?case
  proof (cases "?n \<le> 9")
    case True
    obtain s1 where s1: "eynfs_write_dir_block drive x es 0 (account s) = (Some (), s1)"
      "raw_becomes drive B ((raw drive s)(x := dir_block_bytes es 0)) s1"
      using raw_write_dir_block [OF ra(1) x(1)] ra(2) by metis
    have w: "write_blocks drive sb (x # xs) es s = (Some ([], 0), s1)"
      using True Cons.prems(5) s1(1) by (cases xs) (auto simp: Let_def)
    have at: "raw drive s1 x = dir_block_bytes es 0" using s1(2) x(1) by (simp add: raw_becomes_def)
    note ent = dir_block_bytes_entries [OF Cons.prems(6) True, of 0]
    have "blocks_for ?n = 1" using True Cons.prems(5) by (simp add: blocks_for_small)
    then show ?thesis using w s1(2) x at ent by (auto simp: raw_becomes_def dir_entries_def padded_def)
  next
    case False
    then obtain y ys where xs: "xs = y # ys" using Cons.prems(7) by (cases xs) auto
    let ?t = "take 9 es" and ?d = "drop 9 es"
    obtain s1 where s1: "eynfs_write_dir_block drive x ?t y (account s) = (Some (), s1)"
      "raw_becomes drive B ((raw drive s)(x := dir_block_bytes ?t y)) s1"
      using raw_write_dir_block [OF ra(1) x(1)] ra(2) by metis
    have nm: "named ?t" "named ?d" using Cons.prems(6) by (auto simp: named_def dest: in_set_takeD in_set_dropD)
    have r1: "raw_ready drive B s1" using s1(2) by (simp add: raw_becomes_def)
    have "distinct xs" "0 \<notin> set xs" "set xs \<subseteq> B" "?d \<noteq> []" "length ?d \<le> 9 * length xs" using Cons.prems False by auto
    note ih = Cons.IH [OF r1 this(1-4) nm(2) this(5)]
    obtain s2 where s2: "write_blocks drive sb xs ?d s1 = (Some ([], 0), s2)" "raw_ready drive B s2"
      "chain (raw drive s2) (hd xs) (take (blocks_for (length ?d)) xs)"
      "dir_entries (raw drive s2) (take (blocks_for (length ?d)) xs) = padded ?d"
      "\<forall>c \<in> B. c \<notin> set xs \<longrightarrow> raw drive s2 c = raw drive s1 c"
      using ih by blast
    have w: "write_blocks drive sb (x # xs) es s = (Some ([], 0), s2)"
      using False Cons.prems(5) s1(1) s2(1) xs by (auto simp: Let_def)
    have at: "raw drive s2 x = dir_block_bytes ?t y" using s2(5) s1(2) x by (simp add: raw_becomes_def)
    note ent = dir_block_bytes_entries [OF nm(1), of y]
    have bf: "blocks_for ?n = Suc (blocks_for (length ?d))" using False by (simp add: blocks_for_large)
    have "padded es = ?t @ padded ?d" using False by (simp add: padded_def bf add.commute flip: append_assoc)
    moreover have "dir_entries (raw drive s2) (take (blocks_for ?n) (x # xs)) = ?t @ padded ?d"
      using s2(4) at ent(1) False by (simp add: bf dir_entries_def)
    moreover have "chain (raw drive s2) (hd (x # xs)) (take (blocks_for ?n) (x # xs))"
      using s2(3) at ent(2) x(2) xs by (simp add: bf)
    moreover have "\<forall>c \<in> B. c \<notin> set (x # xs) \<longrightarrow> raw drive s2 c = raw drive s c"
      using s2(5) s1(2) by (auto simp: raw_becomes_def)
    ultimately show ?thesis using w s2(2) by auto
  qed
qed simp

lemma chain_suffix: "chain v b (ys @ x # zs) \<Longrightarrow> chain v x (x # zs)"
  by (induction ys arbitrary: b) auto

lemma chain_unique: "chain v b xs \<Longrightarrow> chain v b ys \<Longrightarrow> xs = ys"
proof (induction xs arbitrary: b ys)
  case (Cons x xs)
  then show ?case by (cases ys) auto
qed (auto simp: chain_0)

lemma chain_distinct: "chain v b xs \<Longrightarrow> distinct xs \<and> 0 \<notin> set xs"
proof (induction xs arbitrary: b)
  case (Cons x xs)
  have "x \<notin> set xs"
  proof
    assume "x \<in> set xs"
    then obtain ys zs where xs: "xs = ys @ x # zs" by (meson split_list)
    have "chain v (get32 (v x) 0) (ys @ x # zs)" using Cons.prems xs by simp
    then have "chain v (get32 (v x) 0) zs" using chain_suffix by fastforce
    moreover have "chain v (get32 (v x) 0) xs" using Cons.prems by simp
    ultimately have "xs = zs" by (rule chain_unique [rotated])
    then show False using xs by simp
  qed
  then show ?case using Cons by auto
qed simp


section \<open>Witnesses\<close>

text \<open>A disk with the directory /bin (block 2) in the root directory (block 1), and the file /bin/ls.\<close>

definition demo_bin :: dir_entry where
  "demo_bin = new_entry [0x62, 0x69, 0x6E] EYNFS_TYPE_DIR 2"

definition demo_ls :: dir_entry where
  "demo_ls = new_entry [0x6C, 0x73] EYNFS_TYPE_FILE 3"

definition eynfs_tree :: eynfs_fs where
  "eynfs_tree = eynfs.extend (eynfs_demo\<lparr>media := (\<lambda>_ lba. if lba = 2049 then dir_block_bytes [demo_bin] 0
      else if lba = 2050 then dir_block_bytes [demo_ls] 0 else zero_block)\<rparr>) \<lparr>stack_entry = zero_entry\<rparr>"

lemma demo_names: "de_name demo_bin = [0x62, 0x69, 0x6E] @ replicate 29 0" "de_name demo_ls = [0x6C, 0x73] @ replicate 30 0"
  by code_simp+

lemma demo_named: "named [demo_bin]" "named [demo_ls]"
  by (simp_all add: named_def demo_names)

lemma eynfs_tree_ready: "fs_ready 0 B eynfs_tree"
  by (auto simp: eynfs_tree_def eynfs.defs eynfs_demo_def fs_ready_def healthy_def table_ok_def table_def uniq_def
      eynfs_block_cache_is_enabled_def ctx_denies_def kctx_boot_def)

lemma eynfs_tree_cache: "no_dir_cache eynfs_tree"
  by (auto simp: no_dir_cache_def eynfs_tree_def eynfs.defs eynfs_demo_def)

lemma eynfs_tree_view: "view 0 eynfs_tree b = (if b = 1 then dir_block_bytes [demo_bin] 0
    else if b = 2 then dir_block_bytes [demo_ls] 0 else zero_block)"
proof -
  have "content (table eynfs_tree) b = None"
    by (simp add: table_def content_None eynfs_tree_def eynfs.defs eynfs_demo_def eynfs_block_cache_is_enabled_def)
  moreover have "eynfs_block_to_lba b = 2049 \<longleftrightarrow> b = 1" "eynfs_block_to_lba b = 2050 \<longleftrightarrow> b = 2"
    using lba_inject [of b 1] lba_inject [of b 2] by (simp_all add: eynfs_block_to_lba_def)
  moreover have "sector eynfs_tree 0 l = (if l = 2049 then dir_block_bytes [demo_bin] 0
      else if l = 2050 then dir_block_bytes [demo_ls] 0 else zero_block)" for l
    by (simp add: sector_def eynfs_tree_def eynfs.defs eynfs_demo_def)
  ultimately show ?thesis by (simp only: view_uncached)
qed

lemma eynfs_tree_chain: "chain (view 0 eynfs_tree) 1 [1]" "chain (view 0 eynfs_tree) 2 [2]"
  by (simp_all add: eynfs_tree_view dir_block_bytes_entries demo_named)

lemma demo_entries: "dir_entries (view 0 eynfs_tree) [1] = demo_bin # replicate 8 zero_entry"
  "dir_entries (view 0 eynfs_tree) [2] = demo_ls # replicate 8 zero_entry"
  using dir_block_bytes_entries(1) [OF demo_named(1)] dir_block_bytes_entries(1) [OF demo_named(2)]
  by (simp_all add: dir_entries_def eynfs_tree_view)

lemma first_idx_0: "P 0 \<Longrightarrow> 0 < n \<Longrightarrow> first_idx P n = Some 0"
  by (simp add: first_idx_Some)

lemma demo_matches: "name_matches demo_bin [0x62, 0x69, 0x6E]" "name_matches demo_ls [0x6C, 0x73]"
  by code_simp+

lemma demo_lookup: "find_name (view 0 eynfs_tree) 1 [0x62, 0x69, 0x6E] = Some (demo_bin, 0)"
  "find_name (view 0 eynfs_tree) 2 [0x6C, 0x73] = Some (demo_ls, 0)"
  by (simp_all add: find_name_def find_from_chain [OF eynfs_tree_chain(1)] find_from_chain [OF eynfs_tree_chain(2)]
      demo_entries first_idx_0 demo_matches)

theorem find_in_dir_first_witness: "fst (eynfs_find_in_dir 0 2 [0x6C, 0x73] eynfs_tree) = Some (demo_ls, 0)"
  using find_in_dir_first [OF eynfs_tree_ready eynfs_tree_cache eynfs_tree_chain(2) subset_UNIV, of "[0x6C, 0x73]"]
  by (auto simp: demo_entries first_idx_0 demo_matches)

theorem traverse_path_components_witness:
  "fst (eynfs_traverse_path 0 (superblock_of zero_block\<lparr>sb_root_dir_block := 1\<rparr>) [0x2F, 0x62, 0x69, 0x6E, 0x2F, 0x2F, 0x6C, 0x73] eynfs_tree)
     = Some (demo_ls, 2, 0)"
proof -
  have c: "components (take 255 (cstr [0x2F, 0x62, 0x69, 0x6E, 0x2F, 0x2F, 0x6C, 0x73])) = [[0x62, 0x69, 0x6E], [0x6C, 0x73]]" by code_simp
  have "de_type demo_bin = 2" "de_first_block demo_bin = 2" by (simp_all add: demo_bin_def new_entry_def)
  then have "walk (find_name (view 0 eynfs_tree)) 1 [[0x62, 0x69, 0x6E], [0x6C, 0x73]] = Some (demo_ls, 2, 0)"
    by (simp add: demo_lookup)
  then show ?thesis
    using traverse_path_components [OF eynfs_tree_ready, of UNIV "superblock_of zero_block\<lparr>sb_root_dir_block := 1\<rparr>"
        "[0x2F, 0x62, 0x69, 0x6E, 0x2F, 0x2F, 0x6C, 0x73]"] c
    by (auto simp: links_in_def dirs_in_def eynfs_tree_cache)
qed

theorem traverse_slashes_uninitialised_witness:
  "fst (eynfs_traverse_path 0 (superblock_of zero_block) [0x2F, 0x2F] (eynfs_tree\<lparr>stack_entry := demo_ls\<rparr>)) = Some (demo_ls, 0, 0)"
  using traverse_slashes_uninitialised [of "[0x2F, 0x2F]" 0 "superblock_of zero_block" "eynfs_tree\<lparr>stack_entry := demo_ls\<rparr>"]
  by (simp add: cstr_Cons)

lemma eynfs_tree_raw: "raw 0 eynfs_tree b = view 0 eynfs_tree b"
proof -
  have "content (table eynfs_tree) b = None"
    by (simp add: table_def content_None eynfs_tree_def eynfs.defs eynfs_demo_def eynfs_block_cache_is_enabled_def)
  then show ?thesis by (simp add: raw_def view_uncached)
qed

lemma eynfs_tree_raw_ready: "raw_ready 0 UNIV eynfs_tree"
  using eynfs_tree_ready [of UNIV] by (simp add: raw_ready_def fs_ready_def)

theorem superblock_write_read_witness:
  "\<exists>s1. eynfs_write_superblock 0 EYNFS_SUPERBLOCK_LBA (superblock_of (replicate 512 9)) eynfs_tree = (Some (), s1)
     \<and> fst (eynfs_read_superblock 0 EYNFS_SUPERBLOCK_LBA s1) = Some (superblock_of (replicate 512 9))"
  using superblock_write_read [OF eynfs_tree_raw_ready UNIV_I, of "superblock_of (replicate 512 9)"] by (metis fst_conv)


end
