(* ===== verification/EynfsFd.thy ===== *)
theory EynfsFd
  imports EynfsFile
begin

text \<open>
  The file descriptors and the streaming writer of \<open>src/drivers/eynfs.c\<close>. A result of -1 is
  \<open>None\<close>; the outer \<open>option\<close> is \<open>None\<close> when a loop of a called operation does not end.
  \<open>physical_drive\<close> is the drive of the weak symbol \<open>get_current_physical_drive\<close>, \<open>None\<close> when
  it is not linked in.
\<close>

record open_file =
  f_used :: bool
  f_drive :: u8
  f_sb :: superblock
  f_entry :: dir_entry
  f_offset :: u32
  f_mode :: int
  f_parent_block :: u32
  f_entry_index :: u32

record eynfs_fds = eynfs_fs +
  eynfs_files :: "open_file list"
  physical_drive :: "u8 option"

abbreviation (input) EYNFS_MAX_OPEN_FILES :: nat where "EYNFS_MAX_OPEN_FILES \<equiv> 32"

definition set_file :: "nat \<Rightarrow> (open_file \<Rightarrow> open_file) \<Rightarrow> 'a eynfs_fds_scheme \<Rightarrow> 'a eynfs_fds_scheme" where
  "set_file fd f s = s\<lparr>eynfs_files := (eynfs_files s)[fd := f (eynfs_files s ! fd)]\<rparr>"

section \<open>Opening\<close>

definition eynfs_default_drive :: "'a eynfs_fds_scheme \<Rightarrow> u8" where
  "eynfs_default_drive s = (case physical_drive s of Some d \<Rightarrow> d | None \<Rightarrow> 0)"

fun drive_digits :: "u32 \<Rightarrow> nat \<Rightarrow> bytes \<Rightarrow> (u32 \<times> nat \<times> bytes) option" where
  "drive_digits drive ndigits [] = Some (drive, ndigits, [])"
| "drive_digits drive ndigits (c # p) =
     (if 0x30 \<le> sint c \<and> sint c \<le> 0x39 then
        let drive = drive * 10 + (scast c - 0x30) in
        if drive > 255 then None else drive_digits drive (Suc ndigits) p
      else Some (drive, ndigits, c # p))"

text \<open>The path behind the prefix and the drive, or the arguments unchanged.\<close>

definition eynfs_parse_drive_prefix :: "bytes \<Rightarrow> u8 \<Rightarrow> bytes \<times> u8" where
  "eynfs_parse_drive_prefix path drive =
     (case drive_digits 0 0 path of
        None \<Rightarrow> (path, drive)
      | Some (d, ndigits, p) \<Rightarrow>
          if ndigits = 0 then (path, drive)
          else if peek p \<noteq> 0x3A \<or> peek (tl p) \<noteq> 0x2F then (path, drive)
          else (tl p, ucast d))"

definition parent_of :: "bytes \<Rightarrow> bytes" where
  "parent_of path =
     (let parent_path = cstr ((strncpy (replicate 256 0) path (256 - 1))[256 - 1 := 0]) in
      case strrchr parent_path 0x2F of
        Some i \<Rightarrow> if i \<noteq> 0 then take i parent_path else slash
      | None \<Rightarrow> slash)"

definition file_name_of :: "bytes \<Rightarrow> bytes" where
  "file_name_of path = (case strrchr path 0x2F of None \<Rightarrow> path | Some i \<Rightarrow> drop (Suc i) path)"

text \<open>Every failing return of \<open>eynfs_open\<close> but one clears \<open>used\<close> again.\<close>

definition open_fails :: "nat \<Rightarrow> 'a eynfs_fds_scheme \<Rightarrow> (nat option \<times> 'a eynfs_fds_scheme) option" where
  "open_fails fd s = Some (None, set_file fd (\<lambda>f. f\<lparr>f_used := False\<rparr>) s)"

definition open_created :: "nat \<Rightarrow> bytes \<Rightarrow> int \<Rightarrow> u8 \<Rightarrow> 'a eynfs_fds_scheme \<Rightarrow> (nat option \<times> 'a eynfs_fds_scheme) option" where
  "open_created fd path mode disk s =
     (if mode = 1 \<or> mode = 2 then
        let filename = file_name_of path; sb = f_sb (eynfs_files s ! fd) in
        case eynfs_traverse_path disk sb (parent_of path) s of
          (None, s) \<Rightarrow> open_fails fd s
        | (Some (parent_entry, _, _), s) \<Rightarrow>
            let dir = de_first_block parent_entry in
            Option.bind (eynfs_create_entry disk sb dir filename EYNFS_TYPE_FILE s) (\<lambda>(r, s).
              if r = None then open_fails fd s
              else case eynfs_find_in_dir disk dir filename s of
                (None, s) \<Rightarrow> open_fails fd s
              | (Some (e, entry_idx), s) \<Rightarrow>
                  Some (Some fd, set_file fd (\<lambda>f. f\<lparr>f_entry := e, f_parent_block := dir, f_entry_index := entry_idx,
                    f_offset := (if mode = 2 then de_size e else f_offset f)\<rparr>) s))
      else open_fails fd s)"

definition eynfs_open :: "bytes \<Rightarrow> int \<Rightarrow> 'a eynfs_fds_scheme \<Rightarrow> (nat option \<times> 'a eynfs_fds_scheme) option" where
  "eynfs_open path mode s =
     (case first_idx (\<lambda>i. \<not> f_used (eynfs_files s ! i)) EYNFS_MAX_OPEN_FILES of
        None \<Rightarrow> Some (None, s)
      | Some fd \<Rightarrow>
          case eynfs_parse_drive_prefix path (eynfs_default_drive s) of (path, disk) \<Rightarrow>
          let s = set_file fd (\<lambda>f. f\<lparr>f_used := True, f_drive := disk, f_offset := 0, f_mode := mode\<rparr>) s in
          case eynfs_read_superblock disk EYNFS_SUPERBLOCK_LBA s of
            (None, s) \<Rightarrow> open_fails fd s
          | (Some sb, s) \<Rightarrow>
              let s = set_file fd (\<lambda>f. f\<lparr>f_sb := sb\<rparr>) s in
              if sb_magic sb \<noteq> EYNFS_MAGIC then open_fails fd s
              else if strcmp path slash = 0 then
                (if mode \<noteq> 0 then Some (None, s)
                 else Some (Some fd, set_file fd (\<lambda>f. f\<lparr>f_parent_block := 0, f_entry_index := 0,
                   f_entry := zero_entry\<lparr>de_type := EYNFS_TYPE_DIR, de_first_block := sb_root_dir_block sb\<rparr>\<rparr>) s))
              else case eynfs_traverse_path disk sb path s of
                (None, s) \<Rightarrow> open_created fd path mode disk s
              | (Some (e, parent_block, entry_idx), s) \<Rightarrow>
                  Some (Some fd, set_file fd (\<lambda>f. f\<lparr>
                    f_entry := (if mode = 1 then e\<lparr>de_size := 0, de_first_block := 0\<rparr> else e),
                    f_offset := (if mode = 2 then de_size e else f_offset f),
                    f_parent_block := parent_block, f_entry_index := entry_idx\<rparr>) s))"

definition valid_fd :: "int \<Rightarrow> 'a eynfs_fds_scheme \<Rightarrow> bool" where
  "valid_fd fd s \<longleftrightarrow> \<not> (fd < 0 \<or> fd \<ge> int EYNFS_MAX_OPEN_FILES \<or> \<not> f_used (eynfs_files s ! nat fd))"

definition close_fd :: "int \<Rightarrow> 'a eynfs_fds_scheme \<Rightarrow> unit option \<times> 'a eynfs_fds_scheme" where
  "close_fd fd s = (if \<not> valid_fd fd s then (None, s) else (Some (), set_file (nat fd) (\<lambda>f. f\<lparr>f_used := False\<rparr>) s))"

section \<open>Reading and writing\<close>

text \<open>The listing of a directory; \<open>snprintf\<close> has room for each line, as \<open>written < size - 100\<close>.\<close>

fun list_dir :: "dir_entry list \<Rightarrow> int \<Rightarrow> int \<Rightarrow> bytes" where
  "list_dir [] room written = []"
| "list_dir (e # es) room written =
     (if \<not> written < room - 100 then []
      else if de_name e ! 0 \<noteq> 0 then
        let line = cstr (de_name e) @ (if de_type e = EYNFS_TYPE_DIR then [0x2F] else []) @ [0x0A]
        in line @ list_dir es room (written + int (length line))
      else list_dir es room written)"

text \<open>\<open>int read(int fd, void* buf, int size)\<close>, with \<open>size\<close> as the word \<open>count\<close>.\<close>

definition read_fd :: "int \<Rightarrow> u32 \<Rightarrow> 'a eynfs_fds_scheme \<Rightarrow> bytes option \<times> 'a eynfs_fds_scheme" where
  "read_fd fd count s =
     (if \<not> valid_fd fd s then (None, s)
      else let f = eynfs_files s ! nat fd in
        if de_type (f_entry f) = EYNFS_TYPE_DIR then
          (if f_offset f = 0 then
             (case fs_malloc s of (p, s) \<Rightarrow>
              if p = 0 then (None, s)
              else on_ok (eynfs_read_dir_table (f_drive f) (de_first_block (f_entry f)) 48 s) (\<lambda>entries s.
                (Some (list_dir entries (sint count) 0), set_file (nat fd) (\<lambda>f. f\<lparr>f_offset := 1\<rparr>) s)))
           else (Some [], s))
        else if f_offset f \<ge> de_size (f_entry f) then (Some [], s)
        else
          let to_read = (if f_offset f + count > de_size (f_entry f) then de_size (f_entry f) - f_offset f else count)
          in on_ok (eynfs_read_file (f_drive f) (f_entry f) (unat to_read) (unat (f_offset f)) s) (\<lambda>d s.
               (Some d, if d \<noteq> [] then set_file (nat fd) (\<lambda>f. f\<lparr>f_offset := f_offset f + of_nat (length d)\<rparr>) s else s)))"

definition write_fd :: "int \<Rightarrow> bytes \<Rightarrow> int \<Rightarrow> 'a eynfs_fds_scheme \<Rightarrow> (nat option \<times> 'a eynfs_fds_scheme) option" where
  "write_fd fd buf count s =
     (if \<not> valid_fd fd s then Some (None, s)
      else let f = eynfs_files s ! nat fd in
        if f_mode f \<noteq> 1 \<and> f_mode f \<noteq> 2 then Some (None, s)
        else if count < 0 then Some (None, s)
        else if count = 0 then Some (Some 0, s)
        else if de_type (f_entry f) = EYNFS_TYPE_DIR then Some (None, s)
        else
          let write_off = (if f_mode f = 2 then de_size (f_entry f) else f_offset f) in
          map_option (\<lambda>((n, e), s).
              (n, set_file (nat fd) (\<lambda>f. f\<lparr>f_entry := e,
                    f_offset := (case n of Some k \<Rightarrow> if k > 0 then write_off + of_nat k else f_offset f | None \<Rightarrow> f_offset f)\<rparr>) s))
            (eynfs_write_file_at (f_drive f) (f_sb f) (f_entry f) (take (nat count) buf) write_off
               (f_parent_block f) (f_entry_index f) s))"

section \<open>Streams\<close>

record stream =
  st_drive :: u8
  st_sb :: superblock
  st_entry :: dir_entry
  st_parent_block :: u32
  st_entry_index :: u32
  st_curr_block :: u32
  st_first_block :: u32
  st_size :: u32
  st_pos_in_block :: u16

definition zero_stream :: stream where
  "zero_stream = \<lparr>st_drive = 0, st_sb = superblock_of zero_block, st_entry = zero_entry, st_parent_block = 0,
     st_entry_index = 0, st_curr_block = 0, st_first_block = 0, st_size = 0, st_pos_in_block = 0\<rparr>"

definition stream_path :: "bytes \<Rightarrow> (bytes \<times> bytes) option" where
  "stream_path path =
     (case strrchr path 0x2F of
        Some plen \<Rightarrow> if plen \<ge> 256 then None else Some (if plen = 0 then slash else take plen path, drop (Suc plen) path)
      | None \<Rightarrow> Some (slash, path))"

definition stream_start :: "stream \<Rightarrow> u32 \<Rightarrow> dir_entry \<Rightarrow> u32 \<Rightarrow> 'a eynfs_scheme \<Rightarrow> (int \<times> stream) \<times> 'a eynfs_scheme" where
  "stream_start st dir e index s =
     (let st = st\<lparr>st_entry := e, st_entry_index := index, st_parent_block := dir, st_curr_block := de_first_block e,
                  st_first_block := de_first_block e, st_size := 0, st_pos_in_block := 0\<rparr> in
      if st_curr_block st \<noteq> 0 then
        (case eynfs_cache_write_block (st_drive st) (st_curr_block st) zero_block
                (eynfs_cache_invalidate_block (st_curr_block st) s) of
           (None, s) \<Rightarrow> ((-108, st), s)
         | (Some _, s) \<Rightarrow> ((0, st), s))
      else ((0, st), s))"

definition eynfs_stream_begin :: "u8 \<Rightarrow> bytes \<Rightarrow> 'a eynfs_fs_scheme \<Rightarrow> ((int \<times> stream) \<times> 'a eynfs_fs_scheme) option" where
  "eynfs_stream_begin drive path s =
     (let st = zero_stream\<lparr>st_drive := drive\<rparr> in
      case eynfs_read_superblock drive EYNFS_SUPERBLOCK_LBA s of
        (None, s) \<Rightarrow> Some ((-101, st), s)
      | (Some sb, s) \<Rightarrow>
        let st = st\<lparr>st_sb := sb\<rparr> in
        if sb_magic sb \<noteq> EYNFS_MAGIC \<or> sb_block_size sb \<noteq> 512 then Some ((-102, st), s)
        else case stream_path path of
          None \<Rightarrow> Some ((-103, st), s)
        | Some (parent_path, filename) \<Rightarrow>
          case eynfs_traverse_path drive sb parent_path s of
            (None, s) \<Rightarrow> Some ((-104, st), s)
          | (Some (parent_entry, _, _), s) \<Rightarrow>
            if de_type parent_entry \<noteq> EYNFS_TYPE_DIR then Some ((-105, st), s)
            else let dir = de_first_block parent_entry in
              Option.bind
                (case eynfs_find_in_dir drive dir filename s of
                   (None, s) \<Rightarrow> Some s
                 | (Some _, s) \<Rightarrow> map_option snd (eynfs_delete_entry drive sb dir filename s)) (\<lambda>s.
              Option.bind (eynfs_create_entry drive sb dir filename EYNFS_TYPE_FILE s) (\<lambda>(cr, s).
                if cr = None then Some ((-106, st), s)
                else case eynfs_find_in_dir drive dir filename s of
                  (None, s) \<Rightarrow> Some ((-107, st), s)
                | (Some (e, index), s) \<Rightarrow> Some (stream_start st dir e index s))))"

text \<open>A new current block, linked from the old one.\<close>

definition stream_next_block :: "stream \<Rightarrow> 'a eynfs_scheme \<Rightarrow> (unit option \<times> stream) \<times> 'a eynfs_scheme" where
  "stream_next_block st s =
     (case eynfs_alloc_block (st_drive st) (st_sb st) s of (new_block, s) \<Rightarrow>
      if sint new_block < 0 then ((None, st), s)
      else case on_ok (eynfs_cache_write_block (st_drive st) new_block zero_block (eynfs_cache_invalidate_block new_block s)) (\<lambda>_ s.
          if st_curr_block st \<noteq> 0 then
            on_ok (eynfs_cache_get_block (st_drive st) (st_curr_block st) s) (\<lambda>prev s.
              eynfs_cache_write_block (st_drive st) (st_curr_block st) (put32 prev 0 new_block)
                (eynfs_cache_invalidate_block (st_curr_block st) s))
          else (Some (), s)) of
        (None, s) \<Rightarrow> ((None, st), s)
      | (Some _, s) \<Rightarrow> ((Some (), st\<lparr>st_curr_block := new_block, st_pos_in_block := 0,
            st_first_block := (if st_first_block st = 0 then new_block else st_first_block st)\<rparr>), s))"

lemma stream_next_block_pos: "stream_next_block st s = ((Some u, st'), s') \<Longrightarrow> st_pos_in_block st' = 0"
  by (auto simp: stream_next_block_def split: prod.splits option.splits if_splits)

function stream_loop :: "bytes \<Rightarrow> stream \<Rightarrow> 'a eynfs_scheme \<Rightarrow> (unit option \<times> stream) \<times> 'a eynfs_scheme" where
  "stream_loop data st s =
     (if data = [] then ((Some (), st), s)
      else case (if st_curr_block st = 0 \<or> unat (st_pos_in_block st) \<ge> payload_size then stream_next_block st s
                 else ((Some (), st), s)) of
        ((None, st), s) \<Rightarrow> ((None, st), s)
      | ((Some _, st), s) \<Rightarrow>
          let pos = unat (st_pos_in_block st);
              space = payload_size - pos;
              chunk = (if length data < space then length data else space) in
          case on_ok (eynfs_cache_get_block (st_drive st) (st_curr_block st) s) (\<lambda>block s.
                 eynfs_cache_write_block (st_drive st) (st_curr_block st) (blit block (4 + pos) (take chunk data))
                   (eynfs_cache_invalidate_block (st_curr_block st) s)) of
            (None, s) \<Rightarrow> ((None, st), s)
          | (Some _, s) \<Rightarrow> stream_loop (drop chunk data)
              (st\<lparr>st_pos_in_block := st_pos_in_block st + of_nat chunk, st_size := st_size st + of_nat chunk\<rparr>) s)"
  by pat_completeness auto

termination
  by (relation "measure (\<lambda>(data, _, _). length data)")
    (auto split: if_splits dest!: stream_next_block_pos [OF sym])

declare stream_loop.simps [simp del]

definition eynfs_stream_write :: "bytes \<Rightarrow> stream \<Rightarrow> 'a eynfs_scheme \<Rightarrow> (nat option \<times> stream) \<times> 'a eynfs_scheme" where
  "eynfs_stream_write data st s =
     (case stream_loop data st s of ((r, st), s) \<Rightarrow> ((map_option (\<lambda>_. length data) r, st), s))"

definition eynfs_stream_end :: "stream \<Rightarrow> 'a eynfs_scheme \<Rightarrow> (unit option \<times> stream) \<times> 'a eynfs_scheme" where
  "eynfs_stream_end st s =
     (let e = (st_entry st)\<lparr>de_first_block := st_first_block st, de_size := st_size st\<rparr> in
      case replace_entry (st_drive st) (st_parent_block st) (st_entry_index st) e s of (r, s) \<Rightarrow>
        ((r, st\<lparr>st_entry := e\<rparr>), s))"

end
