(* ===== verification/Partition.thy ===== *)
theory Partition
  imports Disk CStr
begin

text \<open>
  The partition manager of \<open>src/drivers/partition.c\<close>: the MBR partition table, the virtual drives
  that map a partition to a drive of its own, and the swap partition. It uses sectors through
  \<open>Disk\<close> and string operations of \<open>CStr\<close>. The global tables extend the disk record; a
  \<open>disk_info_t\<close> is a value, since every operation works on its own copy of the table. Messages
  and the two printing functions are left out; a function that returns a negative code returns
  \<open>None\<close>. The flags that the code keeps in a byte and sets to 0 or 1 are booleans.
\<close>

section \<open>State\<close>

abbreviation (input) MBR_MAX_PARTITIONS :: nat where "MBR_MAX_PARTITIONS \<equiv> 4"
abbreviation (input) MBR_PARTITION_TABLE_OFFSET :: nat where "MBR_PARTITION_TABLE_OFFSET \<equiv> 446"
abbreviation (input) MBR_PARTITION_ENTRY_SIZE :: nat where "MBR_PARTITION_ENTRY_SIZE \<equiv> 16"
abbreviation (input) MBR_SIGNATURE_OFFSET :: nat where "MBR_SIGNATURE_OFFSET \<equiv> 510"
abbreviation (input) MBR_SIGNATURE :: u16 where "MBR_SIGNATURE \<equiv> 0xAA55"
abbreviation (input) MAX_VIRTUAL_DRIVES :: nat where "MAX_VIRTUAL_DRIVES \<equiv> 8"
abbreviation (input) PART_TYPE_EMPTY :: u8 where "PART_TYPE_EMPTY \<equiv> 0"
abbreviation (input) PART_TYPE_FAT16 :: u8 where "PART_TYPE_FAT16 \<equiv> 0x06"
abbreviation (input) PART_TYPE_FAT32 :: u8 where "PART_TYPE_FAT32 \<equiv> 0x0B"
abbreviation (input) PART_TYPE_LINUX_SWAP :: u8 where "PART_TYPE_LINUX_SWAP \<equiv> 0x82"
abbreviation (input) PART_TYPE_EYNFS :: u8 where "PART_TYPE_EYNFS \<equiv> 0xEF"
abbreviation (input) PART_TYPE_EYNOS_SWAP :: u8 where "PART_TYPE_EYNOS_SWAP \<equiv> 0xE5"

record partition_info =
  pi_drive :: u8
  pi_partition_num :: u8
  pi_type :: u8
  pi_bootable :: bool
  pi_lba_start :: u32
  pi_sector_count :: u32
  pi_size_mb :: u32
  pi_label :: bytes
  pi_mounted :: bool
  pi_fs_type :: u8

record disk_info =
  di_drive :: u8
  di_total_sectors :: u32
  di_total_mb :: u32
  di_partition_count :: u8
  di_partitions :: "partition_info list"
  di_has_valid_mbr :: bool

record virtual_drive =
  vd_in_use :: bool
  vd_physical_drive :: u8
  vd_partition_num :: u8
  vd_lba_offset :: u32
  vd_sector_count :: u32
  vd_fs_type :: u8
  vd_mount_point :: bytes

record swap_partition =
  sw_active :: bool
  sw_drive :: u8
  sw_lba_start :: u32
  sw_sector_count :: u32
  sw_total_pages :: u32
  sw_used_pages :: u32

record parts = disk +
  g_vdrives :: "virtual_drive list"
  g_vdrives_initialized :: bool
  g_swap_partition :: swap_partition

section \<open>Guards and loops\<close>

definition part_ctx_allow :: "u32 \<Rightarrow> u32 \<Rightarrow> 'a disk_scheme \<Rightarrow> bool \<times> 'a disk_scheme" where
  "part_ctx_allow caps cost s = (case ctx_allow caps cost (dk_kc s) of (ok, k) \<Rightarrow> (ok, s\<lparr>dk_kc := k\<rparr>))"

definition part_ctx_account :: "u32 \<Rightarrow> 'a disk_scheme \<Rightarrow> 'a disk_scheme" where
  "part_ctx_account cost s = s\<lparr>dk_kc := ctx_account cost (dk_kc s)\<rparr>"

text \<open>The search loops of this file: \<open>n\<close> rounds from index \<open>i\<close>, charged every fourth round, that
  stop at the first index with \<open>P\<close>. The searched table does not change during the loop.\<close>

fun scan_loop :: "(nat \<Rightarrow> bool) \<Rightarrow> nat \<Rightarrow> nat \<Rightarrow> 'a disk_scheme \<Rightarrow> nat option \<times> 'a disk_scheme" where
  "scan_loop P 0 i s = (None, s)"
| "scan_loop P (Suc n) i s =
     (let s = (if i mod 4 = 0 then part_ctx_account SCHED_COST_FS s else s) in
      if P i then (Some i, s) else scan_loop P n (Suc i) s)"

section \<open>The partition table\<close>

definition partition_detect_fs :: "u8 \<Rightarrow> u32 \<Rightarrow> 'a disk_scheme \<Rightarrow> u8 \<times> 'a disk_scheme" where
  "partition_detect_fs drive lba_start s =
     (case part_ctx_allow CAP_DEV_DISK SCHED_COST_FS s of (ok, s) \<Rightarrow>
      if \<not> ok then (0, s)
      else case ata_read_sector drive lba_start s of
        (None, s) \<Rightarrow> (0, s)
      | (Some buf, s) \<Rightarrow>
          (if get32 buf 0 = 0x45594E46 then PART_TYPE_EYNFS
           else if buf ! 510 = 0x55 \<and> buf ! 511 = 0xAA then
             (if buf ! 82 = 0x46 \<and> buf ! 83 = 0x41 \<and> buf ! 84 = 0x54 then PART_TYPE_FAT32
              else if buf ! 54 = 0x46 \<and> buf ! 55 = 0x41 \<and> buf ! 56 = 0x54 then PART_TYPE_FAT16
              else 0)
           else 0, s))"

text \<open>\<open>snprintf(label, 16, "Part%d", i + 1)\<close> into a zeroed label.\<close>

definition part_label :: "nat \<Rightarrow> bytes" where
  "part_label i = [0x50, 0x61, 0x72, 0x74, 0x31 + of_nat i] @ replicate 11 0"

fun parse_entries :: "u8 \<Rightarrow> bytes \<Rightarrow> nat \<Rightarrow> nat \<Rightarrow> 'a disk_scheme \<Rightarrow> partition_info list \<times> 'a disk_scheme" where
  "parse_entries drive mbr 0 i s = ([], s)"
| "parse_entries drive mbr (Suc n) i s =
     (let s = (if i mod 4 = 0 then part_ctx_account SCHED_COST_FS s else s);
          e = MBR_PARTITION_TABLE_OFFSET + i * MBR_PARTITION_ENTRY_SIZE;
          part = \<lparr>pi_drive = drive, pi_partition_num = of_nat i, pi_type = mbr ! (e + 4),
            pi_bootable = (mbr ! e = 0x80), pi_lba_start = get32 mbr (e + 8),
            pi_sector_count = get32 mbr (e + 12), pi_size_mb = get32 mbr (e + 12) div 2048,
            pi_label = replicate 16 0, pi_mounted = False, pi_fs_type = 0\<rparr>;
          (part, s) =
            (if pi_type part \<noteq> PART_TYPE_EMPTY \<and> pi_sector_count part > 0 then
               (case partition_detect_fs drive (pi_lba_start part) s of (fs, s) \<Rightarrow>
                  (part\<lparr>pi_label := part_label i, pi_fs_type := fs\<rparr>, s))
             else (part, s));
          (rest, s) = parse_entries drive mbr n (Suc i) s
      in (part # rest, s))"

definition partition_read_table :: "u8 \<Rightarrow> 'a disk_scheme \<Rightarrow> disk_info option \<times> 'a disk_scheme" where
  "partition_read_table drive s =
     (case part_ctx_allow CAP_DEV_DISK SCHED_COST_FS s of (ok, s) \<Rightarrow>
      if \<not> ok then (None, s)
      else on_ok (ata_read_sector drive 0 s) (\<lambda>mbr s.
        case parse_entries drive mbr MBR_MAX_PARTITIONS 0 s of (ps, s) \<Rightarrow>
          (Some \<lparr>di_drive = drive, di_total_sectors = 0, di_total_mb = 0,
             di_partition_count = of_nat (length (filter (\<lambda>p. pi_type p \<noteq> PART_TYPE_EMPTY \<and> pi_sector_count p > 0) ps)),
             di_partitions = ps,
             di_has_valid_mbr = (get16 mbr MBR_SIGNATURE_OFFSET = MBR_SIGNATURE)\<rparr>, s)))"

text \<open>The 16 bytes of an entry: flags, dummy CHS values, type, start and size.\<close>

definition mbr_entry_bytes :: "partition_info \<Rightarrow> bytes" where
  "mbr_entry_bytes p =
     (if pi_type p \<noteq> PART_TYPE_EMPTY \<and> pi_sector_count p > 0 then
        [if pi_bootable p then 0x80 else 0, 0xFE, 0xFF, 0xFF, pi_type p, 0xFE, 0xFF, 0xFF]
          @ bytes_of32 (pi_lba_start p) @ bytes_of32 (pi_sector_count p)
      else replicate 16 0)"

fun put_entries :: "partition_info list \<Rightarrow> nat \<Rightarrow> nat \<Rightarrow> bytes \<times> 'a disk_scheme \<Rightarrow> bytes \<times> 'a disk_scheme" where
  "put_entries ps 0 i (mbr, s) = (mbr, s)"
| "put_entries ps (Suc n) i (mbr, s) =
     put_entries ps n (Suc i)
       (blit mbr (MBR_PARTITION_TABLE_OFFSET + i * MBR_PARTITION_ENTRY_SIZE) (mbr_entry_bytes (ps ! i)),
        if i mod 4 = 0 then part_ctx_account SCHED_COST_FS s else s)"

definition partition_write_table :: "u8 \<Rightarrow> disk_info \<Rightarrow> 'a disk_scheme \<Rightarrow> unit option \<times> 'a disk_scheme" where
  "partition_write_table drive info s =
     (case part_ctx_allow CAP_DEV_DISK SCHED_COST_FS s of (ok, s) \<Rightarrow>
      if \<not> ok then (None, s)
      else case ata_read_sector drive 0 s of (r, s) \<Rightarrow>
      case put_entries (di_partitions info) MBR_MAX_PARTITIONS 0
             (case r of None \<Rightarrow> replicate 512 0 | Some mbr \<Rightarrow> mbr, s) of (mbr, s) \<Rightarrow>
        ata_write_sector drive 0 (mbr[MBR_SIGNATURE_OFFSET := 0x55, MBR_SIGNATURE_OFFSET + 1 := 0xAA]) s)"

definition overlaps :: "u32 \<Rightarrow> u32 \<Rightarrow> u32 \<Rightarrow> u32 \<Rightarrow> bool" where
  "overlaps start_lba end_lba p_start p_end \<longleftrightarrow>
     (start_lba \<ge> p_start \<and> start_lba < p_end) \<or> (end_lba > p_start \<and> end_lba \<le> p_end)
     \<or> (start_lba \<le> p_start \<and> end_lba \<ge> p_end)"

definition partition_create :: "u8 \<Rightarrow> u32 \<Rightarrow> u32 \<Rightarrow> u8 \<Rightarrow> 'a disk_scheme \<Rightarrow> nat option \<times> 'a disk_scheme" where
  "partition_create drive start_lba size_sectors type s =
     (case part_ctx_allow CAP_DEV_DISK SCHED_COST_FS s of (ok, s) \<Rightarrow>
      if \<not> ok then (None, s)
      else on_ok (partition_read_table drive s) (\<lambda>disk s.
        on_ok (scan_loop (\<lambda>i. pi_type (di_partitions disk ! i) = PART_TYPE_EMPTY) MBR_MAX_PARTITIONS 0 s) (\<lambda>free_slot s.
          let end_lba = start_lba + size_sectors in
          case scan_loop (\<lambda>i. let p = di_partitions disk ! i in pi_type p \<noteq> PART_TYPE_EMPTY
                   \<and> overlaps start_lba end_lba (pi_lba_start p) (pi_lba_start p + pi_sector_count p))
                 MBR_MAX_PARTITIONS 0 s of
            (Some i, s) \<Rightarrow> (None, s)
          | (None, s) \<Rightarrow>
              on_ok (partition_write_table drive
                 (disk\<lparr>di_partitions := (di_partitions disk)[free_slot := (di_partitions disk ! free_slot)
                     \<lparr>pi_type := type, pi_lba_start := start_lba, pi_sector_count := size_sectors,
                      pi_bootable := False, pi_size_mb := size_sectors div 2048\<rparr>],
                   di_partition_count := di_partition_count disk + 1\<rparr>) s)
                (\<lambda>_ s. (Some free_slot, s)))))"

definition blank_partition :: partition_info where
  "blank_partition = \<lparr>pi_drive = 0, pi_partition_num = 0, pi_type = 0, pi_bootable = False, pi_lba_start = 0,
     pi_sector_count = 0, pi_size_mb = 0, pi_label = replicate 16 0, pi_mounted = False, pi_fs_type = 0\<rparr>"

definition partition_delete :: "u8 \<Rightarrow> u8 \<Rightarrow> 'a disk_scheme \<Rightarrow> unit option \<times> 'a disk_scheme" where
  "partition_delete drive partition_num s =
     (if unat partition_num \<ge> MBR_MAX_PARTITIONS then (None, s)
      else case part_ctx_allow CAP_DEV_DISK SCHED_COST_FS s of (ok, s) \<Rightarrow>
      if \<not> ok then (None, s)
      else on_ok (partition_read_table drive s) (\<lambda>disk s.
        if pi_type (di_partitions disk ! unat partition_num) = PART_TYPE_EMPTY then (None, s)
        else partition_write_table drive
          (disk\<lparr>di_partitions := (di_partitions disk)[unat partition_num :=
               blank_partition\<lparr>pi_drive := drive, pi_partition_num := partition_num\<rparr>],
             di_partition_count := di_partition_count disk - 1\<rparr>) s))"

definition partition_set_bootable :: "u8 \<Rightarrow> u8 \<Rightarrow> 'a disk_scheme \<Rightarrow> unit option \<times> 'a disk_scheme" where
  "partition_set_bootable drive partition_num s =
     (if unat partition_num \<ge> MBR_MAX_PARTITIONS then (None, s)
      else case part_ctx_allow CAP_DEV_DISK SCHED_COST_FS s of (ok, s) \<Rightarrow>
      if \<not> ok then (None, s)
      else on_ok (partition_read_table drive s) (\<lambda>disk s.
        partition_write_table drive
          (disk\<lparr>di_partitions := map (\<lambda>i. (di_partitions disk ! i)\<lparr>pi_bootable := (i = unat partition_num)\<rparr>)
              [0..<MBR_MAX_PARTITIONS]\<rparr>)
          (part_ctx_account SCHED_COST_FS s)))"

section \<open>Virtual drives\<close>

definition zero_vdrive :: virtual_drive where
  "zero_vdrive = \<lparr>vd_in_use = False, vd_physical_drive = 0, vd_partition_num = 0, vd_lba_offset = 0,
     vd_sector_count = 0, vd_fs_type = 0, vd_mount_point = replicate 8 0\<rparr>"

definition vdrive_init :: "'a parts_scheme \<Rightarrow> 'a parts_scheme" where
  "vdrive_init s = s\<lparr>g_vdrives := replicate MAX_VIRTUAL_DRIVES zero_vdrive, g_vdrives_initialized := True\<rparr>"

definition vdrive_mount :: "u8 \<Rightarrow> u8 \<Rightarrow> bytes \<Rightarrow> 'a parts_scheme \<Rightarrow> nat option \<times> 'a parts_scheme" where
  "vdrive_mount physical_drive partition_num mount_point s =
     (case part_ctx_allow CAP_DEV_DISK SCHED_COST_FS s of (ok, s) \<Rightarrow>
      if \<not> ok then (None, s)
      else
        let s = (if g_vdrives_initialized s then s else vdrive_init s) in
        on_ok (scan_loop (\<lambda>i. \<not> vd_in_use (g_vdrives s ! i)) MAX_VIRTUAL_DRIVES 0 s) (\<lambda>slot s.
          on_ok (partition_read_table physical_drive s) (\<lambda>disk s.
            if unat partition_num \<ge> MBR_MAX_PARTITIONS
               \<or> pi_type (di_partitions disk ! unat partition_num) = PART_TYPE_EMPTY then (None, s)
            else
              let p = di_partitions disk ! unat partition_num; v = g_vdrives s ! slot in
              (Some slot, s\<lparr>g_vdrives := (g_vdrives s)[slot := v\<lparr>vd_in_use := True,
                 vd_physical_drive := physical_drive, vd_partition_num := partition_num,
                 vd_lba_offset := pi_lba_start p, vd_sector_count := pi_sector_count p,
                 vd_fs_type := pi_fs_type p, vd_mount_point := strncpy (vd_mount_point v) mount_point 7\<rparr>]\<rparr>))))"

definition vdrive_unmount :: "bytes \<Rightarrow> 'a parts_scheme \<Rightarrow> unit option \<times> 'a parts_scheme" where
  "vdrive_unmount mount_point s =
     (case part_ctx_allow CAP_DEV_DISK SCHED_COST_FS s of (ok, s) \<Rightarrow>
      if \<not> ok then (None, s)
      else on_ok (scan_loop (\<lambda>i. vd_in_use (g_vdrives s ! i) \<and> strEql (vd_mount_point (g_vdrives s ! i)) mount_point)
             MAX_VIRTUAL_DRIVES 0 s)
        (\<lambda>i s. (Some (), s\<lparr>g_vdrives := (g_vdrives s)[i := (g_vdrives s ! i)\<lparr>vd_in_use := False\<rparr>]\<rparr>)))"

definition vdrive_get :: "u8 \<Rightarrow> 'a parts_scheme \<Rightarrow> virtual_drive option" where
  "vdrive_get drive_num s =
     (if unat drive_num \<ge> MAX_VIRTUAL_DRIVES \<or> \<not> vd_in_use (g_vdrives s ! unat drive_num) then None
      else Some (g_vdrives s ! unat drive_num))"

definition vdrive_find_by_mount :: "bytes \<Rightarrow> 'a parts_scheme \<Rightarrow> nat option \<times> 'a parts_scheme" where
  "vdrive_find_by_mount mount_point s =
     (case part_ctx_allow CAP_DEV_DISK SCHED_COST_FS s of (ok, s) \<Rightarrow>
      if \<not> ok then (None, s)
      else scan_loop (\<lambda>i. vd_in_use (g_vdrives s ! i) \<and> strEql (vd_mount_point (g_vdrives s ! i)) mount_point)
             MAX_VIRTUAL_DRIVES 0 s)"

definition vdrive_translate_lba :: "u8 \<Rightarrow> u32 \<Rightarrow> 'a parts_scheme \<Rightarrow> (u8 \<times> u32) option" where
  "vdrive_translate_lba vdrive lba s =
     (case vdrive_get vdrive s of None \<Rightarrow> None
      | Some vd \<Rightarrow> if lba \<ge> vd_sector_count vd then None
                   else Some (vd_physical_drive vd, vd_lba_offset vd + lba))"

section \<open>Swap\<close>

definition zero_swap :: swap_partition where
  "zero_swap = \<lparr>sw_active = False, sw_drive = 0, sw_lba_start = 0, sw_sector_count = 0, sw_total_pages = 0, sw_used_pages = 0\<rparr>"

definition swap_partition_init :: "u8 \<Rightarrow> u8 \<Rightarrow> 'a parts_scheme \<Rightarrow> unit option \<times> 'a parts_scheme" where
  "swap_partition_init drive partition_num s =
     (case part_ctx_allow CAP_DEV_DISK SCHED_COST_FS s of (ok, s) \<Rightarrow>
      if \<not> ok then (None, s)
      else on_ok (partition_read_table drive (s\<lparr>g_swap_partition := zero_swap\<rparr>)) (\<lambda>disk s.
        if unat partition_num \<ge> MBR_MAX_PARTITIONS then (None, s)
        else
          let part = di_partitions disk ! unat partition_num in
          if pi_type part \<noteq> PART_TYPE_EYNOS_SWAP \<and> pi_type part \<noteq> PART_TYPE_LINUX_SWAP then (None, s)
          else (Some (), s\<lparr>g_swap_partition := \<lparr>sw_active = True, sw_drive = drive, sw_lba_start = pi_lba_start part,
                 sw_sector_count = pi_sector_count part, sw_total_pages = pi_sector_count part div 8, sw_used_pages = 0\<rparr>\<rparr>)))"

text \<open>The page after a read is the concatenation of its eight sectors.\<close>

fun swap_read_loop :: "u8 \<Rightarrow> u32 \<Rightarrow> nat \<Rightarrow> nat \<Rightarrow> bytes \<Rightarrow> 'a disk_scheme \<Rightarrow> bytes option \<times> 'a disk_scheme" where
  "swap_read_loop drive lba 0 i buf s = (Some buf, s)"
| "swap_read_loop drive lba (Suc n) i buf s =
     on_ok (ata_read_sector drive (lba + of_nat i) (if i mod 4 = 0 then part_ctx_account SCHED_COST_FS s else s))
       (\<lambda>d s. swap_read_loop drive lba n (Suc i) (buf @ d) s)"

definition swap_partition_read_page :: "u32 \<Rightarrow> 'a parts_scheme \<Rightarrow> bytes option \<times> 'a parts_scheme" where
  "swap_partition_read_page page_num s =
     (if \<not> sw_active (g_swap_partition s) then (None, s)
      else if page_num \<ge> sw_total_pages (g_swap_partition s) then (None, s)
      else case part_ctx_allow CAP_DEV_DISK SCHED_COST_FS s of (ok, s) \<Rightarrow>
      if \<not> ok then (None, s)
      else swap_read_loop (sw_drive (g_swap_partition s)) (sw_lba_start (g_swap_partition s) + page_num * 8) 8 0 [] s)"

fun swap_write_loop :: "u8 \<Rightarrow> u32 \<Rightarrow> nat \<Rightarrow> nat \<Rightarrow> bytes \<Rightarrow> 'a disk_scheme \<Rightarrow> unit option \<times> 'a disk_scheme" where
  "swap_write_loop drive lba 0 i buf s = (Some (), s)"
| "swap_write_loop drive lba (Suc n) i buf s =
     on_ok (ata_write_sector drive (lba + of_nat i) (take 512 (drop (i * 512) buf))
              (if i mod 4 = 0 then part_ctx_account SCHED_COST_FS s else s))
       (\<lambda>_ s. swap_write_loop drive lba n (Suc i) buf s)"

definition swap_partition_write_page :: "u32 \<Rightarrow> bytes \<Rightarrow> 'a parts_scheme \<Rightarrow> unit option \<times> 'a parts_scheme" where
  "swap_partition_write_page page_num buf s =
     (if \<not> sw_active (g_swap_partition s) then (None, s)
      else if page_num \<ge> sw_total_pages (g_swap_partition s) then (None, s)
      else case part_ctx_allow CAP_DEV_DISK SCHED_COST_FS s of (ok, s) \<Rightarrow>
      if \<not> ok then (None, s)
      else swap_write_loop (sw_drive (g_swap_partition s)) (sw_lba_start (g_swap_partition s) + page_num * 8) 8 0 buf s)"

definition swap_partition_get_info :: "'a parts_scheme \<Rightarrow> swap_partition option" where
  "swap_partition_get_info s = (if sw_active (g_swap_partition s) then Some (g_swap_partition s) else None)"

end
