(* ===== verification/Vm.thy ===== *)
theory Vm
  imports Partition KMem
begin

text \<open>
  Virtual memory after paging is on: the page tables, address spaces, page faults, demand-zero and
  copy-on-write pages, swapping and the clock of \<open>src/mm/vmm.c\<close>, on i386 with 4 KiB pages.

  The page tables live in physical memory (\<open>phys\<close>), which the kernel reaches at
  \<open>KERNEL_BASE + physical address\<close>; a pointer to an entry is the physical address of the entry, \<open>None\<close>
  for NULL. A page table above the range of this alias is reached through the recursive mapping, which
  leads to the table of the current address space (\<open>pt_address\<close>). An \<open>address_space_t*\<close> is its address,
  0 for NULL, and the structure is a value of \<open>spaces\<close>. The TLB is left out: the processor is assumed
  to see the tables as they are. Frames that the allocator returns lie in the range of the alias,
  which \<open>vmm_init\<close> sets to all of the memory. Pages go to the swap partition of \<open>Partition\<close>; a read
  that fails leaves the frame as it was, which is free afterwards.
\<close>

section \<open>State\<close>

abbreviation (input) PTE_PRESENT :: u32 where "PTE_PRESENT \<equiv> 1"
abbreviation (input) PTE_RW :: u32 where "PTE_RW \<equiv> 2"
abbreviation (input) PTE_USER :: u32 where "PTE_USER \<equiv> 4"
abbreviation (input) PTE_ACCESSED :: u32 where "PTE_ACCESSED \<equiv> 0x20"
abbreviation (input) PTE_COW :: u32 where "PTE_COW \<equiv> 0x200"
abbreviation (input) PTE_SWAPPED :: u32 where "PTE_SWAPPED \<equiv> 0x400"
abbreviation (input) PTE_DEMAND :: u32 where "PTE_DEMAND \<equiv> 0x800"
abbreviation (input) PTE_FRAME_MASK :: u32 where "PTE_FRAME_MASK \<equiv> 0xFFFFF000"
abbreviation (input) USER_CODE_BASE :: u32 where "USER_CODE_BASE \<equiv> 0x00400000"
abbreviation (input) USER_HEAP_BASE :: u32 where "USER_HEAP_BASE \<equiv> 0x40000000"
abbreviation (input) USER_HEAP_END :: u32 where "USER_HEAP_END \<equiv> 0x80000000"
abbreviation (input) USER_SHARED_BASE :: u32 where "USER_SHARED_BASE \<equiv> 0x80000000"
abbreviation (input) USER_SHARED_END :: u32 where "USER_SHARED_END \<equiv> 0xB0000000"
abbreviation (input) USER_STACK_BASE :: u32 where "USER_STACK_BASE \<equiv> 0xB0000000"
abbreviation (input) USER_STACK_TOP :: u32 where "USER_STACK_TOP \<equiv> 0xC0000000"
abbreviation (input) SWAP_SLOT_NONE :: u32 where "SWAP_SLOT_NONE \<equiv> 0xFFFFFFFF"
abbreviation (input) MAX_SWAP_SLOTS :: u32 where "MAX_SWAP_SLOTS \<equiv> 4096"
abbreviation (input) CLOCK_SIZE :: u32 where "CLOCK_SIZE \<equiv> 1024"

record clock_entry =
  cl_frame :: u32
  cl_pte :: "u32 option"
  cl_va :: u32
  cl_as :: u32

record address_space =
  pd_phys :: u32
  heap_break :: u32
  stack_bottom :: u32
  refcount :: u32
  ws_pages :: u32
  fault_count :: u32

record vm = parts +
  phys :: memory
  g_frame_alloc :: frame_allocator
  g_swap_bitmap :: "u32 list"
  g_swap_free_slots :: u32
  g_clock :: "clock_entry list"
  g_clock_hand :: u32
  g_clock_count :: u32
  spaces :: "u32 \<Rightarrow> address_space"
  vmm_kernel_as :: u32
  vmm_current_as :: u32
  g_kernel_phys_alias_bytes :: u32

definition no_clock_entry :: clock_entry where
  "no_clock_entry = \<lparr>cl_frame = 0, cl_pte = None, cl_va = 0, cl_as = 0\<rparr>"

definition get_pte :: "u32 \<Rightarrow> 'a vm_scheme \<Rightarrow> u32" where
  "get_pte p s = load32 (phys s) p"

definition set_pte :: "u32 \<Rightarrow> u32 \<Rightarrow> 'a vm_scheme \<Rightarrow> 'a vm_scheme" where
  "set_pte p v s = s\<lparr>phys := store32 p v (phys s)\<rparr>"

definition set_space :: "u32 \<Rightarrow> (address_space \<Rightarrow> address_space) \<Rightarrow> 'a vm_scheme \<Rightarrow> 'a vm_scheme" where
  "set_space sp f s = s\<lparr>spaces := (spaces s)(sp := f (spaces s sp))\<rparr>"

definition zero_page :: "u32 \<Rightarrow> 'a vm_scheme \<Rightarrow> 'a vm_scheme" where
  "zero_page frame s = s\<lparr>phys := memset frame 0 4096 (phys s)\<rparr>"

definition page_bytes :: "u32 \<Rightarrow> 'a vm_scheme \<Rightarrow> bytes" where
  "page_bytes frame s = map (\<lambda>k. phys s (frame + of_nat k)) [0..<4096]"

definition put_page :: "u32 \<Rightarrow> bytes \<Rightarrow> 'a vm_scheme \<Rightarrow> 'a vm_scheme" where
  "put_page frame bs s = s\<lparr>phys := (\<lambda>x. if x - frame < 4096 then bs ! unat (x - frame) else phys s x)\<rparr>"

definition vm_frame_free :: "u32 \<Rightarrow> 'a vm_scheme \<Rightarrow> 'a vm_scheme" where
  "vm_frame_free frame s = s\<lparr>g_frame_alloc := frame_free frame (g_frame_alloc s)\<rparr>"

section \<open>Swap slots and pages\<close>

definition swap_alloc_slot :: "'a vm_scheme \<Rightarrow> u32 \<times> 'a vm_scheme" where
  "swap_alloc_slot s =
     (if g_swap_free_slots s = 0 then (SWAP_SLOT_NONE, s)
      else case first_idx (\<lambda>i. g_swap_bitmap s ! i \<noteq> 0xFFFFFFFF) 128 of
        None \<Rightarrow> (SWAP_SLOT_NONE, s)
      | Some i \<Rightarrow>
          (case first_idx (\<lambda>j. g_swap_bitmap s ! i AND push_bit j 1 = 0) 32 of
             None \<Rightarrow> (SWAP_SLOT_NONE, s)
           | Some j \<Rightarrow> (of_nat i * 32 + of_nat j,
               s\<lparr>g_swap_bitmap := (g_swap_bitmap s)[i := g_swap_bitmap s ! i OR push_bit j 1],
                 g_swap_free_slots := g_swap_free_slots s - 1\<rparr>)))"

definition swap_free_slot :: "u32 \<Rightarrow> 'a vm_scheme \<Rightarrow> 'a vm_scheme" where
  "swap_free_slot slot s =
     (if slot \<ge> MAX_SWAP_SLOTS then s
      else let i = unat (slot div 32) in
        s\<lparr>g_swap_bitmap := (g_swap_bitmap s)[i := g_swap_bitmap s ! i AND NOT (push_bit (unat (slot mod 32)) 1)],
          g_swap_free_slots := g_swap_free_slots s + 1\<rparr>)"

definition swap_write_page :: "u32 \<Rightarrow> u32 \<Rightarrow> 'a vm_scheme \<Rightarrow> bool \<times> 'a vm_scheme" where
  "swap_write_page slot frame s =
     (case swap_partition_get_info s of None \<Rightarrow> (False, s)
      | Some _ \<Rightarrow> (case swap_partition_write_page slot (page_bytes frame s) s of
          (None, s) \<Rightarrow> (False, s) | (Some _, s) \<Rightarrow> (True, s)))"

definition swap_read_page :: "u32 \<Rightarrow> u32 \<Rightarrow> 'a vm_scheme \<Rightarrow> bool \<times> 'a vm_scheme" where
  "swap_read_page slot frame s =
     (case swap_partition_get_info s of None \<Rightarrow> (False, s)
      | Some _ \<Rightarrow> (case swap_partition_read_page slot s of
          (None, s) \<Rightarrow> (False, s) | (Some bs, s) \<Rightarrow> (True, put_page frame bs s)))"

definition swap_out_page_reclaim_frame :: "u32 option \<Rightarrow> u32 \<Rightarrow> 'a vm_scheme \<Rightarrow> bool \<times> 'a vm_scheme" where
  "swap_out_page_reclaim_frame pte va s =
     (case pte of None \<Rightarrow> (False, s)
      | Some p \<Rightarrow>
          if get_pte p s AND PTE_PRESENT = 0 then (False, s)
          else
            let frame = get_pte p s AND PTE_FRAME_MASK in
            case swap_alloc_slot s of (slot, s) \<Rightarrow>
            if slot = SWAP_SLOT_NONE then (False, s)
            else case swap_write_page slot frame s of (ok, s) \<Rightarrow>
              if \<not> ok then (False, swap_free_slot slot s)
              else (True, set_pte p (push_bit 12 slot OR PTE_SWAPPED OR (get_pte p s AND (PTE_USER OR PTE_RW))) s))"

section \<open>The clock\<close>

definition clock_add_page :: "u32 \<Rightarrow> u32 option \<Rightarrow> u32 \<Rightarrow> u32 \<Rightarrow> 'a vm_scheme \<Rightarrow> 'a vm_scheme" where
  "clock_add_page frame pte va sp s =
     (if g_clock_count s \<ge> CLOCK_SIZE then s
      else case first_idx (\<lambda>i. cl_frame (g_clock s ! i) = 0) (unat CLOCK_SIZE) of None \<Rightarrow> s
        | Some i \<Rightarrow> s\<lparr>g_clock := (g_clock s)[i := \<lparr>cl_frame = frame, cl_pte = pte, cl_va = va, cl_as = sp\<rparr>],
             g_clock_count := g_clock_count s + 1\<rparr>)"

definition clock_remove_page :: "u32 \<Rightarrow> 'a vm_scheme \<Rightarrow> 'a vm_scheme" where
  "clock_remove_page frame s =
     (case first_idx (\<lambda>i. cl_frame (g_clock s ! i) = frame) (unat CLOCK_SIZE) of None \<Rightarrow> s
      | Some i \<Rightarrow> s\<lparr>g_clock := (g_clock s)[i := no_clock_entry], g_clock_count := g_clock_count s - 1\<rparr>)"

text \<open>The loop over the entries from the hand, \<open>n\<close> rounds left; the result is a frame, 0 for none.\<close>

fun evict_loop :: "nat \<Rightarrow> 'a vm_scheme \<Rightarrow> u32 \<times> 'a vm_scheme" where
  "evict_loop 0 s = (0, s)"
| "evict_loop (Suc n) s =
     (let i = unat (g_clock_hand s); e = g_clock s ! i;
          s = s\<lparr>g_clock_hand := (g_clock_hand s + 1) mod CLOCK_SIZE\<rparr>
      in if cl_frame e = 0 then evict_loop n s
         else case cl_pte e of None \<Rightarrow> evict_loop n (clock_remove_page (cl_frame e) s)
         | Some p \<Rightarrow>
             if get_pte p s AND PTE_PRESENT = 0 then evict_loop n (clock_remove_page (cl_frame e) s)
             else if get_pte p s AND PTE_ACCESSED \<noteq> 0
             then evict_loop n (set_pte p (get_pte p s AND NOT PTE_ACCESSED) s)
             else case swap_out_page_reclaim_frame (Some p) (cl_va e) s of (ok, s) \<Rightarrow>
               if \<not> ok then evict_loop n s
               else (cl_frame e, s\<lparr>g_clock := (g_clock s)[i := no_clock_entry],
                 g_clock_count := (if g_clock_count s \<noteq> 0 then g_clock_count s - 1 else 0)\<rparr>))"

definition clock_evict_page :: "'a vm_scheme \<Rightarrow> u32 \<times> 'a vm_scheme" where
  "clock_evict_page s = (if g_clock_count s = 0 then (0, s) else evict_loop (unat (CLOCK_SIZE * 2)) s)"

text \<open>\<open>frame_alloc\<close> with the replacement that \<open>Frames\<close> leaves open.\<close>

definition vm_frame_alloc :: "'a vm_scheme \<Rightarrow> u32 \<times> 'a vm_scheme" where
  "vm_frame_alloc s =
     (if free_frames (g_frame_alloc s) = 0 then clock_evict_page s
      else case frame_alloc (\<lambda>f. (0, f)) (g_frame_alloc s) of (frame, f) \<Rightarrow> (frame, s\<lparr>g_frame_alloc := f\<rparr>))"

definition swap_out_page :: "u32 option \<Rightarrow> u32 \<Rightarrow> u32 \<Rightarrow> 'a vm_scheme \<Rightarrow> u32 \<times> 'a vm_scheme" where
  "swap_out_page pte va sp s =
     (case pte of None \<Rightarrow> (SWAP_SLOT_NONE, s)
      | Some p \<Rightarrow>
          if get_pte p s AND PTE_PRESENT = 0 then (SWAP_SLOT_NONE, s)
          else
            let frame = get_pte p s AND PTE_FRAME_MASK in
            case swap_alloc_slot s of (slot, s) \<Rightarrow>
            if slot = SWAP_SLOT_NONE then (SWAP_SLOT_NONE, s)
            else case swap_write_page slot frame s of (ok, s) \<Rightarrow>
              if \<not> ok then (SWAP_SLOT_NONE, swap_free_slot slot s)
              else
                let s = set_pte p (push_bit 12 slot OR PTE_SWAPPED OR (get_pte p s AND (PTE_USER OR PTE_RW))) s
                in (slot, clock_remove_page frame (vm_frame_free frame s)))"

section \<open>Page tables\<close>

definition pde_index :: "u32 \<Rightarrow> u32" where "pde_index va = drop_bit 22 va AND 0x3FF"
definition pte_index :: "u32 \<Rightarrow> u32" where "pte_index va = drop_bit 12 va AND 0x3FF"

definition pde_addr :: "u32 \<Rightarrow> u32 \<Rightarrow> 'a vm_scheme \<Rightarrow> u32" where
  "pde_addr sp pdi s = pd_phys (spaces s sp) + 4 * pdi"

definition pt_address :: "u32 \<Rightarrow> u32 \<Rightarrow> 'a vm_scheme \<Rightarrow> u32" where
  "pt_address pde pdi s =
     (let pt_phys = pde AND PTE_FRAME_MASK in
      if pt_phys < g_kernel_phys_alias_bytes s then pt_phys
      else get_pte (pde_addr (vmm_current_as s) pdi s) s AND PTE_FRAME_MASK)"

definition vmm_walk_page_tables :: "u32 \<Rightarrow> u32 \<Rightarrow> bool \<Rightarrow> 'a vm_scheme \<Rightarrow> u32 option \<times> 'a vm_scheme" where
  "vmm_walk_page_tables sp va create s =
     (if sp = 0 then (None, s)
      else
        let pdi = pde_index va; pti = pte_index va; pd = pde_addr sp pdi s;
            found = (\<lambda>s. (Some (pt_address (get_pte pd s) pdi s + 4 * pti), s))
        in if get_pte pd s AND PTE_PRESENT \<noteq> 0 then found s
           else if \<not> create then (None, s)
           else case vm_frame_alloc s of (frame, s) \<Rightarrow>
             if frame = 0 then (None, s)
             else found (set_pte pd (frame OR PTE_PRESENT OR PTE_RW OR PTE_USER) (zero_page frame s)))"

definition vmm_map_page :: "u32 \<Rightarrow> u32 \<Rightarrow> u32 \<Rightarrow> u32 \<Rightarrow> 'a vm_scheme \<Rightarrow> bool \<times> 'a vm_scheme" where
  "vmm_map_page sp va pa flags s =
     (case vmm_walk_page_tables sp va True s of (None, s) \<Rightarrow> (False, s)
      | (Some p, s) \<Rightarrow>
          let pd = pde_addr sp (pde_index va) s;
              s = (if flags AND PTE_USER \<noteq> 0 then set_pte pd (get_pte pd s OR PTE_USER) s else s);
              s = set_pte p ((pa AND PTE_FRAME_MASK) OR flags OR PTE_PRESENT) s
          in (True, if flags AND PTE_USER \<noteq> 0 then clock_add_page pa (Some p) va sp s else s))"

definition vmm_unmap_page :: "u32 \<Rightarrow> u32 \<Rightarrow> 'a vm_scheme \<Rightarrow> bool \<times> 'a vm_scheme" where
  "vmm_unmap_page sp va s =
     (case vmm_walk_page_tables sp va False s of (None, s) \<Rightarrow> (False, s)
      | (Some p, s) \<Rightarrow>
          let e = get_pte p s in
          if e AND PTE_PRESENT = 0 then
            if e AND PTE_SWAPPED \<noteq> 0 then (True, set_pte p 0 (swap_free_slot (drop_bit 12 e AND 0xFFFFF) s))
            else if e AND PTE_DEMAND \<noteq> 0 then (True, set_pte p 0 s)
            else (False, s)
          else
            let frame = e AND PTE_FRAME_MASK;
                s = clock_remove_page frame s;
                s = (if e AND PTE_COW = 0 then vm_frame_free frame s else s)
            in (True, set_pte p 0 s))"

definition swap_in_page :: "u32 \<Rightarrow> u32 \<Rightarrow> u32 \<Rightarrow> 'a vm_scheme \<Rightarrow> bool \<times> 'a vm_scheme" where
  "swap_in_page sp va swap_slot s =
     (if swap_slot \<ge> MAX_SWAP_SLOTS then (False, s)
      else case vm_frame_alloc s of (frame, s) \<Rightarrow>
      if frame = 0 then (False, s)
      else case swap_read_page swap_slot frame s of (ok, s) \<Rightarrow>
      if \<not> ok then (False, vm_frame_free frame s)
      else case vmm_walk_page_tables sp va False s of (None, s) \<Rightarrow> (False, vm_frame_free frame s)
      | (Some p, s) \<Rightarrow>
          let s = set_pte p ((frame AND PTE_FRAME_MASK) OR ((get_pte p s AND (PTE_USER OR PTE_RW)) OR PTE_PRESENT)) s
          in (True, clock_add_page frame (Some p) va sp (swap_free_slot swap_slot s)))"

definition vmm_handle_cow_fault :: "u32 \<Rightarrow> u32 \<Rightarrow> u32 \<Rightarrow> 'a vm_scheme \<Rightarrow> bool \<times> 'a vm_scheme" where
  "vmm_handle_cow_fault sp va p s =
     (let e = get_pte p s; old_frame = e AND PTE_FRAME_MASK in
      case vm_frame_alloc s of (frame, s) \<Rightarrow>
      if frame = 0 then (False, s)
      else
        let s = s\<lparr>phys := memcpy frame old_frame 4096 (phys s)\<rparr>;
            s = set_pte p ((frame AND PTE_FRAME_MASK) OR ((e AND 0xFFF) AND NOT PTE_COW) OR PTE_RW OR PTE_PRESENT) s
        in (True, clock_add_page frame (Some p) va sp s))"

section \<open>Page faults\<close>

text \<open>How a fault ends: the program goes on, the machine halts on a segmentation fault, or the kernel
  panics on a fault of its own.\<close>

datatype fault = Resume | Halt | Panic

definition fill_demand :: "u32 \<Rightarrow> 'a vm_scheme \<Rightarrow> bool \<times> 'a vm_scheme" where
  "fill_demand p s =
     (let e = get_pte p s in
      case vm_frame_alloc s of (frame, s) \<Rightarrow>
      if frame = 0 then (False, s)
      else (True, set_pte p ((frame AND PTE_FRAME_MASK) OR (((e AND 0xFFF) AND NOT PTE_DEMAND) OR PTE_PRESENT)) (zero_page frame s)))"

text \<open>A fresh page for the stack or the heap; the code does not look at the result of the mapping.\<close>

definition grow_page :: "u32 \<Rightarrow> u32 \<Rightarrow> 'a vm_scheme \<Rightarrow> bool \<times> 'a vm_scheme" where
  "grow_page sp page s =
     (case vm_frame_alloc s of (frame, s) \<Rightarrow>
      if frame = 0 then (False, s)
      else (True, snd (vmm_map_page sp page frame (PTE_USER OR PTE_RW) (zero_page frame s))))"

definition lower_stack :: "u32 \<Rightarrow> u32 \<Rightarrow> 'a vm_scheme \<Rightarrow> 'a vm_scheme" where
  "lower_stack sp page s =
     (if page < stack_bottom (spaces s sp) then set_space sp (\<lambda>a. a\<lparr>stack_bottom := page\<rparr>) s else s)"

definition vmm_page_fault_handler :: "u32 \<Rightarrow> u32 \<Rightarrow> 'a vm_scheme \<Rightarrow> fault \<times> 'a vm_scheme" where
  "vmm_page_fault_handler error_code fault_addr s =
     (let is_present = error_code AND 1 \<noteq> 0; is_write = error_code AND 2 \<noteq> 0; is_user = error_code AND 4 \<noteq> 0;
          ended = (\<lambda>(ok, s). (if ok then Resume else Halt, s))
      in if \<not> is_user then (Panic, s)
      else
        let sp = vmm_current_as s;
            s = set_space sp (\<lambda>a. a\<lparr>fault_count := fault_count a + 1\<rparr>) s;
            pte = fst (vmm_walk_page_tables sp fault_addr False s);
            e = (case pte of None \<Rightarrow> 0 | Some p \<Rightarrow> get_pte p s)
        in if \<not> is_present \<and> pte \<noteq> None \<and> e AND PTE_DEMAND \<noteq> 0 then ended (fill_demand (the pte) s)
        else if \<not> is_present \<and> pte \<noteq> None \<and> e AND PTE_SWAPPED \<noteq> 0
        then ended (swap_in_page sp fault_addr (drop_bit 12 e AND 0xFFFFF) s)
        else if is_present \<and> is_write \<and> pte \<noteq> None \<and> e AND PTE_COW \<noteq> 0
        then ended (vmm_handle_cow_fault sp fault_addr (the pte) s)
        else if \<not> is_present \<and> fault_addr \<ge> USER_STACK_BASE \<and> fault_addr < USER_STACK_TOP then
          (case grow_page sp (fault_addr AND PAGE_MASK) s of (ok, s) \<Rightarrow>
             if \<not> ok then (Halt, s) else (Resume, lower_stack sp (fault_addr AND PAGE_MASK) s))
        else if \<not> is_present \<and> fault_addr \<ge> USER_HEAP_BASE \<and> fault_addr < heap_break (spaces s sp)
        then ended (grow_page sp (fault_addr AND PAGE_MASK) s)
        else (Halt, s))"

definition fault_in_page :: "u32 \<Rightarrow> u32 \<Rightarrow> 'a vm_scheme \<Rightarrow> bool \<times> 'a vm_scheme" where
  "fault_in_page sp page s =
     (case fst (vmm_walk_page_tables sp page False s) of
        Some p \<Rightarrow>
          let e = get_pte p s in
          if e AND PTE_PRESENT \<noteq> 0 then (e AND PTE_USER \<noteq> 0 \<and> e AND PTE_RW \<noteq> 0, s)
          else if e AND PTE_DEMAND \<noteq> 0 then fill_demand p s
          else if e AND PTE_SWAPPED \<noteq> 0 then swap_in_page sp page (drop_bit 12 e AND 0xFFFFF) s
          else (False, s)
      | None \<Rightarrow>
          if page \<ge> USER_STACK_BASE \<and> page < USER_STACK_TOP then
            (case grow_page sp page s of (ok, s) \<Rightarrow> if \<not> ok then (False, s) else (True, lower_stack sp page s))
          else if page \<ge> USER_HEAP_BASE \<and> page < heap_break (spaces s sp) then grow_page sp page s
          else (False, s))"

text \<open>The pages of \<open>for (; page < end; page += PAGE_SIZE)\<close> for an end up to \<open>USER_STACK_TOP\<close>.\<close>

definition pages_up_to :: "u32 \<Rightarrow> u32 \<Rightarrow> u32 list" where
  "pages_up_to page end' = map (\<lambda>k. page + of_nat k * PAGE_SIZE) [0..<(unat end' - unat page + 4095) div 4096]"

fun fault_in_loop :: "u32 \<Rightarrow> u32 list \<Rightarrow> 'a vm_scheme \<Rightarrow> bool \<times> 'a vm_scheme" where
  "fault_in_loop sp [] s = (True, s)"
| "fault_in_loop sp (page # pages) s =
     (case fault_in_page sp page s of (ok, s) \<Rightarrow> if \<not> ok then (False, s) else fault_in_loop sp pages s)"

definition vmm_fault_in_user_write :: "u32 \<Rightarrow> u32 \<Rightarrow> 'a vm_scheme \<Rightarrow> bool \<times> 'a vm_scheme" where
  "vmm_fault_in_user_write va_start len s =
     (if len = 0 then (True, s)
      else if va_start < USER_CODE_BASE \<or> va_start \<ge> USER_STACK_TOP then (False, s)
      else
        let sp = (if vmm_current_as s \<noteq> 0 then vmm_current_as s else vmm_kernel_as s); end' = va_start + len in
        if end' < va_start then (False, s)
        else if end' > USER_STACK_TOP then (False, s)
        else fault_in_loop sp (pages_up_to (va_start AND PAGE_MASK) end') s)"

section \<open>Address spaces\<close>

definition zero_space :: address_space where
  "zero_space = \<lparr>pd_phys = 0, heap_break = 0, stack_bottom = 0, refcount = 0, ws_pages = 0, fault_count = 0\<rparr>"

definition vm_kfree_page :: "u32 \<Rightarrow> 'a vm_scheme \<Rightarrow> 'a vm_scheme" where
  "vm_kfree_page ptr s = s\<lparr>g_frame_alloc := vmm_kfree_page ptr (g_frame_alloc s)\<rparr>"

definition create_address_space :: "'a vm_scheme \<Rightarrow> u32 \<times> 'a vm_scheme" where
  "create_address_space s =
     (case vm_frame_alloc s of (page, s) \<Rightarrow>
      if page = 0 then (0, s)
      else
        let sp = KERNEL_BASE + page; s = set_space sp (\<lambda>_. zero_space) s in
        case vm_frame_alloc s of (pd, s) \<Rightarrow>
        if pd = 0 then (0, vm_kfree_page sp s)
        else
          let s = zero_page pd (set_space sp (\<lambda>a. a\<lparr>pd_phys := pd\<rparr>) s);
              s = fold (\<lambda>i s. set_pte (pde_addr sp (of_nat i) s) (get_pte (pde_addr (vmm_kernel_as s) (of_nat i) s) s) s) [768..<1024] s;
              s = set_pte (pde_addr sp 1023 s) (pd OR PTE_PRESENT OR PTE_RW) s
          in (sp, set_space sp (\<lambda>a. a\<lparr>heap_break := USER_HEAP_BASE, stack_bottom := USER_STACK_TOP - PAGE_SIZE, refcount := 1\<rparr>) s))"

text \<open>The release of what one entry of a page table holds.\<close>

definition release_pte :: "u32 \<Rightarrow> 'a vm_scheme \<Rightarrow> 'a vm_scheme" where
  "release_pte e s =
     (if e AND PTE_PRESENT \<noteq> 0 then if e AND PTE_COW = 0 then vm_frame_free (e AND PTE_FRAME_MASK) s else s
      else if e AND PTE_SWAPPED \<noteq> 0 then swap_free_slot (drop_bit 12 e AND 0xFFFFF) s
      else s)"

definition destroy_address_space :: "u32 \<Rightarrow> 'a vm_scheme \<Rightarrow> 'a vm_scheme" where
  "destroy_address_space sp s =
     (if sp = 0 \<or> sp = vmm_kernel_as s then s
      else
        let s = set_space sp (\<lambda>a. a\<lparr>refcount := refcount a - 1\<rparr>) s in
        if refcount (spaces s sp) > 0 then s
        else
          let s = fold (\<lambda>pdi s.
                let pde = get_pte (pde_addr sp (of_nat pdi) s) s; pt = pde AND PTE_FRAME_MASK in
                if pde AND PTE_PRESENT = 0 then s
                else vm_frame_free pt (fold (\<lambda>pti s. release_pte (get_pte (pt + 4 * of_nat pti) s) s) [0..<1024] s)) [0..<768] s
          in vm_kfree_page sp (vm_frame_free (pd_phys (spaces s sp)) s))"

text \<open>One entry in both address spaces: a writable page becomes read-only and copy-on-write.\<close>

definition clone_pte :: "u32 \<Rightarrow> u32 \<Rightarrow> 'a vm_scheme \<Rightarrow> 'a vm_scheme" where
  "clone_pte src dst s =
     (let e = get_pte src s in
      if e AND PTE_PRESENT = 0 then set_pte dst e s
      else if e AND PTE_RW \<noteq> 0
      then let e = (e AND NOT PTE_RW) OR PTE_COW in set_pte dst e (set_pte src e s)
      else set_pte dst e s)"

fun clone_tables :: "u32 \<Rightarrow> u32 \<Rightarrow> nat list \<Rightarrow> 'a vm_scheme \<Rightarrow> bool \<times> 'a vm_scheme" where
  "clone_tables src dst [] s = (True, s)"
| "clone_tables src dst (pdi # pdis) s =
     (let pde = get_pte (pde_addr src (of_nat pdi) s) s in
      if pde AND PTE_PRESENT = 0 then clone_tables src dst pdis s
      else case vm_frame_alloc s of (pt, s) \<Rightarrow>
        if pt = 0 then (False, s)
        else
          let s = set_pte (pde_addr dst (of_nat pdi) s) (pt OR (pde AND 0xFFF)) s;
              s = fold (\<lambda>pti. clone_pte ((pde AND PTE_FRAME_MASK) + 4 * of_nat pti) (pt + 4 * of_nat pti)) [0..<1024] s
          in clone_tables src dst pdis s)"

definition clone_address_space :: "u32 \<Rightarrow> 'a vm_scheme \<Rightarrow> u32 \<times> 'a vm_scheme" where
  "clone_address_space src s =
     (if src = 0 then (0, s)
      else case create_address_space s of (dst, s) \<Rightarrow>
      if dst = 0 then (0, s)
      else
        let s = set_space dst (\<lambda>a. a\<lparr>heap_break := heap_break (spaces s src), stack_bottom := stack_bottom (spaces s src)\<rparr>) s in
        case clone_tables src dst [0..<768] s of (ok, s) \<Rightarrow>
          if ok then (dst, s) else (0, destroy_address_space dst s))"

definition switch_address_space :: "u32 \<Rightarrow> 'a vm_scheme \<Rightarrow> 'a vm_scheme" where
  "switch_address_space sp s = (if sp = 0 \<or> sp = vmm_current_as s then s else s\<lparr>vmm_current_as := sp\<rparr>)"

section \<open>Regions\<close>

text \<open>The loop \<open>for (va = ...; va < end; va += PAGE_SIZE)\<close> in 32-bit arithmetic, which does not end when
  \<open>end\<close> is behind the start of the last page. A body that gives \<open>False\<close> leaves it.\<close>

partial_function (option) page_loop :: "(u32 \<Rightarrow> 's \<Rightarrow> bool \<times> 's) \<Rightarrow> u32 \<Rightarrow> u32 \<Rightarrow> 's \<Rightarrow> (bool \<times> 's) option" where
  "page_loop f va end' s =
     (if va < end' then (case f va s of (ok, s) \<Rightarrow> if ok then page_loop f (va + 4096) end' s else Some (False, s))
      else Some (True, s))"

definition demand_page :: "u32 \<Rightarrow> u32 \<Rightarrow> u32 \<Rightarrow> 'a vm_scheme \<Rightarrow> bool \<times> 'a vm_scheme" where
  "demand_page sp flags va s =
     (case vmm_walk_page_tables sp va True s of (None, s) \<Rightarrow> (False, s)
      | (Some p, s) \<Rightarrow> (True, set_pte p (PTE_DEMAND OR flags) s))"

definition vmm_brk :: "u32 \<Rightarrow> u32 \<Rightarrow> 'a vm_scheme \<Rightarrow> (bool \<times> 'a vm_scheme) option" where
  "vmm_brk sp new_break s =
     (if new_break < USER_HEAP_BASE \<or> new_break \<ge> USER_HEAP_END then Some (False, s)
      else
        let old = heap_break (spaces s sp) in
        case (if new_break > old
              then page_loop (\<lambda>va. demand_page sp (PTE_USER OR PTE_RW) (va AND PAGE_MASK)) old new_break s
              else if new_break < old
              then page_loop (\<lambda>va s. (True, snd (vmm_unmap_page sp (va AND PAGE_MASK) s))) new_break old s
              else Some (True, s)) of
          None \<Rightarrow> None
        | Some (ok, s) \<Rightarrow> Some (if ok then (True, set_space sp (\<lambda>a. a\<lparr>heap_break := new_break\<rparr>) s) else (False, s)))"

definition vmm_mmap :: "u32 \<Rightarrow> u32 \<Rightarrow> u32 \<Rightarrow> u32 \<Rightarrow> 'a vm_scheme \<Rightarrow> (bool \<times> 'a vm_scheme) option" where
  "vmm_mmap sp va nbytes flags s =
     (if va < USER_SHARED_BASE \<or> va \<ge> USER_SHARED_END then Some (False, s)
      else page_loop (demand_page sp (flags AND (PTE_USER OR PTE_RW))) (va AND PAGE_MASK) (va + nbytes) s)"

definition vmm_munmap :: "u32 \<Rightarrow> u32 \<Rightarrow> u32 \<Rightarrow> 'a vm_scheme \<Rightarrow> (bool \<times> 'a vm_scheme) option" where
  "vmm_munmap sp va nbytes s =
     page_loop (\<lambda>va s. (True, snd (vmm_unmap_page sp va s))) (va AND PAGE_MASK) (va + nbytes) s"

definition vmm_mark_region_cow :: "u32 \<Rightarrow> u32 \<Rightarrow> u32 \<Rightarrow> 'a vm_scheme \<Rightarrow> (bool \<times> 'a vm_scheme) option" where
  "vmm_mark_region_cow sp start end' s =
     page_loop (\<lambda>va s. (True, case fst (vmm_walk_page_tables sp va False s) of None \<Rightarrow> s
       | Some p \<Rightarrow>
           let e = get_pte p s in
           if e AND PTE_PRESENT \<noteq> 0 \<and> e AND PTE_RW \<noteq> 0 then set_pte p ((e AND NOT PTE_RW) OR PTE_COW) s else s))
       (start AND PAGE_MASK) end' s"

section \<open>Working set and queries\<close>

text \<open>The count goes through the recursive mapping, that is the tables of the current address space.\<close>

definition vmm_update_working_set :: "u32 \<Rightarrow> 'a vm_scheme \<Rightarrow> 'a vm_scheme" where
  "vmm_update_working_set sp s =
     (case fold (\<lambda>pdi (n, s).
        if get_pte (pde_addr sp (of_nat pdi) s) s AND PTE_PRESENT = 0 then (n, s)
        else fold (\<lambda>pti (n, s).
          let p = (get_pte (pde_addr (vmm_current_as s) (of_nat pdi) s) s AND PTE_FRAME_MASK) + 4 * of_nat pti; e = get_pte p s in
          if e AND PTE_PRESENT \<noteq> 0 \<and> e AND PTE_ACCESSED \<noteq> 0 then (n + 1, set_pte p (e AND NOT PTE_ACCESSED) s) else (n, s))
          [0..<1024] (n, s)) [0..<768] (0, s) of
        (n, s) \<Rightarrow> set_space sp (\<lambda>a. a\<lparr>ws_pages := n\<rparr>) s)"

definition vmm_should_throttle :: "u32 \<Rightarrow> 'a vm_scheme \<Rightarrow> bool \<times> 'a vm_scheme" where
  "vmm_should_throttle sp s =
     (if fault_count (spaces s sp) > 50 then (True, set_space sp (\<lambda>a. a\<lparr>fault_count := 0\<rparr>) s) else (False, s))"

definition vmm_is_page_present :: "u32 \<Rightarrow> u32 \<Rightarrow> 'a vm_scheme \<Rightarrow> bool" where
  "vmm_is_page_present sp va s =
     (case fst (vmm_walk_page_tables sp va False s) of None \<Rightarrow> False | Some p \<Rightarrow> get_pte p s AND PTE_PRESENT \<noteq> 0)"

definition vmm_is_page_writable :: "u32 \<Rightarrow> u32 \<Rightarrow> 'a vm_scheme \<Rightarrow> bool" where
  "vmm_is_page_writable sp va s =
     (case fst (vmm_walk_page_tables sp va False s) of None \<Rightarrow> False
      | Some p \<Rightarrow> get_pte p s AND PTE_PRESENT \<noteq> 0 \<and> get_pte p s AND PTE_RW \<noteq> 0)"

definition vmm_virt_to_phys :: "u32 \<Rightarrow> u32 \<Rightarrow> 'a vm_scheme \<Rightarrow> u32" where
  "vmm_virt_to_phys sp va s =
     (case fst (vmm_walk_page_tables sp va False s) of None \<Rightarrow> 0
      | Some p \<Rightarrow> if get_pte p s AND PTE_PRESENT = 0 then 0 else (get_pte p s AND PTE_FRAME_MASK) OR (va AND 0xFFF))"

end
