(* ===== verification/PartitionSpec.thy ===== *)
theory PartitionSpec
  imports Partition
begin

text \<open>
  What the partition manager promises: the table that is written is the table that is read, a new
  partition is created exactly when a slot is free and its sectors are, virtual drives on a table
  of disjoint partitions never share a sector, and a page of swap space keeps what is written to
  it. The MBR is seen as four slots of type, bootable flag, first sector and size.
\<close>

section \<open>States that differ in the accounting only\<close>

definition charged :: "'a disk_scheme \<Rightarrow> 'a disk_scheme \<Rightarrow> bool" where
  "charged s s' \<longleftrightarrow> (\<exists>k. s' = s\<lparr>dk_kc := k\<rparr> \<and> (\<forall>caps. ctx_denies caps k = ctx_denies caps (dk_kc s)))"

lemma charged_update: "(\<And>caps. ctx_denies caps k = ctx_denies caps (dk_kc s)) \<Longrightarrow> charged s (s\<lparr>dk_kc := k\<rparr>)"
  unfolding charged_def by blast

lemma charged_refl [simp]: "charged s s"
  unfolding charged_def by (intro exI [of _ "dk_kc s"] conjI disk.equality) simp_all

lemma chargedE:
  assumes "charged s s'"
  obtains k where "s' = s\<lparr>dk_kc := k\<rparr>" "\<And>caps. ctx_denies caps k = ctx_denies caps (dk_kc s)"
  using assms that unfolding charged_def by metis

lemma charged_trans:
  assumes "charged s s'" and "charged s' s''"
  shows "charged s s''"
proof -
  obtain k where k: "s' = s\<lparr>dk_kc := k\<rparr>" "\<And>caps. ctx_denies caps k = ctx_denies caps (dk_kc s)" by (rule chargedE [OF assms(1)]) (rule that)
  obtain k' where k': "s'' = s'\<lparr>dk_kc := k'\<rparr>" "\<And>caps. ctx_denies caps k' = ctx_denies caps (dk_kc s')" by (rule chargedE [OF assms(2)]) (rule that)
  have "s'' = s\<lparr>dk_kc := k'\<rparr>" using k(1) k'(1) by simp
  moreover have "ctx_denies caps k' = ctx_denies caps (dk_kc s)" for caps using k k'(2) [of caps] by simp
  ultimately show ?thesis using charged_update [of k' s] by metis
qed

lemma charged_same: "charged s s' \<Longrightarrow> same_disk s s'"
  by (erule chargedE) (simp add: same_disk_def)

lemma charged_denies: "charged s s' \<Longrightarrow> ctx_denies caps (dk_kc s') = ctx_denies caps (dk_kc s)"
  by (erule chargedE) simp

lemma charged_parts:
  assumes "charged s s'"
  shows "g_vdrives s' = g_vdrives s" "g_vdrives_initialized s' = g_vdrives_initialized s"
    "g_swap_partition s' = g_swap_partition s"
  by (rule chargedE [OF assms], simp)+

lemma charged_account: "charged s (part_ctx_account c s)"
  by (simp add: part_ctx_account_def charged_update)

lemma charged_allow: "part_ctx_allow caps c s = (\<not> ctx_denies caps (dk_kc s), s\<lparr>dk_kc := snd (ctx_allow caps c (dk_kc s))\<rparr>)"
  by (simp add: part_ctx_allow_def split_beta)

lemma charged_read:
  assumes "ata_read_sector drive lba s = (r, s')"
  shows "charged s s'"
  using ata_read_frame [OF assms] ata_read_same [OF assms] charged_update [of "dk_kc s'" s] by (simp add: same_disk_def)

lemma charged_round: "charged s (if i mod 4 = 0 then part_ctx_account c s else s)" for i :: nat
  by (simp add: charged_account)

lemma scan_loop_result:
  "\<exists>s'. scan_loop P n i s = (map_option ((+) i) (first_idx (\<lambda>k. P (i + k)) n), s') \<and> charged s s'"
proof (induction n arbitrary: i s)
  case (Suc n)
  let ?s = "if i mod 4 = 0 then part_ctx_account SCHED_COST_FS s else s"
  note c = charged_round [of s i SCHED_COST_FS]
  obtain s' where s': "scan_loop P n (Suc i) ?s = (map_option ((+) (Suc i)) (first_idx (\<lambda>k. P (Suc i + k)) n), s')" "charged ?s s'"
    using Suc.IH [of "Suc i" ?s] by blast
  have "first_idx (\<lambda>k. P (i + k)) (1 + n)
     = (case first_idx (\<lambda>k. P (i + k)) 1 of Some j \<Rightarrow> Some j | None \<Rightarrow> map_option ((+) 1) (first_idx (\<lambda>k. P (i + (1 + k))) n))"
    by (rule first_idx_add)
  moreover have "first_idx (\<lambda>k. P (i + k)) 1 = (if P i then Some 0 else None)" by (simp add: first_idx_def)
  ultimately have "map_option ((+) i) (first_idx (\<lambda>k. P (i + k)) (Suc n))
     = (if P i then Some i else map_option ((+) (Suc i)) (first_idx (\<lambda>k. P (Suc i + k)) n))"
    by (cases "first_idx (\<lambda>k. P (Suc (k + i))) n") (auto simp: add_ac)
  then show ?case using s' c charged_trans [OF c s'(2)] by (auto simp: Let_def)
qed (simp add: first_idx_def)

lemma scan_loop_0: "\<exists>s'. scan_loop P n 0 s = (first_idx P n, s') \<and> charged s s'"
proof -
  have "map_option ((+) 0) x = x" for x :: "nat option" by (cases x) simp_all
  then show ?thesis using scan_loop_result [of P n 0 s] by simp
qed

section \<open>The slots of an MBR\<close>

type_synonym slot = "u8 \<times> bool \<times> u32 \<times> u32"

definition slot_of :: "partition_info \<Rightarrow> slot" where
  "slot_of p = (pi_type p, pi_bootable p, pi_lba_start p, pi_sector_count p)"

definition mbr_slot :: "bytes \<Rightarrow> nat \<Rightarrow> slot" where
  "mbr_slot mbr i = (let e = 446 + i * 16 in (mbr ! (e + 4), mbr ! e = 0x80, get32 mbr (e + 8), get32 mbr (e + 12)))"

definition slots :: "'a disk_scheme \<Rightarrow> u8 \<Rightarrow> slot list" where
  "slots s drive = map (mbr_slot (sector s drive 0)) [0..<4]"

fun live :: "slot \<Rightarrow> bool" where
  "live (type, boot, start, count) \<longleftrightarrow> type \<noteq> 0 \<and> count > 0"

definition written :: "slot \<Rightarrow> slot" where
  "written x = (if live x then x else (0, False, 0, 0))"

lemma length_entry_bytes [simp]: "length (mbr_entry_bytes p) = 16"
  by (simp add: mbr_entry_bytes_def)

lemma mbr_slot_entry:
  assumes "drop (446 + i * 16) mbr = mbr_entry_bytes p @ rest"
  shows "mbr_slot mbr i = written (slot_of p)"
proof -
  have le: "446 + i * 16 \<le> length mbr" using arg_cong [OF assms, of length] by simp
  have nth: "mbr ! (446 + i * 16 + k) = (mbr_entry_bytes p @ rest) ! k" for k
    using nth_drop [OF le, of k] assms by simp
  have g: "get32 mbr (446 + i * 16 + k) = get32 (mbr_entry_bytes p @ rest) k" for k
    using nth [of k] nth [of "k + 1"] nth [of "k + 2"] nth [of "k + 3"] by (simp add: get32_def add.assoc)
  show ?thesis unfolding mbr_slot_def Let_def g nth nth [of 0, simplified]
    by (auto simp: mbr_entry_bytes_def slot_of_def written_def get32_def bytes_of32_def join32 nth_append)
qed

lemma put_entries_result:
  assumes "length mbr = 512" "length ps = 4" "i + n \<le> 4"
  shows "\<exists>s'. put_entries ps n i (mbr, s)
      = (take (446 + i * 16) mbr @ concat (map mbr_entry_bytes (take n (drop i ps))) @ drop (446 + (i + n) * 16) mbr, s') \<and> charged s s'"
  using assms
proof (induction n arbitrary: i mbr s)
  case (Suc n)
  let ?s = "if i mod 4 = 0 then part_ctx_account SCHED_COST_FS s else s"
  let ?m = "blit mbr (446 + i * 16) (mbr_entry_bytes (ps ! i))"
  have "length ?m = 512" using Suc.prems by (simp add: blit_def)
  then obtain s' where s': "charged ?s s'" "put_entries ps n (Suc i) (?m, ?s)
      = (take (446 + Suc i * 16) ?m @ concat (map mbr_entry_bytes (take n (drop (Suc i) ps))) @ drop (446 + (Suc i + n) * 16) ?m, s')"
    using Suc.IH [of ?m "Suc i" ?s] Suc.prems by auto
  moreover have "take (446 + Suc i * 16) ?m = take (446 + i * 16) mbr @ mbr_entry_bytes (ps ! i)"
    using Suc.prems by (simp add: blit_def)
  moreover have "drop (446 + (Suc i + n) * 16) ?m = drop (446 + (i + Suc n) * 16) mbr"
    using Suc.prems by (simp add: blit_def algebra_simps)
  moreover have "take (Suc n) (drop i ps) = ps ! i # take n (drop (Suc i) ps)"
    using Suc.prems by (simp add: Cons_nth_drop_Suc [symmetric])
  ultimately show ?case using charged_trans [OF charged_round [of s i SCHED_COST_FS] s'(1)] by auto
qed auto

section \<open>Reading and writing the table\<close>

definition part_ready :: "u8 \<Rightarrow> u32 set \<Rightarrow> 'a disk_scheme \<Rightarrow> bool" where
  "part_ready drive L s \<longleftrightarrow> healthy drive L s \<and> \<not> ctx_denies CAP_DEV_DISK (dk_kc s) \<and> 0 \<in> L
     \<and> length (sector s drive 0) = 512"

lemma charged_ready: "charged s s' \<Longrightarrow> part_ready drive L s' = part_ready drive L s"
  using same_disk_healthy [OF charged_same, of s s'] same_disk_sector [OF charged_same, of s s']
  charged_denies [of s s'] by (auto simp: part_ready_def)

lemma charged_slots: "charged s s' \<Longrightarrow> slots s' drive = slots s drive"
  using same_disk_sector [OF charged_same, of s s'] by (simp add: slots_def)

lemma charged_sector: "charged s s' \<Longrightarrow> sector s' = sector s"
  by (rule same_disk_sector [OF charged_same])

lemma part_allow:
  assumes "part_ready drive L s"
  shows "\<exists>s'. part_ctx_allow CAP_DEV_DISK c s = (True, s') \<and> charged s s'"
  using assms by (simp add: charged_allow part_ready_def charged_update)

lemma detect_charged: "partition_detect_fs drive lba s = (fs, s') \<Longrightarrow> charged s s'"
proof -
  assume h: "partition_detect_fs drive lba s = (fs, s')"
  obtain ok s1 where s1: "part_ctx_allow CAP_DEV_DISK SCHED_COST_FS s = (ok, s1)" "charged s s1"
    by (simp add: charged_allow charged_update)
  obtain r s2 where s2: "ata_read_sector drive lba s1 = (r, s2)" by fastforce
  have "s' = s1 \<or> s' = s2" using h s1(1) s2 by (auto simp: partition_detect_fs_def split: if_splits option.splits)
  then show ?thesis using s1(2) charged_read [OF s2] charged_trans by blast
qed

lemma parse_entries_result:
  "\<exists>ps s'. parse_entries drive mbr n i s = (ps, s') \<and> charged s s' \<and> map slot_of ps = map (mbr_slot mbr) [i..<i + n]
     \<and> (\<forall>p \<in> set ps. pi_drive p = drive)"
proof (induction n arbitrary: i s)
  case (Suc n)
  define s0 where "s0 = (if i mod 4 = 0 then part_ctx_account SCHED_COST_FS s else s)"
  have c0: "charged s s0" by (simp add: s0_def charged_account)
  let ?e = "446 + i * 16"
  obtain fs s1 where fs: "partition_detect_fs drive (get32 mbr (?e + 8)) s0 = (fs, s1)" by fastforce
  let ?live = "mbr ! (?e + 4) \<noteq> 0 \<and> get32 mbr (?e + 12) > 0"
  let ?s1 = "if ?live then s1 else s0"
  have c1: "charged s ?s1"
    using charged_trans [OF c0 detect_charged [OF fs]] c0 by simp
  obtain ps s2 where ps: "parse_entries drive mbr n (Suc i) ?s1 = (ps, s2)" "charged ?s1 s2"
    "map slot_of ps = map (mbr_slot mbr) [Suc i..<Suc i + n]" "\<forall>p \<in> set ps. pi_drive p = drive"
    using Suc.IH [of "Suc i" ?s1] by blast
  have u: "[i..<i + Suc n] = i # [Suc i..<Suc i + n]" by (simp add: upt_conv_Cons)
  let ?p = "\<lparr>pi_drive = drive, pi_partition_num = of_nat i, pi_type = mbr ! (?e + 4), pi_bootable = (mbr ! ?e = 0x80),
    pi_lba_start = get32 mbr (?e + 8), pi_sector_count = get32 mbr (?e + 12), pi_size_mb = get32 mbr (?e + 12) div 2048,
    pi_label = replicate 16 0, pi_mounted = False, pi_fs_type = 0\<rparr>"
  let ?q = "if ?live then ?p\<lparr>pi_label := part_label i, pi_fs_type := fs\<rparr> else ?p"
  have "parse_entries drive mbr (Suc n) i s = (?q # ps, s2)"
  proof (cases ?live)
    case True
    then have "parse_entries drive mbr n (Suc i) s1 = (ps, s2)" using ps(1) by simp
    then show ?thesis unfolding parse_entries.simps s0_def [symmetric] using fs True by (simp add: Let_def)
  next
    case False
    then have "parse_entries drive mbr n (Suc i) s0 = (ps, s2)" using ps(1) by (simp only: if_False)
    then show ?thesis unfolding parse_entries.simps s0_def [symmetric] using False by (auto simp: Let_def)
  qed
  moreover have "slot_of ?q = mbr_slot mbr i" "pi_drive ?q = drive"
    by (simp_all add: slot_of_def mbr_slot_def Let_def)
  ultimately show ?case unfolding u using ps(3,4) charged_trans [OF c1 ps(2)] by auto
qed simp

lemma read_table:
  assumes "part_ready drive L s"
  shows "\<exists>info s'. partition_read_table drive s = (Some info, s') \<and> charged s s'
     \<and> map slot_of (di_partitions info) = slots s drive"
proof -
  obtain s1 where s1: "part_ctx_allow CAP_DEV_DISK SCHED_COST_FS s = (True, s1)" "charged s s1"
    using part_allow [OF assms] by blast
  have r1: "healthy drive L s1" "0 \<in> L" using assms charged_ready [OF s1(2)] by (auto simp: part_ready_def)
  obtain s2 where s2: "ata_read_sector drive 0 s1 = (Some (sector s1 drive 0), s2)"
    using ata_read_healthy [OF r1] by blast
  obtain ps s3 where s3: "parse_entries drive (sector s1 drive 0) 4 0 s2 = (ps, s3)" "charged s2 s3"
    "map slot_of ps = map (mbr_slot (sector s1 drive 0)) [0..<4]"
    using parse_entries_result [of drive "sector s1 drive 0" 4 0 s2] by (auto simp del: upt_rec_numeral)
  have "charged s s3" using s1(2) charged_read [OF s2] s3(2) charged_trans by blast
  then show ?thesis using s1 s2 s3 charged_sector [OF s1(2)]
    by (simp add: partition_read_table_def slots_def del: upt_rec_numeral)
qed

lemma table_bytes_slots:
  assumes "length mbr = 512" "length ps = 4"
    and m: "m = (take 446 mbr @ concat (map mbr_entry_bytes ps) @ drop 510 mbr)[510 := a, 511 := b]"
  shows "map (mbr_slot m) [0..<4] = map (\<lambda>p. written (slot_of p)) ps" "length m = 512" "take 446 m = take 446 mbr"
proof -
  obtain p0 p1 p2 p3 where ps: "ps = [p0, p1, p2, p3]"
    using assms(2) by (auto simp: numeral_eq_Suc length_Suc_conv)
  obtain x y where xy: "drop 510 mbr = [x, y]"
    using assms(1) by (cases "drop 510 mbr"; cases "tl (drop 510 mbr)") (auto dest: arg_cong [of _ _ length])
  have m': "m = take 446 mbr @ mbr_entry_bytes p0 @ mbr_entry_bytes p1 @ mbr_entry_bytes p2 @ mbr_entry_bytes p3 @ [a, b]"
    using assms(1) by (simp add: m ps xy list_update_append)
  have d: "drop (446 + 0 * 16) m = mbr_entry_bytes p0 @ mbr_entry_bytes p1 @ mbr_entry_bytes p2 @ mbr_entry_bytes p3 @ [a, b]"
    "drop (446 + 1 * 16) m = mbr_entry_bytes p1 @ mbr_entry_bytes p2 @ mbr_entry_bytes p3 @ [a, b]"
    "drop (446 + 2 * 16) m = mbr_entry_bytes p2 @ mbr_entry_bytes p3 @ [a, b]"
    "drop (446 + 3 * 16) m = mbr_entry_bytes p3 @ [a, b]"
    using assms(1) by (simp_all add: m')
  show "map (mbr_slot m) [0..<4] = map (\<lambda>p. written (slot_of p)) ps"
    using mbr_slot_entry [OF d(1)] mbr_slot_entry [OF d(2)] mbr_slot_entry [OF d(3)] mbr_slot_entry [OF d(4)]
    by (simp add: ps upt_rec numeral_2_eq_2 numeral_3_eq_3)
  show "length m = 512" "take 446 m = take 446 mbr" using assms(1) by (simp_all add: m')
qed

lemma write_table:
  assumes "part_ready drive L s" and "length (di_partitions info) = 4"
  shows "\<exists>s'. partition_write_table drive info s = (Some (), s') \<and> part_ready drive L s'
     \<and> slots s' drive = map (\<lambda>p. written (slot_of p)) (di_partitions info)
     \<and> take 446 (sector s' drive 0) = take 446 (sector s drive 0)
     \<and> (\<forall>l \<in> L. l \<noteq> 0 \<longrightarrow> sector s' drive l = sector s drive l)"
proof -
  let ?mbr = "sector s drive 0"
  obtain s1 where s1: "part_ctx_allow CAP_DEV_DISK SCHED_COST_FS s = (True, s1)" "charged s s1"
    using part_allow [OF assms(1)] by blast
  have r1: "healthy drive L s1" "0 \<in> L" "length ?mbr = 512"
    using assms(1) charged_ready [OF s1(2)] by (auto simp: part_ready_def)
  obtain s2 where s2: "ata_read_sector drive 0 s1 = (Some ?mbr, s2)"
    using ata_read_healthy [OF r1(1,2)] charged_sector [OF s1(2)] by auto
  let ?b = "take 446 ?mbr @ concat (map mbr_entry_bytes (di_partitions info)) @ drop 510 ?mbr"
  obtain s3 where s3: "put_entries (di_partitions info) 4 0 (?mbr, s2) = (?b, s3)" "charged s2 s3"
    using put_entries_result [OF r1(3) assms(2), of 0 4 s2] assms(2) by auto
  let ?m = "?b[510 := 0x55, 511 := 0xAA]"
  have c: "charged s s3" using s1(2) charged_read [OF s2] s3(2) charged_trans by blast
  have r3: "part_ready drive L s3" using charged_ready [OF c] assms(1) by blast
  obtain s4 where s4: "ata_write_sector drive 0 ?m s3 = (Some (), s4)" "healthy drive L s4"
    "\<And>l. l \<in> L \<Longrightarrow> sector s4 drive l = (if l = 0 then ?m else sector s3 drive l)"
    "\<And>caps. ctx_denies caps (dk_kc s4) = ctx_denies caps (dk_kc s3)"
    using ata_write_healthy [of drive L s3 0 ?m] r3 r1(2) by (auto simp: part_ready_def)
  note t = table_bytes_slots [OF r1(3) assms(2), of ?m "0x55" "0xAA"]
  have "partition_write_table drive info s = (Some (), s4)"
    using s1 s2 s3 s4(1) by (simp add: partition_write_table_def)
  then show ?thesis using s4 r1(2) r3 t charged_sector [OF c]
    by (auto simp: part_ready_def slots_def simp del: upt_rec_numeral)
qed

section \<open>Disjoint partitions\<close>

fun extent :: "slot \<Rightarrow> nat set" where
  "extent (type, boot, start, count) = {unat start..<unat start + unat count}"

fun slot_ok :: "slot \<Rightarrow> bool" where
  "slot_ok (type, boot, start, count) \<longleftrightarrow> (type \<noteq> 0 \<longrightarrow> count > 0 \<and> unat start + unat count < 2 ^ 32)"

definition table_ok :: "slot list \<Rightarrow> bool" where
  "table_ok xs \<longleftrightarrow> list_all slot_ok xs
     \<and> (\<forall>i < length xs. \<forall>j < length xs. i \<noteq> j \<longrightarrow> live (xs ! i) \<longrightarrow> live (xs ! j) \<longrightarrow> extent (xs ! i) \<inter> extent (xs ! j) = {})"

lemma overlaps_extent:
  assumes "unat a + unat n < 2 ^ 32" "unat p + unat m < 2 ^ 32" "0 < n" "0 < m"
  shows "overlaps a (a + n) p (p + m) \<longleftrightarrow> {unat a..<unat a + unat n} \<inter> {unat p..<unat p + unat m} \<noteq> {}"
proof -
  have pos: "0 < unat n" "0 < unat m" using assms(3,4) by (simp_all add: word_less_nat_alt)
  have "overlaps a (a + n) p (p + m) \<longleftrightarrow> unat a < unat p + unat m \<and> unat p < unat a + unat n"
    using pos by (auto simp: overlaps_def word_le_nat_alt word_less_nat_alt unat_add32 [OF assms(1)] unat_add32 [OF assms(2)])
  also have "\<dots> \<longleftrightarrow> {unat a..<unat a + unat n} \<inter> {unat p..<unat p + unat m} \<noteq> {}"
  proof
    assume "unat a < unat p + unat m \<and> unat p < unat a + unat n"
    then have "max (unat a) (unat p) \<in> {unat a..<unat a + unat n} \<inter> {unat p..<unat p + unat m}" using pos by auto
    then show "{unat a..<unat a + unat n} \<inter> {unat p..<unat p + unat m} \<noteq> {}" by blast
  qed auto
  finally show ?thesis .
qed

lemma length_slots [simp, len_simps]: "length (slots s drive) = 4"
  by (simp add: slots_def)

lemma live_written [simp]: "live (written x) = live x"
  by (simp add: written_def)

lemma extent_written: "live x \<Longrightarrow> extent (written x) = extent x"
  by (simp add: written_def)

lemma table_ok_written: "table_ok xs \<Longrightarrow> table_ok (map written xs)"
proof -
  have "slot_ok (written x)" if "slot_ok x" for x using that by (auto simp: written_def)
  then show "table_ok xs \<Longrightarrow> table_ok (map written xs)"
    by (auto simp: table_ok_def extent_written list_all_iff)
qed

lemma table_ok_update:
  assumes "table_ok xs" "slot_ok x" and new: "\<And>i. i < length xs \<Longrightarrow> i \<noteq> k \<Longrightarrow> live (xs ! i) \<Longrightarrow> extent (xs ! i) \<inter> extent x = {}"
  shows "table_ok (xs[k := x])"
proof -
  have "list_all slot_ok (xs[k := x])" using assms(1,2) set_update_subset_insert [of xs k x] by (auto simp: table_ok_def list_all_iff)
  moreover have "extent (xs[k := x] ! i) \<inter> extent (xs[k := x] ! j) = {}"
    if "i < length xs" "j < length xs" "i \<noteq> j" "live (xs[k := x] ! i)" "live (xs[k := x] ! j)" for i j
    using that assms(1) new [of i] new [of j] by (cases "i = k"; cases "j = k") (auto simp: table_ok_def Int_commute)
  ultimately show ?thesis by (simp add: table_ok_def)
qed

text \<open>The condition that a request fits into a table.\<close>

definition space_free :: "slot list \<Rightarrow> slot \<Rightarrow> bool" where
  "space_free xs x \<longleftrightarrow> (\<forall>i < length xs. live (xs ! i) \<longrightarrow> extent (xs ! i) \<inter> extent x = {})"

lemma overlap_scan:
  assumes "table_ok xs" "length xs = 4" "map slot_of ps = xs" "unat start + unat count < 2 ^ 32" "0 < count"
  shows "first_idx (\<lambda>i. let p = ps ! i in pi_type p \<noteq> 0 \<and> overlaps start (start + count) (pi_lba_start p) (pi_lba_start p + pi_sector_count p)) 4
     = None \<longleftrightarrow> space_free xs (type, boot, start, count)"
proof -
  have "(pi_type (ps ! i) \<noteq> 0 \<and> overlaps start (start + count) (pi_lba_start (ps ! i)) (pi_lba_start (ps ! i) + pi_sector_count (ps ! i)))
     \<longleftrightarrow> live (xs ! i) \<and> extent (xs ! i) \<inter> extent (type, boot, start, count) \<noteq> {}" if i: "i < 4" for i
  proof -
    have x: "xs ! i = slot_of (ps ! i)" using assms(2,3) i by (metis length_map nth_map)
    have ok: "slot_ok (xs ! i)" using assms(1,2) i by (simp add: table_ok_def list_all_length)
    show ?thesis
    proof (cases "pi_type (ps ! i) = 0")
      case False
      then have h: "0 < pi_sector_count (ps ! i)" "unat (pi_lba_start (ps ! i)) + unat (pi_sector_count (ps ! i)) < 2 ^ 32"
        using ok by (simp_all add: x slot_of_def)
      then show ?thesis using overlaps_extent [OF assms(4) h(2) assms(5) h(1)] False
        by (simp add: x slot_of_def Int_commute)
    qed (simp add: x slot_of_def)
  qed
  then show ?thesis using assms(2) unfolding first_idx_None space_free_def Let_def by auto
qed

section \<open>Creation\<close>

definition new_table :: "disk_info \<Rightarrow> nat \<Rightarrow> u32 \<Rightarrow> u32 \<Rightarrow> u8 \<Rightarrow> disk_info" where
  "new_table disk i start count type = disk\<lparr>di_partitions := (di_partitions disk)[i := (di_partitions disk ! i)
     \<lparr>pi_type := type, pi_lba_start := start, pi_sector_count := count, pi_bootable := False, pi_size_mb := count div 2048\<rparr>],
     di_partition_count := di_partition_count disk + 1\<rparr>"

lemma partition_create_run:
  assumes "part_ready drive L s"
  shows "\<exists>disk s1 s2. map slot_of (di_partitions disk) = slots s drive \<and> charged s s1 \<and> charged s s2
     \<and> partition_create drive start count type s =
        (case first_idx (\<lambda>i. pi_type (di_partitions disk ! i) = 0) 4 of None \<Rightarrow> (None, s1)
         | Some i \<Rightarrow>
             if first_idx (\<lambda>i. let p = di_partitions disk ! i in pi_type p \<noteq> 0
                  \<and> overlaps start (start + count) (pi_lba_start p) (pi_lba_start p + pi_sector_count p)) 4 \<noteq> None then (None, s2)
             else on_ok (partition_write_table drive (new_table disk i start count type) s2) (\<lambda>_ s. (Some i, s)))"
proof -
  obtain s1 where s1: "part_ctx_allow CAP_DEV_DISK SCHED_COST_FS s = (True, s1)" "charged s s1"
    using part_allow [OF assms] by blast
  obtain disk s2 where s2: "partition_read_table drive s1 = (Some disk, s2)" "charged s1 s2" "map slot_of (di_partitions disk) = slots s drive"
    using read_table [of drive L s1] charged_ready [OF s1(2)] assms charged_slots [OF s1(2)] by auto
  let ?P = "\<lambda>i. pi_type (di_partitions disk ! i) = 0"
  let ?Q = "\<lambda>i. let p = di_partitions disk ! i in pi_type p \<noteq> 0
    \<and> overlaps start (start + count) (pi_lba_start p) (pi_lba_start p + pi_sector_count p)"
  obtain s3 where s3: "scan_loop ?P 4 0 s2 = (first_idx ?P 4, s3)" "charged s2 s3" using scan_loop_0 by blast
  obtain s4 where s4: "scan_loop ?Q 4 0 s3 = (first_idx ?Q 4, s4)" "charged s3 s4" using scan_loop_0 by blast
  have "charged s s3" "charged s s4" using s1(2) s2(2) s3(2) s4(2) charged_trans by blast+
  moreover have "partition_create drive start count type s = (case first_idx ?P 4 of None \<Rightarrow> (None, s3)
     | Some i \<Rightarrow> if first_idx ?Q 4 \<noteq> None then (None, s4)
                 else on_ok (partition_write_table drive (new_table disk i start count type) s4) (\<lambda>_ s. (Some i, s)))"
    using s1(1) s2(1) s3(1) s4(1)
    by (cases "first_idx ?P 4"; cases "first_idx ?Q 4") (simp_all add: partition_create_def new_table_def)
  ultimately show ?thesis using s2(3) by blast
qed


section \<open>Writing and reading a table\<close>

text \<open>C29. A partition table that is written reads back: type, bootable flag, first sector and size of
  every live entry are those that were written and the other entries are empty. The boot code of
  the sector and all other sectors keep their content.\<close>

theorem partition_table_write_read:
  assumes "part_ready drive L s" and "length (di_partitions info) = 4"
  shows "\<exists>s1 s2 info'. partition_write_table drive info s = (Some (), s1)
     \<and> partition_read_table drive s1 = (Some info', s2)
     \<and> map slot_of (di_partitions info') = map (\<lambda>p. written (slot_of p)) (di_partitions info)
     \<and> take 446 (sector s2 drive 0) = take 446 (sector s drive 0)
     \<and> (\<forall>l \<in> L. l \<noteq> 0 \<longrightarrow> sector s2 drive l = sector s drive l)"
proof -
  obtain s1 where s1: "partition_write_table drive info s = (Some (), s1)" "part_ready drive L s1"
     "slots s1 drive = map (\<lambda>p. written (slot_of p)) (di_partitions info)"
     "take 446 (sector s1 drive 0) = take 446 (sector s drive 0)"
     "\<forall>l \<in> L. l \<noteq> 0 \<longrightarrow> sector s1 drive l = sector s drive l"
    using write_table [OF assms] by blast
  obtain info' s2 where s2: "partition_read_table drive s1 = (Some info', s2)" "charged s1 s2"
     "map slot_of (di_partitions info') = slots s1 drive"
    using read_table [OF s1(2)] by blast
  show ?thesis
    by (intro exI conjI, rule s1(1), rule s2(1)) (simp_all add: s2(3) s1(3-5) charged_sector [OF s2(2)])
qed

section \<open>Virtual drives\<close>

text \<open>Mounting and unmounting, in any order, from the empty table of virtual drives.\<close>

datatype vd_op = Mount u8 u8 bytes | Unmount bytes

fun vd_step :: "vd_op \<Rightarrow> 'a parts_scheme \<Rightarrow> 'a parts_scheme" where
  "vd_step (Mount drive part name) s = snd (vdrive_mount drive part name s)"
| "vd_step (Unmount name) s = snd (vdrive_unmount name s)"

text \<open>Every mounted virtual drive is a partition of the table on its physical drive.\<close>

definition vd_inv :: "(u8 \<Rightarrow> slot list) \<Rightarrow> 'a parts_scheme \<Rightarrow> bool" where
  "vd_inv T s \<longleftrightarrow> length (g_vdrives s) = 8
     \<and> (\<forall>v \<in> set (g_vdrives s). vd_in_use v \<longrightarrow> unat (vd_partition_num v) < 4
          \<and> (\<exists>type boot. type \<noteq> 0 \<and> T (vd_physical_drive v) ! unat (vd_partition_num v) = (type, boot, vd_lba_offset v, vd_sector_count v)))"

lemma vd_inv_charged: "charged s s' \<Longrightarrow> vd_inv T s' = vd_inv T s"
  by (simp add: vd_inv_def charged_parts)

lemma vd_inv_init: "vd_inv T s \<Longrightarrow> vd_inv T (vdrive_init s)"
  by (simp add: vd_inv_def vdrive_init_def zero_vdrive_def)

lemma sector_vdrive_init: "sector (vdrive_init s) = sector s"
  by (simp add: vdrive_init_def sector_def fun_eq_iff)

lemma sector_vdrives [simp]: "sector (s\<lparr>g_vdrives := V\<rparr>) = sector s"
  by (simp add: sector_def fun_eq_iff)

lemma vd_inv_update:
  assumes "vd_inv T s"
    and "vd_in_use v \<Longrightarrow> unat (vd_partition_num v) < 4
      \<and> (\<exists>type boot. type \<noteq> 0 \<and> T (vd_physical_drive v) ! unat (vd_partition_num v) = (type, boot, vd_lba_offset v, vd_sector_count v))"
  shows "vd_inv T (s\<lparr>g_vdrives := (g_vdrives s)[i := v]\<rparr>)"
  using assms set_update_subset_insert [of "g_vdrives s" i v] unfolding vd_inv_def by auto

lemma ata_read_sector_Some: "ata_read_sector drive lba s = (Some b, s') \<Longrightarrow> b = sector s drive lba"
  by (auto simp: ata_read_sector_def vfs_ramdisk_read_sector_def ata_ctx_allow_cases sector_def split: if_splits option.splits)

lemma read_table_any:
  assumes "partition_read_table drive s = (r, s')"
  shows "charged s s'" "r = Some info \<Longrightarrow> map slot_of (di_partitions info) = slots s drive"
proof -
  obtain ok s1 where s1: "part_ctx_allow CAP_DEV_DISK SCHED_COST_FS s = (ok, s1)" "charged s s1"
    by (simp add: charged_allow charged_update)
  obtain q s2 where s2: "ata_read_sector drive 0 s1 = (q, s2)" by fastforce
  obtain ps s3 where s3: "parse_entries drive (the q) 4 0 s2 = (ps, s3)" "charged s2 s3" "map slot_of ps = map (mbr_slot (the q)) [0..<4]"
    using parse_entries_result [of drive "the q" 4 0 s2] by (auto simp del: upt_rec_numeral)
  have c: "charged s s2" "charged s s3" using s1(2) charged_read [OF s2] s3(2) charged_trans by blast+
  have r: "(r, s') = (if \<not> ok then (None, s1) else case q of None \<Rightarrow> (None, s2) | Some mbr \<Rightarrow>
       (Some \<lparr>di_drive = drive, di_total_sectors = 0, di_total_mb = 0,
             di_partition_count = of_nat (length (filter (\<lambda>p. pi_type p \<noteq> PART_TYPE_EMPTY \<and> pi_sector_count p > 0) ps)),
             di_partitions = ps,
             di_has_valid_mbr = (get16 mbr MBR_SIGNATURE_OFFSET = MBR_SIGNATURE)\<rparr>, s3))"
    using assms s1(1) s2 s3(1) by (cases ok; cases q) (auto simp: partition_read_table_def)
  then show "charged s s'" using c s1(2) by (auto split: if_splits option.splits)
  assume "r = Some info"
  then obtain mbr where "q = Some mbr" "di_partitions info = ps" using r by (auto split: if_splits option.splits)
  then show "map slot_of (di_partitions info) = slots s drive"
    using ata_read_sector_Some [of drive 0 s1 mbr s2] s2 s3(3) charged_sector [OF s1(2)]
    by (simp add: slots_def del: upt_rec_numeral)
qed

lemma vd_step_inv:
  assumes "vd_inv (slots s) s"
  shows "vd_inv (slots s) (vd_step op s) \<and> sector (vd_step op s) = sector s"
proof (cases op)
  case (Mount d p name)
  obtain ok s1 where s1: "part_ctx_allow CAP_DEV_DISK SCHED_COST_FS s = (ok, s1)" "charged s s1"
    by (simp add: charged_allow charged_update)
  define s1' where "s1' = (if g_vdrives_initialized s1 then s1 else vdrive_init s1)"
  let ?P = "\<lambda>i. \<not> vd_in_use (g_vdrives s1' ! i)"
  obtain s2 where s2: "scan_loop ?P 8 0 s1' = (first_idx ?P 8, s2)" "charged s1' s2" using scan_loop_0 by blast
  obtain r s3 where s3: "partition_read_table d s2 = (r, s3)" by fastforce
  have sec1: "sector s1' = sector s"
    using charged_sector [OF s1(2)] by (simp add: s1'_def sector_vdrive_init)
  have sec: "sector s2 = sector s" "sector s3 = sector s"
    using sec1 charged_sector [OF s2(2)] charged_sector [OF read_table_any(1) [OF s3]] by simp_all
  have inv1: "vd_inv (slots s) s1" "vd_inv (slots s) s1'"
    using assms vd_inv_charged [OF s1(2)] vd_inv_init [of "slots s" s1] by (simp_all add: s1'_def)
  have inv: "vd_inv (slots s) s2" "vd_inv (slots s) s3"
    using inv1(2) vd_inv_charged [OF s2(2)] vd_inv_charged [OF read_table_any(1) [OF s3]] by simp_all
  have run: "vdrive_mount d p name s = (if \<not> ok then (None, s1) else case first_idx ?P 8 of None \<Rightarrow> (None, s2) | Some slot \<Rightarrow>
      case r of None \<Rightarrow> (None, s3) | Some disk \<Rightarrow>
        if unat p \<ge> 4 \<or> pi_type (di_partitions disk ! unat p) = 0 then (None, s3)
        else (Some slot, s3\<lparr>g_vdrives := (g_vdrives s3)[slot := (g_vdrives s3 ! slot)\<lparr>vd_in_use := True, vd_physical_drive := d,
           vd_partition_num := p, vd_lba_offset := pi_lba_start (di_partitions disk ! unat p),
           vd_sector_count := pi_sector_count (di_partitions disk ! unat p), vd_fs_type := pi_fs_type (di_partitions disk ! unat p),
           vd_mount_point := strncpy (vd_mount_point (g_vdrives s3 ! slot)) name 7\<rparr>]\<rparr>))"
    using s1(1) s2(1) s3 unfolding vdrive_mount_def s1'_def
    by (cases "first_idx ?P 8"; cases r) (simp_all add: Let_def s1'_def [symmetric])
  have slot: "slots s d ! unat p = slot_of (di_partitions disk ! unat p)" if "r = Some disk" "unat p < 4" for disk
  proof -
    have "map slot_of (di_partitions disk) = slots s d" using read_table_any(2) [OF s3 that(1)] sec(1) by (simp add: slots_def)
    then show ?thesis using that(2) by (metis length_map length_slots nth_map)
  qed
  show ?thesis unfolding Mount vd_step.simps run
    using inv1(1) inv sec charged_sector [OF s1(2)] slot
    by (auto split: option.split intro!: vd_inv_update simp: slot_of_def)
next
  case (Unmount name)
  obtain ok s1 where s1: "part_ctx_allow CAP_DEV_DISK SCHED_COST_FS s = (ok, s1)" "charged s s1"
    by (simp add: charged_allow charged_update)
  let ?P = "\<lambda>i. vd_in_use (g_vdrives s1 ! i) \<and> strEql (vd_mount_point (g_vdrives s1 ! i)) name"
  obtain s2 where s2: "scan_loop ?P 8 0 s1 = (first_idx ?P 8, s2)" "charged s1 s2" using scan_loop_0 by blast
  have inv: "vd_inv (slots s) s1" "vd_inv (slots s) s2" using assms vd_inv_charged [OF s1(2)] vd_inv_charged [OF s2(2)] by simp_all
  show ?thesis unfolding Unmount using s1(1) s2(1) inv charged_sector [OF s1(2)] charged_sector [OF s2(2)]
    by (cases "first_idx ?P 8") (auto simp: vdrive_unmount_def intro!: vd_inv_update)
qed

lemma vd_run_inv:
  assumes "vd_inv (slots s) s"
  shows "vd_inv (slots s) (fold vd_step ops s)"
  using assms
proof (induction ops arbitrary: s)
  case (Cons op ops)
  have "slots (vd_step op s) = slots s" using vd_step_inv [OF Cons.prems, of op] by (simp add: slots_def fun_eq_iff)
  then show ?case using Cons.IH [of "vd_step op s"] vd_step_inv [OF Cons.prems, of op] by simp
qed simp

lemma translate_extent:
  assumes "vd_inv T s" "vdrive_translate_lba v l s = Some (d, x)" "\<And>d. table_ok (T d)" "\<And>d. length (T d) = 4"
  shows "\<exists>i < 4. live (T d ! i) \<and> unat x \<in> extent (T d ! i) \<and> (\<exists>type boot start count. T d ! i = (type, boot, start, count) \<and> x = start + l \<and> l < count)
     \<and> unat (vd_partition_num (g_vdrives s ! unat v)) = i"
proof -
  let ?v = "g_vdrives s ! unat v"
  have v: "unat v < 8" "vd_in_use ?v" "l < vd_sector_count ?v" "d = vd_physical_drive ?v" "x = vd_lba_offset ?v + l"
    using assms(2) by (auto simp: vdrive_translate_lba_def vdrive_get_def split: if_splits option.splits)
  then have "?v \<in> set (g_vdrives s)" using assms(1) by (simp add: vd_inv_def)
  then obtain type boot where t: "unat (vd_partition_num ?v) < 4" "type \<noteq> 0"
      "T d ! unat (vd_partition_num ?v) = (type, boot, vd_lba_offset ?v, vd_sector_count ?v)"
    using assms(1) v unfolding vd_inv_def by blast
  have "slot_ok (T d ! unat (vd_partition_num ?v))" using assms(3,4) t(1) by (metis list_all_length table_ok_def)
  then have ok: "0 < vd_sector_count ?v" "unat (vd_lba_offset ?v) + unat (vd_sector_count ?v) < 2 ^ 32" using t by simp_all
  then have "unat x = unat (vd_lba_offset ?v) + unat l" "unat l < unat (vd_sector_count ?v)"
    using v(3,5) by (simp_all add: word_less_nat_alt unat_add32)
  then show ?thesis using t ok v by (intro exI [of _ "unat (vd_partition_num ?v)"]) auto
qed

text \<open>C23. Isolation of virtual drives. After any sequence of mounts and unmounts, on disks whose
  partition tables are disjoint, a sector that a virtual drive translates to lies inside its
  partition, and two virtual drives reach the same physical sector only through the same partition
  and the same block of it.\<close>

theorem vdrive_isolation:
  assumes "g_vdrives s = replicate 8 zero_vdrive" and "\<And>d. table_ok (slots s d)"
    and "vdrive_translate_lba v l (fold vd_step ops s) = Some (d, x)"
    and "vdrive_translate_lba w m (fold vd_step ops s) = Some (d, x)"
  shows "l = m \<and> (\<exists>i < 4. live (slots s d ! i) \<and> unat x \<in> extent (slots s d ! i)
     \<and> unat (vd_partition_num (g_vdrives (fold vd_step ops s) ! unat v)) = i
     \<and> unat (vd_partition_num (g_vdrives (fold vd_step ops s) ! unat w)) = i)"
proof -
  have "vd_inv (slots s) s" using assms(1) by (simp add: vd_inv_def zero_vdrive_def)
  then have inv: "vd_inv (slots s) (fold vd_step ops s)" by (rule vd_run_inv)
  obtain i where i: "i < 4" "live (slots s d ! i)" "unat x \<in> extent (slots s d ! i)"
    "\<exists>type boot start count. slots s d ! i = (type, boot, start, count) \<and> x = start + l \<and> l < count"
    "unat (vd_partition_num (g_vdrives (fold vd_step ops s) ! unat v)) = i"
    using translate_extent [OF inv assms(3,2) length_slots] by blast
  obtain j where j: "j < 4" "live (slots s d ! j)" "unat x \<in> extent (slots s d ! j)"
    "\<exists>type boot start count. slots s d ! j = (type, boot, start, count) \<and> x = start + m \<and> m < count"
    "unat (vd_partition_num (g_vdrives (fold vd_step ops s) ! unat w)) = j"
    using translate_extent [OF inv assms(4,2) length_slots] by blast
  have "i = j"
  proof (rule ccontr)
    assume "i \<noteq> j"
    then have "extent (slots s d ! i) \<inter> extent (slots s d ! j) = {}"
      using assms(2) [of d] i(1,2) j(1,2) unfolding table_ok_def length_slots by blast
    then show False using i(3) j(3) by blast
  qed
  then show ?thesis using i j by auto
qed

section \<open>Swap\<close>

text \<open>The swap partition lies on a healthy drive and does not run over the end of the block numbers.\<close>

definition swap_ready :: "u32 set \<Rightarrow> 'a parts_scheme \<Rightarrow> bool" where
  "swap_ready L s \<longleftrightarrow>
     (let w = g_swap_partition s in
      sw_active w \<and> healthy (sw_drive w) L s \<and> \<not> ctx_denies CAP_DEV_DISK (dk_kc s)
      \<and> unat (sw_lba_start w) + unat (sw_sector_count w) < 2 ^ 32 \<and> sw_total_pages w = sw_sector_count w div 8
      \<and> (\<forall>k < unat (sw_sector_count w). sw_lba_start w + of_nat k \<in> L))"

definition page_sector :: "'a parts_scheme \<Rightarrow> u32 \<Rightarrow> nat \<Rightarrow> u32" where
  "page_sector s page i = sw_lba_start (g_swap_partition s) + page * 8 + of_nat i"

lemma page_sector_unat:
  assumes "swap_ready L s" "page < sw_total_pages (g_swap_partition s)" "i < 8"
  shows "unat (page_sector s page i) = unat (sw_lba_start (g_swap_partition s)) + unat page * 8 + i"
    "page_sector s page i \<in> L" "unat page * 8 + i < unat (sw_sector_count (g_swap_partition s))"
proof -
  let ?w = "g_swap_partition s"
  have b: "unat (sw_lba_start ?w) + unat (sw_sector_count ?w) < 2 ^ 32" "sw_total_pages ?w = sw_sector_count ?w div 8"
    "\<forall>k < unat (sw_sector_count ?w). sw_lba_start ?w + of_nat k \<in> L"
    using assms(1) by (simp_all add: swap_ready_def Let_def)
  have "unat page < unat (sw_sector_count ?w) div 8" using assms(2) b(2) by (simp add: word_less_nat_alt unat_div)
  then show lt: "unat page * 8 + i < unat (sw_sector_count ?w)" using assms(3) by linarith
  have k: "page * 8 + of_nat i = (of_nat (unat page * 8 + i) :: u32)" by simp
  have "unat (of_nat (unat page * 8 + i) :: u32) = unat page * 8 + i" using lt b(1) by (intro unat_of_nat32) linarith
  then show "unat (page_sector s page i) = unat (sw_lba_start ?w) + unat page * 8 + i"
    unfolding page_sector_def add.assoc k using lt b(1)
      \<open>unat (of_nat (unat page * 8 + i) :: u32) = unat page * 8 + i\<close> by (subst unat_add32) linarith+
  show "page_sector s page i \<in> L" unfolding page_sector_def add.assoc k using b(3) lt by blast
qed

lemma healthy_charged: "charged s s' \<Longrightarrow> healthy drive L s' = healthy drive L s"
  by (rule same_disk_healthy [OF charged_same])

lemma swap_read_loop_result:
  assumes "healthy drive L s" and "\<And>k. i \<le> k \<Longrightarrow> k < i + n \<Longrightarrow> lba + of_nat k \<in> L"
  shows "\<exists>s'. swap_read_loop drive lba n i buf s = (Some (buf @ concat (map (\<lambda>k. sector s drive (lba + of_nat k)) [i..<i + n])), s') \<and> charged s s'"
  using assms
proof (induction n arbitrary: i buf s)
  case (Suc n)
  define s0 where "s0 = (if i mod 4 = 0 then part_ctx_account SCHED_COST_FS s else s)"
  have c0: "charged s s0" by (simp add: s0_def charged_account)
  obtain s1 where s1: "ata_read_sector drive (lba + of_nat i) s0 = (Some (sector s drive (lba + of_nat i)), s1)"
    using ata_read_healthy [of drive L s0 "lba + of_nat i"] Suc.prems healthy_charged [OF c0] charged_sector [OF c0] by auto
  have c1: "charged s s1" by (rule charged_trans [OF c0 charged_read [OF s1]])
  obtain s2 where s2: "charged s1 s2" "swap_read_loop drive lba n (Suc i) (buf @ sector s drive (lba + of_nat i)) s1
      = (Some ((buf @ sector s drive (lba + of_nat i)) @ concat (map (\<lambda>k. sector s1 drive (lba + of_nat k)) [Suc i..<Suc i + n])), s2)"
  proof -
    have "lba + of_nat k \<in> L" if "Suc i \<le> k" "k < Suc i + n" for k using Suc.prems(2) [of k] that by linarith
    moreover have "healthy drive L s1" using Suc.prems(1) healthy_charged [OF c1] by blast
    ultimately show ?thesis using Suc.IH [of s1 "Suc i" "buf @ sector s drive (lba + of_nat i)"] that by blast
  qed
  have u: "[i..<i + Suc n] = i # [Suc i..<Suc i + n]" by (simp add: upt_conv_Cons)
  show ?case unfolding u swap_read_loop.simps s0_def [symmetric]
    using s1 s2(2) charged_trans [OF c1 s2(1)] charged_sector [OF c1] by simp
qed simp

text \<open>\<open>s'\<close> is \<open>s\<close> with other sectors on one drive.\<close>

definition rewritten :: "u8 \<Rightarrow> u32 set \<Rightarrow> (u32 \<Rightarrow> bytes) \<Rightarrow> 'a parts_scheme \<Rightarrow> 'a parts_scheme \<Rightarrow> bool" where
  "rewritten drive L f s s' \<longleftrightarrow> healthy drive L s' \<and> g_swap_partition s' = g_swap_partition s
     \<and> (\<forall>caps. ctx_denies caps (dk_kc s') = ctx_denies caps (dk_kc s)) \<and> (\<forall>l \<in> L. sector s' drive l = f l)"

lemma swap_write_loop_result:
  assumes "healthy drive L s" and "\<And>k. i \<le> k \<Longrightarrow> k < i + n \<Longrightarrow> lba + of_nat k \<in> L" and "i + n < 2 ^ 32"
  shows "\<exists>s'. swap_write_loop drive lba n i buf s = (Some (), s')
     \<and> rewritten drive L (\<lambda>l. let k = unat (l - lba) in if i \<le> k \<and> k < i + n then take 512 (drop (k * 512) buf) else sector s drive l) s s'"
  using assms
proof (induction n arbitrary: i s)
  case 0
  then show ?case by (auto simp: rewritten_def Let_def)
next
  case (Suc n)
  let ?d = "take 512 (drop (i * 512) buf)"
  define s0 where "s0 = (if i mod 4 = 0 then part_ctx_account SCHED_COST_FS s else s)"
  have c0: "charged s s0" by (simp add: s0_def charged_account)
  have "lba + of_nat i \<in> L" using Suc.prems(2) by simp
  then obtain s1 where s1: "ata_write_sector drive (lba + of_nat i) ?d s0 = (Some (), s1)" "healthy drive L s1"
    "\<And>l. l \<in> L \<Longrightarrow> sector s1 drive l = (if l = lba + of_nat i then ?d else sector s drive l)"
    "\<And>caps. ctx_denies caps (dk_kc s1) = ctx_denies caps (dk_kc s)"
    using ata_write_healthy [of drive L s0 "lba + of_nat i" ?d] Suc.prems(1) healthy_charged [OF c0] charged_sector [OF c0] charged_denies [OF c0]
    by auto
  have w1: "g_swap_partition s1 = g_swap_partition s"
    using arg_cong [OF ata_write_frame [OF s1(1)], of g_swap_partition] charged_parts(3) [OF c0] by simp
  obtain s2 where s2: "swap_write_loop drive lba n (Suc i) buf s1 = (Some (), s2)"
    "rewritten drive L (\<lambda>l. let k = unat (l - lba) in if Suc i \<le> k \<and> k < Suc i + n then take 512 (drop (k * 512) buf) else sector s1 drive l) s1 s2"
    using Suc.IH [OF s1(2), of "Suc i"] Suc.prems(2,3) by force
  have at: "l = lba + of_nat i \<longleftrightarrow> unat (l - lba) = i" for l
  proof
    assume "l = lba + of_nat i"
    then show "unat (l - lba) = i" using unat_of_nat32 [of i] Suc.prems(3) by simp
  next
    assume "unat (l - lba) = i"
    then have "of_nat i = l - lba" by auto
    then show "l = lba + of_nat i" by simp
  qed
  have "(let k = unat (l - lba) in if Suc i \<le> k \<and> k < Suc i + n then take 512 (drop (k * 512) buf) else sector s1 drive l)
      = (let k = unat (l - lba) in if i \<le> k \<and> k < i + Suc n then take 512 (drop (k * 512) buf) else sector s drive l)" if "l \<in> L" for l
    using s1(3) [OF that] at [of l] by (auto simp: Let_def)
  then have "rewritten drive L (\<lambda>l. let k = unat (l - lba) in if i \<le> k \<and> k < i + Suc n then take 512 (drop (k * 512) buf) else sector s drive l) s s2"
    using s2(2) w1 s1(4) unfolding rewritten_def by auto
  then show ?case unfolding swap_write_loop.simps s0_def [symmetric] using s1(1) s2(1) by simp
qed

lemma swap_allow:
  assumes "swap_ready L s"
  shows "\<exists>s'. part_ctx_allow CAP_DEV_DISK c s = (True, s') \<and> charged s s' \<and> swap_ready L s'"
proof -
  let ?s = "s\<lparr>dk_kc := snd (ctx_allow CAP_DEV_DISK c (dk_kc s))\<rparr>"
  have c: "charged s ?s" by (simp add: charged_update)
  have "part_ctx_allow CAP_DEV_DISK c s = (True, ?s)" using assms by (simp add: charged_allow swap_ready_def Let_def)
  moreover have "swap_ready L ?s" using assms healthy_charged [OF c] by (simp add: swap_ready_def Let_def)
  ultimately show ?thesis using c by blast
qed

text \<open>What a page holds: its eight sectors.\<close>

definition page_content :: "'a parts_scheme \<Rightarrow> u32 \<Rightarrow> bytes" where
  "page_content s page = concat (map (\<lambda>i. sector s (sw_drive (g_swap_partition s)) (page_sector s page i)) [0..<8])"

lemma swap_read:
  assumes "swap_ready L s" "page < sw_total_pages (g_swap_partition s)"
  shows "fst (swap_partition_read_page page s) = Some (page_content s page)"
proof -
  obtain s1 where s1: "part_ctx_allow CAP_DEV_DISK SCHED_COST_FS s = (True, s1)" "charged s s1" "swap_ready L s1"
    using swap_allow [OF assms(1)] by blast
  let ?w = "g_swap_partition s"
  have h: "healthy (sw_drive ?w) L s1" "sw_active ?w" using s1(3) charged_parts(3) [OF s1(2)] by (simp_all add: swap_ready_def Let_def)
  have "sw_lba_start ?w + page * 8 + of_nat k \<in> L" if "k < 0 + 8" for k
    using page_sector_unat(2) [OF assms] that by (simp add: page_sector_def)
  then obtain s2 where "swap_read_loop (sw_drive ?w) (sw_lba_start ?w + page * 8) 8 0 [] s1
      = (Some ([] @ concat (map (\<lambda>k. sector s1 (sw_drive ?w) (sw_lba_start ?w + page * 8 + of_nat k)) [0..<0 + 8])), s2)"
    using swap_read_loop_result [OF h(1), of 0 8 "sw_lba_start ?w + page * 8"] by blast
  then show ?thesis using assms(2) h(2) s1(1) charged_parts(3) [OF s1(2)] charged_sector [OF s1(2)]
    by (simp add: swap_partition_read_page_def page_content_def page_sector_def not_le del: upt_rec_numeral)
qed

lemma swap_read_beyond: "\<not> page < sw_total_pages (g_swap_partition s) \<Longrightarrow> fst (swap_partition_read_page page s) = None"
  by (simp add: swap_partition_read_page_def linorder_not_less)

lemma swap_write:
  assumes "swap_ready L s" "page < sw_total_pages (g_swap_partition s)"
  shows "\<exists>s1. swap_partition_write_page page buf s = (Some (), s1) \<and> swap_ready L s1 \<and> g_swap_partition s1 = g_swap_partition s
     \<and> (\<forall>l \<in> L. sector s1 (sw_drive (g_swap_partition s)) l
         = (let k = unat (l - page_sector s page 0) in if k < 8 then take 512 (drop (k * 512) buf) else sector s (sw_drive (g_swap_partition s)) l))"
proof -
  let ?w = "g_swap_partition s"
  let ?lba = "sw_lba_start ?w + page * 8"
  obtain s0 where s0: "part_ctx_allow CAP_DEV_DISK SCHED_COST_FS s = (True, s0)" "charged s s0" "swap_ready L s0"
    using swap_allow [OF assms(1)] by blast
  have w0: "g_swap_partition s0 = ?w" by (rule charged_parts(3) [OF s0(2)])
  have h: "healthy (sw_drive ?w) L s0" "sw_active ?w" using s0(3) w0 by (simp_all add: swap_ready_def Let_def)
  have "?lba + of_nat k \<in> L" if "k < 0 + 8" for k
    using page_sector_unat(2) [OF assms] that by (simp add: page_sector_def)
  then obtain s1 where s1: "swap_write_loop (sw_drive ?w) ?lba 8 0 buf s0 = (Some (), s1)"
    "rewritten (sw_drive ?w) L (\<lambda>l. let k = unat (l - ?lba) in if 0 \<le> k \<and> k < 0 + 8 then take 512 (drop (k * 512) buf) else sector s0 (sw_drive ?w) l) s0 s1"
    using swap_write_loop_result [OF h(1), of 0 8 ?lba buf] by auto
  have "swap_ready L s1" using s1(2) s0(3) w0 by (simp add: swap_ready_def rewritten_def Let_def)
  moreover have "swap_partition_write_page page buf s = (Some (), s1)"
    using s0(1) s1(1) w0 h(2) assms(2) by (simp add: swap_partition_write_page_def)
  ultimately show ?thesis using s1(2) w0 charged_sector [OF s0(2)] by (intro exI [of _ s1]) (auto simp: rewritten_def page_sector_def Let_def)
qed

lemma page_sector_near:
  assumes "swap_ready L s" "page < sw_total_pages (g_swap_partition s)"
  shows "i < 8 \<Longrightarrow> unat (page_sector s page i - page_sector s page 0) = i"
    and "q < sw_total_pages (g_swap_partition s) \<Longrightarrow> q \<noteq> page \<Longrightarrow> i < 8 \<Longrightarrow> \<not> unat (page_sector s q i - page_sector s page 0) < 8"
    and "unat l \<notin> {unat (sw_lba_start (g_swap_partition s))..<unat (sw_lba_start (g_swap_partition s)) + unat (sw_sector_count (g_swap_partition s))}
      \<Longrightarrow> \<not> unat (l - page_sector s page 0) < 8"
proof -
  have near: "l = page_sector s page (unat (l - page_sector s page 0))" for l by (simp add: page_sector_def)
  show "i < 8 \<Longrightarrow> unat (page_sector s page i - page_sector s page 0) = i"
    using unat_of_nat32 [of i] by (simp add: page_sector_def)
  show "\<not> unat (page_sector s q i - page_sector s page 0) < 8"
    if q: "q < sw_total_pages (g_swap_partition s)" "q \<noteq> page" "i < 8"
  proof
    assume k: "unat (page_sector s q i - page_sector s page 0) < 8"
    have "unat q * 8 + i = unat page * 8 + unat (page_sector s q i - page_sector s page 0)"
      using page_sector_unat(1) [OF assms(1) q(1,3)] page_sector_unat(1) [OF assms k] arg_cong [OF near [of "page_sector s q i"], of unat] by linarith
    then have "unat q = unat page" using q(3) k by linarith
    then show False using q(2) by (simp add: word_unat_eq_iff)
  qed
  show "\<not> unat (l - page_sector s page 0) < 8"
    if "unat l \<notin> {unat (sw_lba_start (g_swap_partition s))..<unat (sw_lba_start (g_swap_partition s)) + unat (sw_sector_count (g_swap_partition s))}"
  proof
    assume k: "unat (l - page_sector s page 0) < 8"
    have "unat l = unat (sw_lba_start (g_swap_partition s)) + unat page * 8 + unat (l - page_sector s page 0)"
      using page_sector_unat(1) [OF assms k] arg_cong [OF near [of l], of unat] by linarith
    then show False using that page_sector_unat(3) [OF assms k] by simp
  qed
qed

lemma concat_chunks: "concat (map (\<lambda>i. take m (drop (i * m) b)) [0..<n]) = take (n * m) b"
  by (induction n) (simp_all add: take_add [symmetric] add.commute)

lemma page_content_eqI:
  assumes "g_swap_partition s1 = g_swap_partition s"
    and "\<And>i. i < 8 \<Longrightarrow> sector s1 (sw_drive (g_swap_partition s)) (page_sector s page i) = f i"
  shows "page_content s1 page = concat (map f [0..<8])"
  unfolding page_content_def assms(1) using assms
  by (intro arg_cong [of _ _ concat] map_cong) (simp_all add: page_sector_def)

lemma swap_page_run:
  assumes "swap_ready L s" and "page < sw_total_pages (g_swap_partition s)" and "length buf = 4096"
  shows "\<exists>s1. swap_partition_write_page page buf s = (Some (), s1) \<and> swap_ready L s1
     \<and> fst (swap_partition_read_page page s1) = Some buf
     \<and> (\<forall>q. q \<noteq> page \<longrightarrow> fst (swap_partition_read_page q s1) = fst (swap_partition_read_page q s))
     \<and> (\<forall>l \<in> L. unat l \<notin> {unat (sw_lba_start (g_swap_partition s))..<unat (sw_lba_start (g_swap_partition s)) + unat (sw_sector_count (g_swap_partition s))}
          \<longrightarrow> sector s1 (sw_drive (g_swap_partition s)) l = sector s (sw_drive (g_swap_partition s)) l)"
proof -
  let ?w = "g_swap_partition s"
  obtain s1 where s1: "swap_partition_write_page page buf s = (Some (), s1)" "swap_ready L s1" "g_swap_partition s1 = ?w"
    and sec: "\<And>l. l \<in> L \<Longrightarrow> sector s1 (sw_drive ?w) l
      = (let k = unat (l - page_sector s page 0) in if k < 8 then take 512 (drop (k * 512) buf) else sector s (sw_drive ?w) l)"
    using swap_write [OF assms(1,2), of buf] by blast
  note near = page_sector_near [OF assms(1,2)]
  have "page_content s1 page = concat (map (\<lambda>i. take 512 (drop (i * 512) buf)) [0..<8])"
    using sec page_sector_unat(2) [OF assms(1,2)] near(1) by (intro page_content_eqI [OF s1(3)]) (simp add: Let_def)
  then have new: "page_content s1 page = buf" using assms(3) by (simp only: concat_chunks) simp
  have "page_content s1 q = page_content s q" if q: "q < sw_total_pages ?w" "q \<noteq> page" for q
    unfolding page_content_def [of s]
    using sec page_sector_unat(2) [OF assms(1) q(1)] near(2) [OF q] by (intro page_content_eqI [OF s1(3)]) (simp add: Let_def)
  then have "fst (swap_partition_read_page q s1) = fst (swap_partition_read_page q s)" if "q \<noteq> page" for q
    using that swap_read [OF s1(2)] swap_read [OF assms(1)] swap_read_beyond [of q s] swap_read_beyond [of q s1]
    unfolding s1(3) by (cases "q < sw_total_pages ?w") simp_all
  moreover have "sector s1 (sw_drive ?w) l = sector s (sw_drive ?w) l"
    if "l \<in> L" "unat l \<notin> {unat (sw_lba_start ?w)..<unat (sw_lba_start ?w) + unat (sw_sector_count ?w)}" for l
    using sec [OF that(1)] near(3) [OF that(2)] by (simp add: Let_def)
  moreover have "fst (swap_partition_read_page page s1) = Some buf"
    using swap_read [OF s1(2), of page] assms(2) new s1(3) by simp
  ultimately show ?thesis using s1 by blast
qed

text \<open>Swap space is an array of pages inside its partition: a page that is written reads back,
  every other page keeps its content, and no sector outside the partition changes.\<close>

theorem swap_page_roundtrip:
  assumes "swap_ready L s" and "page < sw_total_pages (g_swap_partition s)" and "length buf = 4096"
  shows "\<exists>s1. swap_partition_write_page page buf s = (Some (), s1) \<and> swap_ready L s1
     \<and> fst (swap_partition_read_page page s1) = Some buf
     \<and> (\<forall>q. q \<noteq> page \<longrightarrow> fst (swap_partition_read_page q s1) = fst (swap_partition_read_page q s))
     \<and> (\<forall>l \<in> L. unat l \<notin> {unat (sw_lba_start (g_swap_partition s))..<unat (sw_lba_start (g_swap_partition s)) + unat (sw_sector_count (g_swap_partition s))}
          \<longrightarrow> sector s1 (sw_drive (g_swap_partition s)) l = sector s (sw_drive (g_swap_partition s)) l)"
  by (rule swap_page_run [OF assms])

section \<open>A disk with two partitions\<close>

definition demo_eynfs :: partition_info where
  "demo_eynfs = blank_partition\<lparr>pi_type := 0xEF, pi_bootable := True, pi_lba_start := 2048, pi_sector_count := 4096\<rparr>"

definition demo_swap :: partition_info where
  "demo_swap = blank_partition\<lparr>pi_type := 0xE5, pi_lba_start := 8192, pi_sector_count := 4096\<rparr>"

definition demo_mbr :: bytes where
  "demo_mbr = replicate 446 0 @ mbr_entry_bytes demo_eynfs @ mbr_entry_bytes demo_swap @ replicate 32 0 @ [0x55, 0xAA]"

definition demo_parts :: parts where
  "demo_parts = \<lparr>dk_kc = kctx_boot, drive_present = replicate 8 True,
     media = (\<lambda>_ l. if l = 0 then demo_mbr else replicate 512 0), rd_bad = (\<lambda>_ _. False), wr_bad = (\<lambda>_ _. False),
     ramdisk = Some [demo_mbr], g_vdrives = replicate 8 zero_vdrive, g_vdrives_initialized = False,
     g_swap_partition = \<lparr>sw_active = True, sw_drive = 0, sw_lba_start = 8192, sw_sector_count = 4096, sw_total_pages = 512, sw_used_pages = 0\<rparr>\<rparr>"

lemma demo_sector: "sector demo_parts d 0 = demo_mbr"
  by (simp add: sector_def demo_parts_def)

lemma demo_slots: "slots demo_parts d = [(0xEF, True, 2048, 4096), (0xE5, False, 8192, 4096), (0, False, 0, 0), (0, False, 0, 0)]"
proof -
  have "map (mbr_slot demo_mbr) [0..<4] = [(0xEF, True, 2048, 4096), (0xE5, False, 8192, 4096), (0, False, 0, 0), (0, False, 0, 0)]"
    by code_simp
  then show ?thesis by (simp only: slots_def demo_sector)
qed

lemma demo_table_ok: "table_ok (slots demo_parts d)"
  unfolding demo_slots table_ok_def by (auto simp: less_Suc_eq)

lemma demo_part_ready: "part_ready 0 UNIV demo_parts"
  unfolding part_ready_def demo_sector
  by (simp add: healthy_def demo_parts_def demo_mbr_def kctx_boot_def)


theorem partition_table_write_read_witness:
  "\<exists>s1. partition_write_table 0 \<lparr>di_drive = 0, di_total_sectors = 0, di_total_mb = 0, di_partition_count = 1,
       di_partitions = [demo_swap, blank_partition, demo_eynfs, blank_partition], di_has_valid_mbr = True\<rparr> demo_parts = (Some (), s1)
     \<and> map slot_of (di_partitions (the (fst (partition_read_table 0 s1))))
       = [(0xE5, False, 8192, 4096), (0, False, 0, 0), (0xEF, True, 2048, 4096), (0, False, 0, 0)]"
  using partition_table_write_read [OF demo_part_ready, of "\<lparr>di_drive = 0, di_total_sectors = 0, di_total_mb = 0, di_partition_count = 1,
       di_partitions = [demo_swap, blank_partition, demo_eynfs, blank_partition], di_has_valid_mbr = True\<rparr>"]
  by (auto simp: slot_of_def written_def demo_swap_def demo_eynfs_def blank_partition_def)

theorem vdrive_isolation_witness:
  "(2053 :: nat) \<in> extent (slots demo_parts 0 ! unat (vd_partition_num (g_vdrives (fold vd_step [Mount 0 1 [0x41, 0], Mount 0 0 [0x42, 0]] demo_parts) ! 1)))"
proof -
  have "vdrive_translate_lba 1 5 (fold vd_step [Mount 0 1 [0x41, 0], Mount 0 0 [0x42, 0]] demo_parts) = Some (0, 2053)"
    by code_simp
  then show ?thesis
    using vdrive_isolation [OF _ demo_table_ok, of 1 5 "[Mount 0 1 [0x41, 0], Mount 0 0 [0x42, 0]]" 0 2053 1 5]
    by (auto simp: demo_parts_def)
qed

theorem swap_page_roundtrip_witness:
  "\<exists>s1. swap_partition_write_page 3 (replicate 4096 7) demo_parts = (Some (), s1)
     \<and> fst (swap_partition_read_page 3 s1) = Some (replicate 4096 7)"
proof -
  have "swap_ready UNIV demo_parts"
    by (simp add: swap_ready_def demo_parts_def healthy_def kctx_boot_def)
  then show ?thesis
    using swap_page_roundtrip [of UNIV demo_parts 3 "replicate 4096 7"] by (auto simp: demo_parts_def)
qed

end
