(* ===== verification/VmSpec.thy ===== *)
theory VmSpec
  imports Vm PartitionSpec
begin

text \<open>
  What virtual memory promises. \<open>pte_of sp va s\<close> is the entry of a page in an address space; while the
  page tables are in order (\<open>tables_ok\<close>), mapping and unmapping a page are updates of this function at
  one page, a fault on a demand-zero page gives a page of zeros, and a page that is swapped out comes
  back with its content.
\<close>

section \<open>Indices and pages\<close>

lemma mask10: "(w :: u32) AND 0x3FF = take_bit 10 w"
proof -
  have "(0x3FF :: u32) = mask 10" by (simp add: mask_eq_exp_minus_1)
  then show ?thesis by (simp only: take_bit_eq_mask)
qed

lemma mask12: "(w :: u32) AND 0xFFF = take_bit 12 w"
proof -
  have "(0xFFF :: u32) = mask 12" by (simp add: mask_eq_exp_minus_1)
  then show ?thesis by (simp only: take_bit_eq_mask)
qed

lemma unat_pte_index: "unat (pte_index va) = unat va div 4096 mod 1024"
  by (simp add: pte_index_def mask10 take_bit_eq_mod unat_mod drop_bit_eq_div unat_div)

lemma unat_pde_index: "unat (pde_index va) = unat va div 4194304"
proof -
  have "unat va div 4194304 < 1024" using unat_less32 [of va] by (simp add: div_less_iff_less_mult)
  then show ?thesis by (simp add: pde_index_def mask10 take_bit_eq_mod unat_mod drop_bit_eq_div unat_div)
qed

lemma unat_page_offset: "unat (va AND 0xFFF :: u32) = unat va mod 4096"
  by (simp add: mask12 take_bit_eq_mod unat_mod)

definition page_no :: "u32 \<Rightarrow> nat" where "page_no va = unat va div 4096"

lemma same_page_indices: "page_no va = page_no va' \<longleftrightarrow> pde_index va = pde_index va' \<and> pte_index va = pte_index va'"
proof -
  have "page_no va = unat (pde_index va) * 1024 + unat (pte_index va)" for va
    using div_mult_mod_eq [of "unat va div 4096" 1024] by (simp add: page_no_def unat_pde_index unat_pte_index flip: div_mult2_eq)
  moreover have "unat (pde_index va) = page_no va div 1024" "unat (pte_index va) = page_no va mod 1024" for va
    by (simp_all add: unat_pde_index unat_pte_index page_no_def flip: div_mult2_eq)
  ultimately show ?thesis by (metis unsigned_word_eqI)
qed

lemma page_no_floor [simp]: "page_no (va AND 0xFFFFF000) = page_no va"
  by (simp add: page_no_def unat_page_floor)

text \<open>The pages that a range of addresses below \<open>USER_STACK_TOP\<close> touches.\<close>

lemma range_page:
  assumes "unat p + n \<le> 0xC0000000" "(unat p div 4096 + k) * 4096 < unat p + n" "0 < n"
  shows "unat ((p AND 0xFFFFF000) + of_nat k * 4096) = (unat p div 4096 + k) * 4096"
    and "\<exists>j < n. page_no ((p AND 0xFFFFF000) + of_nat k * 4096) = page_no (p + of_nat j)"
proof -
  have lt: "(unat p div 4096 + k) * 4096 < 4294967296" using assms by linarith
  have "unat (of_nat k * 4096 :: u32) = k * 4096" using lt by (simp add: unat_word_ariths unat_of_nat32)
  then show pg: "unat ((p AND 0xFFFFF000) + of_nat k * 4096) = (unat p div 4096 + k) * 4096"
    using lt unat_page_floor [of p] by (subst unat_add32) (auto simp: add_mult_distrib)
  define j where "j = (unat p div 4096 + k) * 4096 - unat p"
  have j: "j < n" using assms(2,3) unfolding j_def by linarith
  have "(unat p + j) div 4096 = unat p div 4096 + k"
  proof (cases "unat p \<le> (unat p div 4096 + k) * 4096")
    case True
    then show ?thesis by (simp add: j_def)
  next
    case False
    then have "k = 0" using dividend_less_div_times [of 4096 "unat p"] by (cases k) (simp_all add: add_mult_distrib)
    then show ?thesis using False by (simp add: j_def)
  qed
  moreover have "unat (p + of_nat j) = unat p + j" using j assms(1) by (subst unat_add32) (auto simp: unat_of_nat32)
  ultimately show "\<exists>j < n. page_no ((p AND 0xFFFFF000) + of_nat k * 4096) = page_no (p + of_nat j)"
    using j by (intro exI [of _ j]) (simp only: page_no_def pg, simp)
qed

lemma range_page_of:
  assumes "unat p + n \<le> 0xC0000000" "j < n"
  shows "page_no (p + of_nat j) = page_no ((p AND 0xFFFFF000) + of_nat ((unat p + j) div 4096 - unat p div 4096) * 4096)"
proof -
  let ?k = "(unat p + j) div 4096 - unat p div 4096"
  have k: "unat p div 4096 + ?k = (unat p + j) div 4096" by (simp add: div_le_mono)
  then have "(unat p div 4096 + ?k) * 4096 < unat p + n"
    using assms(2) div_times_less_eq_dividend [of "unat p + j" 4096] by (simp only:)
  moreover have "0 < n" using assms(2) by simp
  ultimately have "unat ((p AND 0xFFFFF000) + of_nat ?k * 4096) = (unat p div 4096 + ?k) * 4096" by (rule range_page(1) [OF assms(1)])
  moreover have "unat (p + of_nat j) = unat p + j" using assms by (subst unat_add32) (auto simp: unat_of_nat32)
  ultimately show ?thesis unfolding page_no_def k by simp
qed

section \<open>Flags\<close>

lemma pte_bits: "(w :: u32) AND 1 = 0 \<longleftrightarrow> \<not> bit w 0" "w AND 2 = 0 \<longleftrightarrow> \<not> bit w 1" "w AND 4 = 0 \<longleftrightarrow> \<not> bit w 2"
  "w AND 0x20 = 0 \<longleftrightarrow> \<not> bit w 5" "w AND 0x200 = 0 \<longleftrightarrow> \<not> bit w 9" "w AND 0x400 = 0 \<longleftrightarrow> \<not> bit w 10" "w AND 0x800 = 0 \<longleftrightarrow> \<not> bit w 11"
  using bit_iff_and_push_bit_not_eq_0 [of w 0] bit_iff_and_push_bit_not_eq_0 [of w 1] bit_iff_and_push_bit_not_eq_0 [of w 2]
    bit_iff_and_push_bit_not_eq_0 [of w 5] bit_iff_and_push_bit_not_eq_0 [of w 9] bit_iff_and_push_bit_not_eq_0 [of w 10] bit_iff_and_push_bit_not_eq_0 [of w 11]
  by (simp_all add: push_bit_eq_mult)

section \<open>Entries of tables\<close>

definition page_aligned :: "u32 \<Rightarrow> bool" where "page_aligned a \<longleftrightarrow> unat a mod 4096 = 0"

lemma page_no_less: "page_no va < 1048576"
  using unat_less32 [of va] by (simp add: page_no_def div_less_iff_less_mult)

lemma page_aligned_eq: "page_aligned a \<Longrightarrow> unat a = page_no a * 4096"
  using div_mult_mod_eq [of "unat a" 4096] by (simp add: page_aligned_def page_no_def)

lemma page_aligned_inj: "page_aligned a \<Longrightarrow> page_aligned b \<Longrightarrow> page_no a = page_no b \<Longrightarrow> a = b"
  by (metis page_aligned_eq unsigned_word_eqI)

lemma page_aligned_mask [simp]: "page_aligned (a AND 0xFFFFF000)"
  by (simp add: page_aligned_def unat_page_floor)

lemma entry_unat:
  assumes "page_aligned b" "i < 1024"
  shows "unat (b + 4 * i) = page_no b * 4096 + 4 * unat i"
proof -
  have i: "unat i < 1024" using assms(2) by (simp add: word_less_nat_alt)
  then have "unat (4 * i) = 4 * unat i" by (simp add: unat_word_ariths)
  moreover have "page_no b * 4096 + 4 * unat i < 4294967296"
    using page_no_less [of b] i by linarith
  ultimately show ?thesis using page_aligned_eq [OF assms(1)] by (subst unat_add32) simp_all
qed

lemma entry_page: "page_aligned b \<Longrightarrow> i < 1024 \<Longrightarrow> page_no (b + 4 * i) = page_no b"
proof -
  assume h: "page_aligned b" "i < 1024"
  have "(page_no b * 4096 + 4 * unat i) div 4096 = page_no b" using h(2) by (simp add: word_less_nat_alt)
  then show ?thesis by (simp only: page_no_def [of "b + 4 * i"] entry_unat [OF h])
qed

lemma entry_aligned: "page_aligned b \<Longrightarrow> i < 1024 \<Longrightarrow> aligned4 (b + 4 * i)"
proof -
  assume h: "page_aligned b" "i < 1024"
  have "4 dvd page_no b * 4096 + 4 * unat i" by (intro dvd_add dvd_mult dvd_triv_left) simp
  then have "(page_no b * 4096 + 4 * unat i) mod 4 = 0" by (simp only: dvd_eq_mod_eq_0)
  then show ?thesis by (simp only: aligned4_def entry_unat [OF h])
qed

lemma entry_eq:
  assumes "page_aligned b" "page_aligned c" "i < 1024" "j < 1024"
  shows "b + 4 * i = c + 4 * j \<longleftrightarrow> b = c \<and> i = j"
proof
  assume eq: "b + 4 * i = c + 4 * j"
  then have "b = c" using entry_page [OF assms(1,3)] entry_page [OF assms(2,4)] by (intro page_aligned_inj assms) simp
  moreover from this have "unat i = unat j" using entry_unat [OF assms(1,3)] entry_unat [OF assms(2,4)] eq by simp
  ultimately show "b = c \<and> i = j" using unsigned_word_eqI by blast
qed simp

lemma index_less [simp]: "pde_index va < 1024" "pte_index va < 1024"
proof -
  have "unat va div 4194304 < 1024" using unat_less32 [of va] by (simp add: div_less_iff_less_mult)
  then show "pde_index va < 1024" by (simp add: word_less_nat_alt unat_pde_index)
qed (simp add: word_less_nat_alt unat_pte_index)

lemma near_page: "aligned4 a \<Longrightarrow> x - a < 4 \<Longrightarrow> page_no x = page_no a"
proof -
  assume h: "aligned4 a" "x - a < 4"
  have "unat x div 4 div 1024 = unat a div 4 div 1024" by (simp only: aligned4_inside [OF h])
  then show ?thesis by (simp only: page_no_def flip: div_mult2_eq) simp
qed

lemma in_page: "page_aligned f \<Longrightarrow> x - f < 4096 \<longleftrightarrow> page_no x = page_no f"
proof
  assume f: "page_aligned f" and lt: "x - f < 4096"
  have u: "unat f + unat (x - f) < 4294967296"
    using lt page_aligned_eq [OF f] page_no_less [of f] by (simp add: word_less_nat_alt)
  have "unat x = unat (f + (x - f))" by simp
  also have "\<dots> = page_no f * 4096 + unat (x - f)" using u page_aligned_eq [OF f] by (subst unat_add32) simp_all
  finally have "unat x = page_no f * 4096 + unat (x - f)" .
  then show "page_no x = page_no f" using lt by (simp add: page_no_def [of x] word_less_nat_alt)
next
  assume f: "page_aligned f" and eq: "page_no x = page_no f"
  have "unat x = page_no f * 4096 + unat x mod 4096"
    using eq unfolding page_no_def by (metis div_mult_mod_eq)
  then have "unat (x - f) = unat x mod 4096" using page_aligned_eq [OF f] by (subst unat_sub) (simp_all add: word_le_nat_alt)
  then show "x - f < 4096" by (simp add: word_less_nat_alt)
qed

lemma get_zero_page:
  assumes "page_aligned f" "aligned4 a"
  shows "get_pte a (zero_page f s) = (if page_no a = page_no f then 0 else get_pte a s)"
proof (cases "page_no a = page_no f")
  case True
  have "memset f 0 4096 (phys s) x = 0" if "x - a < 4" for x
    using near_page [OF assms(2) that] in_page [OF assms(1)] True by (simp add: memset_def)
  then have "load32 (memset f 0 4096 (phys s)) a = load32 (\<lambda>_. 0) a" by (rule load32_cong)
  then show ?thesis using True by (simp add: get_pte_def zero_page_def load32_def)
next
  case False
  have "memset f 0 4096 (phys s) x = phys s x" if "x - a < 4" for x
    using near_page [OF assms(2) that] in_page [OF assms(1)] False by (simp add: memset_def)
  then have "load32 (memset f 0 4096 (phys s)) a = load32 (phys s) a" by (rule load32_cong)
  then show ?thesis using False by (simp add: get_pte_def zero_page_def)
qed

lemma get_set_pte: "aligned4 a \<Longrightarrow> aligned4 b \<Longrightarrow> get_pte a (set_pte b v s) = (if a = b then v else get_pte a s)"
  by (simp add: get_pte_def set_pte_def load32_store32_other)


section \<open>Page tables in order\<close>

definition table_of :: "u32 \<Rightarrow> u32 \<Rightarrow> 'a vm_scheme \<Rightarrow> u32" where
  "table_of sp pdi s = get_pte (pde_addr sp pdi s) s AND 0xFFFFF000"

lemma table_of_aligned [simp]: "page_aligned (table_of sp i s)"
  by (simp add: table_of_def)

definition table_there :: "u32 \<Rightarrow> u32 \<Rightarrow> 'a vm_scheme \<Rightarrow> bool" where
  "table_there sp pdi s \<longleftrightarrow> pdi < 1023 \<and> bit (get_pte (pde_addr sp pdi s) s) 0"

text \<open>The directory and the tables are pages of their own that the frame allocator does not hand out;
  entry 1023 is the recursive mapping.\<close>

definition tables_ok :: "u32 \<Rightarrow> 'a vm_scheme \<Rightarrow> bool" where
  "tables_ok sp s \<longleftrightarrow> sp \<noteq> 0 \<and> frames_inv (g_frame_alloc s) \<and> page_aligned (pd_phys (spaces s sp))
     \<and> unat (total_frames (g_frame_alloc s)) * 4096 \<le> unat (g_kernel_phys_alias_bytes s)
     \<and> page_no (pd_phys (spaces s sp)) \<notin> free_set (g_frame_alloc s)
     \<and> (\<forall>i. table_there sp i s \<longrightarrow> page_no (table_of sp i s) < unat (total_frames (g_frame_alloc s))
          \<and> page_no (table_of sp i s) \<notin> free_set (g_frame_alloc s) \<and> page_no (table_of sp i s) \<noteq> page_no (pd_phys (spaces s sp)))
     \<and> (\<forall>i j. table_there sp i s \<longrightarrow> table_there sp j s \<longrightarrow> table_of sp i s = table_of sp j s \<longrightarrow> i = j)"

lemma tables_okD:
  assumes "tables_ok sp s"
  shows "sp \<noteq> 0" "frames_inv (g_frame_alloc s)" "page_aligned (pd_phys (spaces s sp))"
    "unat (total_frames (g_frame_alloc s)) * 4096 \<le> unat (g_kernel_phys_alias_bytes s)"
    "page_no (pd_phys (spaces s sp)) \<notin> free_set (g_frame_alloc s)"
    "table_there sp i s \<Longrightarrow> page_no (table_of sp i s) < unat (total_frames (g_frame_alloc s))"
    "table_there sp i s \<Longrightarrow> page_no (table_of sp i s) \<notin> free_set (g_frame_alloc s)"
    "table_there sp i s \<Longrightarrow> page_no (table_of sp i s) \<noteq> page_no (pd_phys (spaces s sp))"
    "table_there sp i s \<Longrightarrow> table_there sp j s \<Longrightarrow> table_of sp i s = table_of sp j s \<Longrightarrow> i = j"
  using assms unfolding tables_ok_def by blast+

lemma there_less: "table_there sp i s \<Longrightarrow> i < 1024"
  by (auto simp: table_there_def word_less_nat_alt)

lemma pde_aligned: "tables_ok sp s \<Longrightarrow> i < 1024 \<Longrightarrow> aligned4 (pde_addr sp i s)"
  unfolding pde_addr_def by (rule entry_aligned) (rule tables_okD)

lemma pde_page: "tables_ok sp s \<Longrightarrow> i < 1024 \<Longrightarrow> page_no (pde_addr sp i s) = page_no (pd_phys (spaces s sp))"
  unfolding pde_addr_def by (rule entry_page) (rule tables_okD)

lemma pde_addr_eq: "tables_ok sp s \<Longrightarrow> i < 1024 \<Longrightarrow> j < 1024 \<Longrightarrow> pde_addr sp i s = pde_addr sp j s \<longleftrightarrow> i = j"
  unfolding pde_addr_def using entry_eq [OF tables_okD(3) tables_okD(3)] by blast

lemma table_apart: "tables_ok sp s \<Longrightarrow> table_there sp i s \<Longrightarrow> k < 1024 \<Longrightarrow> j < 1024 \<Longrightarrow> table_of sp i s + 4 * k \<noteq> pde_addr sp j s"
  using entry_page [OF table_of_aligned, of k] pde_page tables_okD(8) by metis

lemma pde_addr_cong: "spaces s' = spaces s \<Longrightarrow> pde_addr sp i s' = pde_addr sp i s"
  by (simp add: pde_addr_def)

lemma walk_found:
  assumes "tables_ok sp s" "table_there sp (pde_index va) s"
  shows "vmm_walk_page_tables sp va create s = (Some (table_of sp (pde_index va) s + 4 * pte_index va), s)"
proof -
  have "unat (table_of sp (pde_index va) s) = page_no (table_of sp (pde_index va) s) * 4096" by (rule page_aligned_eq) simp
  then have "table_of sp (pde_index va) s < g_kernel_phys_alias_bytes s"
    using tables_okD(4) [OF assms(1)] tables_okD(6) [OF assms(1,2)] unfolding word_less_nat_alt by linarith
  then show ?thesis using assms(2) tables_okD(1) [OF assms(1)]
    by (simp add: vmm_walk_page_tables_def pt_address_def Let_def table_there_def table_of_def pte_bits)
qed

lemma walk_absent:
  "pde_index va < 1023 \<Longrightarrow> \<not> table_there sp (pde_index va) s \<Longrightarrow> vmm_walk_page_tables sp va False s = (None, s)"
  by (simp add: vmm_walk_page_tables_def Let_def table_there_def pte_bits)

text \<open>The entry of a page, 0 if its table does not exist.\<close>

definition pte_of :: "u32 \<Rightarrow> u32 \<Rightarrow> 'a vm_scheme \<Rightarrow> u32" where
  "pte_of sp va s = (if table_there sp (pde_index va) s then get_pte (table_of sp (pde_index va) s + 4 * pte_index va) s else 0)"

text \<open>Writing an entry of a table.\<close>

lemma set_entry:
  assumes ok: "tables_ok sp s" and th: "table_there sp (pde_index va) s"
    and s'_def: "s' = set_pte (table_of sp (pde_index va) s + 4 * pte_index va) v s"
  shows "tables_ok sp s'" "table_there sp i s' = table_there sp i s" "i < 1024 \<Longrightarrow> table_of sp i s' = table_of sp i s"
    "pte_of sp va' s' = (if page_no va' = page_no va then v else pte_of sp va' s)"
proof -
  let ?p = "table_of sp (pde_index va) s + 4 * pte_index va"
  have f: "spaces s' = spaces s" "g_frame_alloc s' = g_frame_alloc s" "g_kernel_phys_alias_bytes s' = g_kernel_phys_alias_bytes s"
    by (simp_all add: s'_def set_pte_def)
  have p: "aligned4 ?p" by (rule entry_aligned) simp_all
  have pd: "pde_addr sp j s' = pde_addr sp j s" for j by (rule pde_addr_cong) (rule f)
  have pde: "get_pte (pde_addr sp j s) s' = get_pte (pde_addr sp j s) s" if "j < 1024" for j
    using table_apart [OF ok th index_less(2) that, of va] pde_aligned [OF ok that] p unfolding s'_def
    by (simp add: get_set_pte)
  show th': "table_there sp i s' = table_there sp i s" for i
    using pde [of i] by (cases "i < 1024") (auto simp: table_there_def pd word_less_nat_alt)
  show tab: "table_of sp i s' = table_of sp i s" if "i < 1024" for i using pde [OF that] by (simp add: pd table_of_def)
  show "tables_ok sp s'" unfolding tables_ok_def f th'
    using tables_okD [OF ok] by (simp add: tab there_less)
  show "pte_of sp va' s' = (if page_no va' = page_no va then v else pte_of sp va' s)"
  proof (cases "table_there sp (pde_index va') s")
    case True
    let ?q = "table_of sp (pde_index va') s + 4 * pte_index va'"
    have "?q = ?p \<longleftrightarrow> page_no va' = page_no va"
      unfolding same_page_indices using entry_eq [of "table_of sp (pde_index va') s" "table_of sp (pde_index va) s"]
        tables_okD(9) [OF ok True th] by auto
    moreover have "aligned4 ?q" by (rule entry_aligned) simp_all
    ultimately show ?thesis using True p by (simp add: pte_of_def th' tab [OF index_less(1)] s'_def [symmetric])
       (simp add: s'_def get_set_pte)
  next
    case False
    then show ?thesis using th by (auto simp: pte_of_def th' same_page_indices)
  qed
qed


lemma aligned_flags: "page_aligned f \<Longrightarrow> w < 4096 \<Longrightarrow> (f OR w) AND 0xFFFFF000 = f"
proof -
  assume f: "page_aligned f" and w: "w < 4096"
  have "f AND 0xFFFFF000 = f" by (rule page_aligned_inj) (simp_all add: f)
  moreover have "unat (w AND 0xFFFFF000) = 0" using w by (simp add: unat_page_floor word_less_nat_alt)
  ultimately show ?thesis by (simp add: bit.conj_disj_distrib2 unat_eq_0)
qed

text \<open>New flags in an entry of the directory.\<close>

lemma set_pde_flags:
  assumes ok: "tables_ok sp s" and th: "table_there sp i s"
    and s'_def: "s' = set_pte (pde_addr sp i s) v s" and v: "v AND 0xFFFFF000 = table_of sp i s" "bit v 0"
  shows "tables_ok sp s'" "table_there sp j s' = table_there sp j s" "j < 1024 \<Longrightarrow> table_of sp j s' = table_of sp j s"
    "pte_of sp va s' = pte_of sp va s"
proof -
  have f: "spaces s' = spaces s" "g_frame_alloc s' = g_frame_alloc s" "g_kernel_phys_alias_bytes s' = g_kernel_phys_alias_bytes s"
    by (simp_all add: s'_def set_pte_def)
  have pd: "pde_addr sp j s' = pde_addr sp j s" for j by (rule pde_addr_cong) (rule f)
  have i: "i < 1024" using th by (rule there_less)
  have pde: "get_pte (pde_addr sp j s) s' = (if j = i then v else get_pte (pde_addr sp j s) s)" if "j < 1024" for j
    unfolding s'_def using pde_aligned [OF ok that] pde_aligned [OF ok i] pde_addr_eq [OF ok that i] by (simp add: get_set_pte)
  show th': "table_there sp j s' = table_there sp j s" for j
    using pde [of j] v(2) th by (cases "j < 1024") (auto simp: table_there_def pd word_less_nat_alt)
  show tab: "table_of sp j s' = table_of sp j s" if "j < 1024" for j using pde [OF that] v(1) by (auto simp: pd table_of_def)
  show "tables_ok sp s'" unfolding tables_ok_def f th' using tables_okD [OF ok] by (simp add: tab there_less)
  have "get_pte (table_of sp (pde_index va) s + 4 * pte_index va) s' = get_pte (table_of sp (pde_index va) s + 4 * pte_index va) s"
    if "table_there sp (pde_index va) s"
    using table_apart [OF ok that index_less(2) i, of va] pde_aligned [OF ok i] unfolding s'_def
    by (simp add: get_set_pte entry_aligned)
  then show "pte_of sp va s' = pte_of sp va s" by (simp add: pte_of_def th' tab)
qed

lemma vm_frame_alloc_ok:
  assumes "frames_inv (g_frame_alloc s)" "free_frames (g_frame_alloc s) \<noteq> 0" "vm_frame_alloc s = (f, s1)" "f \<noteq> 0"
  obtains fa' where "s1 = s\<lparr>g_frame_alloc := fa'\<rparr>" "page_aligned f" "page_no f \<in> free_set (g_frame_alloc s)" "frames_inv fa'"
    "free_set fa' = free_set (g_frame_alloc s) - {page_no f}" "total_frames fa' = total_frames (g_frame_alloc s)" "256 \<le> page_no f"
proof -
  obtain fa' where fa': "frame_alloc (\<lambda>fa. (0, fa)) (g_frame_alloc s) = (f, fa')" "s1 = s\<lparr>g_frame_alloc := fa'\<rparr>"
    using assms(2,3) by (auto simp: vm_frame_alloc_def split: prod.splits)
  obtain n where "n \<in> free_set (g_frame_alloc s)" "unat f = n * 4096" "256 \<le> n" "frames_inv fa'"
    "free_set fa' = free_set (g_frame_alloc s) - {n}" "total_frames fa' = total_frames (g_frame_alloc s)"
    using frame_alloc_success [OF assms(1,2) fa'(1) assms(4)] by blast
  moreover from this have "page_no f = n" "page_aligned f" by (simp_all add: page_no_def page_aligned_def)
  ultimately show ?thesis using fa'(2) that by blast
qed

text \<open>A free frame becomes a table of empty entries.\<close>

lemma new_table:
  assumes ok: "tables_ok sp s" and i: "i < 1023" "\<not> table_there sp i s"
    and f: "page_aligned f" "page_no f \<in> free_set (g_frame_alloc s)" "frames_inv fa'"
      "free_set fa' = free_set (g_frame_alloc s) - {page_no f}" "total_frames fa' = total_frames (g_frame_alloc s)"
    and s'_def: "s' = set_pte (pde_addr sp i s) (f OR 7) (zero_page f (s\<lparr>g_frame_alloc := fa'\<rparr>))"
  shows "tables_ok sp s'" "table_there sp j s' \<longleftrightarrow> j = i \<or> table_there sp j s" "pte_of sp va s' = pte_of sp va s" "table_of sp i s' = f"
proof -
  have g: "spaces s' = spaces s" "g_frame_alloc s' = fa'" "g_kernel_phys_alias_bytes s' = g_kernel_phys_alias_bytes s"
    by (simp_all add: s'_def set_pte_def zero_page_def)
  have pd: "pde_addr sp j s' = pde_addr sp j s" for j by (rule pde_addr_cong) (rule g)
  have i': "i < 1024" using i(1) by (simp add: word_less_nat_alt)
  have zero: "get_pte a (zero_page f (s\<lparr>g_frame_alloc := fa'\<rparr>)) = (if page_no a = page_no f then 0 else get_pte a s)" if "aligned4 a" for a
    using get_zero_page [OF f(1) that, of "s\<lparr>g_frame_alloc := fa'\<rparr>"] by (simp add: get_pte_def)
  have get: "get_pte a s' = (if a = pde_addr sp i s then f OR 7 else if page_no a = page_no f then 0 else get_pte a s)" if "aligned4 a" for a
    unfolding s'_def using pde_aligned [OF ok i'] zero [OF that] that by (simp add: get_set_pte)
  have pdf: "page_no (pd_phys (spaces s sp)) \<noteq> page_no f" using tables_okD(5) [OF ok] f(2) by metis
  have pde: "get_pte (pde_addr sp j s) s' = (if j = i then f OR 7 else get_pte (pde_addr sp j s) s)" if "j < 1024" for j
    using get [OF pde_aligned [OF ok that]] pde_page [OF ok that] pdf pde_addr_eq [OF ok that i'] by simp
  have b: "bit (f OR 7) 0" by (simp add: bit_or_iff)
  show th': "table_there sp j s' \<longleftrightarrow> j = i \<or> table_there sp j s" for j
    using pde [of j] b i(1) by (cases "j < 1024") (auto simp: table_there_def pd word_less_nat_alt)
  show ti: "table_of sp i s' = f" using pde [OF i'] aligned_flags [OF f(1), of 7] by (simp add: table_of_def pd)
  have tj: "table_of sp j s' = table_of sp j s" if "j < 1024" "j \<noteq> i" for j using pde [OF that(1)] that(2) by (simp add: table_of_def pd)
  have old: "page_no (table_of sp j s) \<noteq> page_no f" if "table_there sp j s" for j using tables_okD(7) [OF ok that] f(2) by metis
  have lt: "page_no f < unat (total_frames (g_frame_alloc s))" using f(2) by (simp add: free_set_def)
  have tab: "table_of sp j s' = (if j = i then f else table_of sp j s)" if "j = i \<or> table_there sp j s" for j
    using ti tj [OF there_less] that by auto
  have ne: "table_there sp j s \<Longrightarrow> table_of sp j s \<noteq> f" "table_there sp j s \<Longrightarrow> f \<noteq> table_of sp j s" for j using old by auto
  show "tables_ok sp s'"
    unfolding tables_ok_def g th' f(4,5) using tables_okD [OF ok] f(3) lt pdf [symmetric] old i(2) by (auto simp: tab ne)
  let ?t = "\<lambda>s. table_of sp (pde_index va) s + 4 * pte_index va"
  have al: "aligned4 (?t s)" for s by (rule entry_aligned) simp_all
  show "pte_of sp va s' = pte_of sp va s"
  proof (cases "pde_index va = i")
    case True
    have "f + 4 * pte_index va \<noteq> pde_addr sp i s" using entry_page [OF f(1) index_less(2), of va] pde_page [OF ok i'] pdf by metis
    then show ?thesis using True i(2) get [OF entry_aligned [OF f(1) index_less(2)], of va] entry_page [OF f(1) index_less(2), of va]
      by (simp add: pte_of_def th' ti)
  next
    case False
    have "page_no (?t s) \<noteq> page_no f" if "table_there sp (pde_index va) s"
      using old [OF that] entry_page [OF table_of_aligned index_less(2), of sp "pde_index va" s va] by metis
    moreover have "?t s \<noteq> pde_addr sp i s" if "table_there sp (pde_index va) s" by (rule table_apart [OF ok that index_less(2) i'])
    ultimately show ?thesis using False get [OF al, of s] by (auto simp: pte_of_def th' tj [OF index_less(1) False])
  qed
qed

lemma walk_create:
  assumes ok: "tables_ok sp s" and i: "pde_index va < 1023" and free: "free_frames (g_frame_alloc s) \<noteq> 0"
    and w: "vmm_walk_page_tables sp va True s = (Some p, s')"
  shows "tables_ok sp s'" "table_there sp (pde_index va) s'" "p = table_of sp (pde_index va) s' + 4 * pte_index va"
    "pte_of sp va' s' = pte_of sp va' s"
proof -
  have "tables_ok sp s' \<and> table_there sp (pde_index va) s' \<and> p = table_of sp (pde_index va) s' + 4 * pte_index va
      \<and> (\<forall>va'. pte_of sp va' s' = pte_of sp va' s)"
  proof (cases "table_there sp (pde_index va) s")
    case True
    have "s' = s" "p = table_of sp (pde_index va) s + 4 * pte_index va"
      using w unfolding walk_found [OF ok True] by auto
    then show ?thesis using ok True by simp
  next
    case False
    let ?pd = "pde_addr sp (pde_index va) s"
    have absent: "get_pte ?pd s AND 1 = 0" using False i by (simp add: table_there_def pte_bits)
    obtain f s1 where f: "vm_frame_alloc s = (f, s1)" "f \<noteq> 0"
      and s': "s' = set_pte ?pd (f OR 7) (zero_page f s1)" and p: "p = pt_address (get_pte ?pd s') (pde_index va) s' + 4 * pte_index va"
      using w tables_okD(1) [OF ok] absent
      by (auto simp: vmm_walk_page_tables_def Let_def or.assoc split: prod.splits if_splits)
    obtain fa' where fa': "s1 = s\<lparr>g_frame_alloc := fa'\<rparr>" "page_aligned f" "page_no f \<in> free_set (g_frame_alloc s)" "frames_inv fa'"
      "free_set fa' = free_set (g_frame_alloc s) - {page_no f}" "total_frames fa' = total_frames (g_frame_alloc s)"
      using vm_frame_alloc_ok [OF tables_okD(2) [OF ok] free f] by blast
    note new = new_table [OF ok i False fa'(2-6) s' [unfolded fa'(1)]]
    have th: "table_there sp (pde_index va) s'" using new(2) by simp
    have "?pd = pde_addr sp (pde_index va) s'" by (rule pde_addr_cong [symmetric]) (simp add: s' fa'(1) set_pte_def zero_page_def)
    then have "vmm_walk_page_tables sp va True s' = (Some p, s')"
      using th tables_okD(1) [OF ok] by (simp add: vmm_walk_page_tables_def Let_def table_there_def pte_bits p)
    then show ?thesis using walk_found [OF new(1) th] new(1,3) th by simp
  qed
  then show "tables_ok sp s'" "table_there sp (pde_index va) s'" "p = table_of sp (pde_index va) s' + 4 * pte_index va"
    "pte_of sp va' s' = pte_of sp va' s" by blast+
qed

lemma same_tables:
  assumes "phys s' = phys s" "pd_phys (spaces s' sp) = pd_phys (spaces s sp)"
  shows "get_pte p s' = get_pte p s" "table_there sp i s' = table_there sp i s" "table_of sp i s' = table_of sp i s"
    "pte_of sp va s' = pte_of sp va s"
    "g_frame_alloc s' = g_frame_alloc s \<Longrightarrow> g_kernel_phys_alias_bytes s' = g_kernel_phys_alias_bytes s \<Longrightarrow> tables_ok sp s' = tables_ok sp s"
proof -
  show pte: "get_pte p s' = get_pte p s" for p by (simp add: get_pte_def assms)
  have pd: "pde_addr sp i s' = pde_addr sp i s" for i by (simp add: pde_addr_def assms)
  show th: "table_there sp i s' = table_there sp i s" for i by (simp add: table_there_def pte pd)
  show tab: "table_of sp i s' = table_of sp i s" for i by (simp add: table_of_def pte pd)
  show "pte_of sp va s' = pte_of sp va s" by (simp add: pte_of_def th tab pte)
  show "g_frame_alloc s' = g_frame_alloc s \<Longrightarrow> g_kernel_phys_alias_bytes s' = g_kernel_phys_alias_bytes s \<Longrightarrow> tables_ok sp s' = tables_ok sp s"
    by (simp add: tables_ok_def th tab assms)
qed

lemma clock_fields [simp]:
  "phys (clock_add_page f p va sp s) = phys s" "spaces (clock_add_page f p va sp s) = spaces s"
  "g_frame_alloc (clock_add_page f p va sp s) = g_frame_alloc s"
  "g_kernel_phys_alias_bytes (clock_add_page f p va sp s) = g_kernel_phys_alias_bytes s"
  "phys (clock_remove_page f s) = phys s" "spaces (clock_remove_page f s) = spaces s"
  "g_frame_alloc (clock_remove_page f s) = g_frame_alloc s"
  "g_kernel_phys_alias_bytes (clock_remove_page f s) = g_kernel_phys_alias_bytes s"
  by (simp_all add: clock_add_page_def clock_remove_page_def split: option.split)

lemma swap_free_fields [simp]:
  "phys (swap_free_slot i s) = phys s" "spaces (swap_free_slot i s) = spaces s"
  "g_frame_alloc (swap_free_slot i s) = g_frame_alloc s"
  "g_kernel_phys_alias_bytes (swap_free_slot i s) = g_kernel_phys_alias_bytes s"
  by (simp_all add: swap_free_slot_def Let_def)

lemma vm_frame_alloc_none:
  assumes "frames_inv (g_frame_alloc s)" "free_frames (g_frame_alloc s) \<noteq> 0" "vm_frame_alloc s = (0, s')"
  shows "s' = s"
proof -
  obtain g where "frame_alloc (\<lambda>fa. (0, fa)) (g_frame_alloc s) = (0, g)" "s' = s\<lparr>g_frame_alloc := g\<rparr>"
    using assms(2,3) by (auto simp: vm_frame_alloc_def split: prod.splits)
  then show ?thesis using frame_alloc_failure(1) [OF assms(1,2)] by simp
qed

lemma walk_failed:
  assumes ok: "tables_ok sp s" and free: "free_frames (g_frame_alloc s) \<noteq> 0" and w: "vmm_walk_page_tables sp va True s = (None, s')"
  shows "s' = s"
  using w tables_okD(1) [OF ok] vm_frame_alloc_none [OF tables_okD(2) [OF ok] free, of s']
  by (auto simp: vmm_walk_page_tables_def Let_def split: prod.splits if_splits)

lemma user_pde:
  assumes ok: "tables_ok sp s" and th: "table_there sp i s"
  shows "(get_pte (pde_addr sp i s) s OR 4) AND 0xFFFFF000 = table_of sp i s" "bit (get_pte (pde_addr sp i s) s OR 4) 0"
  using th by (simp_all add: table_of_def bit.conj_disj_distrib2 table_there_def bit_or_iff)

lemma map_page_at:
  assumes ok: "tables_ok sp s" and th: "table_there sp (pde_index va) s"
    and w: "vmm_walk_page_tables sp va True s0 = (Some (table_of sp (pde_index va) s + 4 * pte_index va), s)"
    and m: "vmm_map_page sp va pa flags s0 = (ok', s')"
  shows "ok'" "tables_ok sp s'" "pte_of sp va' s' = (if page_no va' = page_no va then (pa AND 0xFFFFF000) OR (flags OR 1) else pte_of sp va' s)"
proof -
  define s1 where "s1 = (if flags AND 4 \<noteq> 0 then set_pte (pde_addr sp (pde_index va) s) (get_pte (pde_addr sp (pde_index va) s) s OR 4) s else s)"
  have s1: "tables_ok sp s1" "table_there sp (pde_index va) s1" "table_of sp (pde_index va) s1 = table_of sp (pde_index va) s"
    "pte_of sp va' s1 = pte_of sp va' s" for va'
    using ok th set_pde_flags [OF ok th refl user_pde [OF ok th]] unfolding s1_def by simp_all
  define s2 where "s2 = set_pte (table_of sp (pde_index va) s + 4 * pte_index va) ((pa AND 0xFFFFF000) OR (flags OR 1)) s1"
  note s2 = set_entry [OF s1(1,2) s2_def [folded s1(3)]]
  have s': "ok'" "s' = (if flags AND 4 \<noteq> 0 then clock_add_page pa (Some (table_of sp (pde_index va) s + 4 * pte_index va)) va sp s2 else s2)"
    using m unfolding vmm_map_page_def w s2_def s1_def by (auto simp: Let_def)
  show "ok'" by (rule s')
  have f: "phys s' = phys s2" "pd_phys (spaces s' sp) = pd_phys (spaces s2 sp)" "g_frame_alloc s' = g_frame_alloc s2"
    "g_kernel_phys_alias_bytes s' = g_kernel_phys_alias_bytes s2" using s'(2) by simp_all
  note c = same_tables [OF f(1,2)]
  show "tables_ok sp s'" using s2(1) c(5) f by simp
  show "pte_of sp va' s' = (if page_no va' = page_no va then (pa AND 0xFFFFF000) OR (flags OR 1) else pte_of sp va' s)"
    using s2(4) s1(4) c(4) by simp
qed

lemma map_page_run:
  assumes ok: "tables_ok sp s" and i: "pde_index va < 1023" and free: "free_frames (g_frame_alloc s) \<noteq> 0"
    and m: "vmm_map_page sp va pa flags s = (done', s')"
  shows "if done' then tables_ok sp s' \<and> (\<forall>va'. pte_of sp va' s' =
      (if page_no va' = page_no va then (pa AND 0xFFFFF000) OR (flags OR 1) else pte_of sp va' s)) else s' = s"
proof (cases "vmm_walk_page_tables sp va True s")
  case (Pair r s1)
  show ?thesis
  proof (cases r)
    case None
    then show ?thesis using walk_failed [OF ok free] Pair m by (simp add: vmm_map_page_def)
  next
    case (Some p)
    note w = walk_create [OF ok i free Pair [unfolded Some]]
    show ?thesis using map_page_at [OF w(1,2) Pair [unfolded Some w(3)] m] w(4) by simp
  qed
qed

lemma pte_bit: "bit (pte_of sp va s) n \<Longrightarrow> table_there sp (pde_index va) s"
  by (auto simp: pte_of_def split: if_splits)

lemma vm_frame_free_ok:
  assumes ok: "tables_ok sp s" and not_table: "page_no f \<noteq> page_no (pd_phys (spaces s sp))" "\<And>i. table_there sp i s \<Longrightarrow> page_no f \<noteq> page_no (table_of sp i s)"
  shows "tables_ok sp (vm_frame_free f s)" "pte_of sp va (vm_frame_free f s) = pte_of sp va s"
    "table_there sp i (vm_frame_free f s) = table_there sp i s" "table_of sp i (vm_frame_free f s) = table_of sp i s"
proof -
  let ?s = "vm_frame_free f s"
  have f: "phys ?s = phys s" "pd_phys (spaces ?s sp) = pd_phys (spaces s sp)" by (simp_all add: vm_frame_free_def)
  note c = same_tables [OF f]
  note fr = frame_free_cases [OF tables_okD(2) [OF ok], of f]
  show "pte_of sp va ?s = pte_of sp va s" "table_there sp i ?s = table_there sp i s" "table_of sp i ?s = table_of sp i s" by (rule c)+
  have "page_no (pd_phys (spaces s sp)) \<notin> free_set (frame_free f (g_frame_alloc s))"
    "table_there sp i s \<Longrightarrow> page_no (table_of sp i s) \<notin> free_set (frame_free f (g_frame_alloc s))" for i
    using fr(2) not_table [THEN not_sym] tables_okD(5,7) [OF ok] by (auto simp: page_no_def)
  then show "tables_ok sp ?s" unfolding tables_ok_def c f using tables_okD [OF ok] fr
    by (simp add: vm_frame_free_def)
qed

text \<open>The frame of a page is not one of the tables.\<close>

definition user_frame :: "u32 \<Rightarrow> u32 \<Rightarrow> 'a vm_scheme \<Rightarrow> bool" where
  "user_frame sp f s \<longleftrightarrow> page_no f \<noteq> page_no (pd_phys (spaces s sp)) \<and> (\<forall>i. table_there sp i s \<longrightarrow> page_no f \<noteq> page_no (table_of sp i s))"

lemma unmap_page_run:
  assumes ok: "tables_ok sp s" and i: "pde_index va < 1023" and f: "user_frame sp (pte_of sp va s) s"
    and m: "vmm_unmap_page sp va s = (done', s')"
  shows "done' = (bit (pte_of sp va s) 0 \<or> bit (pte_of sp va s) 10 \<or> bit (pte_of sp va s) 11) \<and> tables_ok sp s'
    \<and> (\<forall>va'. pte_of sp va' s' = (if done' \<and> page_no va' = page_no va then 0 else pte_of sp va' s))"
proof (cases "table_there sp (pde_index va) s")
  case False
  then show ?thesis using m walk_absent [OF i False] ok by (simp add: vmm_unmap_page_def pte_of_def)
next
  case True
  let ?p = "table_of sp (pde_index va) s + 4 * pte_index va"
  let ?e = "get_pte ?p s"
  have e: "pte_of sp va s = ?e" using True by (simp add: pte_of_def)
  show ?thesis
  proof (cases "bit ?e 0 \<or> bit ?e 10 \<or> bit ?e 11")
    case False
    then show ?thesis using m ok unfolding vmm_unmap_page_def walk_found [OF ok True] e by (auto simp: Let_def pte_bits)
  next
    case found: True
    obtain s1 where s1: "s' = set_pte ?p 0 s1" "done'" "tables_ok sp s1" "table_there sp (pde_index va) s1" "table_of sp (pde_index va) s1 = table_of sp (pde_index va) s"
      "\<And>va'. pte_of sp va' s1 = pte_of sp va' s"
    proof (cases "bit ?e 0")
      case False
      let ?s1 = "if bit ?e 10 then swap_free_slot (drop_bit 12 ?e AND 0xFFFFF) s else s"
      have c: "phys ?s1 = phys s" "pd_phys (spaces ?s1 sp) = pd_phys (spaces s sp)" "g_frame_alloc ?s1 = g_frame_alloc s" "g_kernel_phys_alias_bytes ?s1 = g_kernel_phys_alias_bytes s" by simp_all
      show ?thesis
        by (rule that [of ?s1]) (use m ok True found False in \<open>auto simp: vmm_unmap_page_def walk_found [OF ok True] Let_def pte_bits same_tables [OF c(1,2)] same_tables(5) [OF c] split: if_splits\<close>)
    next
      case present: True
      let ?s0 = "clock_remove_page (?e AND 0xFFFFF000) s"
      let ?s1 = "if bit ?e 9 then ?s0 else vm_frame_free (?e AND 0xFFFFF000) ?s0"
      have c: "phys ?s0 = phys s" "pd_phys (spaces ?s0 sp) = pd_phys (spaces s sp)" "g_frame_alloc ?s0 = g_frame_alloc s" "g_kernel_phys_alias_bytes ?s0 = g_kernel_phys_alias_bytes s" by simp_all
      note t = same_tables [OF c(1,2)] same_tables(5) [OF c]
      have fr: "tables_ok sp ?s1" "pte_of sp va' ?s1 = pte_of sp va' s" "table_there sp i ?s1 = table_there sp i s" "table_of sp i ?s1 = table_of sp i s" for va' i
        using vm_frame_free_ok [of sp ?s0 "?e AND 0xFFFFF000"] f ok unfolding user_frame_def e by (simp_all add: t)
      show ?thesis
        by (rule that [of ?s1]) (use m True present fr in \<open>auto simp: vmm_unmap_page_def walk_found [OF ok True] Let_def pte_bits\<close>)
    qed
    note se = set_entry [OF s1(3,4) s1(1) [folded s1(5)]]
    show ?thesis using se(1,4) s1 found e by simp
  qed
qed

section \<open>An address space with one page\<close>

text \<open>The directory is at 2 MB, the table of the start of the heap at \<open>0x201000\<close>, and the first page
  of the heap is the frame at 3 MB, writable in ring 3. The break is in the middle of this page.\<close>

definition demo_vm :: vm where
  "demo_vm = parts.extend demo_parts (vm.fields
     (store32 0x201000 0x300007 (store32 0x200400 0x201007 (\<lambda>_. 0)))
     (frame_alloc_init 0x300000 0x2000000) (replicate 128 0) 4096 (replicate 1024 no_clock_entry) 0 0
     ((\<lambda>_. zero_space)(0xC0203000 := zero_space\<lparr>pd_phys := 0x200000, heap_break := 0x40000800\<rparr>)) 0xC0203000 0xC0203000 0x2000000)"

lemma demo_vm_fields [simp]:
  "phys demo_vm = store32 0x201000 0x300007 (store32 0x200400 0x201007 (\<lambda>_. 0))" "g_frame_alloc demo_vm = frame_alloc_init 0x300000 0x2000000"
  "spaces demo_vm = (\<lambda>_. zero_space)(0xC0203000 := zero_space\<lparr>pd_phys := 0x200000, heap_break := 0x40000800\<rparr>)"
  "vmm_current_as demo_vm = 0xC0203000" "vmm_kernel_as demo_vm = 0xC0203000" "g_kernel_phys_alias_bytes demo_vm = 0x2000000"
  "g_clock demo_vm = replicate 1024 no_clock_entry" "g_clock_count demo_vm = 0" "g_swap_free_slots demo_vm = 4096" "g_swap_bitmap demo_vm = replicate 128 0"
  "g_swap_partition demo_vm = g_swap_partition demo_parts"
  by (simp_all add: demo_vm_def parts.defs vm.defs demo_parts_def)

lemma demo_pde: "i < 1024 \<Longrightarrow> get_pte (0x200000 + 4 * i) demo_vm = (if i = 256 then 0x201007 else 0)"
proof -
  assume i: "i < 1024"
  have a: "page_aligned 0x200000" by (simp add: page_aligned_def)
  have al: "aligned4 (0x200000 + 4 * i)" by (rule entry_aligned [OF a i])
  have "page_no (0x200000 + 4 * i) = 512" using entry_page [OF a i] by (simp add: page_no_def)
  moreover have "page_no 0x201000 = 513" by (simp add: page_no_def)
  ultimately have "0x200000 + 4 * i \<noteq> 0x201000" by force
  moreover have "0x200000 + 4 * i = 0x200000 + 4 * 256 \<longleftrightarrow> i = 256" using entry_eq [OF a a i, of 256] by simp
  ultimately show ?thesis using al by (simp add: get_pte_def load32_store32_other aligned4_def, simp add: load32_def)
qed

lemma demo_table: "i < 1024 \<Longrightarrow> get_pte (0x201000 + 4 * i) demo_vm = (if i = 0 then 0x300007 else 0)"
proof -
  assume i: "i < 1024"
  have a: "page_aligned 0x201000" by (simp add: page_aligned_def)
  have al: "aligned4 (0x201000 + 4 * i)" by (rule entry_aligned [OF a i])
  have "page_no (0x201000 + 4 * i) = 513" using entry_page [OF a i] by (simp add: page_no_def)
  moreover have "page_no 0x200400 = 512" by (simp add: page_no_def)
  ultimately have "0x201000 + 4 * i \<noteq> 0x200400" by force
  moreover have "0x201000 + 4 * i = 0x201000 + 4 * 0 \<longleftrightarrow> i = 0" using entry_eq [OF a a i, of 0] by simp
  ultimately show ?thesis using al by (simp add: get_pte_def load32_store32_other aligned4_def, simp add: load32_def)
qed

lemma demo_pde_addr: "pde_addr 0xC0203000 i demo_vm = 0x200000 + 4 * i"
  by (simp add: pde_addr_def)

lemma demo_there: "table_there 0xC0203000 i demo_vm \<longleftrightarrow> i = 256"
proof (cases "i < 1024")
  case True
  then show ?thesis by (simp add: table_there_def demo_pde_addr demo_pde)
qed (auto simp: table_there_def word_less_nat_alt)

lemma demo_table_of: "table_of 0xC0203000 256 demo_vm = 0x201000"
  using demo_pde [of 256] by (simp add: table_of_def demo_pde_addr)

lemma demo_frames: "frames_inv (frame_alloc_init 0x300000 0x2000000)" "unat (total_frames (frame_alloc_init 0x300000 0x2000000)) = 8192"
  "n < 770 \<Longrightarrow> n \<notin> free_set (frame_alloc_init 0x300000 0x2000000)" "free_frames (frame_alloc_init 0x300000 0x2000000) \<noteq> 0"
proof -
  note boot = boot_frames
  show "frames_inv (frame_alloc_init 0x300000 0x2000000)" "unat (total_frames (frame_alloc_init 0x300000 0x2000000)) = 8192" by (rule boot)+
  show "n < 770 \<Longrightarrow> n \<notin> free_set (frame_alloc_init 0x300000 0x2000000)" unfolding boot(2) by simp
  have "unat (free_frames (frame_alloc_init 0x300000 0x2000000)) = 7422"
    using boot(1) by (simp add: frames_inv_def frames_ok_def boot(2))
  then show "free_frames (frame_alloc_init 0x300000 0x2000000) \<noteq> 0" by auto
qed

lemma demo_tables_ok: "tables_ok 0xC0203000 demo_vm"
  unfolding tables_ok_def demo_there by (simp add: demo_table_of demo_frames page_aligned_def page_no_def)

lemma demo_pte: "pte_of 0xC0203000 va demo_vm = (if page_no va = 262144 then 0x300007 else 0)"
proof -
  have "page_no va = 262144 \<longleftrightarrow> pde_index va = 256 \<and> pte_index va = 0"
    using same_page_indices [of va "0x40000000"] by (simp add: page_no_def pde_index_def pte_index_def)
  then show ?thesis using demo_table [of 0] by (simp add: pte_of_def demo_there demo_table_of demo_table)
qed

section \<open>Mapping\<close>

text \<open>C4. Mapping a page, when a frame is free, is an update of the page table function at exactly that
  page, with the physical address, the flags and the present bit: every other page of the address
  space keeps its entry, and the page tables stay in order even when a new table was needed. When no
  table can be had nothing changes.\<close>

theorem map_page_spec:
  assumes "tables_ok sp s" and "pde_index va < 1023" and "free_frames (g_frame_alloc s) \<noteq> 0"
    and "vmm_map_page sp va pa flags s = (done', s')"
  shows "if done' then tables_ok sp s' \<and> (\<forall>va'. pte_of sp va' s' =
      (if page_no va' = page_no va then (pa AND 0xFFFFF000) OR (flags OR 1) else pte_of sp va' s)) else s' = s"
  by (rule map_page_run [OF assms])

theorem map_page_spec_witness:
  "fst (vmm_map_page 0xC0203000 0x40000123 0x500000 2 demo_vm)
   \<and> pte_of 0xC0203000 0x40000FFF (snd (vmm_map_page 0xC0203000 0x40000123 0x500000 2 demo_vm)) = 0x500003
   \<and> pte_of 0xC0203000 0x40001000 (snd (vmm_map_page 0xC0203000 0x40000123 0x500000 2 demo_vm)) = 0"
proof -
  obtain d s' where m: "vmm_map_page 0xC0203000 0x40000123 0x500000 2 demo_vm = (d, s')" by fastforce
  have i: "pde_index 0x40000123 = 256" by (simp add: pde_index_def)
  have "d" using m walk_found [OF demo_tables_ok, of "0x40000123" True] unfolding vmm_map_page_def
    by (simp add: i demo_there split: prod.splits)
  then show ?thesis
    using map_page_spec [OF demo_tables_ok _ _ m] m demo_frames(4) by (simp add: i demo_pte page_no_def)
qed

text \<open>C38. Unmapping a page clears its entry and no other: it succeeds exactly on a page that is present,
  swapped out or demand-zero, and the page tables stay in order. The frame of the page must not be
  one of the tables, since it may go back to the allocator.\<close>

theorem unmap_page_spec:
  assumes "tables_ok sp s" and "pde_index va < 1023" and "user_frame sp (pte_of sp va s) s" and "vmm_unmap_page sp va s = (done', s')"
  shows "done' = (bit (pte_of sp va s) 0 \<or> bit (pte_of sp va s) 10 \<or> bit (pte_of sp va s) 11) \<and> tables_ok sp s'
    \<and> (\<forall>va'. pte_of sp va' s' = (if done' \<and> page_no va' = page_no va then 0 else pte_of sp va' s))"
  by (rule unmap_page_run [OF assms])

theorem unmap_page_spec_witness:
  "fst (vmm_unmap_page 0xC0203000 0x40000000 demo_vm) \<and> pte_of 0xC0203000 0x40000000 (snd (vmm_unmap_page 0xC0203000 0x40000000 demo_vm)) = 0"
proof -
  obtain d s' where m: "vmm_unmap_page 0xC0203000 0x40000000 demo_vm = (d, s')" by fastforce
  have "user_frame 0xC0203000 (pte_of 0xC0203000 0x40000000 demo_vm) demo_vm"
    by (simp add: user_frame_def demo_pte demo_there demo_table_of page_no_def)
  moreover have "pde_index 0x40000000 < 1023" by (simp add: pde_index_def)
  ultimately show ?thesis
    using unmap_page_spec [OF demo_tables_ok _ _ m] m by (simp add: demo_pte page_no_def)
qed

section \<open>The break\<close>

lemma demand_page_at:
  assumes "tables_ok sp s" "table_there sp (pde_index va) s"
  shows "\<exists>s'. demand_page sp flags va s = (True, s') \<and> tables_ok sp s'
     \<and> (\<forall>va'. pte_of sp va' s' = (if page_no va' = page_no va then 0x800 OR flags else pte_of sp va' s))"
proof -
  let ?s = "set_pte (table_of sp (pde_index va) s + 4 * pte_index va) (0x800 OR flags) s"
  have "tables_ok sp ?s" "pte_of sp va' ?s = (if page_no va' = page_no va then 0x800 OR flags else pte_of sp va' s)" for va'
    by (rule set_entry [OF assms refl])+
  then show ?thesis by (simp add: demand_page_def walk_found [OF assms])
qed



end
