(* ===== verification/VmFault.thy ===== *)
theory VmFault
  imports VmSpec
begin

text \<open>
  What page faults and swapping promise: a fault on a demand-zero page gives a page of zeros, a write
  to a copy-on-write page gives a private copy, and a page that is swapped out comes back with its
  content. Each takes one free frame, changes one entry and leaves the memory of every other frame.
\<close>

section \<open>Fresh frames\<close>

lemma aligned_mask: "page_aligned f \<Longrightarrow> f AND 0xFFFFF000 = f"
  by (rule page_aligned_inj) simp_all

lemma masked_entry:
  assumes "page_aligned f" "w < 4096"
  shows "(f OR w) AND 0xFFFFF000 = f" "(f OR w) AND 0xFFF = w"
proof -
  show "(f OR w) AND 0xFFFFF000 = f" by (rule aligned_flags [OF assms])
  have "unat (f AND 0xFFF) = 0" using assms(1) by (simp add: unat_page_offset page_aligned_def)
  moreover have "unat (w AND 0xFFF) = unat w" using assms(2) by (simp add: unat_page_offset word_less_nat_alt)
  ultimately show "(f OR w) AND 0xFFF = w" by (simp add: bit.conj_disj_distrib2 unat_eq_0 unsigned_word_eqI)
qed

lemma load32_page:
  assumes "aligned4 a" "\<And>x. page_no x = page_no a \<Longrightarrow> m' x = m x"
  shows "load32 m' a = load32 m a"
  by (rule load32_cong) (rule assms(2), erule near_page [OF assms(1)])

text \<open>Taking a free frame and filling it leaves the page tables as they are.\<close>

lemma fresh_frame:
  assumes ok: "tables_ok sp s"
    and f: "page_no f \<in> free_set (g_frame_alloc s)" "frames_inv (g_frame_alloc s')"
      "free_set (g_frame_alloc s') = free_set (g_frame_alloc s) - {page_no f}" "total_frames (g_frame_alloc s') = total_frames (g_frame_alloc s)"
    and same: "\<And>x. page_no x \<noteq> page_no f \<Longrightarrow> phys s' x = phys s x"
      "pd_phys (spaces s' sp) = pd_phys (spaces s sp)" "g_kernel_phys_alias_bytes s' = g_kernel_phys_alias_bytes s"
  shows "tables_ok sp s'" "table_there sp i s' = table_there sp i s" "i < 1024 \<Longrightarrow> table_of sp i s' = table_of sp i s"
    "pte_of sp va s' = pte_of sp va s"
proof -
  have get: "get_pte a s' = get_pte a s" if "aligned4 a" "page_no a \<noteq> page_no f" for a
    unfolding get_pte_def using that(2) by (intro load32_page [OF that(1)] same(1)) simp
  have pd: "pde_addr sp j s' = pde_addr sp j s" for j by (simp add: pde_addr_def same)
  have pdf: "page_no (pd_phys (spaces s sp)) \<noteq> page_no f" using tables_okD(5) [OF ok] f(1) by metis
  have pde: "get_pte (pde_addr sp j s) s' = get_pte (pde_addr sp j s) s" if "j < 1024" for j
    using get [OF pde_aligned [OF ok that]] pde_page [OF ok that] pdf by simp
  show th: "table_there sp i s' = table_there sp i s" for i
    using pde [of i] by (cases "i < 1024") (auto simp: table_there_def pd word_less_nat_alt)
  show tab: "table_of sp i s' = table_of sp i s" if "i < 1024" for i using pde [OF that] by (simp add: pd table_of_def)
  show "tables_ok sp s'" unfolding tables_ok_def th f(3,4) same(2,3) using tables_okD [OF ok] f(2) by (auto simp: tab there_less)
  have "page_no (table_of sp (pde_index va) s + 4 * pte_index va) \<noteq> page_no f" if "table_there sp (pde_index va) s"
    using tables_okD(7) [OF ok that] f(1) entry_page [OF table_of_aligned index_less(2), of sp "pde_index va" s va] by metis
  then show "pte_of sp va s' = pte_of sp va s"
    using get [OF entry_aligned [OF table_of_aligned index_less(2)]] by (auto simp: pte_of_def th tab)
qed

text \<open>A new frame whose content is \<open>g\<close>, entered in the table of a page.\<close>

lemma enter_frame:
  assumes ok: "tables_ok sp s" and th: "table_there sp (pde_index va) s"
    and f: "page_aligned f" "page_no f \<in> free_set (g_frame_alloc s)" "frames_inv (g_frame_alloc s1)"
      "free_set (g_frame_alloc s1) = free_set (g_frame_alloc s) - {page_no f}" "total_frames (g_frame_alloc s1) = total_frames (g_frame_alloc s)"
    and same: "\<And>x. page_no x \<noteq> page_no f \<Longrightarrow> phys s1 x = phys s x"
      "pd_phys (spaces s1 sp) = pd_phys (spaces s sp)" "g_kernel_phys_alias_bytes s1 = g_kernel_phys_alias_bytes s"
    and s': "phys s' = phys (set_pte (table_of sp (pde_index va) s + 4 * pte_index va) v s1)"
      "pd_phys (spaces s' sp) = pd_phys (spaces s1 sp)" "g_frame_alloc s' = g_frame_alloc s1" "g_kernel_phys_alias_bytes s' = g_kernel_phys_alias_bytes s1"
  shows "tables_ok sp s'" "pte_of sp va' s' = (if page_no va' = page_no va then v else pte_of sp va' s)"
    "page_no x = page_no f \<Longrightarrow> phys s' x = phys s1 x"
    "page_no x \<noteq> page_no f \<Longrightarrow> page_no x \<noteq> page_no (table_of sp (pde_index va) s) \<Longrightarrow> phys s' x = phys s x"
proof -
  let ?p = "table_of sp (pde_index va) s + 4 * pte_index va"
  note fr = fresh_frame [OF ok f(2-5) same]
  have th1: "table_there sp (pde_index va) s1" using fr(2) th by simp
  have p: "?p = table_of sp (pde_index va) s1 + 4 * pte_index va" by (simp add: fr(3))
  have se: "tables_ok sp (set_pte ?p v s1)" "pte_of sp va' (set_pte ?p v s1) = (if page_no va' = page_no va then v else pte_of sp va' s1)" for va'
    using set_entry(1,4) [OF fr(1) th1, of "set_pte ?p v s1" v] p by simp_all
  have c: "phys s' = phys (set_pte ?p v s1)" "pd_phys (spaces s' sp) = pd_phys (spaces (set_pte ?p v s1) sp)"
    "g_frame_alloc s' = g_frame_alloc (set_pte ?p v s1)" "g_kernel_phys_alias_bytes s' = g_kernel_phys_alias_bytes (set_pte ?p v s1)"
    using s' by (simp_all add: set_pte_def)
  note sm = same_tables [OF c(1,2)] same_tables(5) [OF c]
  show "tables_ok sp s'" "pte_of sp va' s' = (if page_no va' = page_no va then v else pte_of sp va' s)"
    using se fr(4) by (simp_all add: sm)
  have ent: "aligned4 ?p" "page_no ?p = page_no (table_of sp (pde_index va) s)" by (simp_all add: entry_aligned entry_page)
  have out: "phys s' x = phys s1 x" if "page_no x \<noteq> page_no (table_of sp (pde_index va) s)" for x
  proof -
    have "\<not> x - ?p < 4" using that near_page [OF ent(1), of x] ent(2) by auto
    then show ?thesis by (simp add: s'(1) set_pte_def store32_other not_less)
  qed
  show "page_no x = page_no f \<Longrightarrow> phys s' x = phys s1 x"
    using out [of x] tables_okD(7) [OF ok th] f(2) by metis
  show "page_no x \<noteq> page_no f \<Longrightarrow> page_no x \<noteq> page_no (table_of sp (pde_index va) s) \<Longrightarrow> phys s' x = phys s x"
    using out [of x] same(1) [of x] by simp
qed

lemma page_bytes_eqI: "(\<And>k. k < 4096 \<Longrightarrow> phys s' (f + of_nat k) = phys s (g + of_nat k)) \<Longrightarrow> page_bytes f s' = page_bytes g s"
  by (simp add: page_bytes_def)

lemma in_page_offset: "page_aligned f \<Longrightarrow> k < 4096 \<Longrightarrow> page_no (f + of_nat k) = page_no f"
proof -
  assume "page_aligned f" "k < 4096"
  moreover from this have "f + of_nat k - f < (4096 :: u32)" by (simp add: word_less_nat_alt unat_of_nat32)
  ultimately show ?thesis using in_page by blast
qed

text \<open>A page of an address space is given a free frame with some content and flags: its entry is the only
  one that changes, and the memory changes only in the frame and in the page's table.\<close>

definition fresh_page :: "u32 \<Rightarrow> u32 \<Rightarrow> u32 \<Rightarrow> bytes \<Rightarrow> 'a vm_scheme \<Rightarrow> 'a vm_scheme \<Rightarrow> bool" where
  "fresh_page sp va flags bs s s' \<longleftrightarrow> tables_ok sp s' \<and> (\<exists>f. page_aligned f \<and> page_no f \<in> free_set (g_frame_alloc s)
     \<and> (\<forall>va'. pte_of sp va' s' = (if page_no va' = page_no va then f OR flags else pte_of sp va' s))
     \<and> page_bytes f s' = bs
     \<and> (\<forall>x. page_no x \<noteq> page_no f \<longrightarrow> page_no x \<noteq> page_no (table_of sp (pde_index va) s) \<longrightarrow> phys s' x = phys s x))"

lemma fresh_page_from:
  assumes "phys s1 = phys s" "pd_phys (spaces s1 sp) = pd_phys (spaces s sp)" "g_frame_alloc s1 = g_frame_alloc s"
  shows "fresh_page sp va flags bs s1 s' = fresh_page sp va flags bs s s'"
  unfolding fresh_page_def same_tables [OF assms(1,2)] assms by (rule refl)

lemma frame_alloc_same:
  "g_frame_alloc s1 = g_frame_alloc s \<Longrightarrow> free_frames (g_frame_alloc s) \<noteq> 0 \<Longrightarrow> fst (vm_frame_alloc s1) = fst (vm_frame_alloc s)"
  by (simp add: vm_frame_alloc_def split: prod.split)

lemma fill_demand_run:
  assumes ok: "tables_ok sp s" and th: "table_there sp (pde_index va) s" and free: "free_frames (g_frame_alloc s) \<noteq> 0"
    and m: "fill_demand (table_of sp (pde_index va) s + 4 * pte_index va) s = (done', s')"
  shows "done' = (fst (vm_frame_alloc s) \<noteq> 0) \<and> (if done' then fresh_page sp va ((pte_of sp va s AND 0x7FF) OR 1) (replicate 4096 0) s s' else s' = s)"
proof -
  let ?p = "table_of sp (pde_index va) s + 4 * pte_index va"
  have e: "get_pte ?p s = pte_of sp va s" using th by (simp add: pte_of_def)
  obtain f s1 where a: "vm_frame_alloc s = (f, s1)" by fastforce
  show ?thesis
  proof (cases "f = 0")
    case True
    then show ?thesis using m a vm_frame_alloc_none [OF tables_okD(2) [OF ok] free, of s1] by (simp add: fill_demand_def Let_def)
  next
    case False
    obtain g where g: "s1 = s\<lparr>g_frame_alloc := g\<rparr>" "page_aligned f" "page_no f \<in> free_set (g_frame_alloc s)" "frames_inv g"
      "free_set g = free_set (g_frame_alloc s) - {page_no f}" "total_frames g = total_frames (g_frame_alloc s)"
      using vm_frame_alloc_ok [OF tables_okD(2) [OF ok] free a False] by blast
    have mask: "(e AND 0xFFF) AND - 0x801 = e AND 0x7FF" for e :: u32 by (simp add: and.assoc)
    have s': "done'" "s' = set_pte ?p (f OR ((pte_of sp va s AND 0x7FF) OR 1)) (zero_page f s1)"
      using m a False by (simp_all add: fill_demand_def Let_def e aligned_mask [OF g(2)] mask)
    have zero: "phys (zero_page f s1) x = (if page_no x = page_no f then 0 else phys s x)" for x
      using in_page [OF g(2), of x] g(1) by (simp add: zero_page_def memset_def)
    have z: "g_frame_alloc (zero_page f s1) = g" "pd_phys (spaces (zero_page f s1) sp) = pd_phys (spaces s sp)"
      "g_kernel_phys_alias_bytes (zero_page f s1) = g_kernel_phys_alias_bytes s" by (simp_all add: zero_page_def g(1))
    have out: "page_no x \<noteq> page_no f \<Longrightarrow> phys (zero_page f s1) x = phys s x" for x using zero by simp
    have v: "phys s' = phys (set_pte ?p (f OR ((pte_of sp va s AND 0x7FF) OR 1)) (zero_page f s1))" "pd_phys (spaces s' sp) = pd_phys (spaces (zero_page f s1) sp)"
      "g_frame_alloc s' = g_frame_alloc (zero_page f s1)" "g_kernel_phys_alias_bytes s' = g_kernel_phys_alias_bytes (zero_page f s1)"
      by (simp_all add: s'(2) set_pte_def)
    note en = enter_frame [OF ok th g(2,3) g(4-6) [folded z(1)] out z(2,3) v]
    have "page_bytes f s' = replicate 4096 0"
      unfolding page_bytes_def using en(3) zero in_page_offset [OF g(2)] by (intro nth_equalityI) simp_all
    then show ?thesis using en(1,2,4) g(2,3) s'(1) a False unfolding fresh_page_def by auto
  qed
qed

lemma cow_fault_run:
  assumes ok: "tables_ok sp s" and th: "table_there sp (pde_index va) s" and free: "free_frames (g_frame_alloc s) \<noteq> 0"
    and m: "vmm_handle_cow_fault sp va (table_of sp (pde_index va) s + 4 * pte_index va) s = (done', s')"
  shows "done' = (fst (vm_frame_alloc s) \<noteq> 0) \<and> (if done' then fresh_page sp va ((pte_of sp va s AND 0xDFF) OR 3) (page_bytes (pte_of sp va s AND 0xFFFFF000) s) s s' else s' = s)"
proof -
  let ?p = "table_of sp (pde_index va) s + 4 * pte_index va" and ?old = "pte_of sp va s AND 0xFFFFF000"
  let ?v = "\<lambda>f. f OR ((pte_of sp va s AND 0xDFF) OR 3)"
  have e: "get_pte ?p s = pte_of sp va s" using th by (simp add: pte_of_def)
  obtain f s1 where a: "vm_frame_alloc s = (f, s1)" by fastforce
  show ?thesis
  proof (cases "f = 0")
    case True
    then show ?thesis using m a vm_frame_alloc_none [OF tables_okD(2) [OF ok] free, of s1] by (simp add: vmm_handle_cow_fault_def Let_def)
  next
    case False
    obtain g where g: "s1 = s\<lparr>g_frame_alloc := g\<rparr>" "page_aligned f" "page_no f \<in> free_set (g_frame_alloc s)" "frames_inv g"
      "free_set g = free_set (g_frame_alloc s) - {page_no f}" "total_frames g = total_frames (g_frame_alloc s)"
      using vm_frame_alloc_ok [OF tables_okD(2) [OF ok] free a False] by blast
    define c where "c = s1\<lparr>phys := memcpy f ?old 4096 (phys s1)\<rparr>"
    have mask: "(e AND 0xFFF) AND - 0x201 = e AND 0xDFF" for e :: u32 by (simp add: and.assoc)
    have s': "done'" "s' = clock_add_page f (Some ?p) va sp (set_pte ?p (?v f) c)"
      using m a False by (simp_all add: vmm_handle_cow_fault_def Let_def e aligned_mask [OF g(2)] mask c_def)
    have copy: "phys c x = (if page_no x = page_no f then phys s (?old + (x - f)) else phys s x)" for x
      using in_page [OF g(2), of x] g(1) by (simp add: c_def memcpy_def)
    have z: "g_frame_alloc c = g" "pd_phys (spaces c sp) = pd_phys (spaces s sp)" "g_kernel_phys_alias_bytes c = g_kernel_phys_alias_bytes s"
      by (simp_all add: c_def g(1))
    have out: "page_no x \<noteq> page_no f \<Longrightarrow> phys c x = phys s x" for x using copy by simp
    have v: "phys s' = phys (set_pte ?p (?v f) c)" "pd_phys (spaces s' sp) = pd_phys (spaces c sp)"
      "g_frame_alloc s' = g_frame_alloc c" "g_kernel_phys_alias_bytes s' = g_kernel_phys_alias_bytes c"
      by (simp_all add: s'(2) set_pte_def)
    note en = enter_frame [OF ok th g(2,3) g(4-6) [folded z(1)] out z(2,3) v]
    have "page_bytes f s' = page_bytes ?old s"
      using en(3) copy in_page_offset [OF g(2)] by (intro page_bytes_eqI) simp
    then show ?thesis using en(1,2,4) g(2,3) s'(1) a False unfolding fresh_page_def by auto
  qed
qed

section \<open>Swapping\<close>

text \<open>The swap partition leaves the rest of the machine as it is.\<close>

lemma sectors_more:
  "disk.more (snd (ata_read_sector d l s)) = disk.more s" "disk.more (snd (ata_write_sector d l b s)) = disk.more s"
  "disk.more (snd (part_ctx_allow c k s)) = disk.more s" "disk.more (part_ctx_account k s) = disk.more s"
  by (auto simp: ata_read_sector_def ata_write_sector_def vfs_ramdisk_write_sector_def ata_ctx_allow_def part_ctx_allow_def part_ctx_account_def
      split: prod.split option.split)

lemma on_ok_more: "(\<And>x t. disk.more (snd (f x t)) = disk.more t) \<Longrightarrow> disk.more (snd (on_ok r f)) = disk.more (snd r)"
  by (auto simp: on_ok_def split: prod.split option.split)

lemma swap_loops_more:
  "disk.more (snd (swap_read_loop d l n i b s)) = disk.more s" "disk.more (snd (swap_write_loop d l n i b s)) = disk.more s"
proof (induction n arbitrary: i b s)
  case (Suc n)
  { case 1 show ?case by (simp add: on_ok_more Suc.IH sectors_more) }
  { case 2 show ?case by (simp add: on_ok_more Suc.IH sectors_more) }
qed simp_all

lemma swap_pages_more:
  "disk.more (snd (swap_partition_read_page k s)) = disk.more s" "disk.more (snd (swap_partition_write_page k b s)) = disk.more s"
  using sectors_more(3) [of CAP_DEV_DISK SCHED_COST_FS s]
  by (cases "part_ctx_allow CAP_DEV_DISK SCHED_COST_FS s"; simp add: swap_partition_read_page_def swap_partition_write_page_def swap_loops_more)+

lemma more_fields:
  assumes "disk.more s' = disk.more (s :: 'a vm_scheme)"
  shows "phys s' = phys s" "spaces s' = spaces s" "g_frame_alloc s' = g_frame_alloc s" "g_swap_bitmap s' = g_swap_bitmap s"
    "g_swap_free_slots s' = g_swap_free_slots s" "g_kernel_phys_alias_bytes s' = g_kernel_phys_alias_bytes s"
    "vmm_current_as s' = vmm_current_as s" "g_swap_partition s' = g_swap_partition s"
  using assms by (cases s; cases s'; simp)+

lemma disk_of_vm [simp]:
  fixes s :: "'a vm_scheme"
  shows
  "dk_kc (s\<lparr>phys := m\<rparr>) = dk_kc s" "drive_present (s\<lparr>phys := m\<rparr>) = drive_present s" "media (s\<lparr>phys := m\<rparr>) = media s" "rd_bad (s\<lparr>phys := m\<rparr>) = rd_bad s" "wr_bad (s\<lparr>phys := m\<rparr>) = wr_bad s" "ramdisk (s\<lparr>phys := m\<rparr>) = ramdisk s"
  "dk_kc (s\<lparr>g_frame_alloc := g\<rparr>) = dk_kc s" "drive_present (s\<lparr>g_frame_alloc := g\<rparr>) = drive_present s" "media (s\<lparr>g_frame_alloc := g\<rparr>) = media s" "rd_bad (s\<lparr>g_frame_alloc := g\<rparr>) = rd_bad s" "wr_bad (s\<lparr>g_frame_alloc := g\<rparr>) = wr_bad s" "ramdisk (s\<lparr>g_frame_alloc := g\<rparr>) = ramdisk s"
  "dk_kc (s\<lparr>g_swap_bitmap := b\<rparr>) = dk_kc s" "drive_present (s\<lparr>g_swap_bitmap := b\<rparr>) = drive_present s" "media (s\<lparr>g_swap_bitmap := b\<rparr>) = media s" "rd_bad (s\<lparr>g_swap_bitmap := b\<rparr>) = rd_bad s" "wr_bad (s\<lparr>g_swap_bitmap := b\<rparr>) = wr_bad s" "ramdisk (s\<lparr>g_swap_bitmap := b\<rparr>) = ramdisk s"
  "dk_kc (s\<lparr>g_swap_free_slots := n\<rparr>) = dk_kc s" "drive_present (s\<lparr>g_swap_free_slots := n\<rparr>) = drive_present s" "media (s\<lparr>g_swap_free_slots := n\<rparr>) = media s" "rd_bad (s\<lparr>g_swap_free_slots := n\<rparr>) = rd_bad s" "wr_bad (s\<lparr>g_swap_free_slots := n\<rparr>) = wr_bad s" "ramdisk (s\<lparr>g_swap_free_slots := n\<rparr>) = ramdisk s"
  "dk_kc (s\<lparr>spaces := f\<rparr>) = dk_kc s" "drive_present (s\<lparr>spaces := f\<rparr>) = drive_present s" "media (s\<lparr>spaces := f\<rparr>) = media s" "rd_bad (s\<lparr>spaces := f\<rparr>) = rd_bad s" "wr_bad (s\<lparr>spaces := f\<rparr>) = wr_bad s" "ramdisk (s\<lparr>spaces := f\<rparr>) = ramdisk s"
  by (cases s; simp)+

lemma swap_ready_fields [simp]:
  "swap_ready L (s\<lparr>phys := m\<rparr>) = swap_ready L s" "swap_ready L (s\<lparr>g_frame_alloc := g\<rparr>) = swap_ready L s"
  "swap_ready L (s\<lparr>g_swap_bitmap := b\<rparr>) = swap_ready L s" "swap_ready L (s\<lparr>g_swap_free_slots := n\<rparr>) = swap_ready L s" "swap_ready L (s\<lparr>spaces := f\<rparr>) = swap_ready L s"
  "page_content (s\<lparr>phys := m\<rparr>) k = page_content s k" "page_content (s\<lparr>g_frame_alloc := g\<rparr>) k = page_content s k"
  "page_content (s\<lparr>spaces := f\<rparr>) k = page_content s k"
  by (simp_all add: swap_ready_def healthy_def Let_def page_content_def page_sector_def sector_def cong: if_cong)

lemma below12: "(w :: u32) < 4096 \<Longrightarrow> bit w n \<Longrightarrow> n < 12"
proof -
  assume "w < 4096" "bit w n"
  moreover have "take_bit 12 w = w" 
  proof -
    have "unat (take_bit 12 w) = unat w" using \<open>w < 4096\<close> by (simp add: unsigned_take_bit_eq take_bit_nat_eq_self word_less_nat_alt)
    then show ?thesis by (rule unsigned_word_eqI)
  qed
  ultimately show ?thesis by (metis bit_take_bit_iff)
qed

lemma swap_entry:
  fixes slot e :: u32
  assumes "slot < 4096"
  defines "e' \<equiv> push_bit 12 slot OR (0x400 OR (e AND 6))"
  shows "drop_bit 12 e' AND 0xFFFFF = slot" "e' AND 6 = e AND 6" "\<not> bit e' 0" "bit e' 10" "\<not> bit e' 11"
proof -
  have mask20: "(0xFFFFF :: u32) = mask 20" by (simp add: mask_eq_exp_minus_1)
  have low: "bit (6 :: int) n \<longleftrightarrow> n = 1 \<or> n = 2" "bit (0x400 :: int) n \<longleftrightarrow> n = 10" for n
    by (auto simp: bit_numeral_rec bit_1_iff split: nat.splits)
  show "drop_bit 12 e' AND 0xFFFFF = slot" unfolding mask20
    by (rule bit_word_eqI) (auto simp: e'_def bit_simps low dest: below12 [OF assms(1)])
  show "e' AND 6 = e AND 6" by (rule bit_word_eqI) (auto simp: e'_def bit_simps low)
  show "\<not> bit e' 0" "bit e' 10" "\<not> bit e' 11" by (simp_all add: e'_def bit_simps low)
qed

lemma swap_slot_run:
  assumes "swap_alloc_slot s = (slot, s1)" "slot \<noteq> 0xFFFFFFFF"
  shows "slot < 4096" "s1 = s\<lparr>g_swap_bitmap := g_swap_bitmap s1, g_swap_free_slots := g_swap_free_slots s1\<rparr>"
proof -
  obtain i j where ij: "i < 128" "j < 32" "slot = of_nat i * 32 + of_nat j"
    and s1: "s1 = s\<lparr>g_swap_bitmap := (g_swap_bitmap s)[i := g_swap_bitmap s ! i OR push_bit j 1], g_swap_free_slots := g_swap_free_slots s - 1\<rparr>"
    using assms by (auto simp: swap_alloc_slot_def first_idx_Some split: if_splits option.splits)
  have "unat (of_nat (i * 32 + j) :: u32) = i * 32 + j" using ij by (intro unat_of_nat32) simp
  moreover have "slot = of_nat (i * 32 + j)" using ij(3) by simp
  ultimately have "unat slot < 4096" using ij(1,2) by simp
  then show "slot < 4096" by (simp add: word_less_nat_alt)
  show "s1 = s\<lparr>g_swap_bitmap := g_swap_bitmap s1, g_swap_free_slots := g_swap_free_slots s1\<rparr>" using s1 by simp
qed

lemma swap_write_run:
  assumes "swap_ready L s" "swap_write_page slot f s = (True, s1)"
  shows "slot < sw_total_pages (g_swap_partition s)" "swap_ready L s1" "disk.more s1 = disk.more s" "page_content s1 slot = page_bytes f s"
proof -
  have w: "swap_partition_write_page slot (page_bytes f s) s = (Some (), s1)"
    using assms by (auto simp: swap_write_page_def swap_partition_get_info_def split: prod.splits option.splits)
  show lt: "slot < sw_total_pages (g_swap_partition s)"
    using w by (auto simp: swap_partition_write_page_def not_le split: if_splits)
  have "length (page_bytes f s) = 4096" by (simp add: page_bytes_def)
  then show r: "swap_ready L s1" and "page_content s1 slot = page_bytes f s"
    using swap_page_run [OF assms(1) lt, of "page_bytes f s"] w swap_read [of L s1 slot] lt more_fields(8) [of s1 s] swap_pages_more(2) [of slot "page_bytes f s" s] by auto
  show "disk.more s1 = disk.more s" using swap_pages_more(2) [of slot "page_bytes f s" s] w by simp
qed

lemma swap_out_run:
  assumes ok: "tables_ok sp s" and th: "table_there sp (pde_index va) s" and sw: "swap_ready L s"
    and m: "swap_out_page_reclaim_frame (Some (table_of sp (pde_index va) s + 4 * pte_index va)) va s = (True, s')"
  obtains slot where "slot < 4096" "slot < sw_total_pages (g_swap_partition s')" "tables_ok sp s'" "swap_ready L s'"
    "\<And>va'. pte_of sp va' s' = (if page_no va' = page_no va then push_bit 12 slot OR (0x400 OR (pte_of sp va s AND 6)) else pte_of sp va' s)"
    "page_content s' slot = page_bytes (pte_of sp va s AND 0xFFFFF000) s" "g_frame_alloc s' = g_frame_alloc s" "vmm_current_as s' = vmm_current_as s"
    "\<And>i. table_there sp i s' = table_there sp i s" "\<And>x. page_no x \<noteq> page_no (table_of sp (pde_index va) s) \<Longrightarrow> phys s' x = phys s x"
proof -
  let ?p = "table_of sp (pde_index va) s + 4 * pte_index va" and ?f = "pte_of sp va s AND 0xFFFFF000"
  have e: "get_pte ?p s = pte_of sp va s" using th by (simp add: pte_of_def)
  obtain slot s1 s2 where a: "swap_alloc_slot s = (slot, s1)" "slot \<noteq> 0xFFFFFFFF" "swap_write_page slot ?f s1 = (True, s2)"
    "s' = set_pte ?p (push_bit 12 slot OR (0x400 OR (get_pte ?p s2 AND 6))) s2"
    using m by (auto simp: swap_out_page_reclaim_frame_def Let_def e or.assoc split: if_splits prod.splits)
  note sl = swap_slot_run [OF a(1,2)]
  have s1: "swap_ready L s1" "phys s1 = phys s" "pd_phys (spaces s1 sp) = pd_phys (spaces s sp)" "g_frame_alloc s1 = g_frame_alloc s"
    "g_kernel_phys_alias_bytes s1 = g_kernel_phys_alias_bytes s" "vmm_current_as s1 = vmm_current_as s"
    using sw by (subst sl(2), simp)+
  note w = swap_write_run [OF s1(1) a(3)]
  note mf = more_fields [OF w(3)]
  have c: "phys s2 = phys s" "pd_phys (spaces s2 sp) = pd_phys (spaces s sp)" "g_frame_alloc s2 = g_frame_alloc s"
    "g_kernel_phys_alias_bytes s2 = g_kernel_phys_alias_bytes s" using mf s1 by simp_all
  note t = same_tables [OF c(1,2)] same_tables(5) [OF c]
  have s': "s' = set_pte (table_of sp (pde_index va) s2 + 4 * pte_index va) (push_bit 12 slot OR (0x400 OR (pte_of sp va s AND 6))) s2"
    using a(4) by (simp add: t e)
  note se = set_entry [OF _ _ s']
  have ok2: "tables_ok sp s2" "table_there sp (pde_index va) s2" using ok th by (simp_all add: t)
  have "phys s' x = phys s x" if "page_no x \<noteq> page_no (table_of sp (pde_index va) s)" for x
  proof -
    have "aligned4 ?p" "page_no ?p = page_no (table_of sp (pde_index va) s)" by (simp_all add: entry_aligned entry_page)
    then have "\<not> x - ?p < 4" using that near_page [of ?p x] by auto
    then show ?thesis by (simp add: s' set_pte_def t c store32_other not_less)
  qed
  moreover have "page_bytes ?f s1 = page_bytes ?f s" by (simp add: page_bytes_def s1)
  moreover have "page_content s' slot = page_content s2 slot" "swap_ready L s' = swap_ready L s2" "g_frame_alloc s' = g_frame_alloc s2"
    "vmm_current_as s' = vmm_current_as s2" "g_swap_partition s' = g_swap_partition s2" by (simp_all add: s' set_pte_def)
  ultimately show ?thesis
    using that [of slot] sl(1) w c mf s1(6) se(1,2,4) [OF ok2] by (simp add: t)
qed

lemma swap_in_run:
  assumes ok: "tables_ok sp s" and th: "table_there sp (pde_index va) s" and free: "free_frames (g_frame_alloc s) \<noteq> 0"
    and sw: "swap_ready L s" "slot < sw_total_pages (g_swap_partition s)" "slot < 4096" "page_content s slot = bs" "length bs = 4096"
    and m: "swap_in_page sp va slot s = (done', s')"
  shows "done' = (fst (vm_frame_alloc s) \<noteq> 0) \<and> (if done' then fresh_page sp va ((pte_of sp va s AND 6) OR 1) bs s s' else s' = s)"
proof -
  let ?p = "table_of sp (pde_index va) s + 4 * pte_index va" and ?v = "\<lambda>f. f OR ((pte_of sp va s AND 6) OR 1)"
  have e: "get_pte ?p s = pte_of sp va s" using th by (simp add: pte_of_def)
  have nsl: "\<not> 4096 \<le> slot" using sw(3) by simp
  obtain f s1 where a: "vm_frame_alloc s = (f, s1)" by fastforce
  show ?thesis
  proof (cases "f = 0")
    case True
    then show ?thesis using m a nsl vm_frame_alloc_none [OF tables_okD(2) [OF ok] free, of s1] by (simp add: swap_in_page_def)
  next
    case False
    obtain g where g: "s1 = s\<lparr>g_frame_alloc := g\<rparr>" "page_aligned f" "page_no f \<in> free_set (g_frame_alloc s)" "frames_inv g"
      "free_set g = free_set (g_frame_alloc s) - {page_no f}" "total_frames g = total_frames (g_frame_alloc s)"
      using vm_frame_alloc_ok [OF tables_okD(2) [OF ok] free a False] by blast
    have sw1: "swap_ready L s1" "slot < sw_total_pages (g_swap_partition s1)" "page_content s1 slot = bs" using sw by (simp_all add: g(1))
    obtain s2 where s2: "swap_partition_read_page slot s1 = (Some bs, s2)" "disk.more s2 = disk.more s1"
      using swap_read [OF sw1(1,2)] sw1(3) swap_pages_more(1) [of slot s1] by (cases "swap_partition_read_page slot s1") auto
    note mf = more_fields [OF s2(2)]
    define c where "c = put_page f bs s2"
    have "sw_active (g_swap_partition s1)" using sw1(1) by (simp add: swap_ready_def Let_def)
    then have rd: "swap_read_page slot f s1 = (True, c)" using s2(1) by (simp add: swap_read_page_def swap_partition_get_info_def c_def)
    have fill: "phys c x = (if page_no x = page_no f then bs ! unat (x - f) else phys s x)" for x
      using in_page [OF g(2), of x] mf(1) g(1) by (simp add: c_def put_page_def)
    have z: "g_frame_alloc c = g" "pd_phys (spaces c sp) = pd_phys (spaces s sp)" "g_kernel_phys_alias_bytes c = g_kernel_phys_alias_bytes s"
      using mf by (simp_all add: c_def put_page_def g(1))
    have out: "page_no x \<noteq> page_no f \<Longrightarrow> phys c x = phys s x" for x using fill by simp
    note fr = fresh_frame [OF ok g(3) g(4-6) [folded z(1)] out z(2,3)]
    have thc: "table_there sp (pde_index va) c" using th fr(2) by simp
    have ec: "table_of sp (pde_index va) c = table_of sp (pde_index va) s" "get_pte ?p c = pte_of sp va s"
      using fr(3) fr(4) [of va] thc by (simp_all add: pte_of_def [of sp va c])
    have s': "done'" "s' = clock_add_page f (Some ?p) va sp (swap_free_slot slot (set_pte ?p (?v f) c))"
      using m a nsl False rd walk_found [OF fr(1) thc, of False] by (simp_all add: swap_in_page_def Let_def ec aligned_mask [OF g(2)])
    have v: "phys s' = phys (set_pte ?p (?v f) c)" "pd_phys (spaces s' sp) = pd_phys (spaces c sp)"
      "g_frame_alloc s' = g_frame_alloc c" "g_kernel_phys_alias_bytes s' = g_kernel_phys_alias_bytes c"
      by (simp_all add: s'(2) set_pte_def)
    note en = enter_frame [OF ok th g(2,3) g(4-6) [folded z(1)] out z(2,3) v]
    have "page_bytes f s' = bs"
      unfolding page_bytes_def using en(3) fill in_page_offset [OF g(2)] sw(5) by (intro nth_equalityI) (simp_all add: unat_of_nat32)
    then show ?thesis using en(1,2,4) g(2,3) s'(1) a False unfolding fresh_page_def by auto
  qed
qed

section \<open>Page faults\<close>

lemma fault_state:
  fixes s :: "'a vm_scheme"
  assumes s1_def: "s1 = set_space sp (\<lambda>a. a\<lparr>fault_count := fault_count a + 1\<rparr>) s"
  shows "phys s1 = phys s" "pd_phys (spaces s1 sp) = pd_phys (spaces s sp)" "g_frame_alloc s1 = g_frame_alloc s"
    "g_kernel_phys_alias_bytes s1 = g_kernel_phys_alias_bytes s" "vmm_current_as s1 = vmm_current_as s"
    "swap_ready L s1 = swap_ready L s" "page_content s1 slot = page_content s slot" "g_swap_partition s1 = g_swap_partition s"
  by (simp_all add: s1_def set_space_def)

text \<open>The fault handler on an entry that is there: what it does next.\<close>

lemma fault_dispatch:
  assumes ok: "tables_ok (vmm_current_as s) s" and th: "table_there (vmm_current_as s) (pde_index va) s" and err: "bit err 2"
  defines "sp \<equiv> vmm_current_as s" and "s1 \<equiv> set_space (vmm_current_as s) (\<lambda>a. a\<lparr>fault_count := fault_count a + 1\<rparr>) s"
  defines "p \<equiv> table_of sp (pde_index va) s + 4 * pte_index va" and "e \<equiv> pte_of sp va s"
  defines "ended \<equiv> \<lambda>(ok, s). (if ok then Resume else Halt, s)"
  shows "\<not> bit err 0 \<Longrightarrow> bit e 11 \<Longrightarrow> vmm_page_fault_handler err va s = ended (fill_demand p s1)"
    and "\<not> bit err 0 \<Longrightarrow> \<not> bit e 11 \<Longrightarrow> bit e 10 \<Longrightarrow> vmm_page_fault_handler err va s = ended (swap_in_page sp va (drop_bit 12 e AND 0xFFFFF) s1)"
    and "bit err 0 \<Longrightarrow> bit err 1 \<Longrightarrow> bit e 9 \<Longrightarrow> vmm_page_fault_handler err va s = ended (vmm_handle_cow_fault sp va p s1)"
proof -
  note c = fault_state(1-4) [OF s1_def [folded sp_def, THEN meta_eq_to_obj_eq]]
  note t = same_tables [OF c(1,2)] same_tables(5) [OF c]
  have w: "vmm_walk_page_tables sp va False s1 = (Some p, s1)"
    using walk_found [of sp s1 va False] ok th by (simp add: t p_def flip: sp_def)
  have e: "get_pte p s1 = e" using th by (simp add: t p_def e_def pte_of_def sp_def)
  show "\<not> bit err 0 \<Longrightarrow> bit e 11 \<Longrightarrow> vmm_page_fault_handler err va s = ended (fill_demand p s1)"
    "\<not> bit err 0 \<Longrightarrow> \<not> bit e 11 \<Longrightarrow> bit e 10 \<Longrightarrow> vmm_page_fault_handler err va s = ended (swap_in_page sp va (drop_bit 12 e AND 0xFFFFF) s1)"
    "bit err 0 \<Longrightarrow> bit err 1 \<Longrightarrow> bit e 9 \<Longrightarrow> vmm_page_fault_handler err va s = ended (vmm_handle_cow_fault sp va p s1)"
    using err unfolding vmm_page_fault_handler_def Let_def sp_def [symmetric] s1_def [folded sp_def, symmetric] w
    by (simp_all add: e pte_bits ended_def)
qed

section \<open>What the program sees\<close>




section \<open>Faults on the example\<close>

lemma demo_alloc:
  assumes "g_frame_alloc s = frame_alloc_init 0x300000 0x2000000"
  shows "fst (vm_frame_alloc s) \<noteq> 0" "free_frames (g_frame_alloc s) \<noteq> 0"
proof -
  let ?fa = "frame_alloc_init 0x300000 0x2000000"
  have "\<not> (\<forall>n \<in> {770..<8192::nat}. 256 \<le> n div 32)" by (auto intro: bexI [of _ 1024])
  then show "fst (vm_frame_alloc s) \<noteq> 0"
    using frame_alloc_failure(2) [OF demo_frames(1,4), of "\<lambda>fa. (0, fa)"] boot_frames(2,3) demo_frames(4) assms
    by (auto simp: vm_frame_alloc_def split: prod.split)
  show "free_frames (g_frame_alloc s) \<noteq> 0" by (simp add: assms demo_frames)
qed

lemma demo_entry:
  fixes v :: u32
  defines "s \<equiv> set_pte 0x201000 v demo_vm"
  shows "tables_ok 0xC0203000 s" "pte_of 0xC0203000 0x40000000 s = v" "vmm_current_as s = 0xC0203000" "table_of 0xC0203000 256 s = 0x201000"
    "g_frame_alloc s = frame_alloc_init 0x300000 0x2000000"
proof -
  have i: "pde_index 0x40000000 = 256" "pte_index 0x40000000 = 0" by (simp_all add: pde_index_def pte_index_def)
  have th: "table_there 0xC0203000 (pde_index 0x40000000) demo_vm" by (simp add: demo_there i)
  have s: "s = set_pte (table_of 0xC0203000 (pde_index 0x40000000) demo_vm + 4 * pte_index 0x40000000) v demo_vm"
    by (simp add: s_def i demo_table_of)
  show "tables_ok 0xC0203000 s" "pte_of 0xC0203000 0x40000000 s = v" "table_of 0xC0203000 256 s = 0x201000"
    using set_entry(1) [OF demo_tables_ok th s] set_entry(4) [OF demo_tables_ok th s, of "0x40000000"]
      set_entry(3) [OF demo_tables_ok th s, of 256] by (simp_all add: demo_table_of)
  show "vmm_current_as s = 0xC0203000" "g_frame_alloc s = frame_alloc_init 0x300000 0x2000000" by (simp_all add: s_def set_pte_def)
qed



lemma demo_swap_ready: "swap_ready UNIV demo_vm"
  by (simp add: swap_ready_def healthy_def demo_vm_def parts.defs vm.defs demo_parts_def Let_def kctx_boot_def)


end
