(* ===== verification/VmSwap.thy ===== *)
theory VmSwap
  imports VmSpec
begin

text \<open>
  The slots of the swap space: which are in use, that an allocation gives a free one as long as there
  is one, and that no slot is handed out twice. The contract is the one of the kernel's pages, with
  slot number \<open>n\<close> standing for \<open>n + 1\<close> so that \<open>SWAP_SLOT_NONE\<close> becomes 0.
\<close>

section \<open>Slots in use\<close>

definition slot_used :: "'a vm_scheme \<Rightarrow> nat \<Rightarrow> bool" where
  "slot_used s n \<longleftrightarrow> bit (g_swap_bitmap s ! (n div 32)) (n mod 32)"

definition free_slots :: "'a vm_scheme \<Rightarrow> nat set" where
  "free_slots s = {n. n < 4096 \<and> \<not> slot_used s n}"

definition slots_ok :: "'a vm_scheme \<Rightarrow> bool" where
  "slots_ok s \<longleftrightarrow> length (g_swap_bitmap s) = 128 \<and> unat (g_swap_free_slots s) = card (free_slots s)"

lemma finite_free_slots [simp]: "finite (free_slots s)"
  by (simp add: free_slots_def)

lemma slot_of_bit: "i < 128 \<Longrightarrow> j < 32 \<Longrightarrow> unat (of_nat i * 32 + of_nat j :: u32) = i * 32 + j"
proof -
  assume "i < 128" "j < 32"
  then have "unat (of_nat (i * 32 + j) :: u32) = i * 32 + j" by (intro unat_of_nat32) simp
  then show ?thesis by simp
qed

lemma slot_updated:
  assumes "i < length (g_swap_bitmap s)" "j < 32" "s' = s\<lparr>g_swap_bitmap := (g_swap_bitmap s)[i := w], g_swap_free_slots := c\<rparr>"
    and "\<And>k. k < 32 \<Longrightarrow> bit w k = (if k = j then b else bit (g_swap_bitmap s ! i) k)"
  shows "slot_used s' n = (if n = i * 32 + j then b else slot_used s n)"
proof -
  have "n = i * 32 + j \<longleftrightarrow> n div 32 = i \<and> n mod 32 = j"
  proof
    show "n = i * 32 + j \<Longrightarrow> n div 32 = i \<and> n mod 32 = j" using assms(2) by simp
    show "n div 32 = i \<and> n mod 32 = j \<Longrightarrow> n = i * 32 + j" using div_mult_mod_eq [of n 32] by simp
  qed
  then show ?thesis using assms(1,4) by (cases "n div 32 = i") (auto simp: slot_used_def assms(3))
qed

lemma all_ones: "(w :: u32) = 0xFFFFFFFF \<longleftrightarrow> (\<forall>j < 32. bit w j)"
proof -
  have "(0xFFFFFFFF :: u32) = mask 32" by (simp add: mask_eq_exp_minus_1)
  then show ?thesis by (auto simp: bit_mask_iff bit_eq_iff)
qed

lemma slot_taken:
  assumes ok: "slots_ok s" and n: "i < 128" "j < 32" "\<not> bit (g_swap_bitmap s ! i) j"
    and s': "s' = s\<lparr>g_swap_bitmap := (g_swap_bitmap s)[i := g_swap_bitmap s ! i OR push_bit j 1], g_swap_free_slots := g_swap_free_slots s - 1\<rparr>"
  shows "i * 32 + j \<in> free_slots s" "slots_ok s'" "free_slots s' = free_slots s - {i * 32 + j}"
proof -
  have len: "length (g_swap_bitmap s) = 128" using ok by (simp add: slots_ok_def)
  have used: "slot_used s' n = (if n = i * 32 + j then True else slot_used s n)" for n
    by (rule slot_updated [OF _ n(2) s']) (use n len in \<open>auto simp: bit_simps\<close>)
  show m: "i * 32 + j \<in> free_slots s" using n by (simp add: free_slots_def slot_used_def)
  show f: "free_slots s' = free_slots s - {i * 32 + j}" by (auto simp: free_slots_def used)
  have card: "unat (g_swap_free_slots s) = card (free_slots s)" using ok by (simp add: slots_ok_def)
  moreover have "card (free_slots s) > 0" using m by (auto simp: card_gt_0_iff)
  ultimately have "unat (g_swap_free_slots s - 1) = card (free_slots s) - 1" by (subst unat_minus_one) auto
  then show "slots_ok s'" using len m by (simp add: slots_ok_def f) (simp add: s')
qed

lemma swap_alloc_slot_cases:
  assumes ok: "slots_ok s" and r: "swap_alloc_slot s = (slot, s')"
  shows "(slot = 0xFFFFFFFF \<and> s' = s \<and> free_slots s = {})
     \<or> (unat slot \<in> free_slots s \<and> slots_ok s' \<and> free_slots s' = free_slots s - {unat slot})"
proof (cases "free_slots s = {}")
  case True
  then have "g_swap_free_slots s = 0" using ok by (simp add: slots_ok_def unat_eq_0)
  then show ?thesis using r True by (simp add: swap_alloc_slot_def)
next
  case False
  then obtain n where n: "n < 4096" "\<not> slot_used s n" by (auto simp: free_slots_def)
  have nz: "g_swap_free_slots s \<noteq> 0" using ok False by (auto simp: slots_ok_def card_eq_0_iff)
  have "n mod 32 < 32" by simp
  then have "n div 32 < 128" "g_swap_bitmap s ! (n div 32) \<noteq> 0xFFFFFFFF" using n unfolding all_ones slot_used_def by (simp, blast)
  then obtain i where i: "first_idx (\<lambda>i. g_swap_bitmap s ! i \<noteq> 0xFFFFFFFF) 128 = Some i"
    using first_idx_None [of "\<lambda>i. g_swap_bitmap s ! i \<noteq> 0xFFFFFFFF" 128] by (metis not_Some_eq)
  then have i': "i < 128" "g_swap_bitmap s ! i \<noteq> 0xFFFFFFFF" by (simp_all add: first_idx_Some)
  then obtain k where "k < 32" "\<not> bit (g_swap_bitmap s ! i) k" unfolding all_ones by blast
  then obtain j where j: "first_idx (\<lambda>j. g_swap_bitmap s ! i AND push_bit j 1 = 0) 32 = Some j"
    using first_idx_None [of "\<lambda>j. g_swap_bitmap s ! i AND push_bit j 1 = 0" 32] bit_single by (metis not_Some_eq)
  then have j': "j < 32" "\<not> bit (g_swap_bitmap s ! i) j" using bit_single by (auto simp: first_idx_Some)
  have "slot = of_nat i * 32 + of_nat j"
    and s': "s' = s\<lparr>g_swap_bitmap := (g_swap_bitmap s)[i := g_swap_bitmap s ! i OR push_bit j 1], g_swap_free_slots := g_swap_free_slots s - 1\<rparr>"
    using r by (simp_all only: swap_alloc_slot_def nz if_False i j option.case prod.inject)
  then show ?thesis using slot_taken [OF ok i'(1) j' s'] slot_of_bit [OF i'(1) j'(1)] by simp
qed

lemma swap_free_slot_used:
  assumes ok: "slots_ok s" and n: "slot < 4096" "unat slot \<notin> free_slots s"
  shows "slots_ok (swap_free_slot slot s)" "free_slots (swap_free_slot slot s) = insert (unat slot) (free_slots s)"
proof -
  let ?i = "unat slot div 32" and ?j = "unat slot mod 32"
  define s1 where "s1 = s\<lparr>g_swap_bitmap := (g_swap_bitmap s)[?i := g_swap_bitmap s ! ?i AND NOT (push_bit ?j 1)], g_swap_free_slots := g_swap_free_slots s + 1\<rparr>"
  have s': "swap_free_slot slot s = s1" using n(1) by (simp add: s1_def swap_free_slot_def Let_def not_le unat_div unat_mod)
  have lt: "unat slot < 4096" using n(1) by (simp add: word_less_nat_alt)
  have len: "length (g_swap_bitmap s) = 128" using ok by (simp add: slots_ok_def)
  have "slot_used s1 k = (if k = ?i * 32 + ?j then False else slot_used s k)" for k
    by (rule slot_updated [OF _ _ s1_def]) (use lt len in \<open>auto simp: bit_simps\<close>)
  then have used: "slot_used s1 k = (k \<noteq> unat slot \<and> slot_used s k)" for k by simp
  show f: "free_slots (swap_free_slot slot s) = insert (unat slot) (free_slots s)"
    unfolding s' using lt by (auto simp: free_slots_def used)
  have "card (free_slots s) \<le> card {..<4096 :: nat}" by (rule card_mono) (auto simp: free_slots_def)
  then have "unat (g_swap_free_slots s + 1) = card (free_slots s) + 1" using ok by (subst unat_add32) (auto simp: slots_ok_def)
  then show "slots_ok (swap_free_slot slot s)" using len n(2) by (simp add: slots_ok_def f) (simp add: s' s1_def)
qed

section \<open>The contract\<close>

definition get_slot :: "'a vm_scheme \<Rightarrow> u32 \<times> 'a vm_scheme" where
  "get_slot s = (case swap_alloc_slot s of (slot, s) \<Rightarrow> (slot + 1, s))"

definition put_slot :: "u32 \<Rightarrow> 'a vm_scheme \<Rightarrow> 'a vm_scheme" where
  "put_slot p s = swap_free_slot (p - 1) s"

definition slot_ids :: "nat set \<Rightarrow> u32 set" where
  "slot_ids N = (\<lambda>n. of_nat n + 1) ` N"

lemma slot_ids_iff: "N \<subseteq> {..<4096} \<Longrightarrow> p \<in> slot_ids N \<longleftrightarrow> unat (p - 1) \<in> N"
proof
  show "N \<subseteq> {..<4096} \<Longrightarrow> p \<in> slot_ids N \<Longrightarrow> unat (p - 1) \<in> N" by (auto simp: slot_ids_def unat_of_nat32)
  show "unat (p - 1) \<in> N \<Longrightarrow> p \<in> slot_ids N" unfolding slot_ids_def by (rule image_eqI [of _ _ "unat (p - 1)"]) simp_all
qed

lemma unat_pred_eq: "unat (q - 1 :: u32) = unat (p - 1) \<longleftrightarrow> q = p"
  using unsigned_word_eqI [of "q - 1" "p - 1"] by auto

lemma free_slots_below: "free_slots s \<subseteq> {..<4096}"
  by (auto simp: free_slots_def)

interpretation swap_slots: page_source get_slot put_slot slots_ok "\<lambda>s. slot_ids (free_slots s)" "\<lambda>s. slot_ids {..<4096}"
proof unfold_locales
  fix s :: "'a vm_scheme" and p s'
  assume ok: "slots_ok s" and r: "get_slot s = (p, s')"
  have a: "swap_alloc_slot s = (p - 1, s')" using r by (auto simp: get_slot_def split: prod.splits)
  consider "p = 0" "s' = s" | "unat (p - 1) \<in> free_slots s" "slots_ok s'" "free_slots s' = free_slots s - {unat (p - 1)}"
    using swap_alloc_slot_cases [OF ok a] by (auto simp: diff_eq_eq)
  then show "slots_ok s' \<and> slot_ids {..<4096} = slot_ids {..<4096} \<and> (if p = 0 then slot_ids (free_slots s') = slot_ids (free_slots s)
      else p \<in> slot_ids {..<4096} \<and> p \<in> slot_ids (free_slots s) \<and> slot_ids (free_slots s') = slot_ids (free_slots s) - {p})"
  proof cases
    case 2
    have "unat (p - 1) < 4096" using 2(1) free_slots_below by blast
    moreover have "unat (- 1 :: u32) = 4294967295" by (simp add: unsigned_minus_1_eq_mask mask_eq_exp_minus_1)
    ultimately have "p \<noteq> 0" by (intro notI) simp
    moreover have "q \<in> slot_ids (free_slots s') \<longleftrightarrow> q \<in> slot_ids (free_slots s) \<and> q \<noteq> p" for q
      unfolding slot_ids_iff [OF free_slots_below] unfolding 2(3) by (auto simp: unat_pred_eq)
    ultimately show ?thesis using 2 free_slots_below by (auto simp: slot_ids_iff)
  qed (use ok in simp)
next
  fix s :: "'a vm_scheme" and p
  assume ok: "slots_ok s" and p: "p \<in> slot_ids {..<4096}" "p \<notin> slot_ids (free_slots s)"
  have "p - 1 < 4096" "unat (p - 1) \<notin> free_slots s" using p by (auto simp: slot_ids_iff free_slots_below word_less_nat_alt)
  note f = swap_free_slot_used [OF ok this]
  have "q \<in> slot_ids (free_slots (swap_free_slot (p - 1) s)) \<longleftrightarrow> q = p \<or> q \<in> slot_ids (free_slots s)" for q
    unfolding slot_ids_iff [OF free_slots_below] unfolding f(2) by (auto simp: unat_pred_eq)
  then show "slots_ok (put_slot p s) \<and> slot_ids {..<4096} = slot_ids {..<4096}
      \<and> slot_ids (free_slots (put_slot p s)) = insert p (slot_ids (free_slots s))"
    using f(1) by (auto simp: put_slot_def)
qed

text \<open>C21. Swap slots are handed out exclusively. Any sequence of allocations and releases that frees only
  slots it holds keeps the slot map well formed, with a free count that is the number of clear bits;
  the slots held are distinct, none of them is free, and the held and the free slots are together the
  slots that were free at the start. An allocation fails only when no slot is free.\<close>

theorem swap_slots_exclusive:
  assumes "slots_ok s" and "run_pages get_slot put_slot rs ([], s) = (held, s')"
  shows "slots_ok s' \<and> distinct held \<and> set held \<inter> slot_ids (free_slots s') = {} \<and> set held \<union> slot_ids (free_slots s') = slot_ids (free_slots s)
     \<and> (fst (swap_alloc_slot s') = 0xFFFFFFFF \<longleftrightarrow> free_slots s' = {})"
proof -
  have run: "slots_ok s' \<and> distinct held \<and> set held \<inter> slot_ids (free_slots s') = {} \<and> set held \<union> slot_ids (free_slots s') = slot_ids (free_slots s)"
    by (rule swap_slots.run_distinct [OF assms])
  have "fst (swap_alloc_slot s') = 0xFFFFFFFF \<longleftrightarrow> free_slots s' = {}"
    using swap_alloc_slot_cases [of s' "fst (swap_alloc_slot s')" "snd (swap_alloc_slot s')"] run by (auto simp: free_slots_def)
  then show ?thesis using run by blast
qed

theorem swap_slots_exclusive_witness:
  "\<exists>held s'. run_pages get_slot put_slot [Get_page, Get_page, Put_page 0, Get_page] ([], demo_vm) = (held, s') \<and> distinct held
     \<and> slots_ok s' \<and> set held \<union> slot_ids (free_slots s') = slot_ids {..<4096}"
proof -
  have "bit (replicate 128 (0 :: u32) ! (n div 32)) (n mod 32) = False" if "n < 4096" for n using that by simp
  then have f: "free_slots demo_vm = {..<4096}" by (auto simp: free_slots_def slot_used_def)
  then have "slots_ok demo_vm" by (simp add: slots_ok_def)
  from swap_slots_exclusive [OF this surjective_pairing] show ?thesis using surjective_pairing f by metis
qed

end
