(* ===== verification/UserAccess.thy ===== *)
theory UserAccess
  imports Vm
begin

text \<open>
  Access of the kernel to user memory, \<open>src/mm/user_access.c\<close>: the check of a range, \<open>copyin\<close> and
  \<open>copyout\<close>. The copies go through the processor's translation of the current address space (\<open>mmu\<close>);
  a byte that is not mapped is a page fault of the kernel, which panics: \<open>None\<close>. The null checks of the
  kernel-side buffers are left out.
\<close>

section \<open>The check\<close>

definition user_page_ok :: "u32 \<Rightarrow> bool \<Rightarrow> 'a vm_scheme \<Rightarrow> bool" where
  "user_page_ok va write s =
     (if va \<ge> KERNEL_BASE then False
      else if va < USER_CODE_BASE \<or> va \<ge> USER_STACK_TOP then False
      else
        let sp = (if vmm_current_as s \<noteq> 0 then vmm_current_as s else vmm_kernel_as s) in
        case fst (vmm_walk_page_tables sp va False s) of None \<Rightarrow> False
        | Some p \<Rightarrow>
            let flags = get_pte p s in
            if flags AND PTE_PRESENT = 0 then False
            else if flags AND PTE_USER = 0 then False
            else if write \<and> flags AND PTE_RW = 0 then False
            else True)"

definition user_access_ok :: "u32 \<Rightarrow> u32 \<Rightarrow> bool \<Rightarrow> 'a vm_scheme \<Rightarrow> bool" where
  "user_access_ok user_ptr len write s =
     (if len = 0 then True
      else if user_ptr = 0 then False
      else
        let end' = user_ptr + len in
        if end' < user_ptr then False
        else if user_ptr < USER_CODE_BASE \<or> end' > USER_STACK_TOP then False
        else
          let page = user_ptr AND PAGE_MASK; end_page = (end' - 1) AND PAGE_MASK in
          list_all (\<lambda>k. user_page_ok (page + of_nat k * PAGE_SIZE) write s) [0..<unat ((end_page - page) div PAGE_SIZE) + 1])"

section \<open>The copies\<close>

text \<open>The physical address behind an address, as the processor finds it in kernel mode.\<close>

definition mmu :: "'a vm_scheme \<Rightarrow> u32 \<Rightarrow> u32 option" where
  "mmu s va =
     (let pde = get_pte (pde_addr (vmm_current_as s) (pde_index va) s) s in
      if pde AND PTE_PRESENT = 0 then None
      else
        let e = get_pte ((pde AND PTE_FRAME_MASK) + 4 * pte_index va) s in
        if e AND PTE_PRESENT = 0 then None else Some ((e AND PTE_FRAME_MASK) + (va AND 0xFFF)))"

fun read_user :: "u32 \<Rightarrow> nat \<Rightarrow> 'a vm_scheme \<Rightarrow> bytes option" where
  "read_user va 0 s = Some []"
| "read_user va (Suc n) s =
     (case mmu s va of None \<Rightarrow> None
      | Some a \<Rightarrow> map_option ((#) (phys s a)) (read_user (va + 1) n s))"

fun write_user :: "u32 \<Rightarrow> bytes \<Rightarrow> 'a vm_scheme \<Rightarrow> 'a vm_scheme option" where
  "write_user va [] s = Some s"
| "write_user va (b # bs) s =
     (case mmu s va of None \<Rightarrow> None
      | Some a \<Rightarrow> write_user (va + 1) bs (s\<lparr>phys := (phys s)(a := b)\<rparr>))"

text \<open>The inner result is the bytes, or \<open>None\<close> for -1.\<close>

definition copyin :: "u32 \<Rightarrow> u32 \<Rightarrow> 'a vm_scheme \<Rightarrow> bytes option option" where
  "copyin user_src len s =
     (if len = 0 then Some (Some [])
      else if \<not> user_access_ok user_src len False s then Some None
      else map_option Some (read_user user_src (unat len) s))"

definition copyout :: "u32 \<Rightarrow> bytes \<Rightarrow> 'a vm_scheme \<Rightarrow> (bool \<times> 'a vm_scheme) option" where
  "copyout user_dst src s =
     (let len = of_nat (length src) in
      if len = 0 then Some (True, s)
      else
        let s = snd (vmm_fault_in_user_write user_dst len s) in
        if \<not> user_access_ok user_dst len True s then Some (False, s)
        else map_option (Pair True) (write_user user_dst src s))"

end
