(* ===== verification/UserAccessSpec.thy ===== *)
theory UserAccessSpec
  imports UserAccess VmSpec
begin

text \<open>
  What access to user memory promises: the check accepts exactly the ranges that user mode could
  access itself, a copy that passed the check never faults in the kernel, and what is copied out is
  what is copied in.
\<close>

section \<open>The check\<close>

abbreviation (input) current_space :: "'a vm_scheme \<Rightarrow> u32" where
  "current_space s \<equiv> (if vmm_current_as s \<noteq> 0 then vmm_current_as s else vmm_kernel_as s)"

lemma walk_same_page:
  "page_no va = page_no va' \<Longrightarrow> vmm_walk_page_tables sp va create s = vmm_walk_page_tables sp va' create s"
  using same_page_indices [of va va'] by (simp add: vmm_walk_page_tables_def)

text \<open>A user page: present, accessible in ring 3, and writable when \<open>write\<close> is set.\<close>

definition user_mapped :: "bool \<Rightarrow> u32 \<Rightarrow> 'a vm_scheme \<Rightarrow> bool" where
  "user_mapped write va s = (case fst (vmm_walk_page_tables (current_space s) va False s) of None \<Rightarrow> False
     | Some p \<Rightarrow> bit (get_pte p s) 0 \<and> bit (get_pte p s) 2 \<and> (write \<longrightarrow> bit (get_pte p s) 1))"

lemma user_page_ok_iff:
  "user_page_ok va write s \<longleftrightarrow> 0x400000 \<le> unat va \<and> unat va < 0xC0000000 \<and> user_mapped write va s"
  by (auto simp: user_page_ok_def user_mapped_def Let_def pte_bits word_le_nat_alt word_less_nat_alt not_le split: option.split)

lemma user_mapped_same_page: "page_no va = page_no va' \<Longrightarrow> user_mapped write va s = user_mapped write va' s"
  unfolding user_mapped_def by (simp add: walk_same_page [of va va'])

definition user_range :: "u32 \<Rightarrow> u32 \<Rightarrow> bool" where
  "user_range p len \<longleftrightarrow> 0x400000 \<le> unat p \<and> unat p + unat len \<le> 0xC0000000"

lemma access_ok_out: "len \<noteq> 0 \<Longrightarrow> \<not> user_range p len \<Longrightarrow> \<not> user_access_ok p len write s"
proof -
  assume nz: "len \<noteq> 0" and out: "\<not> user_range p len"
  have "p < 0x400000 \<or> 0xC0000000 < p + len \<or> p + len < p"
  proof (cases "4294967296 \<le> unat p + unat len")
    case True
    have "unat p + unat len - 4294967296 < 4294967296" using unat_less32 [of p] unat_less32 [of len] by linarith
    then have "(unat p + unat len) mod 4294967296 = unat p + unat len - 4294967296" by (simp add: le_mod_geq [OF True])
    then have "unat (p + len) = unat p + unat len - 4294967296" by (simp add: unat_word_ariths)
    then show ?thesis using True unat_less32 [of len] unfolding word_less_nat_alt by linarith
  next
    case False
    then have "unat (p + len) = unat p + unat len" by (intro unat_add32) simp
    then show ?thesis using out by (simp add: word_less_nat_alt user_range_def not_le)
  qed
  then show ?thesis using nz unfolding user_access_ok_def Let_def by (simp only: if_False if_True) auto
qed

lemma user_access_ok_iff:
  "user_access_ok p len write s \<longleftrightarrow> len = 0 \<or> user_range p len \<and> (\<forall>k < unat len. user_mapped write (p + of_nat k) s)"
proof (cases "len \<noteq> 0 \<and> user_range p len")
  case False
  then show ?thesis by (cases "len = 0") (simp add: user_access_ok_def, blast dest: access_ok_out)
next
  case True
  then have n: "0 < unat len" "0x400000 \<le> unat p" "unat p + unat len \<le> 0xC0000000" by (auto simp: unat_gt_0 user_range_def)
  have e: "unat (p + len) = unat p + unat len" using n by (intro unat_add32) simp
  have e1: "unat (p + len - 1) = unat p + unat len - 1" using e n by (subst unat_minus_one) auto
  let ?page = "p AND 0xFFFFF000" and ?fin = "(p + len - 1) AND 0xFFFFF000"
  define d where "d = (unat p + unat len - 1) div 4096 - unat p div 4096"
  have d: "unat p div 4096 + d = (unat p + unat len - 1) div 4096" using n unfolding d_def by (simp add: div_le_mono)
  have "unat ?fin = (unat p div 4096 + d) * 4096" "unat ?page = unat p div 4096 * 4096"
    unfolding unat_page_floor e1 d by (rule refl)+
  then have "unat (?fin - ?page) = d * 4096" by (subst unat_sub) (simp_all add: word_le_nat_alt add_mult_distrib)
  then have cnt: "unat ((?fin - ?page) div 4096) = d" by (simp add: unat_div)
  have k: "(unat p div 4096 + k) * 4096 < unat p + unat len" if "k \<le> d" for k
  proof -
    have "(unat p div 4096 + k) * 4096 \<le> unat p + unat len - 1" using that d n by (simp add: less_eq_div_iff_mult_less_eq [symmetric])
    then show ?thesis using n by linarith
  qed
  have rng: "0x400000 \<le> unat (?page + of_nat k * 4096) \<and> unat (?page + of_nat k * 4096) < 0xC0000000" if "k \<le> d" for k
  proof -
    have "1024 \<le> unat p div 4096" using n by (simp add: less_eq_div_iff_mult_less_eq)
    then show ?thesis using n k [OF that] unfolding range_page(1) [OF n(3) k [OF that] n(1)] by auto
  qed
  have "\<not> p + len < p" "p \<noteq> 0" "\<not> p < 0x400000" "\<not> 0xC0000000 < p + len" using n e by (auto simp: word_less_nat_alt)
  then have "user_access_ok p len write s \<longleftrightarrow> (\<forall>k \<le> d. user_page_ok (?page + of_nat k * 4096) write s)"
    using True unfolding user_access_ok_def Let_def cnt
    by (simp add: list_all_iff atLeast0LessThan lessThan_Suc_atMost Ball_def del: upt_Suc)
  also have "\<dots> \<longleftrightarrow> (\<forall>k \<le> d. user_mapped write (?page + of_nat k * 4096) s)" using rng by (simp add: user_page_ok_iff)
  also have "\<dots> \<longleftrightarrow> (\<forall>j < unat len. user_mapped write (p + of_nat j) s)"
  proof (intro iffI allI impI)
    fix j assume h: "\<forall>k \<le> d. user_mapped write (?page + of_nat k * 4096) s" and j: "j < unat len"
    have "(unat p + j) div 4096 - unat p div 4096 \<le> d" using j unfolding d_def by (auto intro!: diff_le_mono div_le_mono)
    then show "user_mapped write (p + of_nat j) s" using h user_mapped_same_page [OF range_page_of [OF n(3) j]] by blast
  next
    fix i assume "\<forall>j < unat len. user_mapped write (p + of_nat j) s" "i \<le> d"
    then show "user_mapped write (?page + of_nat i * 4096) s" using range_page(2) [OF n(3) k _] n(1) user_mapped_same_page by blast
  qed
  finally show ?thesis using True by blast
qed

section \<open>The copies\<close>

lemma walk_current:
  assumes "vmm_current_as s \<noteq> 0"
  shows "fst (vmm_walk_page_tables (vmm_current_as s) va False s)
    = (let pde = get_pte (pde_addr (vmm_current_as s) (pde_index va) s) s in
       if pde AND PTE_PRESENT = 0 then None else Some ((pde AND PTE_FRAME_MASK) + 4 * pte_index va))"
  using assms by (auto simp: vmm_walk_page_tables_def pt_address_def Let_def)

lemma mmu_user_mapped: "vmm_current_as s \<noteq> 0 \<Longrightarrow> user_mapped write va s \<Longrightarrow> mmu s va \<noteq> None"
  using walk_current [of s va] by (auto simp: user_mapped_def mmu_def Let_def pte_bits split: if_splits)

lemma read_user_map:
  "(\<And>k. k < n \<Longrightarrow> mmu s (va + of_nat k) \<noteq> None) \<Longrightarrow>
    read_user va n s = Some (map (\<lambda>k. phys s (the (mmu s (va + of_nat k)))) [0..<n])"
proof (induction n arbitrary: va)
  case (Suc n)
  have "mmu s (va + 1 + of_nat k) \<noteq> None" if "k < n" for k using Suc.prems [of "Suc k"] that by (simp add: add.assoc)
  note Suc.IH [OF this]
  moreover obtain a where "mmu s va = Some a" using Suc.prems [of 0] by auto
  ultimately show ?case by (simp add: map_upt_Suc add.assoc del: upt_Suc)
qed simp


lemma copyin_eq:
  assumes "vmm_current_as s \<noteq> 0"
  shows "copyin p len s = Some (if user_access_ok p len False s
     then Some (map (\<lambda>k. phys s (the (mmu s (p + of_nat k)))) [0..<unat len]) else None)"
proof (cases "len \<noteq> 0 \<and> user_access_ok p len False s")
  case True
  then have "mmu s (p + of_nat k) \<noteq> None" if "k < unat len" for k
    using that mmu_user_mapped [OF assms] by (auto simp: user_access_ok_iff)
  note read_user_map [OF this]
  then show ?thesis using True by (simp add: copyin_def)
qed (cases "len = 0"; simp add: copyin_def user_access_ok_def [of p 0])

text \<open>The bytes of the page tables that the current address space uses.\<close>

definition table_byte :: "'a vm_scheme \<Rightarrow> u32 \<Rightarrow> bool" where
  "table_byte s x \<longleftrightarrow> (\<exists>va. let pd = pde_addr (vmm_current_as s) (pde_index va) s in
     x - pd < 4 \<or> bit (get_pte pd s) 0 \<and> x - ((get_pte pd s AND 0xFFFFF000) + 4 * pte_index va) < 4)"

lemma table_cong:
  assumes "\<And>x. table_byte s x \<Longrightarrow> phys s' x = phys s x" "spaces s' = spaces s" "vmm_current_as s' = vmm_current_as s"
  shows "mmu s' = mmu s" "table_byte s' = table_byte s" "vmm_current_as s \<noteq> 0 \<Longrightarrow> user_mapped w va s' = user_mapped w va s"
proof -
  let ?pd = "\<lambda>va. pde_addr (vmm_current_as s) (pde_index va) s"
  have pd: "pde_addr (vmm_current_as s) (pde_index va) s' = ?pd va" for va by (simp add: pde_addr_def assms)
  have e1: "get_pte (?pd va) s' = get_pte (?pd va) s" for va
    unfolding get_pte_def by (rule load32_cong, rule assms(1)) (auto simp: table_byte_def Let_def)
  have e2: "bit (get_pte (?pd va) s) 0 \<Longrightarrow> get_pte ((get_pte (?pd va) s AND 0xFFFFF000) + 4 * pte_index va) s'
      = get_pte ((get_pte (?pd va) s AND 0xFFFFF000) + 4 * pte_index va) s" for va
    unfolding get_pte_def by (rule load32_cong, rule assms(1)) (auto simp: table_byte_def Let_def get_pte_def)
  show "mmu s' = mmu s" by (rule ext) (auto simp: mmu_def Let_def assms(3) pd e1 e2 pte_bits)
  show "table_byte s' = table_byte s" by (rule ext) (simp add: table_byte_def Let_def assms(3) pd e1)
  show "user_mapped w va s' = user_mapped w va s" if "vmm_current_as s \<noteq> 0"
  proof -
    have w: "fst (vmm_walk_page_tables (vmm_current_as s) va False s') = fst (vmm_walk_page_tables (vmm_current_as s) va False s)"
      using walk_current [of s' va] walk_current [of s va] that by (simp add: assms(3) pd e1 Let_def)
    show ?thesis using that walk_current [of s va] e2 [of va] unfolding user_mapped_def assms(3)
      by (auto simp: Let_def pte_bits w split: if_splits)
  qed
qed

lemma write_user_spec:
  assumes "\<And>k. k < length bs \<Longrightarrow> mmu s (va + of_nat k) = Some (f k)" "\<And>k. k < length bs \<Longrightarrow> \<not> table_byte s (f k)" "inj_on f {..<length bs}"
  shows "\<exists>m. write_user va bs s = Some (s\<lparr>phys := m\<rparr>) \<and> (\<forall>k < length bs. m (f k) = bs ! k)
     \<and> (\<forall>x. x \<notin> f ` {..<length bs} \<longrightarrow> m x = phys s x)"
  using assms
proof (induction bs arbitrary: va s f)
  case Nil
  show ?case by (intro exI [of _ "phys s"]) simp
next
  case (Cons b bs)
  let ?s = "s\<lparr>phys := (phys s)(f 0 := b)\<rparr>"
  have f0: "mmu s va = Some (f 0)" "\<not> table_byte s (f 0)" using Cons.prems(1,2) [of 0] by simp_all
  have eq: "mmu ?s = mmu s" "table_byte ?s = table_byte s" using f0(2) by (auto intro!: table_cong)
  have inj: "f (Suc k) \<noteq> f 0" if "k < length bs" for k
    using inj_onD [OF Cons.prems(3), of "Suc k" 0] that by auto
  have "\<exists>m. write_user (va + 1) bs ?s = Some (?s\<lparr>phys := m\<rparr>) \<and> (\<forall>k < length bs. m (f (Suc k)) = bs ! k)
     \<and> (\<forall>x. x \<notin> (\<lambda>k. f (Suc k)) ` {..<length bs} \<longrightarrow> m x = phys ?s x)"
  proof (rule Cons.IH)
    show "mmu ?s (va + 1 + of_nat k) = Some (f (Suc k))" "\<not> table_byte ?s (f (Suc k))" if "k < length bs" for k
      using Cons.prems(1,2) [of "Suc k"] that unfolding eq by (simp_all add: add.assoc)
    show "inj_on (\<lambda>k. f (Suc k)) {..<length bs}"
      using Cons.prems(3) by (auto simp: inj_on_def)
  qed
  then obtain m where m: "write_user (va + 1) bs ?s = Some (?s\<lparr>phys := m\<rparr>)" "\<forall>k < length bs. m (f (Suc k)) = bs ! k"
    "\<forall>x. x \<notin> (\<lambda>k. f (Suc k)) ` {..<length bs} \<longrightarrow> m x = phys ?s x" by blast
  have "f 0 \<notin> (\<lambda>k. f (Suc k)) ` {..<length bs}" using inj by (metis imageE lessThan_iff)
  then have "m (f 0) = b" using m(3) by simp
  then have "\<forall>k < length (b # bs). m (f k) = (b # bs) ! k" using m(2) by (auto simp: less_Suc_eq_0_disj)
  moreover have "\<forall>x. x \<notin> f ` {..<length (b # bs)} \<longrightarrow> m x = phys s x"
    using m(3) by (auto simp: image_iff lessThan_Suc_eq_insert_0)
  ultimately show ?case using m(1) f0 by (intro exI [of _ m]) simp
qed


lemma fault_in_loop_same: "(\<And>va. va \<in> set pages \<Longrightarrow> fault_in_page sp va s = (True, s)) \<Longrightarrow> fault_in_loop sp pages s = (True, s)"
  by (induction pages) simp_all

lemma fault_in_present:
  assumes "user_access_ok p len True s" "len \<noteq> 0"
  shows "vmm_fault_in_user_write p len s = (True, s)"
proof -
  have r: "user_range p len" "0 < unat len" and ok: "\<And>k. k < unat len \<Longrightarrow> user_mapped True (p + of_nat k) s"
    using assms by (auto simp: user_access_ok_iff unat_gt_0)
  then have n: "0x400000 \<le> unat p" "unat p + unat len \<le> 0xC0000000" by (simp_all add: user_range_def)
  have e: "unat (p + len) = unat p + unat len" using n by (intro unat_add32) simp
  have page: "fault_in_page (current_space s) va s = (True, s)" if "user_mapped True va s" for va
    using that unfolding user_mapped_def fault_in_page_def
    by (cases "fst (vmm_walk_page_tables (current_space s) va False s)") (simp_all add: pte_bits Let_def split del: if_split)
  have "fault_in_page (current_space s) va s = (True, s)" if va: "va \<in> set (pages_up_to (p AND 0xFFFFF000) (p + len))" for va
  proof -
    obtain k where k0: "k \<in> {0..<(unat p + unat len - unat p div 4096 * 4096 + 4095) div 4096}" "va = (p AND 0xFFFFF000) + of_nat k * 4096"
      using va unfolding pages_up_to_def e unat_page_floor set_map set_upt by blast
    note k = k0(1) [unfolded atLeastLessThan_iff, THEN conjunct2] k0(2)
    have "k + 1 \<le> (unat p + unat len - unat p div 4096 * 4096 + 4095) div 4096" using k(1) by linarith
    then have "(k + 1) * 4096 \<le> unat p + unat len - unat p div 4096 * 4096 + 4095"
      by (simp only: less_eq_div_iff_mult_less_eq zero_less_numeral)
    then have "(unat p div 4096 + k) * 4096 < unat p + unat len"
      using div_times_less_eq_dividend [of "unat p" 4096] r(2) unfolding add_mult_distrib by linarith
    from range_page(2) [OF n(2) this r(2)] ok show ?thesis unfolding k(2) using user_mapped_same_page page by blast
  qed
  then have "fault_in_loop (current_space s) (pages_up_to (p AND 0xFFFFF000) (p + len)) s = (True, s)"
    by (rule fault_in_loop_same)
  moreover have "\<not> p < 0x400000" "\<not> 0xC0000000 \<le> p" "\<not> p + len < p" "\<not> 0xC0000000 < p + len"
    using n e r(2) by (auto simp: word_less_nat_alt word_le_nat_alt)
  ultimately show ?thesis using assms(2) by (simp add: vmm_fault_in_user_write_def Let_def)
qed

text \<open>No byte that user mode can write belongs to a page table.\<close>

definition tables_apart :: "'a vm_scheme \<Rightarrow> bool" where
  "tables_apart s \<longleftrightarrow> (\<forall>va a. user_mapped True va s \<longrightarrow> mmu s va = Some a \<longrightarrow> \<not> table_byte s a)"

text \<open>The example: one page, at the start of the heap.\<close>

lemma demo_pde_at: "get_pte (pde_addr 0xC0203000 (pde_index va) demo_vm) demo_vm = (if pde_index va = 256 then 0x201007 else 0)"
  by (simp only: demo_pde_addr demo_pde index_less)

lemma demo_index: "page_no va = 262144 \<longleftrightarrow> pde_index va = 256 \<and> pte_index va = 0"
  using same_page_indices [of va "0x40000000"] by (simp add: page_no_def pde_index_def pte_index_def)

lemma demo_mmu: "mmu demo_vm va = (if page_no va = 262144 then Some (0x300000 + (va AND 0xFFF)) else None)"
  using demo_pde_at [of va] demo_table [OF index_less(2), of va] by (auto simp: mmu_def demo_index)

lemma demo_user_mapped: "user_mapped w va demo_vm \<longleftrightarrow> page_no va = 262144"
  using demo_pde_at [of va] demo_table [OF index_less(2), of va] walk_current [of demo_vm va]
  by (auto simp: user_mapped_def demo_index Let_def)

lemma demo_tables_apart: "tables_apart demo_vm"
proof -
  have "page_no x = 512 \<or> page_no x = 513" if tb: "table_byte demo_vm x" for x
  proof -
    have pa: "page_aligned 0x200000" "page_aligned 0x201000" by (simp_all add: page_aligned_def)
    obtain va where "x - (0x200000 + 4 * pde_index va) < 4 \<or> pde_index va = 256 \<and> x - (0x201000 + 4 * pte_index va) < 4"
    proof -
      obtain va where "x - pde_addr 0xC0203000 (pde_index va) demo_vm < 4 \<or> bit (get_pte (pde_addr 0xC0203000 (pde_index va) demo_vm) demo_vm) 0
         \<and> x - ((get_pte (pde_addr 0xC0203000 (pde_index va) demo_vm) demo_vm AND 0xFFFFF000) + 4 * pte_index va) < 4"
        using tb unfolding table_byte_def Let_def by auto
      then show ?thesis using that [of va] unfolding demo_pde_at by (simp add: demo_pde_addr split: if_splits)
    qed
    then have "page_no x = page_no 0x200000 \<or> page_no x = page_no 0x201000"
      using near_page entry_aligned [OF pa(1) index_less(1)] entry_aligned [OF pa(2) index_less(2)]
        entry_page [OF pa(1) index_less(1)] entry_page [OF pa(2) index_less(2)] by metis
    then show ?thesis by (simp add: page_no_def)
  qed
  moreover have "page_no (0x300000 + (va AND 0xFFF)) = 768" for va
  proof -
    have "va AND 0xFFF < (4096 :: u32)" by (simp add: word_less_nat_alt unat_page_offset)
    then have "0x300000 + (va AND 0xFFF) - 0x300000 < (4096 :: u32)" by simp
    then show ?thesis using in_page [of "0x300000" "0x300000 + (va AND 0xFFF)"] by (simp add: page_aligned_def page_no_def)
  qed
  ultimately have "\<not> table_byte demo_vm (0x300000 + (va AND 0xFFF))" for va by force
  then show ?thesis unfolding tables_apart_def demo_mmu demo_user_mapped by (auto split: if_splits)
qed

text \<open>C13. The check of a user buffer is exact: it accepts precisely the ranges that lie between the code
  base and the top of the stack, without wrapping, and of which every single byte is on a present page
  that ring 3 may access, and write when a write is asked for. The code looks at one address per page.\<close>

theorem user_access_exact:
  "user_access_ok p len write s = (len = 0 \<or> user_range p len \<and> list_all (\<lambda>k. user_mapped write (p + of_nat k) s) [0..<unat len])"
  by (auto simp: user_access_ok_iff list_all_iff)

text \<open>C40. \<open>copyin\<close> never faults in the kernel: it gives exactly the bytes of the user's buffer, through the
  processor's translation, when the check accepts the buffer, and an error otherwise.\<close>

theorem copyin_exact:
  assumes "vmm_current_as s \<noteq> 0"
  shows "copyin p len s = Some (if user_access_ok p len False s
     then Some (map (\<lambda>k. phys s (the (mmu s (p + of_nat k)))) [0..<unat len]) else None)"
  by (rule copyin_eq [OF assms])

theorem copyin_exact_witness:
  "copyin 0x40000FFE 2 demo_vm = Some (Some [0, 0]) \<and> copyin 0x40000FFF 2 demo_vm = Some None"
  using copyin_exact [of demo_vm "0x40000FFE" 2] copyin_exact [of demo_vm "0x40000FFF" 2]
  by (simp add: user_access_ok_iff user_range_def demo_user_mapped demo_mmu page_no_def less_2_cases_iff store32_def upt_rec)

text \<open>C6. What the kernel copies out to a mapped, writable buffer is what it then copies in from there, and
  no other byte of physical memory changes. The page tables must not be writable by the program, and
  the pages of the buffer must have frames of their own.\<close>

theorem copyout_copyin:
  assumes cur: "vmm_current_as s \<noteq> 0" and len: "length bs < 2 ^ 32" "user_access_ok p (of_nat (length bs)) True s"
    and apart: "tables_apart s" "inj_on (\<lambda>k. mmu s (p + of_nat k)) {..<length bs}"
  shows "\<exists>s'. copyout p bs s = Some (True, s') \<and> copyin p (of_nat (length bs)) s' = Some (Some bs)
     \<and> (\<forall>x. x \<notin> {a. \<exists>k < length bs. mmu s (p + of_nat k) = Some a} \<longrightarrow> phys s' x = phys s x)"
proof (cases "bs = []")
  case True
  then show ?thesis by (simp add: copyout_def copyin_def)
next
  case False
  have l: "unat (of_nat (length bs) :: u32) = length bs" using len(1) by (simp add: unat_of_nat32)
  then have nz: "of_nat (length bs) \<noteq> (0 :: u32)" using False by (metis length_0_conv unat_0)
  define f where "f = (\<lambda>k. the (mmu s (p + of_nat k)))"
  have um: "user_mapped True (p + of_nat k) s" if "k < length bs" for k using len(2) that l nz by (simp add: user_access_ok_iff)
  then have f: "mmu s (p + of_nat k) = Some (f k)" if "k < length bs" for k using that mmu_user_mapped [OF cur um] by (simp add: f_def)
  have t: "\<not> table_byte s (f k)" if "k < length bs" for k using apart(1) um [OF that] f [OF that] by (auto simp: tables_apart_def)
  have inj: "inj_on f {..<length bs}" using apart(2) f by (auto simp: inj_on_def)
  obtain m where m: "write_user p bs s = Some (s\<lparr>phys := m\<rparr>)" "\<And>k. k < length bs \<Longrightarrow> m (f k) = bs ! k"
    "\<And>x. x \<notin> f ` {..<length bs} \<Longrightarrow> m x = phys s x"
    using write_user_spec [OF f t inj] by blast
  let ?s = "s\<lparr>phys := m\<rparr>"
  have tc: "mmu ?s = mmu s" "user_mapped w va ?s = user_mapped w va s" for w va
    using t cur by (intro table_cong; force intro: m(3))+
  have "user_access_ok p (of_nat (length bs)) False ?s"
    using len(2) unfolding user_access_ok_iff tc by (auto simp: user_mapped_def split: option.splits)
  then have "copyin p (of_nat (length bs)) ?s = Some (Some (map (\<lambda>k. m (f k)) [0..<length bs]))"
    using copyin_eq [of ?s p "of_nat (length bs)"] cur unfolding tc by (simp add: l f_def)
  also have "map (\<lambda>k. m (f k)) [0..<length bs] = bs" using m(2) by (auto intro: nth_equalityI)
  finally have "copyin p (of_nat (length bs)) ?s = Some (Some bs)" .
  moreover have "copyout p bs s = Some (True, ?s)"
    using fault_in_present [OF len(2) nz] len(2) nz m(1) by (simp add: copyout_def Let_def)
  moreover have "phys ?s x = phys s x" if "x \<notin> {a. \<exists>k < length bs. mmu s (p + of_nat k) = Some a}" for x
    using that f m(3) [of x] by auto
  ultimately show ?thesis by blast
qed

theorem copyout_copyin_witness:
  "\<exists>s'. copyout 0x40000010 [1, 2] demo_vm = Some (True, s') \<and> copyin 0x40000010 2 s' = Some (Some [1, 2])"
  using copyout_copyin [of demo_vm "[1, 2]" "0x40000010", OF _ _ _ demo_tables_apart]
  by (auto simp: user_access_ok_iff user_range_def demo_user_mapped demo_mmu page_no_def less_2_cases_iff lessThan_Suc)

end
