(* ===== verification/Spec2Isabelle.thy ===== *)
theory Spec2Isabelle
  imports UserWork Caps HeapClient EynfsTable EynfsFd VmFault VmSwap UserAccessSpec
begin

text \<open>
  EYN-OS: a verification development of the kernel's core.

  \<^bold>\<open>The program.\<close> EYN-OS is a monolithic i386 kernel with its own filesystem (EYNFS), a
  cooperative scheduler and 32-bit ELF user programs. Modelled is what the rest of the kernel stands
  on: memory (frames, slabs, heap), the storage path (sectors, block cache, EYNFS, partitions), the
  capability registry, the work scheduler, and the tasks and programs of user mode. The parts meet in
  three ways. Every driver and allocator asks the command context for a right and accounts its cost
  (\<open>..._ctx_allow\<close>); its state is \<open>kctx\<close>, which the state of each component holds or extends. Every
  storage operation goes through \<open>ata_read_sector\<close> and \<open>ata_write_sector\<close>, directly or behind the block
  cache. User tasks use the tick counter and the quanta of the work scheduler, the loader reads files
  and takes frames and heap memory.

  \<^bold>\<open>Theories and the code they model\<close> (paths under src/).

  \<^item> \<open>Prelude\<close>: words for the machine integers, little-endian access to byte buffers, bit lemmas,
    searches (\<open>first_idx\<close>), and the collections of simplification rules.
  \<^item> \<open>Ctx\<close>: src/misc/context.c and the accounting of src/cpu/sched.c. A \<open>sched_work_t*\<close> and the
    current context are indices into their tables.
  \<^item> \<open>Caps\<close>: src/misc/capabilities.c, 64 entries with epochs, tokens and their tag.
  \<^item> \<open>Frames\<close>: the bitmap frame allocator of src/mm/vmm.c. \<open>KMem\<close>: kernel memory as bytes.
    \<open>Slab\<close>: src/mm/slab.c, headers and free lists in memory. \<open>Heap\<close>: the heap and malloc, free,
    realloc, calloc of src/utilities/util.c. \<open>HeapSpec\<close>: the chain of blocks represents a list of
    sizes and flags, and each operation acts on that list. \<open>Regions\<close>: the locale \<open>region_source\<close>, what a
    client of an allocator may rely on. \<open>HeapClient\<close>: the heap is an instance, and its properties.
  \<^item> \<open>Disk\<close>: the guards of ata_read_sector and ata_write_sector (src/drivers/ata.c) and the RAM
    disk of src/fs/vfs.c. \<open>FsTxn\<close>: src/fs/fs_txn.c.
  \<^item> \<open>BlockCache\<close>, \<open>EynfsDisk\<close>, \<open>EynfsPath\<close>, \<open>EynfsFile\<close>, \<open>EynfsFd\<close>: src/drivers/eynfs.c, that is the
    block cache, superblock, bitmap and directory tables, names and paths, the readers and the
    writer, descriptors and streams. \<open>BlockCacheSpec\<close> and \<open>BlockStore\<close>: the cache is invisible, as an
    instance of the locale \<open>block_store\<close>; the sectors of a healthy drive are another one. \<open>EynfsRead\<close>: files
    as chains of blocks. \<open>EynfsDir\<close>, \<open>EynfsTable\<close>: lookup, paths, and what is written reads back.
  \<^item> \<open>CStr\<close>: src/utilities/shell/string.c.
  \<^item> \<open>Partition\<close>, \<open>PartitionSpec\<close>: src/drivers/partition.c, the partition table, virtual drives and
    the swap partition.
  \<^item> \<open>RunQueue\<close>: FIFO queues threaded through a table, with the locale \<open>ready_queues\<close>. \<open>Sched\<close>: the work
    items, feedback levels, ticks and deterministic mode of src/cpu/sched.c. \<open>SchedSpec\<close>, \<open>SchedWork\<close>:
    the tables represent lists, and what follows.
  \<^item> \<open>UserTask\<close>: the slots of src/cpu/user_elf.c, their run queues, blocking, waking, signals and
    exit. \<open>UserElf\<close>: its loader, and user_task_cleanup_mappings of src/utilities/util.c. \<open>UserRun\<close>: launching,
    spawning, scheduling, switching and waiting. \<open>UserTaskSpec\<close>: the second instance of \<open>ready_queues\<close>.
    \<open>UserTaskInv\<close>, \<open>UserRunInv\<close>, \<open>UserRunSpec\<close>: the invariants of the table and of the saved frames, kept by
    every operation. \<open>UserWork\<close>: sequences of operations from boot, and the properties.

  \<^bold>\<open>Conventions.\<close> Machine integers are words of their width; an \<open>int\<close> that only counts or carries an
  index or -1 is an integer, with the wrap-around written out where the code can reach it. A state
  variable of the C file is a field of the component's record under its own name; an operation takes
  the record and returns it updated. Failures are \<open>None\<close> or a result type; where a loop need not
  end, the operation is a \<open>partial_function\<close>, and a panic or an endless loop is \<open>None\<close>. Printed
  messages and watchdog heartbeats are left out. The configuration is the default one of the build:
  the C branches (\<open>CONFIG_RUST_ALLOCATOR\<close>, \<open>CONFIG_RUST_EYNFS\<close> off), i386, multilevel queues on, preemption
  from interrupts off, freed slab memory poisoned.

  \<^bold>\<open>What is shown.\<close> Invariants kept by every sequence of operations (tokens, heap, frames, run
  queues, task table); refinement (the block cache is a map from blocks to bytes, the heap is a list of
  blocks, run queues are lists, the path walk is a fold over components); round trips (directory
  tables, superblock, partition table, swap pages, numbers); functional specifications with every
  error branch; termination of the timeslice loop; and theorems that state defects of the code: tags
  that do not bind the object, a loop of the scheduler that does not end, the switch between tasks
  that never happens, an exec that loses the process, a wait that strands its caller.

  \<^bold>\<open>Bounds and fuel.\<close> \<open>find_free_block\<close> has the code's own limit of 100 blocks. The scan of a task
  queue has 16 steps, the number of slots, and the queues hold each slot at most once
  (\<open>queues_ok\<close>). The theorems over sequences of task operations hold for fewer than \<open>2 ^ 32 - 2\<close> operations,
  because the generation counter of programs wraps there. Loops over pages are maps over the list
  of their addresses, which is finite by construction. No other fuel is used: endless loops are
  values of the \<open>option\<close> type.

  \<^bold>\<open>Parameters.\<close> The device behind a sector access (\<open>media\<close>, \<open>rd_bad\<close>, \<open>wr_bad\<close>); page
  replacement in \<open>frame_alloc\<close>; the outcomes of malloc in the block cache; callbacks of work items and
  other interrupt handlers; for the loader the calls into page tables, allocators, terminals and the
  system call layer (\<open>kcall\<close>) and the file system (\<open>elf_env\<close>); what interrupts do while a
  wait halts the processor (any number of ticks, GUI events and aborts).

  \<^bold>\<open>Not modelled.\<close> The dispatch of system calls and exceptions (src/cpu/isr.c) and the Linux and
  native layers on top of it: their bodies copy between user memory and the operations modelled here.
  Page tables, page faults and swapping (the rest of src/mm/vmm.c): hardware tables changed behind
  the program by the processor. The programmed I/O of src/drivers/ata.c and all other device drivers:
  port traffic with hardware. The network stack, FAT32, the VFS switch, terminals, the shell and its
  commands, the GUI, zero-copy files and predictive memory, the Rust branches, and userland (src/userland): they are
  clients of the modelled core, and are left for separate developments.
\<close>

end
